(* ===== verification/Prelude.thy ===== *)
theory Prelude
  imports Complex_Main "HOL-Library.AList" "HOL-Library.Sublist" "HOL-Library.Word"
begin

text \<open>
  Shared vocabulary of the development: the Python values the components exchange (identifiers,
  instants, dictionaries, byte strings), the result type of fallible operations, and the generic
  facts about lists, dictionaries and finite runs of operations that the component theories use.

  A Python dictionary is an association list in insertion order, with \<^const>\<open>map_of\<close> for a
  lookup, \<^const>\<open>AList.update\<close> for an assignment and \<^const>\<open>AList.delete\<close> for \<open>pop\<close>: the
  iteration order of \<open>dict.items()\<close> is then the order of the list.
\<close>

section \<open>Collections of rewrite rules\<close>

named_theorems offset_simps \<open>equations of the offset tracker and of the consumer\<close>
named_theorems lease_simps \<open>equations of the Redis lease scripts\<close>
named_theorems table_simps \<open>equations of table reads and writes\<close>
named_theorems fraud_simps \<open>equations of the fraud rules and of their scoring\<close>
named_theorems proc_simps \<open>equations of the record processor\<close>

section \<open>Values\<close>

text \<open>
  An instant is a number of microseconds since the epoch, the resolution of a Python
  \<open>datetime\<close> and of a PostgreSQL \<open>timestamptz\<close>; a reading of the monotonic clock is a rational
  number of seconds. A Python \<open>bytes\<close> object is a list of characters (bytes), and a Python
  \<open>str\<close> is represented by its UTF-8 encoding, so that \<open>str.encode()\<close> is the identity.
\<close>

type_synonym instant = int
type_synonym uuid = "128 word"
type_synonym pkey = "string \<times> int"
type_synonym 'v dict = "(string \<times> 'v) list"

text \<open>A partition key is a pair; quantifiers over keys are kept whole.\<close>

declare split_paired_All [simp del] split_paired_Ex [simp del]

section \<open>Dictionaries\<close>

lemma map_of_update [simp]: "map_of (AList.update k v d) = (map_of d)(k \<mapsto> v)"
  by (rule update_conv')

lemma map_of_delete [simp]: "map_of (AList.delete k d) = (map_of d)(k := None)"
  by (rule delete_conv')

lemma map_of_map_values:
  "map_of (map (\<lambda>(k, v). (k, f k v)) d) k = map_option (f k) (map_of d k)"
  by (induction d) auto

lemma map_of_in_keys: "map_of d k = Some v \<Longrightarrow> k \<in> fst ` set d"
  by (force dest: map_of_SomeD)

lemma distinct_fst_map_values:
  "distinct (map fst (map (\<lambda>(k, v). (k, f k v)) d)) \<longleftrightarrow> distinct (map fst d)"
  by (simp add: comp_def case_prod_beta')

lemma distinct_fst_update:
  "distinct (map fst d) \<Longrightarrow> distinct (map fst (AList.update k v d))"
  by (rule distinct_update)

lemma distinct_fst_delete:
  "distinct (map fst d) \<Longrightarrow> distinct (map fst (AList.delete k d))"
  by (rule distinct_delete)

section \<open>Sorted lists of integers as priority queues\<close>

lemma sorted_hd_le: "sorted (x # xs) \<Longrightarrow> y \<in> set xs \<Longrightarrow> x \<le> y"
  by simp

section \<open>Runs\<close>

text \<open>
  A run folds a step function over a list of operations; an invariant of every step is an
  invariant of the run.
\<close>

lemma fold_invariant_set:
  assumes "P s" and "\<And>x s. x \<in> set xs \<Longrightarrow> P s \<Longrightarrow> P (f x s)"
  shows "P (fold f xs s)"
  using assms by (induction xs arbitrary: s) auto

section \<open>Identifiers\<close>

text \<open>A UUID is a 128-bit value; \<open>str(uuid)\<close> is its lower-case hexadecimal form in groups of
  8, 4, 4, 4 and 12 digits.\<close>

definition hex_digit :: "nat \<Rightarrow> char" where
  "hex_digit d = ''0123456789abcdef'' ! d"

primrec hex_digits :: "nat \<Rightarrow> nat \<Rightarrow> string" where
  "hex_digits 0 n = []"
| "hex_digits (Suc k) n = hex_digits k (n div 16) @ [hex_digit (n mod 16)]"

definition uuid_str :: "uuid \<Rightarrow> string" where
  "uuid_str u =
     (let h = hex_digits 32 (unat u)
      in take 8 h @ ''-'' @ take 4 (drop 8 h) @ ''-'' @ take 4 (drop 12 h) @ ''-'' @
         take 4 (drop 16 h) @ ''-'' @ drop 20 h)"

lemma length_hex_digits [simp]: "length (hex_digits k n) = k"
  by (induction k arbitrary: n) simp_all

lemma hex_digit_inj: "a < 16 \<Longrightarrow> b < 16 \<Longrightarrow> hex_digit a = hex_digit b \<Longrightarrow> a = b"
proof -
  have "distinct ''0123456789abcdef''" by simp
  then show "a < 16 \<Longrightarrow> b < 16 \<Longrightarrow> hex_digit a = hex_digit b \<Longrightarrow> a = b"
    by (simp add: hex_digit_def nth_eq_iff_index_eq del: distinct.simps)
qed

lemma hex_digits_inj:
  "hex_digits k m = hex_digits k n \<Longrightarrow> m < 16 ^ k \<Longrightarrow> n < 16 ^ k \<Longrightarrow> m = n"
proof (induction k arbitrary: m n)
  case 0
  then show ?case by simp
next
  case (Suc k)
  from Suc.prems(1) have "hex_digits k (m div 16) = hex_digits k (n div 16)"
    and "hex_digit (m mod 16) = hex_digit (n mod 16)" by simp_all
  moreover have "m div 16 < 16 ^ k" "n div 16 < 16 ^ k"
    using Suc.prems(2,3) by (simp_all add: less_mult_imp_div_less)
  ultimately have "m div 16 = n div 16" "m mod 16 = n mod 16"
    using Suc.IH hex_digit_inj [of "m mod 16" "n mod 16"] by auto
  then show ?case by (metis div_mult_mod_eq)
qed

lemma uuid_str_inj: "uuid_str u = uuid_str v \<longleftrightarrow> u = v"
proof
  assume eq: "uuid_str u = uuid_str v"
  let ?h = "hex_digits 32 (unat u)" and ?g = "hex_digits 32 (unat v)"
  have split: "x = take 8 x @ take 4 (drop 8 x) @ take 4 (drop 12 x) @ take 4 (drop 16 x) @ drop 20 x"
    for x :: string
  proof -
    have step: "drop i x = take 4 (drop i x) @ drop (i + 4) x" for i
      using append_take_drop_id [of 4 "drop i x"] by (simp add: add.commute)
    have "x = take 8 x @ drop 8 x" by simp
    with step [of 8] step [of 12] step [of 16] show ?thesis by simp
  qed
  from eq have "take 8 ?h = take 8 ?g" "take 4 (drop 8 ?h) = take 4 (drop 8 ?g)"
    "take 4 (drop 12 ?h) = take 4 (drop 12 ?g)" "take 4 (drop 16 ?h) = take 4 (drop 16 ?g)"
    "drop 20 ?h = drop 20 ?g"
    by (simp_all add: uuid_str_def Let_def)
  with split [of ?h] split [of ?g] have "?h = ?g" by metis
  moreover have "unat u < 16 ^ 32" "unat v < 16 ^ 32"
    using unsigned_less [of u] unsigned_less [of v] by simp_all
  ultimately have "unat u = unat v" by (rule hex_digits_inj)
  then show "u = v" by (simp add: unsigned_word_eqI)
qed simp

section \<open>Text\<close>

text \<open>\<open>str.split(",")\<close> and \<open>str.strip()\<close> (of ASCII white space).\<close>

fun split_on :: "char \<Rightarrow> string \<Rightarrow> string list" where
  "split_on sep [] = [[]]"
| "split_on sep (ch # s) =
     (if ch = sep then [] # split_on sep s
      else case split_on sep s of [] \<Rightarrow> [[ch]] | w # ws \<Rightarrow> (ch # w) # ws)"

definition is_space :: "char \<Rightarrow> bool" where
  "is_space ch \<longleftrightarrow> ch \<in> {CHR '' '', CHR 0x09, CHR 0x0A, CHR 0x0B, CHR 0x0C, CHR 0x0D}"

definition strip :: "string \<Rightarrow> string" where
  "strip s = rev (dropWhile is_space (rev (dropWhile is_space s)))"

lemma split_on_nonempty [simp]: "split_on sep s \<noteq> []"
  by (induction s) (auto split: list.split)

lemma split_on_single: "sep \<notin> set s \<Longrightarrow> split_on sep s = [s]"
  by (induction s) auto

lemma split_on_append: "sep \<notin> set s \<Longrightarrow> split_on sep (s @ sep # r) = s # split_on sep r"
  by (induction s) auto

text \<open>\<open>sep.join(words)\<close>.\<close>

fun join_on :: "char \<Rightarrow> string list \<Rightarrow> string" where
  "join_on sep [] = []"
| "join_on sep [w] = w"
| "join_on sep (w # ws) = w @ sep # join_on sep ws"

lemma split_join:
  "ws \<noteq> [] \<Longrightarrow> \<forall>w \<in> set ws. sep \<notin> set w \<Longrightarrow> split_on sep (join_on sep ws) = ws"
  by (induction ws rule: join_on.induct) (simp_all add: split_on_single split_on_append)

lemma strip_id: "\<forall>ch \<in> set s. \<not> is_space ch \<Longrightarrow> strip s = s"
proof -
  assume none: "\<forall>ch \<in> set s. \<not> is_space ch"
  have "dropWhile is_space s = s" using none by (cases s) auto
  moreover have "dropWhile is_space (rev s) = rev s"
    using none by (cases "rev s") (auto simp: rev_swap dest: arg_cong [of _ _ set])
  ultimately show ?thesis by (simp add: strip_def)
qed

end
