(* ===== verification/Offset_Tracker.thy ===== *)
theory Offset_Tracker
  imports Prelude
begin

text \<open>
  The bounded batched offset-commit accumulator of
  \<^verbatim>\<open>services/event_processor/offset_tracker.py\<close>: one \<open>_PartitionState\<close> per
  partition, and the \<open>OffsetCommitTracker\<close> over them.

  The heap of pending offsets is a sorted list: a sorted list is a valid \<open>heapq\<close> heap, with
  \<open>heappush\<close> as sorted insertion, \<open>heap[0]\<close> as the head and \<open>heappop\<close> as removing
  the head. Metrics and log calls are left out. The commit callback is a parameter
  \<open>commits \<Rightarrow> broker \<Rightarrow> bool \<times> broker\<close> whose boolean says whether the call returned or raised;
  it may change the broker in either case.
\<close>

section \<open>State of one partition\<close>

record partition_state =
  safe_offset :: "int option"
  committed_offset :: "int option"
  records_since_commit :: int
  pending_heap :: "int list"
  pending_seen :: "int set"
  dispatch_floor :: "int option"

definition new_partition_state :: partition_state where
  "new_partition_state =
     \<lparr>safe_offset = None, committed_offset = None, records_since_commit = 0,
      pending_heap = [], pending_seen = {}, dispatch_floor = None\<rparr>"

definition ps_observe :: "int \<Rightarrow> partition_state \<Rightarrow> partition_state" where
  "ps_observe off st =
     (if dispatch_floor st = None then st\<lparr>dispatch_floor := Some (off - 1)\<rparr> else st)"

text \<open>The loop of \<open>mark_terminal\<close>: pop while the least pending offset continues the prefix.\<close>

fun drain_pending :: "int \<Rightarrow> int \<Rightarrow> int list \<Rightarrow> int set \<Rightarrow> int \<times> int \<times> int list \<times> int set" where
  "drain_pending safe recs [] seen = (safe, recs, [], seen)"
| "drain_pending safe recs (low # heap) seen =
     (if low = safe + 1 then drain_pending low (recs + 1) heap (seen - {low})
      else (safe, recs, low # heap, seen))"

definition ps_mark_terminal :: "int \<Rightarrow> partition_state \<Rightarrow> partition_state" where
  "ps_mark_terminal off st =
     (let safe = (case safe_offset st of
                    Some s \<Rightarrow> s
                  | None \<Rightarrow> (case dispatch_floor st of Some d \<Rightarrow> d | None \<Rightarrow> off - 1));
          st = st\<lparr>safe_offset := Some safe\<rparr>
      in if off \<le> safe \<or> off \<in> pending_seen st then st
         else case drain_pending safe (records_since_commit st)
                     (insort off (pending_heap st)) (insert off (pending_seen st)) of
                (safe', recs, heap, seen) \<Rightarrow>
                  st\<lparr>safe_offset := Some safe', records_since_commit := recs,
                     pending_heap := heap, pending_seen := seen\<rparr>)"

definition has_uncommitted_safe_offset :: "partition_state \<Rightarrow> bool" where
  "has_uncommitted_safe_offset st \<longleftrightarrow>
     safe_offset st \<noteq> None \<and> safe_offset st \<noteq> committed_offset st"

section \<open>The tracker\<close>

record tracker =
  tr_batch_size :: int
  tr_interval_seconds :: rat
  tr_partitions :: "(pkey \<times> partition_state) list"
  tr_records_since_flush :: int
  tr_last_flush_at :: rat

definition new_tracker :: "int \<Rightarrow> rat \<Rightarrow> rat \<Rightarrow> tracker" where
  "new_tracker batch interval now =
     \<lparr>tr_batch_size = batch, tr_interval_seconds = interval, tr_partitions = [],
      tr_records_since_flush = 0, tr_last_flush_at = now\<rparr>"

type_synonym 'k commit_fn = "(pkey \<times> int) list \<Rightarrow> 'k \<Rightarrow> bool \<times> 'k"

definition partition_of :: "pkey \<Rightarrow> tracker \<Rightarrow> partition_state" where
  "partition_of key tr =
     (case map_of (tr_partitions tr) key of None \<Rightarrow> new_partition_state | Some st \<Rightarrow> st)"

definition mark_terminal :: "pkey \<Rightarrow> int \<Rightarrow> tracker \<Rightarrow> tracker" where
  "mark_terminal key off tr =
     tr\<lparr>tr_partitions :=
          AList.update key (ps_mark_terminal off (partition_of key tr)) (tr_partitions tr),
        tr_records_since_flush := tr_records_since_flush tr + 1\<rparr>"

definition observe :: "pkey \<Rightarrow> int \<Rightarrow> tracker \<Rightarrow> tracker" where
  "observe key off tr =
     tr\<lparr>tr_partitions :=
          AList.update key (ps_observe off (partition_of key tr)) (tr_partitions tr)\<rparr>"

definition reset_counters :: "rat \<Rightarrow> tracker \<Rightarrow> tracker" where
  "reset_counters now tr = tr\<lparr>tr_records_since_flush := 0, tr_last_flush_at := now\<rparr>"

text \<open>The offsets a flush would commit: the successor of the safe offset of each partition in
  scope whose safe offset is not yet committed.\<close>

definition flush_commits :: "pkey set option \<Rightarrow> tracker \<Rightarrow> (pkey \<times> int) list" where
  "flush_commits scope tr =
     map (\<lambda>(key, st). (key, the (safe_offset st) + 1))
       (filter (\<lambda>(key, st). (case scope of None \<Rightarrow> True | Some keys \<Rightarrow> key \<in> keys) \<and>
                             has_uncommitted_safe_offset st)
          (tr_partitions tr))"

definition confirm_commit :: "int \<Rightarrow> partition_state \<Rightarrow> partition_state" where
  "confirm_commit next_offset st =
     st\<lparr>committed_offset := Some (next_offset - 1), records_since_commit := 0\<rparr>"

definition confirm_commits :: "(pkey \<times> int) list \<Rightarrow> tracker \<Rightarrow> tracker" where
  "confirm_commits commits tr =
     tr\<lparr>tr_partitions :=
          map (\<lambda>(key, st). (key, case map_of commits key of
                                    None \<Rightarrow> st | Some n \<Rightarrow> confirm_commit n st))
              (tr_partitions tr)\<rparr>"

text \<open>\<open>_flush\<close>: the boolean of the result is False when the commit call raised, in which case the
  exception propagates and the tracker is as it was.\<close>

definition flush :: "'k commit_fn \<Rightarrow> pkey set option \<Rightarrow> rat \<Rightarrow> tracker \<times> 'k \<Rightarrow> bool \<times> tracker \<times> 'k" where
  "flush commit_fn scope now = (\<lambda>(tr, k).
     let commits = flush_commits scope tr;
         finish = (\<lambda>tr. if scope = None then reset_counters now tr else tr)
     in if commits = [] then (True, finish tr, k)
        else case commit_fn commits k of
               (False, k') \<Rightarrow> (False, tr, k')
             | (True, k') \<Rightarrow> (True, finish (confirm_commits commits tr), k'))"

definition maybe_flush :: "'k commit_fn \<Rightarrow> rat \<Rightarrow> rat \<Rightarrow> tracker \<times> 'k \<Rightarrow> bool \<times> tracker \<times> 'k" where
  "maybe_flush commit_fn now now' = (\<lambda>(tr, k).
     if tr_records_since_flush tr = 0 then (True, tr, k)
     else if tr_records_since_flush tr \<ge> tr_batch_size tr then flush commit_fn None now' (tr, k)
     else if now - tr_last_flush_at tr \<ge> tr_interval_seconds tr
       then flush commit_fn None now' (tr, k)
     else (True, tr, k))"

definition flush_all :: "'k commit_fn \<Rightarrow> rat \<Rightarrow> tracker \<times> 'k \<Rightarrow> bool \<times> tracker \<times> 'k" where
  "flush_all commit_fn now = flush commit_fn None now"

definition flush_partitions ::
  "'k commit_fn \<Rightarrow> pkey list \<Rightarrow> rat \<Rightarrow> tracker \<times> 'k \<Rightarrow> bool \<times> tracker \<times> 'k" where
  "flush_partitions commit_fn keys now = flush commit_fn (Some (set keys)) now"

definition drop_partition :: "pkey \<Rightarrow> tracker \<Rightarrow> tracker" where
  "drop_partition key tr = tr\<lparr>tr_partitions := AList.delete key (tr_partitions tr)\<rparr>"

section \<open>Abstract specification of one partition\<close>

text \<open>
  Abstractly a partition is the floor below which everything counts as done, and the set of
  offsets that reached a terminal state. The offset it is safe to commit past is the end of the
  contiguous run of terminal offsets above the floor.
\<close>

definition contiguous_end :: "int \<Rightarrow> int set \<Rightarrow> int \<Rightarrow> bool" where
  "contiguous_end f T s \<longleftrightarrow> f \<le> s \<and> {f<..s} \<subseteq> T \<and> s + 1 \<notin> T"

lemma contiguous_end_unique:
  assumes "contiguous_end f T s" and "contiguous_end f T s'"
  shows "s = s'"
proof -
  have no_less: "\<not> a < b" if "contiguous_end f T a" "contiguous_end f T b" for a b
  proof
    assume "a < b"
    with that(1) have mem: "a + 1 \<in> {f<..b}" by (simp add: contiguous_end_def)
    from that(2) have "{f<..b} \<subseteq> T" by (simp add: contiguous_end_def)
    with mem have "a + 1 \<in> T" by (rule subsetD [rotated])
    with that(1) show False by (simp add: contiguous_end_def)
  qed
  from no_less [OF assms] no_less [OF assms(2,1)] show ?thesis by linarith
qed

lemma contiguous_end_covers: "contiguous_end f T s \<Longrightarrow> f < k \<Longrightarrow> k \<le> s \<Longrightarrow> k \<in> T"
  by (auto simp: contiguous_end_def)

lemma contiguous_end_stops: "contiguous_end f T s \<Longrightarrow> g \<notin> T \<Longrightarrow> f < g \<Longrightarrow> s < g"
  by (metis contiguous_end_covers linorder_not_le)

datatype ps_op = Observe int | Mark int

fun ps_step :: "ps_op \<Rightarrow> partition_state \<Rightarrow> partition_state" where
  "ps_step (Observe off) st = ps_observe off st"
| "ps_step (Mark off) st = ps_mark_terminal off st"

fun op_offset :: "ps_op \<Rightarrow> int" where
  "op_offset (Observe off) = off"
| "op_offset (Mark off) = off"

definition marks :: "ps_op list \<Rightarrow> int set" where
  "marks ops = {off. Mark off \<in> set ops}"

lemma marks_simps [simp]:
  "marks [] = {}" "marks (Mark off # ops) = insert off (marks ops)"
  "marks (Observe off # ops) = marks ops" "marks (ops @ ops') = marks ops \<union> marks ops'"
  by (auto simp: marks_def)

text \<open>The representation invariant relates a concrete state to its floor and terminal set; it also
  says what \<open>records_since_commit\<close> counts.\<close>

definition ps_inv :: "int \<Rightarrow> int set \<Rightarrow> partition_state \<Rightarrow> bool" where
  "ps_inv f T st \<longleftrightarrow>
     (case safe_offset st of
        None \<Rightarrow> T = {} \<and> dispatch_floor st = Some f \<and> pending_heap st = [] \<and>
          pending_seen st = {} \<and> records_since_commit st = 0 \<and> committed_offset st = None
      | Some s \<Rightarrow> contiguous_end f T s \<and> sorted_wrt (<) (pending_heap st) \<and>
          set (pending_heap st) = {t \<in> T. s < t} \<and> pending_seen st = set (pending_heap st) \<and>
          (case committed_offset st of
             None \<Rightarrow> records_since_commit st = s - f
           | Some c \<Rightarrow> f \<le> c \<and> c \<le> s \<and> records_since_commit st = s - c))"

lemma drain_pending_correct:
  assumes "drain_pending s r h seen = (s', r', h', seen')"
    and "f \<le> s" "{f<..s} \<subseteq> T" "sorted_wrt (<) h" "set h = {t \<in> T. s < t}" "seen = set h"
  shows "contiguous_end f T s' \<and> s \<le> s' \<and> r' = r + (s' - s) \<and> sorted_wrt (<) h' \<and>
    set h' = {t \<in> T. s' < t} \<and> seen' = set h'"
  using assms
proof (induction s r h seen rule: drain_pending.induct)
  case (1 s r seen)
  then show ?case by (auto simp: contiguous_end_def)
next
  case (2 s r x h seen)
  show ?case
  proof (cases "x = s + 1")
    case True
    have x: "x \<in> T" using "2.prems" True by auto
    have "y \<in> set h" if "y \<in> T" "x < y" for y
    proof -
      from that True "2.prems"(5) have "y \<in> set (x # h)" by simp
      with that show ?thesis by simp
    qed
    moreover have "y \<in> T \<and> x < y" if "y \<in> set h" for y
      using that "2.prems"(4,5) by auto
    ultimately have rest: "set h = {t \<in> T. x < t}" by blast
    have "{f<..x} = insert x {f<..s}" using "2.prems"(2) True by auto
    with "2.prems"(3) x have "{f<..x} \<subseteq> T" by simp
    moreover have "drain_pending x (r + 1) h (seen - {x}) = (s', r', h', seen')"
      using "2.prems"(1) True by simp
    moreover have "sorted_wrt (<) h" and "x \<notin> set h" using "2.prems"(4) by auto
    moreover from this have "seen - {x} = set h" using "2.prems"(6) by simp
    moreover have "f \<le> x" using "2.prems"(2) True by simp
    ultimately have "contiguous_end f T s' \<and> x \<le> s' \<and> r' = r + 1 + (s' - x) \<and>
        sorted_wrt (<) h' \<and> set h' = {t \<in> T. s' < t} \<and> seen' = set h'"
      using "2.IH" [OF True] rest by blast
    then show ?thesis using True by simp
  next
    case False
    have "s + 1 \<notin> T"
    proof
      assume "s + 1 \<in> T"
      then have "s + 1 \<in> {t \<in> T. s < t}" by simp
      then have "s + 1 \<in> set (x # h)" by (simp only: "2.prems"(5))
      with False have "s + 1 \<in> set h" by simp
      with "2.prems"(4) have "x < s + 1" by (auto simp only: sorted_wrt.simps)
      moreover have "x \<in> {t \<in> T. s < t}" using "2.prems"(5) by (metis list.set_intros(1))
      ultimately show False by simp
    qed
    moreover have "s' = s" "r' = r" "h' = x # h" "seen' = seen"
      using "2.prems"(1) False by simp_all
    ultimately show ?thesis using "2.prems"(2-6) by (simp add: contiguous_end_def)
  qed
qed

lemma sorted_wrt_insort_fresh:
  "sorted_wrt (<) h \<Longrightarrow> x \<notin> set h \<Longrightarrow> sorted_wrt (<) (insort (x :: int) h)"
  by (induction h) (auto simp: set_insort_key)

lemma ps_inv_observe: "ps_inv f T st \<Longrightarrow> ps_inv f T (ps_observe off st)"
  by (auto simp: ps_inv_def ps_observe_def split: option.splits)

lemma ps_inv_observe_fresh:
  "ps_inv (off - 1) {} (ps_observe off new_partition_state)"
  by (simp add: ps_inv_def ps_observe_def new_partition_state_def)

text \<open>The core of \<open>mark_terminal\<close>, once the safe offset is known.\<close>

lemma ps_mark_known:
  assumes safe: "(case safe_offset st of Some s \<Rightarrow> s
      | None \<Rightarrow> (case dispatch_floor st of Some d \<Rightarrow> d | None \<Rightarrow> off - 1)) = s"
    and inv: "ps_inv f T (st\<lparr>safe_offset := Some s\<rparr>)"
  shows "ps_inv f (insert off T) (ps_mark_terminal off st)"
proof (cases "off \<le> s \<or> off \<in> pending_seen st")
  case True
  with inv have "contiguous_end f (insert off T) s" "{t \<in> insert off T. s < t} = {t \<in> T. s < t}"
    by (auto simp: ps_inv_def contiguous_end_def)
  with True inv safe show ?thesis
    by (simp add: ps_inv_def ps_mark_terminal_def)
next
  case False
  obtain s' r' h' seen' where d: "drain_pending s (records_since_commit st)
      (insort off (pending_heap st)) (insert off (pending_seen st)) = (s', r', h', seen')"
    by (metis prod_cases4)
  have pre: "f \<le> s" "{f<..s} \<subseteq> insert off T" "sorted_wrt (<) (insort off (pending_heap st))"
    "set (insort off (pending_heap st)) = {t \<in> insert off T. s < t}"
    "insert off (pending_seen st) = set (insort off (pending_heap st))"
    using inv False by (auto simp: ps_inv_def contiguous_end_def set_insort_key
        intro!: sorted_wrt_insort_fresh)
  note post = drain_pending_correct [OF d pre]
  show ?thesis
    using False inv safe d post
    by (auto simp: ps_inv_def ps_mark_terminal_def Let_def split: option.splits)
qed

lemma ps_inv_mark:
  assumes "ps_inv f T st"
  shows "ps_inv f (insert off T) (ps_mark_terminal off st)"
proof (cases "safe_offset st")
  case None
  with assms show ?thesis
    by (intro ps_mark_known [where s = f and T = T])
       (auto simp: ps_inv_def contiguous_end_def)
next
  case (Some s)
  have "st\<lparr>safe_offset := Some s\<rparr> = st" using Some by (cases st) simp
  with assms have "ps_inv f T (st\<lparr>safe_offset := Some s\<rparr>)" by (simp only:)
  with Some show ?thesis by (intro ps_mark_known) simp_all
qed

lemma ps_inv_mark_fresh:
  "ps_inv (off - 1) {off} (ps_mark_terminal off new_partition_state)"
  by (rule ps_mark_known [where s = "off - 1" and T = "{}"])
     (auto simp: new_partition_state_def ps_inv_def contiguous_end_def)

lemma ps_inv_first: "ps_inv (op_offset x - 1) (marks [x]) (ps_step x new_partition_state)"
  by (cases x) (simp_all add: ps_inv_observe_fresh ps_inv_mark_fresh)

lemma ps_inv_step: "ps_inv f T st \<Longrightarrow> ps_inv f (T \<union> marks [x]) (ps_step x st)"
  by (cases x) (simp_all add: ps_inv_observe ps_inv_mark)

lemma ps_inv_run: "ps_inv f T st \<Longrightarrow> ps_inv f (T \<union> marks ops) (fold ps_step ops st)"
proof (induction ops arbitrary: T st)
  case Nil
  then show ?case by simp
next
  case (Cons x ops)
  from ps_inv_step [OF Cons.prems, of x] Cons.IH
  have "ps_inv f (T \<union> marks [x] \<union> marks ops) (fold ps_step ops (ps_step x st))" by blast
  then show ?case by (cases x) (simp_all add: Un_assoc)
qed

lemma ps_inv_from_new:
  "ps_inv (op_offset x - 1) (marks (x # ops)) (fold ps_step (x # ops) new_partition_state)"
  using ps_inv_run [OF ps_inv_first, of x ops] by (cases x) simp_all

lemma ps_inv_confirm:
  "ps_inv f T st \<Longrightarrow> safe_offset st = Some s \<Longrightarrow> ps_inv f T (confirm_commit (s + 1) st)"
  by (auto simp: ps_inv_def confirm_commit_def contiguous_end_def split: option.splits)

section \<open>Runs of the whole tracker\<close>

text \<open>
  One step is one call of a public operation; the commit callback of a flush is scripted by the
  operation (whether it returns or raises) and logs the offsets it was asked to commit.
\<close>

datatype tracker_op =
    OpMark pkey int
  | OpObserve pkey int
  | OpMaybeFlush bool rat rat
  | OpFlushAll bool rat
  | OpFlushPartitions bool "pkey list" rat
  | OpDrop pkey

definition scripted_commit :: "bool \<Rightarrow> (pkey \<times> int) list list commit_fn" where
  "scripted_commit ok commits calls = (ok, calls @ [commits])"

fun tracker_step ::
  "tracker_op \<Rightarrow> tracker \<times> (pkey \<times> int) list list \<Rightarrow> tracker \<times> (pkey \<times> int) list list" where
  "tracker_step (OpMark key off) (tr, calls) = (mark_terminal key off tr, calls)"
| "tracker_step (OpObserve key off) (tr, calls) = (observe key off tr, calls)"
| "tracker_step (OpMaybeFlush ok now now') s = snd (maybe_flush (scripted_commit ok) now now' s)"
| "tracker_step (OpFlushAll ok now) s = snd (flush_all (scripted_commit ok) now s)"
| "tracker_step (OpFlushPartitions ok keys now) s =
     snd (flush_partitions (scripted_commit ok) keys now s)"
| "tracker_step (OpDrop key) (tr, calls) = (drop_partition key tr, calls)"

text \<open>What happened to a partition since its state was last dropped.\<close>

fun history_step :: "pkey \<Rightarrow> tracker_op \<Rightarrow> ps_op list \<Rightarrow> ps_op list" where
  "history_step key (OpMark k off) h = (if k = key then h @ [Mark off] else h)"
| "history_step key (OpObserve k off) h = (if k = key then h @ [Observe off] else h)"
| "history_step key (OpDrop k) h = (if k = key then [] else h)"
| "history_step key _ h = h"

definition key_history :: "pkey \<Rightarrow> tracker_op list \<Rightarrow> ps_op list" where
  "key_history key ops = fold (history_step key) ops []"

lemma key_history_simps [simp]:
  "key_history key [] = []"
  "key_history key (ops @ [x]) = history_step key x (key_history key ops)"
  by (simp_all add: key_history_def)

definition tracks :: "ps_op list \<Rightarrow> partition_state option \<Rightarrow> bool" where
  "tracks h p = (case p of
      None \<Rightarrow> h = []
    | Some st \<Rightarrow> h \<noteq> [] \<and> ps_inv (op_offset (hd h) - 1) (marks h) st)"

definition tracker_inv :: "(pkey \<Rightarrow> ps_op list) \<Rightarrow> tracker \<Rightarrow> bool" where
  "tracker_inv H tr \<longleftrightarrow> distinct (map fst (tr_partitions tr)) \<and>
     (\<forall>key. tracks (H key) (map_of (tr_partitions tr) key))"

lemma tracks_step:
  assumes "tracks h p"
  shows "tracks (h @ [x]) (Some (ps_step x (case p of None \<Rightarrow> new_partition_state | Some st \<Rightarrow> st)))"
proof (cases p)
  case None
  with assms show ?thesis using ps_inv_first [of x] by (simp add: tracks_def)
next
  case (Some st)
  with assms show ?thesis using ps_inv_step [of _ _ st x] by (auto simp: tracks_def)
qed

lemma tracker_inv_new: "tracker_inv (\<lambda>_. []) (new_tracker b i t)"
  by (simp add: tracker_inv_def new_tracker_def tracks_def)

lemma tracker_inv_mark:
  assumes "tracker_inv H tr"
  shows "tracker_inv (H(key := H key @ [Mark off])) (mark_terminal key off tr)"
  using assms tracks_step [of "H key" "map_of (tr_partitions tr) key" "Mark off"]
  by (auto simp: tracker_inv_def mark_terminal_def partition_of_def distinct_fst_update)

lemma tracker_inv_observe:
  assumes "tracker_inv H tr"
  shows "tracker_inv (H(key := H key @ [Observe off])) (observe key off tr)"
  using assms tracks_step [of "H key" "map_of (tr_partitions tr) key" "Observe off"]
  by (auto simp: tracker_inv_def observe_def partition_of_def distinct_fst_update)

lemma tracker_inv_drop:
  "tracker_inv H tr \<Longrightarrow> tracker_inv (H(key := [])) (drop_partition key tr)"
  by (auto simp: tracker_inv_def drop_partition_def distinct_fst_delete tracks_def)

lemma tracker_inv_reset [simp]: "tracker_inv H (reset_counters now tr) = tracker_inv H tr"
  by (simp add: tracker_inv_def reset_counters_def)

lemma flush_commits_mem:
  "(key, n) \<in> set (flush_commits scope tr) \<longleftrightarrow>
     (\<exists>st s. (key, st) \<in> set (tr_partitions tr) \<and> safe_offset st = Some s \<and> n = s + 1 \<and>
        committed_offset st \<noteq> Some s \<and> (case scope of None \<Rightarrow> True | Some keys \<Rightarrow> key \<in> keys))"
proof -
  have "(key, n) \<in> set (flush_commits scope tr) \<longleftrightarrow>
      (\<exists>st. (key, st) \<in> set (tr_partitions tr) \<and> n = the (safe_offset st) + 1 \<and>
        (case scope of None \<Rightarrow> True | Some keys \<Rightarrow> key \<in> keys) \<and> has_uncommitted_safe_offset st)"
    by (force simp: flush_commits_def image_iff)
  then show ?thesis by (fastforce simp: has_uncommitted_safe_offset_def)
qed

lemma distinct_flush_commits:
  "distinct (map fst (tr_partitions tr)) \<Longrightarrow> distinct (map fst (flush_commits scope tr))"
  by (simp add: flush_commits_def comp_def case_prod_beta' distinct_map_filter)

lemma map_of_flush_commits:
  assumes "distinct (map fst (tr_partitions tr))"
  shows "map_of (flush_commits scope tr) key = Some n \<longleftrightarrow>
    (\<exists>st s. map_of (tr_partitions tr) key = Some st \<and> safe_offset st = Some s \<and> n = s + 1 \<and>
        committed_offset st \<noteq> Some s \<and> (case scope of None \<Rightarrow> True | Some keys \<Rightarrow> key \<in> keys))"
  using assms distinct_flush_commits [OF assms, of scope]
  by (simp add: map_of_eq_Some_iff flush_commits_mem)

lemma tracker_inv_confirm:
  assumes "tracker_inv H tr"
  shows "tracker_inv H (confirm_commits (flush_commits scope tr) tr)"
proof -
  have d: "distinct (map fst (tr_partitions tr))" using assms by (simp add: tracker_inv_def)
  have "tracks (H key) (map_option (\<lambda>st. case map_of (flush_commits scope tr) key of
      None \<Rightarrow> st | Some n \<Rightarrow> confirm_commit n st) (map_of (tr_partitions tr) key))" for key
  proof -
    have "tracks (H key) (map_of (tr_partitions tr) key)"
      using assms by (simp add: tracker_inv_def)
    then show ?thesis
      using map_of_flush_commits [OF d, of scope key]
      by (auto simp: tracks_def ps_inv_confirm split: option.splits)
  qed
  with d show ?thesis
    by (auto simp: tracker_inv_def confirm_commits_def distinct_fst_map_values map_of_map_values
        simp del: map_map)
qed

lemma tracker_inv_flush:
  "tracker_inv H tr \<Longrightarrow> flush f scope now (tr, k) = (ok, tr', k') \<Longrightarrow> tracker_inv H tr'"
  by (auto simp: flush_def Let_def tracker_inv_confirm split: prod.splits bool.splits if_splits)

lemma tracker_inv_maybe_flush:
  "tracker_inv H tr \<Longrightarrow> maybe_flush f now now' (tr, k) = (ok, tr', k') \<Longrightarrow> tracker_inv H tr'"
  by (auto simp: maybe_flush_def split: if_splits dest: tracker_inv_flush)

lemma tracker_inv_step:
  assumes "tracker_inv H tr" "tracker_step x (tr, calls) = (tr', calls')"
  shows "tracker_inv (\<lambda>key. history_step key x (H key)) tr'"
proof -
  show ?thesis
  proof (cases x)
    case (OpMark key off)
    have "(\<lambda>k. history_step k x (H k)) = H(key := H key @ [Mark off])"
      using OpMark by auto
    with assms OpMark show ?thesis by (auto simp: tracker_inv_mark)
  next
    case (OpObserve key off)
    have "(\<lambda>k. history_step k x (H k)) = H(key := H key @ [Observe off])"
      using OpObserve by auto
    with assms OpObserve show ?thesis by (auto simp: tracker_inv_observe)
  next
    case (OpDrop key)
    have "(\<lambda>k. history_step k x (H k)) = H(key := [])"
      using OpDrop by auto
    with assms OpDrop show ?thesis by (auto simp: tracker_inv_drop)
  next
    case (OpMaybeFlush ok now now')
    with assms show ?thesis
      by (cases "maybe_flush (scripted_commit ok) now now' (tr, calls)")
         (auto dest: tracker_inv_maybe_flush)
  next
    case (OpFlushAll ok now)
    with assms show ?thesis
      by (cases "flush (scripted_commit ok) None now (tr, calls)")
         (auto simp: flush_all_def dest: tracker_inv_flush)
  next
    case (OpFlushPartitions ok keys now)
    with assms show ?thesis
      by (cases "flush (scripted_commit ok) (Some (set keys)) now (tr, calls)")
         (auto simp: flush_partitions_def dest: tracker_inv_flush)
  qed
qed

definition tracker_run :: "int \<Rightarrow> rat \<Rightarrow> rat \<Rightarrow> tracker_op list \<Rightarrow> tracker \<times> (pkey \<times> int) list list" where
  "tracker_run b i t ops = fold tracker_step ops (new_tracker b i t, [])"

lemma tracker_run_snoc: "tracker_run b i t (ops @ [x]) = tracker_step x (tracker_run b i t ops)"
  by (simp add: tracker_run_def)

lemma tracker_run_inv: "tracker_inv (\<lambda>key. key_history key ops) (fst (tracker_run b i t ops))"
proof (induction ops rule: rev_induct)
  case Nil
  show ?case by (simp add: tracker_run_def tracker_inv_new)
next
  case (snoc x ops)
  obtain tr calls where "tracker_run b i t ops = (tr, calls)" by force
  with snoc tracker_inv_step [of _ tr x calls] show ?case
    by (cases "tracker_step x (tr, calls)") (simp add: tracker_run_snoc)
qed

lemma flush_calls:
  "calls' = snd (snd (flush (scripted_commit ok) scope now (tr, calls))) \<Longrightarrow>
     calls' = calls \<or> calls' = calls @ [flush_commits scope tr]"
  by (auto simp: flush_def Let_def scripted_commit_def split: bool.splits)

lemma tracker_step_calls:
  assumes "tracker_step x (tr, calls) = (tr', calls')"
  shows "calls' = calls \<or> (\<exists>scope. calls' = calls @ [flush_commits scope tr])"
  using assms
proof (cases x)
  case (OpMaybeFlush ok now now')
  with assms show ?thesis
    using flush_calls [of calls' ok None now' tr calls]
    by (auto simp: maybe_flush_def split: if_splits)
next
  case (OpFlushAll ok now)
  with assms show ?thesis
    using flush_calls [of calls' ok None now tr calls] by (auto simp: flush_all_def)
next
  case (OpFlushPartitions ok keys now)
  with assms show ?thesis
    using flush_calls [of calls' ok "Some (set keys)" now tr calls]
    by (auto simp: flush_partitions_def)
qed auto

lemma flush_commits_covered:
  assumes "tracker_inv H tr" "(key, n) \<in> set (flush_commits scope tr)"
  shows "H key \<noteq> [] \<and> op_offset (hd (H key)) \<le> n \<and>
    {op_offset (hd (H key))..<n} \<subseteq> marks (H key) \<and> n \<notin> marks (H key)"
proof -
  obtain st s where st: "map_of (tr_partitions tr) key = Some st" "safe_offset st = Some s" "n = s + 1"
    using assms by (auto simp: flush_commits_mem tracker_inv_def)
  with assms(1) have "tracks (H key) (Some st)" unfolding tracker_inv_def by metis
  with st show ?thesis by (auto simp: tracks_def ps_inv_def contiguous_end_def)
qed

section \<open>Commit calls\<close>

lemma commit_call_covered:
  assumes "tracker_run b i t ops = (tr, calls)"
    and "commits \<in> set calls" and "(key, n) \<in> set commits"
  shows "\<exists>pre. prefix pre ops \<and> key_history key pre \<noteq> [] \<and>
    op_offset (hd (key_history key pre)) \<le> n \<and>
    {op_offset (hd (key_history key pre))..<n} \<subseteq> marks (key_history key pre) \<and>
    n \<notin> marks (key_history key pre)"
  using assms
proof (induction ops arbitrary: tr calls rule: rev_induct)
  case Nil
  then show ?case by (simp add: tracker_run_def)
next
  case (snoc x ops)
  obtain tr0 calls0 where run: "tracker_run b i t ops = (tr0, calls0)" by force
  with snoc.prems(1) have step: "tracker_step x (tr0, calls0) = (tr, calls)"
    by (simp add: tracker_run_snoc)
  show ?case
  proof (cases "commits \<in> set calls0")
    case True
    with snoc.IH [OF run _ snoc.prems(3)] show ?thesis by (meson prefix_snocD prefix_order.dual_order.trans prefixI)
  next
    case False
    with tracker_step_calls [OF step] snoc.prems(2)
    obtain scope where "commits = flush_commits scope tr0" by auto
    with snoc.prems(3) tracker_run_inv [of ops b i t] run
      flush_commits_covered [of "\<lambda>key. key_history key ops" tr0 key n scope]
    show ?thesis by (intro exI [of _ ops]) auto
  qed
qed

lemma key_history_hd:
  "key_history key pre \<noteq> [] \<Longrightarrow> prefix pre ops \<Longrightarrow> \<forall>x \<in> set ops. x \<noteq> OpDrop key \<Longrightarrow>
     prefix (key_history key pre) (key_history key ops)"
proof -
  have step: "prefix h (history_step key x h)" if "x \<noteq> OpDrop key" for x h
    using that by (cases x) auto
  have fold: "prefix h (fold (history_step key) xs h)" if "\<forall>x \<in> set xs. x \<noteq> OpDrop key" for xs h
    using that
  proof (induction xs arbitrary: h)
    case Nil
    then show ?case by simp
  next
    case (Cons x xs)
    then have "prefix (history_step key x h) (fold (history_step key) xs (history_step key x h))"
      by simp
    with step [of x h] Cons.prems show ?case
      by (auto intro: prefix_order.trans)
  qed
  assume "prefix pre ops" "\<forall>x \<in> set ops. x \<noteq> OpDrop key"
  then show ?thesis using fold by (auto simp: prefix_def key_history_def)
qed

lemma prefix_hd: "prefix xs ys \<Longrightarrow> xs \<noteq> [] \<Longrightarrow> hd xs = hd ys"
  by (auto simp: prefix_def)

lemma marks_prefix_mono: "prefix xs ys \<Longrightarrow> marks xs \<subseteq> marks ys"
  by (auto simp: prefix_def)

lemma flush_settles:
  assumes "distinct (map fst (tr_partitions tr))"
  shows "flush_commits scope (confirm_commits (flush_commits scope tr) tr) = []"
proof -
  let ?c = "flush_commits scope tr"
  let ?tr' = "confirm_commits ?c tr"
  have d: "distinct (map fst (tr_partitions ?tr'))"
    using assms by (simp add: confirm_commits_def distinct_fst_map_values del: map_map)
  have False if "(key, n) \<in> set (flush_commits scope ?tr')" for key n
  proof -
    from that obtain st' s where st': "map_of (tr_partitions ?tr') key = Some st'"
      "safe_offset st' = Some s" "committed_offset st' \<noteq> Some s"
      "case scope of None \<Rightarrow> True | Some keys \<Rightarrow> key \<in> keys"
      using d by (auto simp: flush_commits_mem)
    from st'(1) obtain st where st: "map_of (tr_partitions tr) key = Some st"
      and eq: "st' = (case map_of ?c key of None \<Rightarrow> st | Some n \<Rightarrow> confirm_commit n st)"
      by (auto simp: confirm_commits_def map_of_map_values)
    have safe: "safe_offset st = Some s"
      using eq st'(2) by (auto simp: confirm_commit_def split: option.splits)
    show False
    proof (cases "committed_offset st = Some s")
      case True
      with st safe map_of_flush_commits [OF assms, of scope key] have "map_of ?c key = None"
        by (cases "map_of ?c key") auto
      with eq True st'(3) show False by simp
    next
      case False
      with st safe st'(4) map_of_flush_commits [OF assms, of scope key "s + 1"]
      have "map_of ?c key = Some (s + 1)" by blast
      with eq st'(3) show False by (simp add: confirm_commit_def)
    qed
  qed
  then show ?thesis by (metis list.set_intros(1) neq_Nil_conv surj_pair)
qed

section \<open>Properties\<close>

text \<open>C1. A commit never passes an offset that has not reached a terminal state. Over any run of
  tracker calls (marks, observations, forced and threshold flushes that succeed or raise, dropped
  partitions), take any offset \<open>n\<close> the tracker asked Kafka to commit for a partition. At that
  moment, after some prefix of the run, the partition had been seen, and every offset from the
  first one seen since its state was last dropped up to \<open>n - 1\<close> had been marked terminal, and
  \<open>n\<close> itself had not.\<close>

theorem committed_prefix_is_terminal:
  assumes "tracker_run b i t ops = (tr, calls)"
    and "commits \<in> set calls" and "(key, n) \<in> set commits"
  shows "\<exists>pre. prefix pre ops \<and> key_history key pre \<noteq> [] \<and>
    op_offset (hd (key_history key pre)) \<le> n \<and>
    {op_offset (hd (key_history key pre))..<n} \<subseteq> marks (key_history key pre) \<and>
    n \<notin> marks (key_history key pre)"
  using assms by (rule commit_call_covered)

theorem committed_prefix_is_terminal_witness:
  "\<exists>pre. prefix pre [OpMark (''t'', 0) 5, OpMark (''t'', 0) 7, OpFlushAll True 1] \<and>
    key_history (''t'', 0) pre \<noteq> [] \<and>
    op_offset (hd (key_history (''t'', 0) pre)) \<le> 6 \<and>
    {op_offset (hd (key_history (''t'', 0) pre))..<6} \<subseteq> marks (key_history (''t'', 0) pre) \<and>
    6 \<notin> marks (key_history (''t'', 0) pre)"
proof (rule committed_prefix_is_terminal [where commits = "[((''t'', 0), 6)]", OF surjective_pairing])
  show "[((''t'', 0), 6)] \<in> set (snd (tracker_run 50 1 0
      [OpMark (''t'', 0) 5, OpMark (''t'', 0) 7, OpFlushAll True 1]))"
    by (simp add: tracker_run_def new_tracker_def mark_terminal_def partition_of_def
        new_partition_state_def ps_mark_terminal_def flush_all_def flush_def flush_commits_def
        has_uncommitted_safe_offset_def scripted_commit_def Let_def)
qed simp

text \<open>C2. One partition refines its specification. Whatever sequence of observations and terminal
  marks a partition receives, in whatever order, once one offset has been marked the safe offset is
  exactly the end of the contiguous run of marked offsets above the first offset the partition saw;
  the heap holds, in increasing order and without repetition, exactly the marked offsets above it,
  and \<open>records_since_commit\<close> counts the offsets the safe offset has advanced over.\<close>

theorem partition_state_refines:
  fixes ops :: "ps_op list" and x :: ps_op
  defines "st \<equiv> fold ps_step (x # ops) new_partition_state"
    and "T \<equiv> marks (x # ops)" and "f \<equiv> op_offset x - 1"
  assumes "T \<noteq> {}"
  shows "\<exists>s. safe_offset st = Some s \<and> contiguous_end f T s \<and>
    sorted_wrt (<) (pending_heap st) \<and> set (pending_heap st) = {t \<in> T. s < t} \<and>
    committed_offset st = None \<and> records_since_commit st = s - f"
proof -
  have inv: "ps_inv f T st" unfolding st_def T_def f_def by (rule ps_inv_from_new)
  with \<open>T \<noteq> {}\<close> obtain s where s: "safe_offset st = Some s" by (auto simp: ps_inv_def split: option.splits)
  have step: "committed_offset (ps_step y p) = committed_offset p" for y p
    by (cases y) (auto simp: ps_observe_def ps_mark_terminal_def Let_def split: prod.splits)
  have "committed_offset (fold ps_step ys p) = committed_offset p" for ys p
    by (induction ys arbitrary: p) (simp_all add: step)
  then have "committed_offset st = None" by (simp add: st_def new_partition_state_def step)
  with inv s show ?thesis by (simp add: ps_inv_def)
qed

theorem partition_state_refines_witness:
  "\<exists>s. safe_offset (fold ps_step [Observe 5, Mark 7, Mark 5] new_partition_state) = Some s \<and>
    contiguous_end (op_offset (Observe 5) - 1) (marks [Observe 5, Mark 7, Mark 5]) s \<and>
    sorted_wrt (<) (pending_heap (fold ps_step [Observe 5, Mark 7, Mark 5] new_partition_state)) \<and>
    set (pending_heap (fold ps_step [Observe 5, Mark 7, Mark 5] new_partition_state)) =
      {t \<in> marks [Observe 5, Mark 7, Mark 5]. s < t} \<and>
    committed_offset (fold ps_step [Observe 5, Mark 7, Mark 5] new_partition_state) = None \<and>
    records_since_commit (fold ps_step [Observe 5, Mark 7, Mark 5] new_partition_state) =
      s - (op_offset (Observe 5) - 1)"
  by (rule partition_state_refines) simp

text \<open>A flush is all or nothing. If the commit call raises, the tracker is exactly as it was, so
  nothing that was pending is lost; if it returns, no partition in scope has an uncommitted safe
  offset left, no partition's safe offset, heap or dispatch floor has changed, and a flush of every
  partition has reset the batch counter and the interval.\<close>

theorem flush_all_or_nothing:
  assumes "distinct (map fst (tr_partitions tr))"
    and "flush f scope now (tr, k) = (ok, tr', k')"
  shows "(\<not> ok \<longrightarrow> tr' = tr) \<and>
    (ok \<longrightarrow> flush_commits scope tr' = [] \<and>
       map (\<lambda>(key, st). (key, safe_offset st, pending_heap st, dispatch_floor st)) (tr_partitions tr') =
       map (\<lambda>(key, st). (key, safe_offset st, pending_heap st, dispatch_floor st)) (tr_partitions tr) \<and>
       (scope = None \<longrightarrow> tr_records_since_flush tr' = 0 \<and> tr_last_flush_at tr' = now))"
proof -
  have reset: "flush_commits sc (reset_counters now x) = flush_commits sc x"
    "tr_partitions (reset_counters now x) = tr_partitions x"
    "tr_records_since_flush (reset_counters now x) = 0"
    "tr_last_flush_at (reset_counters now x) = now" for x sc
    by (simp_all add: flush_commits_def reset_counters_def)
  have keys: "map (\<lambda>(key, st). (key, safe_offset st, pending_heap st, dispatch_floor st))
        (tr_partitions (confirm_commits c tr)) =
      map (\<lambda>(key, st). (key, safe_offset st, pending_heap st, dispatch_floor st)) (tr_partitions tr)"
    for c
    by (auto simp: confirm_commits_def confirm_commit_def split: option.splits)
  show ?thesis
    using assms(2) flush_settles [OF assms(1), of scope]
    by (auto simp: flush_def Let_def reset keys split: if_splits prod.splits bool.splits)
qed

theorem flush_all_or_nothing_witness:
  "flush_commits None (fst (snd (flush (scripted_commit True) None 9
      (mark_terminal (''t'', 0) 3 (new_tracker 50 1 0), [])))) = []"
proof -
  let ?tr = "mark_terminal (''t'', 0) 3 (new_tracker 50 1 0)"
  let ?r = "flush (scripted_commit True) None 9 (?tr, [])"
  have d: "distinct (map fst (tr_partitions ?tr))"
    by (simp add: mark_terminal_def new_tracker_def)
  have "fst ?r" by (simp add: flush_def Let_def scripted_commit_def)
  then have eq: "?r = (True, fst (snd ?r), snd (snd ?r))" by (simp add: prod_eq_iff)
  show ?thesis using flush_all_or_nothing [OF d eq] by simp
qed

text \<open>No commit passes an unresolved gap. If a partition that is not dropped during the run first
  saw an offset below \<open>g\<close> and \<open>g\<close> is never marked terminal, then no commit call of the run asks
  Kafka for an offset above \<open>g\<close>. This holds for a record that is still being processed, and also
  for an offset Kafka never delivers (a transaction marker or a compacted record).\<close>

theorem gap_blocks_commits:
  assumes "tracker_run b i t ops = (tr, calls)"
    and "\<forall>x \<in> set ops. x \<noteq> OpDrop key" and "g \<notin> marks (key_history key ops)"
    and "op_offset (hd (key_history key ops)) \<le> g"
    and "commits \<in> set calls" and "(key, n) \<in> set commits"
  shows "n \<le> g"
proof -
  from commit_call_covered [OF assms(1,5,6)] obtain pre where pre: "prefix pre ops"
    "key_history key pre \<noteq> []"
    "{op_offset (hd (key_history key pre))..<n} \<subseteq> marks (key_history key pre)" by blast
  have p: "prefix (key_history key pre) (key_history key ops)"
    by (rule key_history_hd [OF pre(2,1) assms(2)])
  with pre prefix_hd marks_prefix_mono
  have "{op_offset (hd (key_history key ops))..<n} \<subseteq> marks (key_history key ops)"
    by (metis subset_trans)
  with assms(3,4) show ?thesis by (meson atLeastLessThan_iff linorder_not_le subsetD)
qed

theorem gap_blocks_commits_witness:
  "[((''t'', 0), 6)] \<in> set (snd (tracker_run 50 1 0
     [OpMark (''t'', 0) 5, OpMark (''t'', 0) 7, OpFlushAll True 1])) \<and> (6 :: int) \<le> 6"
proof
  show call: "[((''t'', 0), 6)] \<in> set (snd (tracker_run 50 1 0
      [OpMark (''t'', 0) 5, OpMark (''t'', 0) 7, OpFlushAll True 1]))"
    by (simp add: tracker_run_def new_tracker_def mark_terminal_def partition_of_def
        new_partition_state_def ps_mark_terminal_def flush_all_def flush_def flush_commits_def
        has_uncommitted_safe_offset_def scripted_commit_def Let_def)
  show "(6 :: int) \<le> 6"
    by (rule gap_blocks_commits [OF surjective_pairing _ _ _ call, of "(''t'', 0)"])
       (simp_all add: key_history_def)
qed

end
