(* ===== verification/Retry.thy ===== *)
theory Retry
  imports Prelude
begin

text \<open>
  The error taxonomy of \<^verbatim>\<open>services/event_processor/errors.py\<close> and the bounded retry loop of
  \<^verbatim>\<open>services/event_processor/retry.py\<close>.

  An exception is its class and its message; \<open>isinstance\<close> walks the declared base classes. The
  retried operation is a state transformer that either returns a value or raises; the callbacks
  \<open>on_retry\<close> and \<open>wait\<close> transform the same state. Binary floating point is modelled by
  rationals, and the random source by the sequence of samples in \<open>[0, 1)\<close> it yields.
\<close>

section \<open>Exceptions\<close>

datatype exn_class =
    PyException | PyRuntimeError | PyBufferError | PyValueError | PyKeyError | PyAssertionError
  | RedisError | KafkaException | PoolTimeout | PsycopgError
  | ProcessorError | PermanentMessageError | RetryableProcessingError
  | PermanentProcessingError | FatalInfrastructureError | RetryableDatabaseError
  | MissingBusinessDependencyError | PermanentDatabaseIntegrityError | AlreadyPersistedEvent
  | StartupDatabaseError | FraudContextDependencyError | FraudRuleConfigurationError
  | FraudEvaluationIntegrityError | FraudOutboxRetryableError | FraudOutboxPermanentError

fun base_class :: "exn_class \<Rightarrow> exn_class option" where
  "base_class PyException = None"
| "base_class PyRuntimeError = Some PyException"
| "base_class PyBufferError = Some PyException"
| "base_class PyValueError = Some PyException"
| "base_class PyKeyError = Some PyException"
| "base_class PyAssertionError = Some PyException"
| "base_class RedisError = Some PyException"
| "base_class KafkaException = Some PyException"
| "base_class PoolTimeout = Some PsycopgError"
| "base_class PsycopgError = Some PyException"
| "base_class ProcessorError = Some PyRuntimeError"
| "base_class PermanentMessageError = Some ProcessorError"
| "base_class RetryableProcessingError = Some ProcessorError"
| "base_class PermanentProcessingError = Some ProcessorError"
| "base_class FatalInfrastructureError = Some ProcessorError"
| "base_class RetryableDatabaseError = Some RetryableProcessingError"
| "base_class MissingBusinessDependencyError = Some RetryableProcessingError"
| "base_class PermanentDatabaseIntegrityError = Some PermanentProcessingError"
| "base_class AlreadyPersistedEvent = Some ProcessorError"
| "base_class StartupDatabaseError = Some FatalInfrastructureError"
| "base_class FraudContextDependencyError = Some MissingBusinessDependencyError"
| "base_class FraudRuleConfigurationError = Some FatalInfrastructureError"
| "base_class FraudEvaluationIntegrityError = Some PermanentProcessingError"
| "base_class FraudOutboxRetryableError = Some RetryableProcessingError"
| "base_class FraudOutboxPermanentError = Some PermanentProcessingError"

fun class_depth :: "exn_class \<Rightarrow> nat" where
  "class_depth PyException = 0"
| "class_depth c =
     (if c \<in> {PyRuntimeError, PyBufferError, PyValueError, PyKeyError, PyAssertionError, RedisError,
              KafkaException, PsycopgError} then 1
      else if c \<in> {ProcessorError, PoolTimeout} then 2
      else if c \<in> {PermanentMessageError, RetryableProcessingError, PermanentProcessingError,
                   FatalInfrastructureError, AlreadyPersistedEvent} then 3
      else if c = FraudContextDependencyError then 5 else 4)"

function mro :: "exn_class \<Rightarrow> exn_class list" where
  "mro c = c # (case base_class c of None \<Rightarrow> [] | Some b \<Rightarrow> mro b)"
  by pat_completeness auto
termination
proof (relation "measure class_depth")
  fix c b
  assume "base_class c = Some b"
  then show "(b, c) \<in> measure class_depth" by (cases c) auto
qed simp

declare mro.simps [simp del]

datatype exn = Exn (exn_class: exn_class) (exn_message: string)

definition isinstance :: "exn \<Rightarrow> exn_class \<Rightarrow> bool" where
  "isinstance e c \<longleftrightarrow> c \<in> set (mro (exn_class e))"

lemma isinstance_Exn [simp]: "isinstance (Exn d m) c \<longleftrightarrow> c \<in> set (mro d)"
  by (simp add: isinstance_def)

text \<open>Every class reached by the processor is either retryable or permanent, never both.\<close>

lemma mro_evals [simp]:
  "mro PyException = [PyException]"
  "mro PyRuntimeError = [PyRuntimeError, PyException]"
  "mro PyBufferError = [PyBufferError, PyException]"
  "mro PyValueError = [PyValueError, PyException]"
  "mro PyKeyError = [PyKeyError, PyException]"
  "mro PyAssertionError = [PyAssertionError, PyException]"
  "mro RedisError = [RedisError, PyException]"
  "mro KafkaException = [KafkaException, PyException]"
  "mro PsycopgError = [PsycopgError, PyException]"
  "mro PoolTimeout = [PoolTimeout, PsycopgError, PyException]"
  "mro ProcessorError = [ProcessorError, PyRuntimeError, PyException]"
  by (simp_all add: mro.simps)

lemma mro_processor [simp]:
  "mro PermanentMessageError = PermanentMessageError # mro ProcessorError"
  "mro RetryableProcessingError = RetryableProcessingError # mro ProcessorError"
  "mro PermanentProcessingError = PermanentProcessingError # mro ProcessorError"
  "mro FatalInfrastructureError = FatalInfrastructureError # mro ProcessorError"
  "mro AlreadyPersistedEvent = AlreadyPersistedEvent # mro ProcessorError"
  "mro RetryableDatabaseError = RetryableDatabaseError # mro RetryableProcessingError"
  "mro MissingBusinessDependencyError =
     MissingBusinessDependencyError # mro RetryableProcessingError"
  "mro FraudOutboxRetryableError = FraudOutboxRetryableError # mro RetryableProcessingError"
  "mro FraudContextDependencyError =
     FraudContextDependencyError # mro MissingBusinessDependencyError"
  "mro PermanentDatabaseIntegrityError =
     PermanentDatabaseIntegrityError # mro PermanentProcessingError"
  "mro FraudEvaluationIntegrityError =
     FraudEvaluationIntegrityError # mro PermanentProcessingError"
  "mro FraudOutboxPermanentError = FraudOutboxPermanentError # mro PermanentProcessingError"
  "mro StartupDatabaseError = StartupDatabaseError # mro FatalInfrastructureError"
  "mro FraudRuleConfigurationError = FraudRuleConfigurationError # mro FatalInfrastructureError"
  by (simp_all add: mro.simps)

lemma retryable_not_permanent:
  "isinstance e RetryableProcessingError \<Longrightarrow> \<not> isinstance e PermanentProcessingError"
  by (cases e; rename_tac c m; case_tac c) simp_all

section \<open>Backoff\<close>

record retry_policy =
  maximum_attempts :: nat
  initial_backoff_ms :: int
  maximum_backoff_ms :: int
  multiplier :: rat
  jitter_ratio :: rat

definition backoff_base :: "retry_policy \<Rightarrow> nat \<Rightarrow> rat" where
  "backoff_base p failed_attempt =
     min (of_int (maximum_backoff_ms p))
         (of_int (initial_backoff_ms p) * multiplier p ^ (failed_attempt - 1))"

text \<open>\<open>rng.uniform(-jitter, jitter)\<close> on a sample \<open>u\<close> of the random source.\<close>

definition uniform :: "rat \<Rightarrow> rat \<Rightarrow> rat \<Rightarrow> rat" where
  "uniform a b u = a + (b - a) * u"

definition backoff_seconds :: "retry_policy \<Rightarrow> nat \<Rightarrow> rat \<Rightarrow> rat" where
  "backoff_seconds p failed_attempt u =
     (let base = backoff_base p failed_attempt;
          jitter = base * jitter_ratio p;
          milliseconds = max 0 (base + uniform (- jitter) jitter u)
      in milliseconds / 1000)"

section \<open>The retry loop\<close>

text \<open>The state passes through the operation, then, after a retryable failure that is not the last,
  through \<open>on_retry\<close> and \<open>wait\<close>. The last argument of \<open>retry_loop\<close> before the state counts
  the attempts made so far.\<close>

fun retry_loop ::
  "(nat \<Rightarrow> 's \<Rightarrow> (exn + 'a) \<times> 's) \<Rightarrow> retry_policy \<Rightarrow> (rat \<Rightarrow> 's \<Rightarrow> 's) \<Rightarrow> (nat \<Rightarrow> rat) \<Rightarrow>
   (nat \<Rightarrow> exn \<Rightarrow> 's \<Rightarrow> 's) \<Rightarrow> nat \<Rightarrow> nat \<Rightarrow> 's \<Rightarrow> (exn + 'a \<times> nat) \<times> 's" where
  "retry_loop operation p wait rng on_retry 0 done s =
     (Inl (Exn PyAssertionError ''positive maximum_attempts guarantees loop execution''), s)"
| "retry_loop operation p wait rng on_retry (Suc left) done s =
     (let attempt = Suc done
      in case operation attempt s of
           (Inr v, s') \<Rightarrow> (Inr (v, attempt), s')
         | (Inl e, s') \<Rightarrow>
             if \<not> isinstance e RetryableProcessingError then (Inl e, s')
             else if attempt = maximum_attempts p then (Inl e, s')
             else retry_loop operation p wait rng on_retry left attempt
                    (wait (backoff_seconds p attempt (rng attempt)) (on_retry attempt e s')))"

definition run_with_retry ::
  "(nat \<Rightarrow> 's \<Rightarrow> (exn + 'a) \<times> 's) \<Rightarrow> retry_policy \<Rightarrow> (rat \<Rightarrow> 's \<Rightarrow> 's) \<Rightarrow> (nat \<Rightarrow> rat) \<Rightarrow>
   (nat \<Rightarrow> exn \<Rightarrow> 's \<Rightarrow> 's) \<Rightarrow> 's \<Rightarrow> (exn + 'a \<times> nat) \<times> 's" where
  "run_with_retry operation p wait rng on_retry s =
     retry_loop operation p wait rng on_retry (maximum_attempts p) 0 s"

text \<open>The state in which attempt \<open>Suc k\<close> starts, when all attempts before it failed.\<close>

primrec attempt_state ::
  "(nat \<Rightarrow> 's \<Rightarrow> (exn + 'a) \<times> 's) \<Rightarrow> retry_policy \<Rightarrow> (rat \<Rightarrow> 's \<Rightarrow> 's) \<Rightarrow> (nat \<Rightarrow> rat) \<Rightarrow>
   (nat \<Rightarrow> exn \<Rightarrow> 's \<Rightarrow> 's) \<Rightarrow> nat \<Rightarrow> 's \<Rightarrow> 's" where
  "attempt_state operation p wait rng on_retry 0 s = s"
| "attempt_state operation p wait rng on_retry (Suc k) s =
     (case operation (Suc k) (attempt_state operation p wait rng on_retry k s) of
        (Inr v, s') \<Rightarrow> s'
      | (Inl e, s') \<Rightarrow>
          wait (backoff_seconds p (Suc k) (rng (Suc k))) (on_retry (Suc k) e s'))"

definition retried :: "(exn + 'a) \<times> 's \<Rightarrow> bool" where
  "retried r = (case fst r of Inl e \<Rightarrow> isinstance e RetryableProcessingError | Inr _ \<Rightarrow> False)"

text \<open>How the result of the deciding attempt \<open>k\<close> becomes the result of the loop.\<close>

definition settles :: "retry_policy \<Rightarrow> nat \<Rightarrow> (exn + 'a) \<times> 's \<Rightarrow> (exn + 'a \<times> nat) \<times> 's \<Rightarrow> bool" where
  "settles p k r out =
     (case r of
        (Inr v, s') \<Rightarrow> out = (Inr (v, k), s')
      | (Inl e, s') \<Rightarrow> out = (Inl e, s') \<and>
          (k = maximum_attempts p \<or> \<not> isinstance e RetryableProcessingError))"

lemma retry_loop_outcome:
  fixes operation :: "nat \<Rightarrow> 's \<Rightarrow> (exn + 'a) \<times> 's" and wait :: "rat \<Rightarrow> 's \<Rightarrow> 's"
    and on_retry :: "nat \<Rightarrow> exn \<Rightarrow> 's \<Rightarrow> 's" and p :: retry_policy and rng :: "nat \<Rightarrow> rat" and s :: 's
  defines "start \<equiv> \<lambda>k. attempt_state operation p wait rng on_retry k s"
  assumes "0 < left" and "done + left = maximum_attempts p"
  shows "\<exists>k. done < k \<and> k \<le> maximum_attempts p \<and>
    (\<forall>j. done < j \<and> j < k \<longrightarrow> retried (operation j (start (j - 1)))) \<and>
    settles p k (operation k (start (k - 1)))
      (retry_loop operation p wait rng on_retry left done (start done))"
  using assms(2,3)
proof (induction left arbitrary: "done")
  case 0
  then show ?case by simp
next
  case (Suc left)
  obtain r s' where op: "operation (Suc done) (start done) = (r, s')" by force
  show ?case
  proof (cases "retried (r, s') \<and> Suc done \<noteq> maximum_attempts p")
    case False
    with op Suc.prems show ?thesis
      by (intro exI [of _ "Suc done"]) (auto simp: retried_def settles_def Let_def split: sum.splits)
  next
    case True
    then obtain e where e: "r = Inl e" "isinstance e RetryableProcessingError"
      by (auto simp: retried_def split: sum.splits)
    have next_start: "start (Suc done) = wait (backoff_seconds p (Suc done) (rng (Suc done))) (on_retry (Suc done) e s')"
      using op e by (simp add: start_def)
    have loop: "retry_loop operation p wait rng on_retry (Suc left) done (start done) =
        retry_loop operation p wait rng on_retry left (Suc done) (start (Suc done))"
      using op e True by (simp add: next_start Let_def)
    from True Suc.prems have "0 < left" "Suc done + left = maximum_attempts p" by auto
    from Suc.IH [OF this] obtain k where k: "Suc done < k" "k \<le> maximum_attempts p"
      "\<forall>j. Suc done < j \<and> j < k \<longrightarrow> retried (operation j (start (j - 1)))"
      "settles p k (operation k (start (k - 1)))
        (retry_loop operation p wait rng on_retry left (Suc done) (start (Suc done)))" by blast
    have "retried (operation j (start (j - 1)))" if "done < j" "j < k" for j
    proof (cases "j = Suc done")
      case True
      with op \<open>retried (r, s') \<and> Suc done \<noteq> maximum_attempts p\<close> show ?thesis by simp
    next
      case False
      with that k(3) show ?thesis by simp
    qed
    moreover have "done < k" using k(1) by simp
    ultimately show ?thesis unfolding loop using k(2,4) by blast
  qed
qed

lemma retry_loop_inv:
  assumes "I s" and "\<And>n s r s'. I s \<Longrightarrow> operation n s = (r, s') \<Longrightarrow> I s'"
    and "\<And>n e s. I s \<Longrightarrow> I (on_retry n e s)" and "\<And>t s. I s \<Longrightarrow> I (wait t s)"
    and "retry_loop operation p wait rng on_retry left done s = (r, s')"
  shows "I s'"
  using assms(1,5)
proof (induction left arbitrary: "done" s)
  case 0
  then show ?case by simp
next
  case (Suc left)
  obtain q s1 where op: "operation (Suc done) s = (q, s1)" by force
  with Suc.prems(1) assms(2) have "I s1" by blast
  then have "I (wait t (on_retry n e s1))" for t n e by (intro assms(3,4))
  with Suc.prems(2) op \<open>I s1\<close> show ?case
    by (auto simp: Let_def split: sum.splits if_splits intro: Suc.IH)
qed

section \<open>Properties\<close>

text \<open>C5. The retry loop is bounded and complete. With a positive bound the loop makes some number
  \<open>k\<close> of attempts between 1 and the bound; every attempt before the last raised a retryable error;
  the loop returns the value of attempt \<open>k\<close> together with \<open>k\<close>, or raises what attempt \<open>k\<close>
  raised, and it gives up only when that error is not retryable or the bound is reached. In
  particular the assertion after the loop is never reached.\<close>

theorem run_with_retry_outcome:
  fixes operation :: "nat \<Rightarrow> 's \<Rightarrow> (exn + 'a) \<times> 's"
  assumes "0 < maximum_attempts p"
  shows "\<exists>k. 0 < k \<and> k \<le> maximum_attempts p \<and>
    (\<forall>j. 0 < j \<and> j < k \<longrightarrow>
       retried (operation j (attempt_state operation p wait rng on_retry (j - 1) s))) \<and>
    settles p k (operation k (attempt_state operation p wait rng on_retry (k - 1) s))
      (run_with_retry operation p wait rng on_retry s)"
  using retry_loop_outcome [OF assms, of 0 p operation wait rng on_retry s]
  unfolding run_with_retry_def attempt_state.simps add_0 by blast

definition flaky :: "nat \<Rightarrow> nat list \<Rightarrow> (exn + nat) \<times> nat list" where
  "flaky n trace = (if n < 3 then Inl (Exn RetryableDatabaseError ''x'') else Inr 7, trace @ [n])"

theorem run_with_retry_outcome_witness:
  "\<exists>k. 0 < k \<and> k \<le> 5 \<and>
    run_with_retry flaky \<lparr>maximum_attempts = 5, initial_backoff_ms = 100, maximum_backoff_ms = 2000,
      multiplier = 2, jitter_ratio = 1 / 10\<rparr> (\<lambda>_ s. s) (\<lambda>_. 0) (\<lambda>_ _ s. s) [] = (Inr (7, k), [1, 2, 3])"
proof -
  let ?p = "\<lparr>maximum_attempts = 5, initial_backoff_ms = 100, maximum_backoff_ms = 2000,
      multiplier = 2, jitter_ratio = 1 / 10\<rparr>"
  have r: "run_with_retry flaky ?p (\<lambda>_ s. s) (\<lambda>_. 0) (\<lambda>_ _ s. s) [] = (Inr (7, 3), [1, 2, 3])"
    by (simp add: run_with_retry_def flaky_def numeral_eq_Suc Let_def)
  from run_with_retry_outcome [of ?p flaky "\<lambda>_ s. s" "\<lambda>_. 0" "\<lambda>_ _ s. s" "[]"] r
  show ?thesis by (auto simp: settles_def split: prod.splits sum.splits)
qed

text \<open>Backoff bounds. For a policy as the configuration allows it (non-negative delays, a
  multiplier of at least one, a jitter ratio between zero and one) and any sample of the random
  source, the delay after a failed attempt is between zero and twice the configured maximum,
  never exceeds the un-jittered delay by more than the jitter ratio, and the un-jittered delay
  does not decrease from one attempt to the next.\<close>

theorem backoff_seconds_bounds:
  assumes "0 \<le> initial_backoff_ms p" "0 \<le> maximum_backoff_ms p" "1 \<le> multiplier p"
    and "0 \<le> jitter_ratio p" "jitter_ratio p \<le> 1" "0 \<le> u" "u \<le> 1"
  shows "0 \<le> backoff_seconds p n u \<and>
    backoff_seconds p n u \<le> backoff_base p n * (1 + jitter_ratio p) / 1000 \<and>
    backoff_seconds p n u \<le> 2 * of_int (maximum_backoff_ms p) / 1000 \<and>
    backoff_base p n \<le> backoff_base p (Suc n)"
proof -
  let ?b = "backoff_base p n" and ?m = "of_int (maximum_backoff_ms p) :: rat"
  have b: "0 \<le> ?b" "?b \<le> ?m"
    using assms by (auto simp: backoff_base_def)
  let ?j = "?b * jitter_ratio p"
  have j: "0 \<le> ?j" using b assms(4) by simp
  have "2 * ?j * u \<le> 2 * ?j * 1" by (rule mult_left_mono) (use j assms(7) in auto)
  then have up: "?b + uniform (- ?j) ?j u \<le> ?b * (1 + jitter_ratio p)"
    by (simp add: uniform_def algebra_simps)
  have "?b * (1 + jitter_ratio p) \<le> ?b * 2"
    by (rule mult_left_mono) (use b assms(5) in auto)
  moreover have "0 \<le> ?b * (1 + jitter_ratio p)" using b assms(4) by simp
  moreover have "multiplier p ^ (n - 1) \<le> multiplier p ^ (Suc n - 1)"
    using assms(3) by (intro power_increasing) auto
  then have "of_int (initial_backoff_ms p) * multiplier p ^ (n - 1) \<le>
      of_int (initial_backoff_ms p) * multiplier p ^ (Suc n - 1)"
    by (rule mult_left_mono) (use assms(1) in simp)
  then have "?b \<le> backoff_base p (Suc n)" by (auto simp: backoff_base_def min_def)
  ultimately show ?thesis
    using up b by (auto simp: backoff_seconds_def Let_def field_simps)
qed

theorem backoff_seconds_bounds_witness:
  "0 \<le> backoff_seconds \<lparr>maximum_attempts = 3, initial_backoff_ms = 100, maximum_backoff_ms = 2000,
      multiplier = 2, jitter_ratio = 1 / 10\<rparr> 3 (1 / 2)"
  using backoff_seconds_bounds [of "\<lparr>maximum_attempts = 3, initial_backoff_ms = 100,
      maximum_backoff_ms = 2000, multiplier = 2, jitter_ratio = 1 / 10\<rparr>" "1 / 2" 3] by simp

end
