(* ===== verification/Idempotency.thy ===== *)
theory Idempotency
  imports Retry
begin

text \<open>
  The Redis-backed reservation store of \<^verbatim>\<open>services/event_processor/idempotency.py\<close>: the
  three Lua scripts, and the methods of \<open>RedisIdempotencyStore\<close> that evaluate them.

  Redis maps a key to a value and the time (in seconds) at which the value expires; an expired
  entry reads as absent. The JSON documents the scripts store are the two constructors of
  \<open>lease_value\<close>. A call to Redis can be answered, fail before the script ran, or fail after it
  ran with the reply lost: the client sees the same \<open>RedisError\<close> in both failures.
\<close>

section \<open>Stored values and the Lua scripts\<close>

datatype lease_value =
    Processing (lv_token: string) (lv_group: string) (lv_topic: string) (lv_partition: int)
      (lv_offset: int) (lv_first_seen_at: instant)
  | Completed (lv_group: string) (lv_completed_at: instant)

type_synonym redis = "string \<rightharpoonup> lease_value \<times> int"

definition redis_get :: "int \<Rightarrow> string \<Rightarrow> redis \<Rightarrow> lease_value option" where
  "redis_get now key r =
     (case r key of None \<Rightarrow> None | Some (v, expires) \<Rightarrow> if now < expires then Some v else None)"

definition redis_set_ex :: "int \<Rightarrow> string \<Rightarrow> lease_value \<Rightarrow> int \<Rightarrow> redis \<Rightarrow> redis" where
  "redis_set_ex now key v ttl r = r(key \<mapsto> (v, now + ttl))"

datatype reservation_state = RESERVED | COMPLETED | PROCESSING

definition reserve_script ::
  "int \<Rightarrow> string \<Rightarrow> lease_value \<Rightarrow> int \<Rightarrow> redis \<Rightarrow> (reservation_state \<times> lease_value) \<times> redis" where
  "reserve_script now key v ttl r =
     (case redis_get now key r of
        None \<Rightarrow> ((RESERVED, v), redis_set_ex now key v ttl r)
      | Some (Completed g d) \<Rightarrow> ((COMPLETED, Completed g d), r)
      | Some current \<Rightarrow> ((PROCESSING, current), r))"

definition complete_script ::
  "int \<Rightarrow> string \<Rightarrow> string \<Rightarrow> lease_value \<Rightarrow> int \<Rightarrow> redis \<Rightarrow> bool \<times> redis" where
  "complete_script now key token v ttl r =
     (case redis_get now key r of
        Some (Processing t g tp p off seen) \<Rightarrow>
          if t \<noteq> token then (False, r) else (True, redis_set_ex now key v ttl r)
      | _ \<Rightarrow> (False, r))"

definition release_script :: "int \<Rightarrow> string \<Rightarrow> string \<Rightarrow> redis \<Rightarrow> bool \<times> redis" where
  "release_script now key token r =
     (case redis_get now key r of
        Some (Processing t g tp p off seen) \<Rightarrow>
          if t \<noteq> token then (False, r) else (True, r(key := None))
      | _ \<Rightarrow> (False, r))"

section \<open>The store\<close>

record lease_config =
  lc_key_prefix :: string
  lc_consumer_group :: string
  lc_processing_ttl :: int
  lc_completed_ttl :: int

definition key_for :: "lease_config \<Rightarrow> uuid \<Rightarrow> string" where
  "key_for c event_id = lc_key_prefix c @ '':'' @ uuid_str event_id"

datatype redis_call = Answered | Request_lost | Reply_lost

definition redis_eval :: "redis_call \<Rightarrow> (redis \<Rightarrow> 'a \<times> redis) \<Rightarrow> redis \<Rightarrow> 'a option \<times> redis" where
  "redis_eval call script r =
     (case call of
        Answered \<Rightarrow> (case script r of (a, r') \<Rightarrow> (Some a, r'))
      | Request_lost \<Rightarrow> (None, r)
      | Reply_lost \<Rightarrow> (None, snd (script r)))"

record reservation =
  rs_state :: reservation_state
  rs_token :: "string option"
  rs_existing :: "lease_value option"

definition reserve ::
  "lease_config \<Rightarrow> redis_call \<Rightarrow> int \<Rightarrow> uuid \<Rightarrow> string \<Rightarrow> string \<times> int \<times> int \<Rightarrow> instant \<Rightarrow>
   redis \<Rightarrow> (exn + reservation) \<times> redis" where
  "reserve c call now event_id token coord first_seen_at r =
     (case coord of (topic, part, off) \<Rightarrow>
        let v = Processing token (lc_consumer_group c) topic part off first_seen_at
        in case redis_eval call
                  (reserve_script now (key_for c event_id) v (lc_processing_ttl c)) r of
             (None, r') \<Rightarrow> (Inl (Exn RetryableProcessingError ''Redis reservation failed''), r')
           | (Some (state, existing), r') \<Rightarrow>
               (Inr \<lparr>rs_state = state,
                     rs_token = (if state = RESERVED then Some token else None),
                     rs_existing = (if state \<noteq> RESERVED then Some existing else None)\<rparr>, r'))"

definition complete ::
  "lease_config \<Rightarrow> redis_call \<Rightarrow> int \<Rightarrow> uuid \<Rightarrow> string \<Rightarrow> instant \<Rightarrow> redis \<Rightarrow> (exn + bool) \<times> redis" where
  "complete c call now event_id token completed_at r =
     (case redis_eval call
             (complete_script now (key_for c event_id) token
                (Completed (lc_consumer_group c) completed_at) (lc_completed_ttl c)) r of
        (None, r') \<Rightarrow> (Inl (Exn RetryableProcessingError ''Redis completion failed''), r')
      | (Some b, r') \<Rightarrow> (Inr b, r'))"

definition release ::
  "lease_config \<Rightarrow> redis_call \<Rightarrow> int \<Rightarrow> uuid \<Rightarrow> string \<Rightarrow> redis \<Rightarrow> (exn + bool) \<times> redis" where
  "release c call now event_id token r =
     (case redis_eval call (release_script now (key_for c event_id) token) r of
        (None, r') \<Rightarrow> (Inl (Exn RetryableProcessingError ''Redis release failed''), r')
      | (Some b, r') \<Rightarrow> (Inr b, r'))"

lemma key_for_inj: "key_for c i = key_for c j \<longleftrightarrow> i = j"
  by (simp add: key_for_def uuid_str_inj)

section \<open>The lease interface\<close>

text \<open>
  What the processor relies on, independently of Redis: for every event a lease is free, held by a
  token, or done; reserving takes a free lease and leaves any other alone; completing and releasing
  act only for the token that holds the lease; and time can only free a lease.
\<close>

datatype lease_view = Free | Held string | Done

text \<open>The operations that reach the store, each at its time; \<open>'x\<close> is what a reservation records
  besides its token. An operation whose request was lost does not appear; one whose reply was lost
  does.\<close>

datatype ('i, 'x) lease_op = Reserve 'i string 'x | Complete 'i string | Release 'i string

fun lease_step ::
  "(int \<Rightarrow> 'i \<Rightarrow> string \<Rightarrow> 'x \<Rightarrow> 's \<Rightarrow> reservation_state \<times> 's) \<Rightarrow>
   (int \<Rightarrow> 'i \<Rightarrow> string \<Rightarrow> 's \<Rightarrow> bool \<times> 's) \<Rightarrow> (int \<Rightarrow> 'i \<Rightarrow> string \<Rightarrow> 's \<Rightarrow> bool \<times> 's) \<Rightarrow>
   int \<times> ('i, 'x) lease_op \<Rightarrow> 's \<Rightarrow> bool \<times> 's" where
  "lease_step res com rel (now, Reserve i tok x) s =
     (case res now i tok x s of (a, s') \<Rightarrow> (a = RESERVED, s'))"
| "lease_step res com rel (now, Complete i tok) s = com now i tok s"
| "lease_step res com rel (now, Release i tok) s = rel now i tok s"

text \<open>A run, with the operations that were granted (reserved, completed or released).\<close>

fun lease_run ::
  "(int \<Rightarrow> 'i \<Rightarrow> string \<Rightarrow> 'x \<Rightarrow> 's \<Rightarrow> reservation_state \<times> 's) \<Rightarrow>
   (int \<Rightarrow> 'i \<Rightarrow> string \<Rightarrow> 's \<Rightarrow> bool \<times> 's) \<Rightarrow> (int \<Rightarrow> 'i \<Rightarrow> string \<Rightarrow> 's \<Rightarrow> bool \<times> 's) \<Rightarrow>
   (int \<times> ('i, 'x) lease_op) list \<Rightarrow> 's \<Rightarrow> (int \<times> ('i, 'x) lease_op) list \<times> 's" where
  "lease_run res com rel [] s = ([], s)"
| "lease_run res com rel (x # xs) s =
     (case lease_step res com rel x s of (granted, s') \<Rightarrow>
      case lease_run res com rel xs s' of (gs, s'') \<Rightarrow> (if granted then x # gs else gs, s''))"

fun op_subject :: "('i, 'x) lease_op \<Rightarrow> 'i" where
  "op_subject (Reserve i tok x) = i"
| "op_subject (Complete i tok) = i"
| "op_subject (Release i tok) = i"

fun op_token :: "('i, 'x) lease_op \<Rightarrow> string" where
  "op_token (Reserve i tok x) = tok"
| "op_token (Complete i tok) = tok"
| "op_token (Release i tok) = tok"

locale lease_store =
  fixes view :: "int \<Rightarrow> 's \<Rightarrow> 'i \<Rightarrow> lease_view"
    and res :: "int \<Rightarrow> 'i \<Rightarrow> string \<Rightarrow> 'x \<Rightarrow> 's \<Rightarrow> reservation_state \<times> 's"
    and com :: "int \<Rightarrow> 'i \<Rightarrow> string \<Rightarrow> 's \<Rightarrow> bool \<times> 's"
    and rel :: "int \<Rightarrow> 'i \<Rightarrow> string \<Rightarrow> 's \<Rightarrow> bool \<times> 's"
    and ttl :: int and done_ttl :: int
  assumes res_answer: "fst (res now i tok x s) =
      (case view now s i of Free \<Rightarrow> RESERVED | Held _ \<Rightarrow> PROCESSING | Done \<Rightarrow> COMPLETED)"
    and res_taken: "view now s i = Free \<Longrightarrow> now' < now + ttl \<Longrightarrow>
      view now' (snd (res now i tok x s)) i = Held tok"
    and res_busy: "view now s i \<noteq> Free \<Longrightarrow> snd (res now i tok x s) = s"
    and com_answer: "fst (com now i tok s) \<longleftrightarrow> view now s i = Held tok"
    and com_refused: "view now s i \<noteq> Held tok \<Longrightarrow> snd (com now i tok s) = s"
    and com_done: "view now s i = Held tok \<Longrightarrow> now' < now + done_ttl \<Longrightarrow>
      view now' (snd (com now i tok s)) i = Done"
    and rel_answer: "fst (rel now i tok s) \<longleftrightarrow> view now s i = Held tok"
    and rel_refused: "view now s i \<noteq> Held tok \<Longrightarrow> snd (rel now i tok s) = s"
    and rel_freed: "view now s i = Held tok \<Longrightarrow> view now' (snd (rel now i tok s)) i = Free"
    and frame: "i \<noteq> j \<Longrightarrow> view now (snd (res now' i tok x s)) j = view now s j \<and>
      view now (snd (com now' i tok s)) j = view now s j \<and>
      view now (snd (rel now' i tok s)) j = view now s j"
begin

text \<open>Operations of other tokens, before a deadline, neither take nor end a lease that is held until
  then, and none of those on the same subject is granted.\<close>

lemma step_keeps_lease:
  assumes held: "\<forall>t < deadline. view t s i = Held tok"
    and "fst x < deadline" "op_subject (snd x) = i \<Longrightarrow> op_token (snd x) \<noteq> tok"
    and step: "lease_step res com rel x s = (g, s')"
  shows "(\<forall>t < deadline. view t s' i = Held tok) \<and> (op_subject (snd x) = i \<longrightarrow> \<not> g)"
proof -
  obtain now op where x: "x = (now, op)" by force
  have now: "view now s i = Held tok" using held assms(2) x by simp
  show ?thesis
  proof (cases "op_subject op = i")
    case False
    have s': "s' = snd (lease_step res com rel (now, op) s)" using step x by simp
    have "view t s' i = view t s i" for t
      unfolding s' using False by (cases op) (auto simp: case_prod_beta' frame)
    with held False x show ?thesis by simp
  next
    case True
    with assms(3) x have "op_token op \<noteq> tok" by simp
    with True now step x res_answer [of now i _ _ s] res_busy [of now s i]
      com_answer [of now i _ s] com_refused [of now s i] rel_answer [of now i _ s]
      rel_refused [of now s i]
    have "s' = s \<and> \<not> g" by (cases op) (auto simp: case_prod_beta' prod_eq_iff)
    with held show ?thesis by simp
  qed
qed

lemma run_keeps_lease:
  assumes "\<forall>t < deadline. view t s i = Held tok"
    and "\<forall>x \<in> set xs. fst x < deadline \<and> (op_subject (snd x) = i \<longrightarrow> op_token (snd x) \<noteq> tok)"
    and "lease_run res com rel xs s = (gs, s')"
  shows "(\<forall>t < deadline. view t s' i = Held tok) \<and> (\<forall>x \<in> set gs. op_subject (snd x) \<noteq> i)"
  using assms
proof (induction xs arbitrary: s gs)
  case Nil
  then show ?case by simp
next
  case (Cons x xs)
  obtain g s1 where s1: "lease_step res com rel x s = (g, s1)" by force
  obtain gs1 where gs1: "lease_run res com rel xs s1 = (gs1, s')" "gs = (if g then x # gs1 else gs1)"
    using Cons.prems(3) s1 by (auto split: prod.splits)
  have "(\<forall>t < deadline. view t s1 i = Held tok) \<and> (op_subject (snd x) = i \<longrightarrow> \<not> g)"
    using Cons.prems(1,2) s1 by (intro step_keeps_lease [of deadline s i tok x]) auto
  with Cons.IH [OF _ _ gs1(1)] Cons.prems(2) gs1(2) show ?case by auto
qed

lemma holder_completes:
  assumes "view now s i = Free" and "\<forall>x \<in> set xs. fst x < now + ttl \<and>
      (op_subject (snd x) = i \<longrightarrow> op_token (snd x) \<noteq> tok)"
    and "lease_run res com rel xs (snd (res now i tok x0 s)) = (gs, s')" and "now' < now + ttl"
  shows "(\<forall>x \<in> set gs. op_subject (snd x) \<noteq> i) \<and> fst (com now' i tok s') \<and>
    (\<forall>t < now' + done_ttl. view t (snd (com now' i tok s')) i = Done)"
proof -
  have "\<forall>t < now + ttl. view t (snd (res now i tok x0 s)) i = Held tok"
    using res_taken [OF assms(1)] by blast
  from run_keeps_lease [OF this assms(2,3)]
  have "\<forall>t < now + ttl. view t s' i = Held tok" "\<forall>x \<in> set gs. op_subject (snd x) \<noteq> i" by auto
  with assms(4) com_answer com_done show ?thesis by blast
qed

end

section \<open>Redis implements the lease interface\<close>

definition lease_view_of :: "lease_config \<Rightarrow> int \<Rightarrow> redis \<Rightarrow> uuid \<Rightarrow> lease_view" where
  "lease_view_of c now r i =
     (case redis_get now (key_for c i) r of
        None \<Rightarrow> Free
      | Some (Processing tok g tp p off seen) \<Rightarrow> Held tok
      | Some (Completed g d) \<Rightarrow> Done)"

definition store_res ::
  "lease_config \<Rightarrow> int \<Rightarrow> uuid \<Rightarrow> string \<Rightarrow> (string \<times> int \<times> int) \<times> instant \<Rightarrow> redis \<Rightarrow>
   reservation_state \<times> redis" where
  "store_res c now i tok x r =
     (case reserve c Answered now i tok (fst x) (snd x) r of
        (Inr rv, r') \<Rightarrow> (rs_state rv, r') | (Inl e, r') \<Rightarrow> (PROCESSING, r'))"

definition store_com :: "lease_config \<Rightarrow> instant \<Rightarrow> int \<Rightarrow> uuid \<Rightarrow> string \<Rightarrow> redis \<Rightarrow> bool \<times> redis" where
  "store_com c completed_at now i tok r =
     (case complete c Answered now i tok completed_at r of
        (Inr b, r') \<Rightarrow> (b, r') | (Inl e, r') \<Rightarrow> (False, r'))"

definition store_rel :: "lease_config \<Rightarrow> int \<Rightarrow> uuid \<Rightarrow> string \<Rightarrow> redis \<Rightarrow> bool \<times> redis" where
  "store_rel c now i tok r =
     (case release c Answered now i tok r of
        (Inr b, r') \<Rightarrow> (b, r') | (Inl e, r') \<Rightarrow> (False, r'))"

lemmas store_defs = store_res_def store_com_def store_rel_def reserve_def complete_def release_def
  redis_eval_def reserve_script_def complete_script_def release_script_def lease_view_of_def
  redis_get_def redis_set_ex_def

interpretation redis_lease: lease_store "lease_view_of c" "store_res c" "store_com c d" "store_rel c"
  "lc_processing_ttl c" "lc_completed_ttl c"
  by unfold_locales
    (auto simp: store_defs Let_def key_for_inj split: prod.splits option.splits lease_value.splits if_splits)

section \<open>Concurrent clients\<close>

text \<open>One client call: the time at which it reaches Redis, what becomes of the request, and the
  method with its arguments (for \<open>complete\<close> the completion time is part of the call). The call is
  granted when the client is told that it holds, completed or released the reservation.\<close>

type_synonym client_call =
  "int \<times> redis_call \<times> instant \<times> (uuid, (string \<times> int \<times> int) \<times> instant) lease_op"

fun client_step :: "lease_config \<Rightarrow> client_call \<Rightarrow> redis \<Rightarrow> bool \<times> redis" where
  "client_step c (now, call, stamp, Reserve i tok x) r =
     (case reserve c call now i tok (fst x) (snd x) r of
        (Inr rv, r') \<Rightarrow> (rs_state rv = RESERVED, r') | (Inl e, r') \<Rightarrow> (False, r'))"
| "client_step c (now, call, stamp, Complete i tok) r =
     (case complete c call now i tok stamp r of (Inr b, r') \<Rightarrow> (b, r') | (Inl e, r') \<Rightarrow> (False, r'))"
| "client_step c (now, call, stamp, Release i tok) r =
     (case release c call now i tok r of (Inr b, r') \<Rightarrow> (b, r') | (Inl e, r') \<Rightarrow> (False, r'))"

fun client_run :: "lease_config \<Rightarrow> client_call list \<Rightarrow> redis \<Rightarrow> client_call list \<times> redis" where
  "client_run c [] r = ([], r)"
| "client_run c (x # xs) r =
     (case client_step c x r of (granted, r') \<Rightarrow>
      case client_run c xs r' of (gs, r'') \<Rightarrow> (if granted then x # gs else gs, r''))"

fun call_time :: "client_call \<Rightarrow> int" where "call_time (now, call, stamp, op) = now"
fun call_op :: "client_call \<Rightarrow> (uuid, (string \<times> int \<times> int) \<times> instant) lease_op" where
  "call_op (now, call, stamp, op) = op"

lemma client_step_lease_step:
  "client_step c (now, call, stamp, op) r =
     (if call = Request_lost then (False, r)
      else case lease_step (store_res c) (store_com c stamp) (store_rel c) (now, op) r of
             (g, r') \<Rightarrow> (g \<and> call = Answered, r'))"
  by (cases op; cases call)
    (auto simp: store_res_def store_com_def store_rel_def reserve_def complete_def release_def
      redis_eval_def Let_def split: prod.splits)

lemma client_step_keeps_lease:
  assumes "\<forall>t < deadline. lease_view_of c t r i = Held tok" and "call_time x < deadline"
    and "op_subject (call_op x) = i \<Longrightarrow> op_token (call_op x) \<noteq> tok"
    and "client_step c x r = (g, r')"
  shows "(\<forall>t < deadline. lease_view_of c t r' i = Held tok) \<and> (op_subject (call_op x) = i \<longrightarrow> \<not> g)"
proof -
  obtain now call stamp op where x: "x = (now, call, stamp, op)" by (cases x) auto
  obtain g1 r1 where s: "lease_step (store_res c) (store_com c stamp) (store_rel c) (now, op) r = (g1, r1)"
    by force
  have "(\<forall>t < deadline. lease_view_of c t r1 i = Held tok) \<and> (op_subject op = i \<longrightarrow> \<not> g1)"
    using redis_lease.step_keeps_lease [OF assms(1) _ _ s] assms(2,3) x by simp
  with assms(1,4) s x show ?thesis
    by (auto simp: client_step_lease_step simp del: client_step.simps split: if_splits)
qed

lemma client_run_keeps_lease:
  assumes "\<forall>t < deadline. lease_view_of c t r i = Held tok"
    and "\<forall>x \<in> set xs. call_time x < deadline \<and> (op_subject (call_op x) = i \<longrightarrow> op_token (call_op x) \<noteq> tok)"
    and "client_run c xs r = (gs, r')"
  shows "(\<forall>t < deadline. lease_view_of c t r' i = Held tok) \<and> (\<forall>x \<in> set gs. op_subject (call_op x) \<noteq> i)"
  using assms
proof (induction xs arbitrary: r gs)
  case Nil
  then show ?case by simp
next
  case (Cons x xs)
  obtain g r1 where r1: "client_step c x r = (g, r1)" by force
  obtain gs1 where gs1: "client_run c xs r1 = (gs1, r')" "gs = (if g then x # gs1 else gs1)"
    using Cons.prems(3) r1 by (auto split: prod.splits)
  have "(\<forall>t < deadline. lease_view_of c t r1 i = Held tok) \<and> (op_subject (call_op x) = i \<longrightarrow> \<not> g)"
    using Cons.prems(1,2) r1 by (intro client_step_keeps_lease [of deadline c r i tok x]) auto
  with Cons.IH [OF _ _ gs1(1)] Cons.prems(2) gs1(2) show ?case by auto
qed

lemma reserved_holds:
  assumes "reserve c Answered now i tok coord seen r = (Inr rv, r1)" "rs_state rv = RESERVED"
  shows "\<forall>t < now + lc_processing_ttl c. lease_view_of c t r1 i = Held tok"
proof -
  have res: "store_res c now i tok (coord, seen) r = (RESERVED, r1)"
    using assms by (simp add: store_res_def)
  then have "lease_view_of c now r i = Free"
    using redis_lease.res_answer [of c now i tok "(coord, seen)" r] by (auto split: lease_view.splits)
  with redis_lease.res_taken res show ?thesis by (metis snd_conv)
qed

definition demo_leases :: lease_config where
  "demo_leases = \<lparr>lc_key_prefix = ''event'', lc_consumer_group = ''g'', lc_processing_ttl = 300,
     lc_completed_ttl = 86400\<rparr>"

text \<open>C4: exclusivity of a reservation. Once a client has been told that it reserved an event, then
  for the whole processing lease, whatever calls other clients make with other tokens and however
  those calls are interleaved or fail, none of them is granted a reservation, a completion or a
  release of that event; and the holder's own \<open>complete\<close>, sent within the lease, returns true and
  leaves the event marked as completed for the completed lease, even after the holder's
  competitors have raced it.\<close>

theorem reservation_is_exclusive:
  assumes "reserve c Answered now i tok coord seen r = (Inr rv, r1)" and "rs_state rv = RESERVED"
    and "\<forall>x \<in> set xs. call_time x < now + lc_processing_ttl c \<and>
      (op_subject (call_op x) = i \<longrightarrow> op_token (call_op x) \<noteq> tok)"
    and "client_run c xs r1 = (gs, r2)" and "now' < now + lc_processing_ttl c"
    and "complete c Answered now' i tok stamp r2 = (answer, r3)"
  shows "(\<forall>x \<in> set gs. op_subject (call_op x) \<noteq> i) \<and> answer = Inr True \<and>
    (\<forall>t < now' + lc_completed_ttl c. lease_view_of c t r3 i = Done)"
proof -
  note kept = client_run_keeps_lease [OF reserved_holds [OF assms(1,2)] assms(3,4)]
  then have held: "lease_view_of c now' r2 i = Held tok" using assms(5) by blast
  have "store_com c stamp now' i tok r2 = (True, r3) \<and> answer = Inr True"
    using assms(6) redis_lease.com_answer [of c stamp now' i tok r2] held
    by (auto simp: store_com_def complete_def split: prod.splits option.splits)
  with kept redis_lease.com_done [OF held] show ?thesis by (metis snd_conv)
qed

theorem reservation_is_exclusive_witness:
  "let c = demo_leases;
       rival = (10, Answered, 0, Reserve 7 ''t2'' ((''orders'', 0, 5), 0));
       (first, r1) = reserve c Answered 0 7 ''t1'' (''orders'', 0, 5) 0 Map.empty;
       (gs, r2) = client_run c [rival] r1;
       (answer, r3) = complete c Answered 20 7 ''t1'' 0 r2
   in (\<exists>rv. first = Inr rv \<and> rs_state rv = RESERVED) \<and>
      (\<forall>x \<in> set gs. op_subject (call_op x) \<noteq> 7) \<and> answer = Inr True \<and>
      lease_view_of c 21 r3 7 = Done"
proof -
  let ?c = demo_leases
  let ?rival = "(10, Answered, 0, Reserve 7 ''t2'' ((''orders'', 0, 5), 0)) :: client_call"
  obtain rv r1 where r1: "reserve ?c Answered 0 7 ''t1'' (''orders'', 0, 5) 0 Map.empty = (Inr rv, r1)"
    and rv: "rs_state rv = RESERVED"
    by (simp add: reserve_def reserve_script_def redis_eval_def redis_get_def)
  obtain gs r2 where r2: "client_run ?c [?rival] r1 = (gs, r2)" by force
  obtain answer r3 where r3: "complete ?c Answered 20 7 ''t1'' 0 r2 = (answer, r3)" by force
  have "lc_processing_ttl ?c = 300" "lc_completed_ttl ?c = 86400" by (simp_all add: demo_leases_def)
  with reservation_is_exclusive [OF r1 rv _ r2 _ r3]
  show ?thesis by (simp add: r1 r2 r3 rv Let_def del: client_run.simps)
qed

end
