(* ===== verification/Contracts.thy ===== *)
theory Contracts
  imports Prelude
begin

text \<open>
  The versioned commerce event contracts of \<^verbatim>\<open>shared/commerce_common\<close>,
  \<^verbatim>\<open>shared/schemas\<close> and \<^verbatim>\<open>shared/kafka_metadata.py\<close>: the enumerations, one record per
  payload model, the envelope, the constraints and validators the models declare, the typed parser
  and the Kafka key and header rules.

  Decoding JSON text and reading typed field values out of it is done by \<open>json\<close> and by pydantic;
  the parser takes them as a \<open>codec\<close>. What this repository adds to them, the field constraints, the
  cross-field validators, the selection of the payload model and the consistency of the envelope,
  is defined here. Money is a rational number: a \<open>Decimal\<close> of at most 28 significant digits is
  exact, and the sums and differences the contracts form stay below that bound.
\<close>

section \<open>Enumerations\<close>

datatype event_type =
    USER_REGISTERED | SESSION_STARTED | PRODUCT_VIEWED | ADDED_TO_CART | CHECKOUT_STARTED
  | ORDER_CREATED | PAYMENT_COMPLETED | PAYMENT_FAILED | REFUND_REQUESTED | FRAUD_ALERT_CREATED

definition event_types :: "event_type list" where
  "event_types = [USER_REGISTERED, SESSION_STARTED, PRODUCT_VIEWED, ADDED_TO_CART,
     CHECKOUT_STARTED, ORDER_CREATED, PAYMENT_COMPLETED, PAYMENT_FAILED, REFUND_REQUESTED,
     FRAUD_ALERT_CREATED]"

fun event_type_value :: "event_type \<Rightarrow> string" where
  "event_type_value USER_REGISTERED = ''user_registered''"
| "event_type_value SESSION_STARTED = ''session_started''"
| "event_type_value PRODUCT_VIEWED = ''product_viewed''"
| "event_type_value ADDED_TO_CART = ''added_to_cart''"
| "event_type_value CHECKOUT_STARTED = ''checkout_started''"
| "event_type_value ORDER_CREATED = ''order_created''"
| "event_type_value PAYMENT_COMPLETED = ''payment_completed''"
| "event_type_value PAYMENT_FAILED = ''payment_failed''"
| "event_type_value REFUND_REQUESTED = ''refund_requested''"
| "event_type_value FRAUD_ALERT_CREATED = ''fraud_alert_created''"

text \<open>\<open>EventType(value)\<close>: the member with that value, or a \<open>ValueError\<close>.\<close>

definition event_type_of :: "string \<Rightarrow> event_type option" where
  "event_type_of s = find (\<lambda>t. event_type_value t = s) event_types"

lemma event_types_all: "t \<in> set event_types"
  by (cases t) (simp_all add: event_types_def)

lemma event_type_of_value [simp]: "event_type_of (event_type_value t) = Some t"
  by (cases t) (simp_all add: event_type_of_def event_types_def)

lemma event_type_of_Some: "event_type_of s = Some t \<longleftrightarrow> s = event_type_value t"
  by (auto simp: event_type_of_def find_Some_iff dest: sym) (metis event_type_of_value
      event_type_of_def find_Some_iff)

datatype customer_persona = NORMAL | INDECISIVE | DISCOUNT_HUNTER | SUSPICIOUS | BOT | ACCOUNT_TAKEOVER
datatype currency = TRY | EUR | USD | GBP
datatype payment_method = CREDIT_CARD | DEBIT_CARD | BANK_TRANSFER | DIGITAL_WALLET
datatype payment_failure_reason =
  INSUFFICIENT_FUNDS | DECLINED | EXPIRED_CARD | INVALID_DETAILS | PROCESSOR_ERROR | FRAUD_SUSPECTED
datatype fraud_decision = APPROVE | REVIEW | BLOCK
datatype device_type = DESKTOP | MOBILE | TABLET | BOT_DEVICE
datatype session_channel = WEB | MOBILE_APP | PARTNER | API

section \<open>Payload models\<close>

text \<open>An address field holds the text of the address, \<open>str(IPvAnyAddress)\<close>.\<close>

type_synonym money = rat

record user_registered_payload =
  ur_customer_id :: uuid
  ur_email_hash :: string
  ur_country_code :: string
  ur_persona :: customer_persona
  ur_registered_at :: instant

record session_started_payload =
  ss_session_id :: uuid
  ss_customer_id :: uuid
  ss_device_id :: uuid
  ss_device_type :: device_type
  ss_ip_address :: string
  ss_country_code :: string
  ss_channel :: session_channel
  ss_started_at :: instant

record product_viewed_payload =
  pv_session_id :: uuid
  pv_customer_id :: uuid
  pv_product_id :: uuid
  pv_category :: string
  pv_unit_price :: money
  pv_currency :: currency
  pv_quantity_available :: int

record added_to_cart_payload =
  ac_session_id :: uuid
  ac_customer_id :: uuid
  ac_cart_id :: uuid
  ac_product_id :: uuid
  ac_quantity :: int
  ac_unit_price :: money
  ac_currency :: currency

record checkout_started_payload =
  cs_session_id :: uuid
  cs_customer_id :: uuid
  cs_cart_id :: uuid
  cs_item_count :: int
  cs_subtotal :: money
  cs_discount_amount :: money
  cs_total_amount :: money
  cs_currency :: currency

record order_created_payload =
  oc_order_id :: uuid
  oc_customer_id :: uuid
  oc_session_id :: uuid
  oc_cart_id :: uuid
  oc_item_count :: int
  oc_subtotal :: money
  oc_discount_amount :: money
  oc_total_amount :: money
  oc_currency :: currency
  oc_shipping_country_code :: string
  oc_billing_country_code :: string
  oc_created_at :: instant

record payment_completed_payload =
  pc_payment_id :: uuid
  pc_order_id :: uuid
  pc_customer_id :: uuid
  pc_amount :: money
  pc_currency :: currency
  pc_payment_method :: payment_method
  pc_device_id :: uuid
  pc_ip_address :: string
  pc_country_code :: string
  pc_completed_at :: instant

record payment_failed_payload =
  pf_payment_id :: uuid
  pf_order_id :: uuid
  pf_customer_id :: uuid
  pf_amount :: money
  pf_currency :: currency
  pf_payment_method :: payment_method
  pf_failure_reason :: payment_failure_reason
  pf_device_id :: uuid
  pf_ip_address :: string
  pf_country_code :: string
  pf_failed_at :: instant

record refund_requested_payload =
  rr_refund_id :: uuid
  rr_payment_id :: uuid
  rr_order_id :: uuid
  rr_customer_id :: uuid
  rr_amount :: money
  rr_currency :: currency
  rr_reason :: string
  rr_requested_at :: instant

record fraud_alert_created_payload =
  fa_alert_id :: uuid
  fa_event_id :: uuid
  fa_customer_id :: "uuid option"
  fa_order_id :: "uuid option"
  fa_fraud_score :: money
  fa_decision :: fraud_decision
  fa_reasons :: "string list"
  fa_created_at :: instant

datatype payload =
    UserRegistered user_registered_payload
  | SessionStarted session_started_payload
  | ProductViewed product_viewed_payload
  | AddedToCart added_to_cart_payload
  | CheckoutStarted checkout_started_payload
  | OrderCreated order_created_payload
  | PaymentCompleted payment_completed_payload
  | PaymentFailed payment_failed_payload
  | RefundRequested refund_requested_payload
  | FraudAlertCreated fraud_alert_created_payload

text \<open>The registry maps an event type to the payload class; read backwards it is the class of a
  payload.\<close>

fun payload_type :: "payload \<Rightarrow> event_type" where
  "payload_type (UserRegistered p) = USER_REGISTERED"
| "payload_type (SessionStarted p) = SESSION_STARTED"
| "payload_type (ProductViewed p) = PRODUCT_VIEWED"
| "payload_type (AddedToCart p) = ADDED_TO_CART"
| "payload_type (CheckoutStarted p) = CHECKOUT_STARTED"
| "payload_type (OrderCreated p) = ORDER_CREATED"
| "payload_type (PaymentCompleted p) = PAYMENT_COMPLETED"
| "payload_type (PaymentFailed p) = PAYMENT_FAILED"
| "payload_type (RefundRequested p) = REFUND_REQUESTED"
| "payload_type (FraudAlertCreated p) = FRAUD_ALERT_CREATED"

section \<open>Field constraints and cross-field validators\<close>

text \<open>A \<open>NonEmptyString\<close> is stripped of surrounding white space by pydantic before the length
  constraint is checked; a field holds the stripped text.\<close>

definition non_empty_string :: "string \<Rightarrow> bool" where
  "non_empty_string s \<longleftrightarrow> length s \<ge> 1"

definition country_code :: "string \<Rightarrow> bool" where
  "country_code s \<longleftrightarrow> length s = 2 \<and> (\<forall>ch \<in> set s. of_char ch \<in> {65..(90 :: nat)})"

text \<open>\<open>validate_totals\<close> of checkouts and of orders.\<close>

definition validate_totals :: "money \<Rightarrow> money \<Rightarrow> money \<Rightarrow> bool" where
  "validate_totals subtotal discount_amount total_amount \<longleftrightarrow>
     \<not> discount_amount > subtotal \<and> total_amount = subtotal - discount_amount"

fun payload_valid :: "payload \<Rightarrow> bool" where
  "payload_valid (UserRegistered p) \<longleftrightarrow>
     non_empty_string (ur_email_hash p) \<and> country_code (ur_country_code p)"
| "payload_valid (SessionStarted p) \<longleftrightarrow> country_code (ss_country_code p)"
| "payload_valid (ProductViewed p) \<longleftrightarrow>
     non_empty_string (pv_category p) \<and> pv_unit_price p \<ge> 0 \<and> pv_quantity_available p \<ge> 0"
| "payload_valid (AddedToCart p) \<longleftrightarrow> ac_quantity p > 0 \<and> ac_unit_price p \<ge> 0"
| "payload_valid (CheckoutStarted p) \<longleftrightarrow>
     cs_item_count p > 0 \<and> cs_subtotal p \<ge> 0 \<and> cs_discount_amount p \<ge> 0 \<and> cs_total_amount p \<ge> 0 \<and>
     validate_totals (cs_subtotal p) (cs_discount_amount p) (cs_total_amount p)"
| "payload_valid (OrderCreated p) \<longleftrightarrow>
     oc_item_count p > 0 \<and> oc_subtotal p \<ge> 0 \<and> oc_discount_amount p \<ge> 0 \<and> oc_total_amount p \<ge> 0 \<and>
     country_code (oc_shipping_country_code p) \<and> country_code (oc_billing_country_code p) \<and>
     validate_totals (oc_subtotal p) (oc_discount_amount p) (oc_total_amount p)"
| "payload_valid (PaymentCompleted p) \<longleftrightarrow> pc_amount p > 0 \<and> country_code (pc_country_code p)"
| "payload_valid (PaymentFailed p) \<longleftrightarrow> pf_amount p > 0 \<and> country_code (pf_country_code p)"
| "payload_valid (RefundRequested p) \<longleftrightarrow> rr_amount p > 0 \<and> non_empty_string (rr_reason p)"
| "payload_valid (FraudAlertCreated p) \<longleftrightarrow>
     0 \<le> fa_fraud_score p \<and> fa_fraud_score p \<le> 100 \<and> fa_reasons p \<noteq> [] \<and>
     list_all non_empty_string (fa_reasons p)"

section \<open>The envelope\<close>

record envelope =
  ev_event_id :: uuid
  ev_event_type :: event_type
  ev_event_version :: int
  ev_event_time :: instant
  ev_produced_at :: instant
  ev_source :: string
  ev_correlation_id :: uuid
  ev_payload :: payload

definition MAX_PRODUCER_CLOCK_SKEW :: int where
  "MAX_PRODUCER_CLOCK_SKEW = 5 * 60 * 1000000"

definition CURRENT_EVENT_VERSION :: int where
  "CURRENT_EVENT_VERSION = 1"

definition validate_contract_consistency :: "envelope \<Rightarrow> bool" where
  "validate_contract_consistency e \<longleftrightarrow>
     payload_type (ev_payload e) = ev_event_type e \<and>
     \<not> ev_produced_at e < ev_event_time e - MAX_PRODUCER_CLOCK_SKEW"

section \<open>Parsing\<close>

datatype json =
  JNull | JBool bool | JInt int | JFloat rat | JStr string | JList "json list" | JObj "(string \<times> json) list"

text \<open>
  \<open>_EnvelopeInput\<close>: the envelope with its payload still a JSON object. The codec holds what
  \<open>json.loads\<close> and pydantic read from text: \<open>cx_loads\<close> decodes a document (None for a decoding
  error), \<open>cx_envelope\<close> reads the typed envelope fields and \<open>cx_payload\<close> the typed fields of the
  payload model of an event type (None when a field is missing, unknown or of the wrong type),
  \<open>cx_uuid\<close> is \<open>UUID(str(value))\<close>, and \<open>cx_header_order\<close> is the iteration order of the set of
  required headers, which Python leaves open.
\<close>

record envelope_input =
  ei_event_id :: uuid
  ei_event_type :: event_type
  ei_event_version :: int
  ei_event_time :: instant
  ei_produced_at :: instant
  ei_source :: string
  ei_correlation_id :: uuid
  ei_payload :: "json dict"

record codec =
  cx_loads :: "string \<Rightarrow> json option"
  cx_envelope :: "string \<Rightarrow> envelope_input option"
  cx_payload :: "event_type \<Rightarrow> json dict \<Rightarrow> payload option"
  cx_uuid :: "json \<Rightarrow> uuid option"
  cx_header_order :: "string list"

definition envelope_input_valid :: "envelope_input \<Rightarrow> bool" where
  "envelope_input_valid i \<longleftrightarrow> ei_event_version i > 0 \<and> non_empty_string (ei_source i)"

definition dict_get :: "'v dict \<Rightarrow> string \<Rightarrow> 'v option" where
  "dict_get d k = map_of d k"

definition envelope_of :: "envelope_input \<Rightarrow> payload \<Rightarrow> envelope" where
  "envelope_of i p =
     \<lparr>ev_event_id = ei_event_id i, ev_event_type = ei_event_type i,
      ev_event_version = ei_event_version i, ev_event_time = ei_event_time i,
      ev_produced_at = ei_produced_at i, ev_source = ei_source i,
      ev_correlation_id = ei_correlation_id i, ev_payload = p\<rparr>"

text \<open>\<open>parse_event\<close>; every failure is a \<open>ValueError\<close> (pydantic's \<open>ValidationError\<close> is one), and
  the message is kept where the source writes it.\<close>

definition parse_event :: "codec \<Rightarrow> string \<Rightarrow> string + envelope" where
  "parse_event cx data =
     (case cx_loads cx data of
        None \<Rightarrow> Inl ''malformed event JSON''
      | Some (JObj decoded) \<Rightarrow>
          (case dict_get decoded ''event_type'' of
             Some (JStr raw) \<Rightarrow>
               (case event_type_of raw of
                  None \<Rightarrow> Inl ''unknown event type''
                | Some t \<Rightarrow>
                    (case cx_envelope cx data of
                       None \<Rightarrow> Inl ''ValidationError''
                     | Some i \<Rightarrow>
                         if \<not> envelope_input_valid i then Inl ''ValidationError''
                         else case cx_payload cx t (ei_payload i) of
                                None \<Rightarrow> Inl ''ValidationError''
                              | Some p \<Rightarrow>
                                  if \<not> payload_valid p then Inl ''ValidationError''
                                  else if \<not> validate_contract_consistency (envelope_of i p)
                                    then Inl ''ValidationError''
                                  else Inr (envelope_of i p)))
           | _ \<Rightarrow> Inl ''unknown event type'')
      | Some _ \<Rightarrow> Inl ''event JSON must be an object'')"

text \<open>What the parser guarantees of every event it returns.\<close>

definition event_wf :: "envelope \<Rightarrow> bool" where
  "event_wf e \<longleftrightarrow> payload_valid (ev_payload e) \<and> validate_contract_consistency e \<and>
     ev_event_version e > 0 \<and> non_empty_string (ev_source e)"

lemma parse_event_wf: "parse_event cx data = Inr e \<Longrightarrow> event_wf e"
  by (auto simp: parse_event_def event_wf_def envelope_of_def envelope_input_valid_def
      split: option.splits json.splits if_splits)

section \<open>Kafka key and headers\<close>

definition digit_char :: "nat \<Rightarrow> char" where
  "digit_char d = ''0123456789'' ! d"

fun nat_str :: "nat \<Rightarrow> string" where
  "nat_str n = (if n < 10 then [digit_char n] else nat_str (n div 10) @ [digit_char (n mod 10)])"

declare nat_str.simps [simp del]

text \<open>\<open>str(int)\<close>.\<close>

definition int_str :: "int \<Rightarrow> string" where
  "int_str i = (if i < 0 then ''-'' @ nat_str (nat (- i)) else nat_str (nat i))"

definition REQUIRED_EVENT_HEADERS :: "string list" where
  "REQUIRED_EVENT_HEADERS =
     [''content_type'', ''correlation_id'', ''event_id'', ''event_type'', ''event_version'', ''source'']"

text \<open>\<open>getattr(payload, "customer_id", None)\<close>.\<close>

fun payload_customer :: "payload \<Rightarrow> uuid option" where
  "payload_customer (UserRegistered p) = Some (ur_customer_id p)"
| "payload_customer (SessionStarted p) = Some (ss_customer_id p)"
| "payload_customer (ProductViewed p) = Some (pv_customer_id p)"
| "payload_customer (AddedToCart p) = Some (ac_customer_id p)"
| "payload_customer (CheckoutStarted p) = Some (cs_customer_id p)"
| "payload_customer (OrderCreated p) = Some (oc_customer_id p)"
| "payload_customer (PaymentCompleted p) = Some (pc_customer_id p)"
| "payload_customer (PaymentFailed p) = Some (pf_customer_id p)"
| "payload_customer (RefundRequested p) = Some (rr_customer_id p)"
| "payload_customer (FraudAlertCreated p) = fa_customer_id p"

definition event_message_key :: "envelope \<Rightarrow> string" where
  "event_message_key e =
     uuid_str (case payload_customer (ev_payload e) of Some c \<Rightarrow> c | None \<Rightarrow> ev_correlation_id e)"

definition event_message_headers :: "envelope \<Rightarrow> (string \<times> string) list" where
  "event_message_headers e =
     [(''event_id'', uuid_str (ev_event_id e)),
      (''event_type'', event_type_value (ev_event_type e)),
      (''event_version'', int_str (ev_event_version e)),
      (''correlation_id'', uuid_str (ev_correlation_id e)),
      (''source'', ev_source e),
      (''content_type'', ''application/json'')]"

lemma digit_char_inj: "a < 10 \<Longrightarrow> b < 10 \<Longrightarrow> digit_char a = digit_char b \<Longrightarrow> a = b"
proof -
  have "distinct ''0123456789''" by simp
  then show "a < 10 \<Longrightarrow> b < 10 \<Longrightarrow> digit_char a = digit_char b \<Longrightarrow> a = b"
    by (simp add: digit_char_def nth_eq_iff_index_eq del: distinct.simps)
qed

definition digit_chars :: "char set" where
  "digit_chars = set ''0123456789''"

lemma digit_char_in: "d < 10 \<Longrightarrow> digit_char d \<in> digit_chars"
  unfolding digit_char_def digit_chars_def by (intro nth_mem) simp

lemma punctuation_no_digit: "CHR ''-'' \<notin> digit_chars" "CHR '':'' \<notin> digit_chars"
  by (simp_all add: digit_chars_def)

lemma nat_str_digits: "set (nat_str n) \<subseteq> digit_chars"
proof (induction n rule: nat_str.induct)
  case (1 n)
  with digit_char_in [of n] digit_char_in [of "n mod 10"] show ?case
    by (cases "n < 10") (simp_all add: nat_str.simps [of n])
qed

lemma nat_str_nonempty [simp]: "nat_str n \<noteq> []"
  by (subst nat_str.simps) simp

lemma nat_str_inj: "nat_str m = nat_str n \<Longrightarrow> m = n"
proof (induction m arbitrary: n rule: nat_str.induct)
  case (1 m)
  show ?case
  proof (cases "m < 10"; cases "n < 10")
    assume "m < 10" "n < 10"
    with 1(2) digit_char_inj show ?thesis by (simp add: nat_str.simps [of m] nat_str.simps [of n])
  next
    assume "m < 10" "\<not> n < 10"
    with 1(2) have "[] = nat_str (n div 10)" by (simp add: nat_str.simps [of m] nat_str.simps [of n])
    then show ?thesis by (metis nat_str_nonempty)
  next
    assume "\<not> m < 10" "n < 10"
    with 1(2) show ?thesis by (simp add: nat_str.simps [of m] nat_str.simps [of n])
  next
    assume big: "\<not> m < 10" "\<not> n < 10"
    with 1(2) have "nat_str (m div 10) = nat_str (n div 10)" "digit_char (m mod 10) = digit_char (n mod 10)"
      by (simp_all add: nat_str.simps [of m] nat_str.simps [of n])
    with 1(1) [OF big(1)] digit_char_inj [of "m mod 10" "n mod 10"]
    have "m div 10 = n div 10" "m mod 10 = n mod 10" by auto
    then show ?thesis by (metis div_mult_mod_eq)
  qed
qed

lemma int_str_chars: "set (int_str i) \<subseteq> insert (CHR ''-'') digit_chars"
  using nat_str_digits [of "nat i"] nat_str_digits [of "nat (- i)"] by (auto simp: int_str_def)

lemma int_str_no_colon: "CHR '':'' \<notin> set (int_str i)"
  using int_str_chars [of i] punctuation_no_digit(2) by auto

lemma int_str_inj: "int_str i = int_str j \<longleftrightarrow> i = j"
proof
  have minus: "hd (nat_str n) \<noteq> CHR ''-''" for n
    using nat_str_digits [of n] hd_in_set [of "nat_str n"] punctuation_no_digit(1)
    by (metis nat_str_nonempty subsetD)
  assume eq: "int_str i = int_str j"
  show "i = j"
  proof (cases "i < 0"; cases "j < 0")
    assume "i < 0" "j < 0"
    with eq have "nat (- i) = nat (- j)" by (auto simp: int_str_def dest: nat_str_inj)
    with \<open>i < 0\<close> \<open>j < 0\<close> show ?thesis by simp
  next
    assume "i < 0" "\<not> j < 0"
    with eq have "nat_str (nat j) = CHR ''-'' # nat_str (nat (- i))" by (simp add: int_str_def)
    with minus [of "nat j"] show ?thesis by simp
  next
    assume "\<not> i < 0" "j < 0"
    with eq have "nat_str (nat i) = CHR ''-'' # nat_str (nat (- j))" by (simp add: int_str_def)
    with minus [of "nat i"] show ?thesis by simp
  next
    assume "\<not> i < 0" "\<not> j < 0"
    with eq have "nat i = nat j" by (auto simp: int_str_def dest: nat_str_inj)
    with \<open>\<not> i < 0\<close> \<open>\<not> j < 0\<close> show ?thesis by simp
  qed
qed simp

end
