(* ===== verification/Bytes.thy ===== *)
theory Bytes
  imports Contracts
begin

text \<open>
  Python text and bytes as the processor uses them: strict UTF-8 decoding, slicing of a \<open>str\<close> by
  code points, and \<open>base64\<close>. A \<open>str\<close> is represented by its UTF-8 encoding, so decoding a byte
  string is the check that it is well-formed.
\<close>

section \<open>UTF-8\<close>

abbreviation byte_of :: "char \<Rightarrow> nat" where "byte_of \<equiv> of_char"

definition is_continuation :: "char \<Rightarrow> bool" where
  "is_continuation ch \<longleftrightarrow> 128 \<le> byte_of ch \<and> byte_of ch < 192"

definition between :: "nat \<Rightarrow> nat \<Rightarrow> char \<Rightarrow> bool" where
  "between lo hi ch \<longleftrightarrow> lo \<le> byte_of ch \<and> byte_of ch \<le> hi"

text \<open>The first byte fixes the length of a sequence and the range of its second byte (no overlong
  forms, no surrogates, nothing above U+10FFFF).\<close>

fun utf8_valid :: "string \<Rightarrow> bool" where
  "utf8_valid [] = True"
| "utf8_valid (b # bs) =
     (if byte_of b < 128 then utf8_valid bs
      else if between 194 223 b then
        (case bs of c1 # r \<Rightarrow> is_continuation c1 \<and> utf8_valid r | _ \<Rightarrow> False)
      else if between 224 239 b then
        (case bs of c1 # c2 # r \<Rightarrow>
           between (if byte_of b = 224 then 160 else 128) (if byte_of b = 237 then 159 else 191) c1 \<and>
           is_continuation c2 \<and> utf8_valid r | _ \<Rightarrow> False)
      else if between 240 244 b then
        (case bs of c1 # c2 # c3 # r \<Rightarrow>
           between (if byte_of b = 240 then 144 else 128) (if byte_of b = 244 then 143 else 191) c1 \<and>
           is_continuation c2 \<and> is_continuation c3 \<and> utf8_valid r | _ \<Rightarrow> False)
      else False)"

text \<open>\<open>raw.decode("utf-8")\<close>: None is a \<open>UnicodeDecodeError\<close>.\<close>

definition decode_utf8 :: "string \<Rightarrow> string option" where
  "decode_utf8 raw = (if utf8_valid raw then Some raw else None)"

text \<open>\<open>len(s)\<close> and \<open>s[:n]\<close> count code points: a code point starts at every byte that is not a
  continuation byte.\<close>

definition str_len :: "string \<Rightarrow> nat" where
  "str_len s = length (filter (\<lambda>ch. \<not> is_continuation ch) s)"

fun str_take :: "nat \<Rightarrow> string \<Rightarrow> string" where
  "str_take 0 s = []"
| "str_take n [] = []"
| "str_take (Suc n) (ch # s) =
     ch # takeWhile is_continuation s @ str_take n (dropWhile is_continuation s)"

lemma filter_takeWhile_neg [simp]: "filter (\<lambda>x. \<not> P x) (takeWhile P xs) = []"
  by (induction xs) auto

lemma str_len_take: "str_len (str_take n s) \<le> n"
proof (induction n s rule: str_take.induct)
  case (3 n ch s)
  then show ?case by (simp add: str_len_def)
qed (simp_all add: str_len_def)

lemma str_take_prefix: "\<exists>r. s = str_take n s @ r"
proof (induction n s rule: str_take.induct)
  case (3 n ch s)
  then obtain r where "dropWhile is_continuation s = str_take n (dropWhile is_continuation s) @ r" by auto
  then have "s = takeWhile is_continuation s @ str_take n (dropWhile is_continuation s) @ r"
    by (metis takeWhile_dropWhile_id)
  then show ?case by auto
qed simp_all

lemma str_take_short:
  "str_len s \<le> n \<Longrightarrow> (s = [] \<or> \<not> is_continuation (hd s)) \<Longrightarrow> str_take n s = s"
proof (induction n s rule: str_take.induct)
  case (1 s)
  then show ?case by (cases s) (auto simp: str_len_def)
next
  case (2 n)
  show ?case by simp
next
  case (3 n ch s)
  let ?d = "dropWhile is_continuation s"
  have "filter (\<lambda>ch. \<not> is_continuation ch) s = filter (\<lambda>ch. \<not> is_continuation ch) ?d"
    by (induction s) auto
  with "3.prems" have "str_len ?d \<le> n" by (simp add: str_len_def)
  moreover have "?d = [] \<or> \<not> is_continuation (hd ?d)"
    using hd_dropWhile [of is_continuation s] by blast
  ultimately show ?case using "3.IH" by simp
qed

section \<open>Base 64\<close>

definition b64_alphabet :: string where
  "b64_alphabet = ''ABCDEFGHIJKLMNOPQRSTUVWXYZabcdefghijklmnopqrstuvwxyz0123456789+/''"

definition b64_char :: "nat \<Rightarrow> char" where
  "b64_char v = b64_alphabet ! v"

fun b64encode :: "string \<Rightarrow> string" where
  "b64encode [] = []"
| "b64encode [a] =
     (let n = byte_of a in [b64_char (n div 4), b64_char (n mod 4 * 16), CHR ''='', CHR ''=''])"
| "b64encode [a, b] =
     (let n = byte_of a * 256 + byte_of b
      in [b64_char (n div 1024), b64_char (n div 16 mod 64), b64_char (n mod 16 * 4), CHR ''=''])"
| "b64encode (a # b # c # r) =
     (let n = byte_of a * 65536 + byte_of b * 256 + byte_of c
      in b64_char (n div 262144) # b64_char (n div 4096 mod 64) # b64_char (n div 64 mod 64) #
         b64_char (n mod 64) # b64encode r)"

text \<open>The decoder a reader of a dead letter applies; it serves as the specification of the encoding.\<close>

fun index_of :: "char list \<Rightarrow> char \<Rightarrow> nat" where
  "index_of [] x = 0"
| "index_of (y # ys) x = (if x = y then 0 else Suc (index_of ys x))"

definition b64_val :: "char \<Rightarrow> nat" where
  "b64_val ch = index_of b64_alphabet ch"

fun b64decode :: "string \<Rightarrow> string option" where
  "b64decode [] = Some []"
| "b64decode (w # x # y # z # r) =
     (if y = CHR ''='' \<and> z = CHR ''='' \<and> r = [] then
        Some [char_of (b64_val w * 4 + b64_val x div 16)]
      else if z = CHR ''='' \<and> r = [] then
        (let n = b64_val w * 1024 + b64_val x * 16 + b64_val y div 4
         in Some [char_of (n div 256), char_of (n mod 256)])
      else
        (let n = b64_val w * 262144 + b64_val x * 4096 + b64_val y * 64 + b64_val z
         in map_option (\<lambda>t. char_of (n div 65536) # char_of (n div 256 mod 256) # char_of (n mod 256) # t)
              (b64decode r)))"
| "b64decode _ = None"

lemma index_of_nth: "distinct ys \<Longrightarrow> i < length ys \<Longrightarrow> index_of ys (ys ! i) = i"
  by (induction ys arbitrary: i) (auto simp: nth_Cons' in_set_conv_nth)

lemma length_b64_alphabet: "length b64_alphabet = 64"
  by (simp add: b64_alphabet_def)

lemma distinct_b64_alphabet: "distinct b64_alphabet"
  by (simp add: b64_alphabet_def)

lemma b64_val_char [simp]: "v < 64 \<Longrightarrow> b64_val (b64_char v) = v"
  by (simp add: b64_val_def b64_char_def index_of_nth distinct_b64_alphabet length_b64_alphabet)

lemma pad_not_in_alphabet: "CHR ''='' \<notin> set b64_alphabet"
  by (simp add: b64_alphabet_def)

lemma b64_char_not_pad [simp]: "v < 64 \<Longrightarrow> b64_char v \<noteq> CHR ''=''"
  using pad_not_in_alphabet nth_mem [of v b64_alphabet] length_b64_alphabet
  by (metis b64_char_def)

lemma char_of_low_byte: "n mod 256 = byte_of ch \<Longrightarrow> char_of n = ch"
  by (metis char_of_mod_256 char_of_char)

lemma byte_bound: "byte_of ch < (256 :: nat)"
  using of_char_mod_256 [of ch] by (metis mod_less_divisor zero_less_numeral)

text \<open>Splitting a number into digits of mixed radix and putting it together again.\<close>

lemma radix_split: "n div (a * b) * (a * b) + n div b mod a * b + n mod b = (n :: nat)"
proof -
  have "n div (a * b) = n div b div a" by (metis div_mult2_eq mult.commute)
  then have "n div (a * b) * (a * b) + n div b mod a * b = (n div b div a * a + n div b mod a) * b"
    by (simp only: distrib_right mult.assoc)
  then show ?thesis by simp
qed

lemma radix_join: "r < m \<Longrightarrow> (q * m + r) div m = (q :: nat)" "r < m \<Longrightarrow> (q * m + r) mod m = (r :: nat)"
  by simp_all

lemma b64_round_trip: "b64decode (b64encode s) = Some s"
proof (induction s rule: b64encode.induct)
  case 1
  show ?case by simp
next
  case (2 a)
  have "byte_of a div 4 < 64" using byte_bound [of a] by (simp add: less_mult_imp_div_less)
  moreover have "(byte_of a :: nat) div 4 * 4 + byte_of a mod 4 = byte_of a" by simp
  ultimately show ?case by (simp add: Let_def)
next
  case (3 a b)
  define n where "n = byte_of a * 256 + byte_of b"
  have "n < 65536" using byte_bound [of a] byte_bound [of b] unfolding n_def by linarith
  then have "n div 1024 < 64" by (simp add: less_mult_imp_div_less)
  moreover have "n div 1024 * 1024 + n div 16 mod 64 * 16 + n mod 16 = n"
    using radix_split [of n 64 16] by simp
  moreover have "n div 256 = byte_of a" "n mod 256 = byte_of b"
    unfolding n_def using byte_bound [of b] by (rule radix_join)+
  ultimately show ?case by (simp add: Let_def char_of_low_byte flip: n_def)
next
  case (4 a b c r)
  define l where "l = byte_of b * 256 + byte_of c"
  define n where "n = byte_of a * 65536 + l"
  have n: "byte_of a * 65536 + byte_of b * 256 + byte_of c = n" by (simp add: n_def l_def)
  have l: "l < 65536" using byte_bound [of b] byte_bound [of c] unfolding l_def by linarith
  then have "n < 16777216" using byte_bound [of a] unfolding n_def by linarith
  then have "n div 262144 < 64" by (simp add: less_mult_imp_div_less)
  moreover have "n mod 4096 = n div 64 mod 64 * 64 + n mod 64"
    using mod_mult2_eq [of n 64 64] by simp
  then have "n div 262144 * 262144 + n div 4096 mod 64 * 4096 + n div 64 mod 64 * 64 + n mod 64 = n"
    using radix_split [of n 64 4096] by simp
  moreover have "n div 65536 = byte_of a" "n mod 65536 = l"
    unfolding n_def using l by (rule radix_join)+
  moreover have "l div 256 = byte_of b" "l mod 256 = byte_of c"
    unfolding l_def using byte_bound [of c] by (rule radix_join)+
  moreover have "n div 256 mod 256 = l div 256" "n mod 256 = l mod 256"
    using \<open>n mod 65536 = l\<close> mod_mult2_eq [of n 256 256] by (auto simp: mod_mult2_eq)
  ultimately show ?case using 4 by (simp add: Let_def n char_of_low_byte)
qed

end
