(* ===== verification/Models.thy ===== *)
theory Models
  imports Bytes Retry
begin

text \<open>
  The processor's internal models, \<^verbatim>\<open>services/event_processor/models.py\<close>. The integer counters
  of \<open>RunSummary\<close> are one function from counter names to values; its \<open>Counter\<close> fields are functions
  too, zero where a key was never counted.
\<close>

datatype validation_category =
    MISSING_VALUE | MISSING_KEY | MALFORMED_JSON | UNKNOWN_EVENT_TYPE | CONTRACT_VALIDATION_FAILED
  | MISSING_HEADER | DUPLICATE_HEADER | INVALID_HEADER_ENCODING | INVALID_CONTENT_TYPE
  | HEADER_BODY_MISMATCH | KEY_BODY_MISMATCH | UNSUPPORTED_EVENT_VERSION
  | PERMANENT_PROCESSING_ERROR | RETRY_EXHAUSTED | MISSING_BUSINESS_DEPENDENCY
  | DATABASE_INTEGRITY_ERROR

fun category_value :: "validation_category \<Rightarrow> string" where
  "category_value MISSING_VALUE = ''missing_value''"
| "category_value MISSING_KEY = ''missing_key''"
| "category_value MALFORMED_JSON = ''malformed_json''"
| "category_value UNKNOWN_EVENT_TYPE = ''unknown_event_type''"
| "category_value CONTRACT_VALIDATION_FAILED = ''contract_validation_failed''"
| "category_value MISSING_HEADER = ''missing_header''"
| "category_value DUPLICATE_HEADER = ''duplicate_header''"
| "category_value INVALID_HEADER_ENCODING = ''invalid_header_encoding''"
| "category_value INVALID_CONTENT_TYPE = ''invalid_content_type''"
| "category_value HEADER_BODY_MISMATCH = ''header_body_mismatch''"
| "category_value KEY_BODY_MISMATCH = ''key_body_mismatch''"
| "category_value UNSUPPORTED_EVENT_VERSION = ''unsupported_event_version''"
| "category_value PERMANENT_PROCESSING_ERROR = ''permanent_processing_error''"
| "category_value RETRY_EXHAUSTED = ''retry_exhausted''"
| "category_value MISSING_BUSINESS_DEPENDENCY = ''missing_business_dependency''"
| "category_value DATABASE_INTEGRITY_ERROR = ''database_integrity_error''"

definition is_category_char :: "char \<Rightarrow> bool" where
  "is_category_char ch \<longleftrightarrow> ch = CHR ''_'' \<or> between 97 122 ch"

lemma category_value_chars: "list_all is_category_char (category_value c)"
  by (cases c) (simp_all add: is_category_char_def between_def)

lemma category_value_no_colon: "CHR '':'' \<notin> set (category_value c)"
proof
  assume "CHR '':'' \<in> set (category_value c)"
  then have "is_category_char (CHR '':'')" using category_value_chars by (auto simp: list_all_iff)
  then show False by (simp add: is_category_char_def between_def)
qed

lemma category_value_inj: "category_value c = category_value d \<longleftrightarrow> c = d"
  by (cases c; cases d; simp)

datatype processing_status = PROCESSED | DUPLICATE | DLQ | UNRESOLVED

record consumed_message =
  cm_topic :: string
  cm_partition :: int
  cm_offset :: int
  cm_timestamp :: "instant option"
  cm_key :: "string option"
  cm_value :: "string option"
  cm_headers :: "(string \<times> string option) list"

definition cm_pkey :: "consumed_message \<Rightarrow> pkey" where
  "cm_pkey m = (cm_topic m, cm_partition m)"

record validation_error_info =
  vi_category :: validation_category
  vi_message :: string
  vi_error_type :: string
  vi_event_id :: "uuid option"
  vi_event_type :: "string option"
  vi_correlation_id :: "uuid option"
  vi_anomaly_type :: "string option"

record processing_context =
  cn_topic :: string
  cn_partition :: int
  cn_offset :: int
  cn_consumer_group :: string
  cn_processor_instance_id :: string
  cn_attempt :: nat

record processing_outcome =
  po_status :: processing_status
  po_attempts :: nat
  po_event_type :: "event_type option"

definition terminal :: "processing_outcome \<Rightarrow> bool" where
  "terminal po \<longleftrightarrow> po_status po \<noteq> UNRESOLVED"

datatype summary_counter =
    Consumed_records | Valid_records | Processed_records | Duplicate_records | Dlq_records
  | Retries | Retry_exhausted_count | Kafka_errors | Redis_errors | Commit_successes
  | Commit_failures | Processing_failures | Unresolved_records | Database_transactions_started
  | Database_transactions_committed | Database_transactions_rolled_back
  | Already_persisted_events | Database_retries | Database_errors | Missing_dependency_errors
  | Integrity_failures | Slow_database_operations | Fraud_evaluations | Approve_decisions
  | Review_decisions | Block_decisions | Fraud_context_failures | Fraud_integrity_failures
  | Fraud_alerts_created | Fraud_outbox_rows_created

record run_summary =
  su_count :: "summary_counter \<Rightarrow> int"
  su_latency_total_ms :: rat
  su_latency_max_ms :: rat
  su_validation_failures :: "validation_category \<Rightarrow> int"
  su_processed_events :: "event_type \<Rightarrow> int"
  su_rows_written_by_table :: "string \<Rightarrow> int"
  su_matched_rules :: "string \<Rightarrow> int"

definition new_run_summary :: run_summary where
  "new_run_summary =
     \<lparr>su_count = (\<lambda>_. 0), su_latency_total_ms = 0, su_latency_max_ms = 0,
      su_validation_failures = (\<lambda>_. 0), su_processed_events = (\<lambda>_. 0),
      su_rows_written_by_table = (\<lambda>_. 0), su_matched_rules = (\<lambda>_. 0)\<rparr>"

definition incr :: "summary_counter \<Rightarrow> run_summary \<Rightarrow> run_summary" where
  "incr k s = s\<lparr>su_count := (su_count s)(k := su_count s k + 1)\<rparr>"

definition record_latency :: "rat \<Rightarrow> run_summary \<Rightarrow> run_summary" where
  "record_latency ms s =
     s\<lparr>su_latency_total_ms := su_latency_total_ms s + ms,
       su_latency_max_ms := max (su_latency_max_ms s) ms\<rparr>"

lemma su_count_incr [simp]: "su_count (incr k s) = (su_count s)(k := su_count s k + 1)"
  by (simp add: incr_def)

lemma incr_frame [simp]:
  "su_validation_failures (incr k s) = su_validation_failures s"
  "su_processed_events (incr k s) = su_processed_events s"
  "su_rows_written_by_table (incr k s) = su_rows_written_by_table s"
  "su_matched_rules (incr k s) = su_matched_rules s"
  "su_latency_total_ms (incr k s) = su_latency_total_ms s"
  "su_latency_max_ms (incr k s) = su_latency_max_ms s"
  by (simp_all add: incr_def)

lemma su_count_record_latency [simp]: "su_count (record_latency ms s) = su_count s"
  by (simp add: record_latency_def)

end
