(* ===== verification/Validation.thy ===== *)
theory Validation
  imports Models
begin

text \<open>
  \<^verbatim>\<open>services/event_processor/validation.py\<close>: a record is checked for its Kafka metadata, its
  headers are decoded, its body is parsed against the shared contracts, and headers and key are
  compared with the body. The first check that fails decides the error category.
\<close>

section \<open>Building errors\<close>

definition validation_error ::
  "validation_category \<Rightarrow> string \<Rightarrow> uuid option \<times> string option \<times> uuid option \<Rightarrow> string option \<Rightarrow>
   validation_error_info" where
  "validation_error category message hints anomaly =
     (case hints of (event_id, event_type, correlation_id) \<Rightarrow>
        \<lparr>vi_category = category, vi_message = str_take 512 message,
         vi_error_type = ''PermanentMessageError'', vi_event_id = event_id,
         vi_event_type = event_type, vi_correlation_id = correlation_id,
         vi_anomaly_type = anomaly\<rparr>)"

definition safe_uuid :: "codec \<Rightarrow> json option \<Rightarrow> uuid option" where
  "safe_uuid cx value = (case value of None \<Rightarrow> cx_uuid cx JNull | Some v \<Rightarrow> cx_uuid cx v)"

definition body_hints :: "codec \<Rightarrow> string \<Rightarrow> uuid option \<times> string option \<times> uuid option" where
  "body_hints cx value =
     (case cx_loads cx value of
        Some (JObj decoded) \<Rightarrow>
          (safe_uuid cx (dict_get decoded ''event_id''),
           (case dict_get decoded ''event_type'' of Some (JStr t) \<Rightarrow> Some t | _ \<Rightarrow> None),
           safe_uuid cx (dict_get decoded ''correlation_id''))
      | _ \<Rightarrow> (None, None, None))"

section \<open>Headers\<close>

type_synonym grouped = "(string \<times> string option list) list"

definition group_header :: "string \<times> string option \<Rightarrow> grouped \<Rightarrow> grouped" where
  "group_header = (\<lambda>(name, value) g.
     AList.update name ((case map_of g name of None \<Rightarrow> [] | Some vs \<Rightarrow> vs) @ [value]) g)"

definition group_headers :: "(string \<times> string option) list \<Rightarrow> grouped" where
  "group_headers headers = fold group_header headers []"

definition anomaly_of :: "grouped \<Rightarrow> string option" where
  "anomaly_of g =
     (case map_of g ''synthetic_anomaly'' of
        Some (Some raw # _) \<Rightarrow> decode_utf8 raw
      | _ \<Rightarrow> None)"

text \<open>Decoding the required headers, in the iteration order of the set; Inl holds the message of the
  first header that has no value or is not UTF-8.\<close>

fun decode_headers :: "grouped \<Rightarrow> string list \<Rightarrow> string + (string \<times> string) list" where
  "decode_headers g [] = Inr []"
| "decode_headers g (name # names) =
     (case map_of g name of
        Some (Some raw # _) \<Rightarrow>
          (case decode_utf8 raw of
             None \<Rightarrow> Inl (''header '' @ name @ '' is not UTF-8'')
           | Some v \<Rightarrow>
               (case decode_headers g names of
                  Inl msg \<Rightarrow> Inl msg
                | Inr hs \<Rightarrow> Inr ((name, v) # hs)))
      | _ \<Rightarrow> Inl (''header '' @ name @ '' has no value''))"

definition expected_headers :: "envelope \<Rightarrow> (string \<times> string) list" where
  "expected_headers e =
     [(''event_id'', uuid_str (ev_event_id e)),
      (''event_type'', event_type_value (ev_event_type e)),
      (''event_version'', int_str (ev_event_version e)),
      (''correlation_id'', uuid_str (ev_correlation_id e)),
      (''source'', ev_source e)]"

section \<open>Validating a record\<close>

text \<open>The checks on the decoded document that precede the contract parser.\<close>

definition precheck_body :: "json \<Rightarrow> (validation_category \<times> string) option" where
  "precheck_body decoded =
     (case decoded of
        JObj d \<Rightarrow>
          (case dict_get d ''event_type'' of
             Some (JStr raw) \<Rightarrow>
               if raw \<notin> set (map event_type_value event_types)
               then Some (UNKNOWN_EVENT_TYPE, ''unknown event type'')
               else (case dict_get d ''event_version'' of
                       Some (JInt v) \<Rightarrow>
                         if v > CURRENT_EVENT_VERSION
                         then Some (UNSUPPORTED_EVENT_VERSION,
                                    ''event version '' @ int_str v @ '' is unsupported'')
                         else None
                     | _ \<Rightarrow> None)
           | _ \<Rightarrow> Some (UNKNOWN_EVENT_TYPE, ''unknown event type''))
      | _ \<Rightarrow> None)"

text \<open>The checks on a parsed event against the decoded headers and the key.\<close>

definition check_event ::
  "(string \<times> string) list \<Rightarrow> string \<Rightarrow> string option \<Rightarrow> envelope \<Rightarrow> validation_error_info + envelope" where
  "check_event headers key anomaly e =
     (let hints = (Some (ev_event_id e), Some (event_type_value (ev_event_type e)),
                   Some (ev_correlation_id e))
      in if ev_event_version e \<noteq> CURRENT_EVENT_VERSION then
           Inl (validation_error UNSUPPORTED_EVENT_VERSION
                  (''event version '' @ int_str (ev_event_version e) @ '' is unsupported'') hints anomaly)
         else case find (\<lambda>(name, expected). map_of headers name \<noteq> Some expected) (expected_headers e) of
                Some (name, _) \<Rightarrow>
                  Inl (validation_error HEADER_BODY_MISMATCH
                         (name @ '' header does not match body'') hints anomaly)
              | None \<Rightarrow>
                  if key \<noteq> event_message_key e then
                    Inl (validation_error KEY_BODY_MISMATCH
                           ''Kafka key does not match body ordering key'' hints anomaly)
                  else Inr e)"

definition validate_body ::
  "codec \<Rightarrow> (string \<times> string) list \<Rightarrow> string \<Rightarrow> string \<Rightarrow> string option \<Rightarrow>
   validation_error_info + envelope" where
  "validate_body cx headers key value anomaly =
     (let hints = body_hints cx value
      in case cx_loads cx value of
           None \<Rightarrow> Inl (validation_error MALFORMED_JSON ''malformed event JSON'' hints anomaly)
         | Some decoded \<Rightarrow>
             (case precheck_body decoded of
                Some (category, message) \<Rightarrow> Inl (validation_error category message hints anomaly)
              | None \<Rightarrow>
                  (case parse_event cx value of
                     Inl _ \<Rightarrow>
                       Inl (validation_error CONTRACT_VALIDATION_FAILED
                              ''event contract validation failed'' hints anomaly)
                   | Inr e \<Rightarrow> check_event headers key anomaly e)))"

definition no_hints :: "uuid option \<times> string option \<times> uuid option" where
  "no_hints = (None, None, None)"

definition validate_message :: "codec \<Rightarrow> consumed_message \<Rightarrow> validation_error_info + envelope" where
  "validate_message cx m =
     (case cm_value m of
        None \<Rightarrow> Inl (validation_error MISSING_VALUE ''Kafka value is required'' no_hints None)
      | Some value \<Rightarrow>
     (case cm_key m of
        None \<Rightarrow> Inl (validation_error MISSING_KEY ''Kafka key is required'' no_hints None)
      | Some key \<Rightarrow>
          let g = group_headers (cm_headers m);
              anomaly = anomaly_of g;
              missing = filter (\<lambda>name. map_of g name = None) REQUIRED_EVENT_HEADERS;
              duplicate = filter (\<lambda>name. length (the (map_of g name)) \<noteq> 1) REQUIRED_EVENT_HEADERS
          in if missing \<noteq> [] then
               Inl (validation_error MISSING_HEADER
                      (''missing required header: '' @ hd missing) no_hints anomaly)
             else if duplicate \<noteq> [] then
               Inl (validation_error DUPLICATE_HEADER
                      (''duplicate required header: '' @ hd duplicate) no_hints anomaly)
             else case decode_headers g (cx_header_order cx) of
                    Inl message \<Rightarrow>
                      Inl (validation_error INVALID_HEADER_ENCODING message no_hints anomaly)
                  | Inr headers \<Rightarrow>
                      if map_of headers ''content_type'' \<noteq> Some ''application/json'' then
                        Inl (validation_error INVALID_CONTENT_TYPE
                               ''content_type must be application/json'' no_hints anomaly)
                      else validate_body cx headers key value anomaly))"

section \<open>Facts about grouping and decoding\<close>

lemma map_of_group_headers:
  "map_of (group_headers hs) name =
     (let vs = map snd (filter (\<lambda>(n, v). n = name) hs) in if vs = [] then None else Some vs)"
proof (induction hs rule: rev_induct)
  case Nil
  show ?case by (simp add: group_headers_def)
next
  case (snoc x hs)
  obtain n v where x: "x = (n, v)" by force
  have "group_headers (hs @ [x]) = group_header x (group_headers hs)" by (simp add: group_headers_def)
  with snoc x show ?case by (auto simp: group_header_def Let_def)
qed

lemma decode_headers_Inr:
  assumes "decode_headers g names = Inr hs" "name \<in> set names"
  shows "\<exists>raw rest. map_of g name = Some (Some raw # rest) \<and> utf8_valid raw \<and> map_of hs name = Some raw"
  using assms
proof (induction names arbitrary: hs)
  case (Cons n names)
  from Cons.prems(1) obtain raw rest hs'
    where n: "map_of g n = Some (Some raw # rest)" "utf8_valid raw" "decode_headers g names = Inr hs'"
      "hs = (n, raw) # hs'"
    by (auto simp: decode_utf8_def split: option.splits list.splits sum.splits if_splits)
  with Cons.IH [OF n(3)] Cons.prems(2) show ?case by auto
qed simp

lemma decode_headers_ok:
  assumes "\<forall>name \<in> set names. \<exists>raw rest. map_of g name = Some (Some raw # rest) \<and> utf8_valid raw"
  shows "\<exists>hs. decode_headers g names = Inr hs"
  using assms by (induction names) (auto simp: decode_utf8_def)

lemma find_None_all: "find P xs = None \<longleftrightarrow> (\<forall>x \<in> set xs. \<not> P x)"
  by (simp add: find_None_iff2 find_None_iff) (metis find_None_iff)

lemma validate_body_Inr:
  assumes "validate_body cx headers key value anomaly = Inr e"
  shows "parse_event cx value = Inr e \<and> ev_event_version e = CURRENT_EVENT_VERSION \<and>
    key = event_message_key e \<and> (\<forall>(n, v) \<in> set (expected_headers e). map_of headers n = Some v)"
proof -
  obtain e' where "parse_event cx value = Inr e'" "check_event headers key anomaly e' = Inr e"
    using assms by (auto simp: validate_body_def Let_def split: option.splits sum.splits)
  then show ?thesis
    by (fastforce simp: check_event_def Let_def find_None_all split: if_splits option.splits prod.splits)
qed

section \<open>Properties\<close>

lemma required_in_events: "n \<in> set (map fst (event_message_headers e)) \<longleftrightarrow> n \<in> set REQUIRED_EVENT_HEADERS"
  by (auto simp: event_message_headers_def REQUIRED_EVENT_HEADERS_def)

lemma validate_message_Inr:
  assumes "validate_message cx m = Inr e"
  obtains body key hs where "cm_value m = Some body" "cm_key m = Some key"
    "\<forall>name \<in> set REQUIRED_EVENT_HEADERS.
       \<exists>v. map_of (group_headers (cm_headers m)) name = Some [v]"
    "decode_headers (group_headers (cm_headers m)) (cx_header_order cx) = Inr hs"
    "map_of hs ''content_type'' = Some ''application/json''"
    "validate_body cx hs key body (anomaly_of (group_headers (cm_headers m))) = Inr e"
proof -
  let ?g = "group_headers (cm_headers m)"
  obtain body key where vk: "cm_value m = Some body" "cm_key m = Some key"
    using assms by (auto simp: validate_message_def split: option.splits)
  have miss: "filter (\<lambda>name. map_of ?g name = None) REQUIRED_EVENT_HEADERS = []"
    and dup: "filter (\<lambda>name. length (the (map_of ?g name)) \<noteq> 1) REQUIRED_EVENT_HEADERS = []"
    using assms vk by (auto simp: validate_message_def Let_def simp del: filter_empty_conv split: if_splits)
  have one: "\<exists>v. map_of ?g name = Some [v]" if "name \<in> set REQUIRED_EVENT_HEADERS" for name
    using miss dup that by (cases "map_of ?g name") (auto simp: filter_empty_conv length_Suc_conv)
  obtain hs where "decode_headers ?g (cx_header_order cx) = Inr hs"
    "map_of hs ''content_type'' = Some ''application/json''"
    "validate_body cx hs key body (anomaly_of ?g) = Inr e"
    using assms vk miss dup
    by (auto simp: validate_message_def Let_def simp del: filter_empty_conv
        split: if_splits sum.splits)
  with that vk one show thesis by blast
qed

lemma group_event_headers:
  assumes "(name, v) \<in> set (event_message_headers e)" "\<forall>(n, w) \<in> set extra. n \<notin> set REQUIRED_EVENT_HEADERS"
  shows "map_of (group_headers (map (\<lambda>(n, v). (n, Some v)) (event_message_headers e) @ extra)) name =
    Some [Some v]"
proof -
  have req: "name \<in> set REQUIRED_EVENT_HEADERS"
    using assms(1) required_in_events [of name e] by force
  then have "filter (\<lambda>(n, v). n = name) extra = []" using assms(2) by (auto simp: filter_empty_conv)
  with assms(1) show ?thesis
    by (auto simp: map_of_group_headers Let_def event_message_headers_def)
qed

lemma utf8_ascii: "\<forall>ch \<in> set s. byte_of ch < 128 \<Longrightarrow> utf8_valid s"
  by (induction s) auto

lemma hex_digit_ascii: "d < 16 \<Longrightarrow> byte_of (hex_digit d) < 128"
proof -
  have "list_all (\<lambda>ch. byte_of ch < 128) ''0123456789abcdef''" by simp
  moreover assume "d < 16"
  then have "hex_digit d \<in> set ''0123456789abcdef''" unfolding hex_digit_def by (intro nth_mem) simp
  ultimately show ?thesis unfolding list_all_iff by blast
qed

lemma hex_digits_ascii: "ch \<in> set (hex_digits k n) \<Longrightarrow> byte_of ch < 128"
  by (induction k arbitrary: n) (auto simp: hex_digit_ascii)

lemma uuid_str_utf8: "utf8_valid (uuid_str u)"
proof (rule utf8_ascii, rule ballI)
  fix ch assume "ch \<in> set (uuid_str u)"
  then have "ch = CHR ''-'' \<or> ch \<in> set (hex_digits 32 (unat u))"
    by (auto simp: uuid_str_def Let_def dest: in_set_takeD in_set_dropD)
  then show "byte_of ch < 128" using hex_digits_ascii by auto
qed

lemma event_type_value_utf8: "utf8_valid (event_type_value t)"
  by (rule utf8_ascii) (cases t; simp)

lemma digit_chars_ascii: "\<forall>ch \<in> digit_chars. byte_of ch < 128"
  by (simp add: digit_chars_def)

lemma int_str_utf8: "utf8_valid (int_str i)"
proof (rule utf8_ascii, rule ballI)
  fix ch assume "ch \<in> set (int_str i)"
  then have "ch = CHR ''-'' \<or> ch \<in> digit_chars" using int_str_chars [of i] by blast
  then show "byte_of ch < 128" using digit_chars_ascii by auto
qed

lemma event_headers_utf8:
  assumes "utf8_valid (ev_source e)" "(name, v) \<in> set (event_message_headers e)"
  shows "utf8_valid v"
proof -
  have "utf8_valid ''application/json''" by (rule utf8_ascii) simp
  with assms show ?thesis
    by (auto simp: event_message_headers_def uuid_str_utf8 event_type_value_utf8 int_str_utf8
        simp del: utf8_valid.simps)
qed

text \<open>The record a producer of these contracts sends for an event: the serialized body, the shared
  key and headers, and any further headers of its own.\<close>

definition event_message ::
  "string \<Rightarrow> (string \<times> string option) list \<Rightarrow> envelope \<Rightarrow> consumed_message \<Rightarrow> consumed_message" where
  "event_message body extra e m =
     m\<lparr>cm_key := Some (event_message_key e), cm_value := Some body,
       cm_headers := map (\<lambda>(n, v). (n, Some v)) (event_message_headers e) @ extra\<rparr>"

text \<open>A record with the shared key and headers passes the checks of its metadata.\<close>

lemma reaches_body:
  assumes "utf8_valid (ev_source e)" "set (cx_header_order cx) = set REQUIRED_EVENT_HEADERS"
    and "\<forall>(n, w) \<in> set extra. n \<notin> set REQUIRED_EVENT_HEADERS"
  obtains hs where "validate_message cx (event_message body extra e m) =
      validate_body cx hs (event_message_key e) body
        (anomaly_of (group_headers (map (\<lambda>(n, v). (n, Some v)) (event_message_headers e) @ extra)))"
    "\<And>name v. (name, v) \<in> set (event_message_headers e) \<Longrightarrow> map_of hs name = Some v"
proof -
  let ?g = "group_headers (map (\<lambda>(n, v). (n, Some v)) (event_message_headers e) @ extra)"
  note grp = group_event_headers [OF _ assms(3)]
  have one: "\<exists>v. map_of ?g name = Some [Some v] \<and> utf8_valid v" if "name \<in> set REQUIRED_EVENT_HEADERS" for name
    using required_in_events [of name e] that grp event_headers_utf8 [OF assms(1)] by force
  have filters: "filter (\<lambda>name. map_of ?g name = None) REQUIRED_EVENT_HEADERS = []"
    "filter (\<lambda>name. length (the (map_of ?g name)) \<noteq> 1) REQUIRED_EVENT_HEADERS = []"
    using one by (fastforce simp: filter_empty_conv)+
  obtain hs where hs: "decode_headers ?g (cx_header_order cx) = Inr hs"
    using decode_headers_ok [of "cx_header_order cx" ?g] one assms(2) by blast
  have vals: "map_of hs name = Some v" if nv: "(name, v) \<in> set (event_message_headers e)" for name v
    using decode_headers_Inr [OF hs, of name] grp [OF nv] assms(2) nv required_in_events [of name e] by force
  have "map_of hs ''content_type'' = Some ''application/json''" using vals by (simp add: event_message_headers_def)
  with hs filters have "validate_message cx (event_message body extra e m) = validate_body cx hs (event_message_key e) body (anomaly_of ?g)"
    unfolding validate_message_def event_message_def by (simp add: Let_def)
  with vals that show thesis by blast
qed

lemma produced_validates:
  assumes "parse_event cx body = Inr e" and "cx_loads cx body = Some (JObj doc)"
    and "dict_get doc ''event_version'' = Some (JInt (ev_event_version e))"
    and "ev_event_version e = CURRENT_EVENT_VERSION" and "utf8_valid (ev_source e)"
    and "set (cx_header_order cx) = set REQUIRED_EVENT_HEADERS"
    and "\<forall>(n, w) \<in> set extra. n \<notin> set REQUIRED_EVENT_HEADERS"
  shows "validate_message cx (event_message body extra e m) = Inr e"
proof -
  obtain hs where body: "validate_message cx (event_message body extra e m) = validate_body cx hs (event_message_key e) body
      (anomaly_of (group_headers (map (\<lambda>(n, v). (n, Some v)) (event_message_headers e) @ extra)))"
    and vals: "\<And>name v. (name, v) \<in> set (event_message_headers e) \<Longrightarrow> map_of hs name = Some v"
    using reaches_body [OF assms(5-7), of body m] by blast
  have known: "precheck_body (JObj doc) = None"
    using assms(1-4) event_types_all
    by (auto simp: precheck_body_def parse_event_def event_type_of_Some split: option.splits json.splits)
  have "check_event hs (event_message_key e) anomaly e = Inr e" for anomaly
    using assms(4) vals by (auto simp: check_event_def Let_def find_None_all expected_headers_def
        event_message_headers_def split: option.splits)
  with known assms(1,2) show ?thesis unfolding body by (simp add: validate_body_def Let_def)
qed

text \<open>A concrete event, the codec that reads it, and a record position, for the witnesses.\<close>

definition demo_payload :: payload where
  "demo_payload = UserRegistered
     \<lparr>ur_customer_id = 7, ur_email_hash = ''h'', ur_country_code = ''TR'', ur_persona = NORMAL,
      ur_registered_at = 0\<rparr>"

definition demo_input :: envelope_input where
  "demo_input =
     \<lparr>ei_event_id = 1, ei_event_type = USER_REGISTERED, ei_event_version = 1, ei_event_time = 0,
      ei_produced_at = 0, ei_source = ''gen'', ei_correlation_id = 9, ei_payload = []\<rparr>"

definition demo_event :: envelope where
  "demo_event = envelope_of demo_input demo_payload"

definition demo_codec :: codec where
  "demo_codec =
     \<lparr>cx_loads = (\<lambda>_. Some (JObj [(''event_type'', JStr ''user_registered''), (''event_version'', JInt 1)])),
      cx_envelope = (\<lambda>_. Some demo_input), cx_payload = (\<lambda>_ _. Some demo_payload),
      cx_uuid = (\<lambda>_. None), cx_header_order = REQUIRED_EVENT_HEADERS\<rparr>"

definition demo_record :: consumed_message where
  "demo_record =
     \<lparr>cm_topic = ''commerce.events'', cm_partition = 0, cm_offset = 5, cm_timestamp = None,
      cm_key = None, cm_value = None, cm_headers = []\<rparr>"

lemma demo_loads:
  "cx_loads demo_codec body =
     Some (JObj [(''event_type'', JStr ''user_registered''), (''event_version'', JInt 1)])"
  by (simp add: demo_codec_def)

lemma demo_parses: "parse_event demo_codec body = Inr demo_event"
  using event_type_of_value [of USER_REGISTERED]
  by (simp add: parse_event_def demo_codec_def dict_get_def envelope_input_valid_def demo_input_def
      non_empty_string_def demo_payload_def country_code_def validate_contract_consistency_def
      envelope_of_def demo_event_def MAX_PRODUCER_CLOCK_SKEW_def)

lemma demo_facts:
  "ev_event_version demo_event = 1" "ev_source demo_event = ''gen''"
  "cx_header_order demo_codec = REQUIRED_EVENT_HEADERS" "CURRENT_EVENT_VERSION = 1"
  "''synthetic_anomaly'' \<notin> set REQUIRED_EVENT_HEADERS"
  "dict_get [(''event_type'', JStr ''user_registered''), (''event_version'', JInt 1)] ''event_version'' = Some (JInt 1)"
  by (simp_all add: demo_event_def demo_input_def envelope_of_def demo_codec_def
      CURRENT_EVENT_VERSION_def REQUIRED_EVENT_HEADERS_def dict_get_def)

lemma demo_validates: "validate_message demo_codec (event_message body [] demo_event m) = Inr demo_event"
  by (rule produced_validates [OF demo_parses demo_loads]) (simp_all add: demo_facts)

text \<open>What a record that passes validation guarantees. Its body parses to an event that satisfies
  every constraint of its contract (payload model, amounts, totals, clock skew) and has the current
  version; its key is the ordering key of that event; and each of the six required headers occurs
  exactly once, with the value the body prescribes. The order in which the set of required headers
  is iterated does not matter.\<close>

theorem valid_message_agrees:
  assumes "validate_message cx m = Inr e"
    and "set (cx_header_order cx) = set REQUIRED_EVENT_HEADERS"
  shows "(\<exists>body. cm_value m = Some body \<and> parse_event cx body = Inr e) \<and> event_wf e \<and>
    ev_event_version e = CURRENT_EVENT_VERSION \<and> cm_key m = Some (event_message_key e) \<and>
    (\<forall>(name, v) \<in> set (event_message_headers e).
       map snd (filter (\<lambda>(n, _). n = name) (cm_headers m)) = [Some v])"
proof -
  let ?g = "group_headers (cm_headers m)"
  from assms(1) obtain body key hs where m: "cm_value m = Some body" "cm_key m = Some key"
    "\<forall>name \<in> set REQUIRED_EVENT_HEADERS. \<exists>v. map_of ?g name = Some [v]"
    "decode_headers ?g (cx_header_order cx) = Inr hs"
    "map_of hs ''content_type'' = Some ''application/json''"
    "validate_body cx hs key body (anomaly_of ?g) = Inr e"
    by (rule validate_message_Inr)
  note parsed = validate_body_Inr [OF m(6)]
  have "map snd (filter (\<lambda>(n, _). n = name) (cm_headers m)) = [Some v]"
    if nv: "(name, v) \<in> set (event_message_headers e)" for name v
  proof -
    from nv have req: "name \<in> set REQUIRED_EVENT_HEADERS"
      using required_in_events [of name e] by force
    have hs: "map_of hs name = Some v"
      using nv parsed m(5) by (auto simp: event_message_headers_def expected_headers_def)
    obtain raw rest where "map_of ?g name = Some (Some raw # rest)" "map_of hs name = Some raw"
      using decode_headers_Inr [OF m(4)] req assms(2) by blast
    with hs m(3) req have "map_of ?g name = Some [Some v]" by fastforce
    then show ?thesis by (simp add: map_of_group_headers Let_def split: if_splits)
  qed
  with parsed m(1,2) parse_event_wf show ?thesis by auto
qed

theorem valid_message_agrees_witness:
  "event_wf demo_event \<and> map snd (filter (\<lambda>(n, _). n = ''source'')
     (cm_headers (event_message ''body'' [] demo_event demo_record))) = [Some ''gen'']"
proof -
  have mem: "(''source'', ''gen'') \<in> set (event_message_headers demo_event)"
    by (simp add: event_message_headers_def demo_facts)
  have "set (cx_header_order demo_codec) = set REQUIRED_EVENT_HEADERS" by (simp only: demo_facts)
  note agrees = valid_message_agrees [OF demo_validates this, of "''body''" demo_record]
  then show ?thesis using mem by fastforce
qed

text \<open>C5: producer and consumer agree. A record built with the shared key and header rules from an
  event of the current version, whose body the contract parser reads back as that event, passes
  validation and yields exactly that event, whatever other headers the producer adds.\<close>

theorem produced_message_validates:
  assumes "parse_event cx body = Inr e" and "cx_loads cx body = Some (JObj doc)"
    and "dict_get doc ''event_version'' = Some (JInt (ev_event_version e))"
    and "ev_event_version e = CURRENT_EVENT_VERSION" and "utf8_valid (ev_source e)"
    and "set (cx_header_order cx) = set REQUIRED_EVENT_HEADERS"
    and "\<forall>(n, w) \<in> set extra. n \<notin> set REQUIRED_EVENT_HEADERS"
  shows "validate_message cx (event_message body extra e m) = Inr e"
  using assms by (rule produced_validates)

theorem produced_message_validates_witness:
  "validate_message demo_codec
     (event_message ''body'' [(''synthetic_anomaly'', Some ''late'')] demo_event demo_record) = Inr demo_event"
  by (rule produced_message_validates [OF demo_parses demo_loads]) (simp_all add: demo_facts)

end
