(* ===== verification/Dlq.thy ===== *)
theory Dlq
  imports Validation
begin

text \<open>
  Dead letters, \<^verbatim>\<open>services/event_processor/dlq.py\<close>: the processor-owned envelope built from a
  record and its error, its Kafka key and headers, and publication that waits for the delivery
  report. \<open>uuid5\<close> (a SHA-1 digest) is a parameter. The dead-letter topic is the list of the
  messages the broker has stored.
\<close>

section \<open>The envelope\<close>

definition DLQ_NAMESPACE :: uuid where
  "DLQ_NAMESPACE = 0xbb8709f140b84a8f93ca96775f4c7d7a"

definition DLQ_SCHEMA_VERSION :: int where "DLQ_SCHEMA_VERSION = 1"

definition MAX_ERROR_MESSAGE_LENGTH :: nat where "MAX_ERROR_MESSAGE_LENGTH = 512"

definition SAFE_HEADER_NAMES :: "string list" where
  "SAFE_HEADER_NAMES =
     [''event_id'', ''event_type'', ''event_version'', ''correlation_id'', ''source'',
      ''content_type'', ''synthetic_anomaly'']"

record dlq_envelope =
  de_schema_version :: int
  de_record_id :: uuid
  de_failed_at :: instant
  de_source_topic :: string
  de_source_partition :: int
  de_source_offset :: int
  de_source_timestamp :: "instant option"
  de_source_key_base64 :: "string option"
  de_source_headers :: "(string \<times> string) list"
  de_original_value_base64 :: "string option"
  de_original_value_truncated :: bool
  de_error_category :: string
  de_error_message :: string
  de_error_type :: string
  de_processing_attempts :: nat
  de_consumer_group :: string
  de_processor_instance_id :: string
  de_original_event_id :: "uuid option"
  de_original_event_type :: "string option"
  de_original_correlation_id :: "uuid option"
  de_anomaly_type :: "string option"

text \<open>The text that identifies a source record, and with its category a dead letter.\<close>

definition coordinate_str :: "string \<Rightarrow> int \<Rightarrow> int \<Rightarrow> string" where
  "coordinate_str topic part off = topic @ '':'' @ int_str part @ '':'' @ int_str off"

definition kafka_key :: "dlq_envelope \<Rightarrow> string" where
  "kafka_key d =
     (case de_original_event_id d of
        Some i \<Rightarrow> uuid_str i
      | None \<Rightarrow> coordinate_str (de_source_topic d) (de_source_partition d) (de_source_offset d))"

definition kafka_headers :: "dlq_envelope \<Rightarrow> (string \<times> string) list" where
  "kafka_headers d =
     [(''dlq_record_id'', uuid_str (de_record_id d)),
      (''error_category'', de_error_category d),
      (''source_topic'', de_source_topic d),
      (''source_partition'', int_str (de_source_partition d)),
      (''source_offset'', int_str (de_source_offset d)),
      (''content_type'', ''application/json''),
      (''dlq_schema_version'', int_str (de_schema_version d))] @
     (case de_original_event_id d of Some i \<Rightarrow> [(''original_event_id'', uuid_str i)] | None \<Rightarrow> [])"

definition dlq_identity :: "consumed_message \<Rightarrow> string \<Rightarrow> string" where
  "dlq_identity m error_category =
     coordinate_str (cm_topic m) (cm_partition m) (cm_offset m) @ '':'' @ error_category"

definition deterministic_dlq_id :: "(uuid \<Rightarrow> string \<Rightarrow> uuid) \<Rightarrow> consumed_message \<Rightarrow> string \<Rightarrow> uuid" where
  "deterministic_dlq_id uuid5 m error_category = uuid5 DLQ_NAMESPACE (dlq_identity m error_category)"

definition sanitize_header ::
  "string \<times> string option \<Rightarrow> (string \<times> string) list \<Rightarrow> (string \<times> string) list" where
  "sanitize_header = (\<lambda>(name, raw) sanitized.
     case raw of
       None \<Rightarrow> sanitized
     | Some raw \<Rightarrow>
         if name \<notin> set SAFE_HEADER_NAMES \<or> name \<in> fst ` set sanitized then sanitized
         else sanitized @
           [(name, case decode_utf8 raw of Some v \<Rightarrow> str_take 256 v | None \<Rightarrow> ''<invalid-utf8>'')])"

definition sanitize_headers :: "(string \<times> string option) list \<Rightarrow> (string \<times> string) list" where
  "sanitize_headers headers = fold sanitize_header headers []"

definition build_dlq_envelope ::
  "(uuid \<Rightarrow> string \<Rightarrow> uuid) \<Rightarrow> consumed_message \<Rightarrow> validation_error_info \<Rightarrow> nat \<Rightarrow> string \<Rightarrow> string \<Rightarrow> nat \<Rightarrow>
   instant \<Rightarrow> dlq_envelope" where
  "build_dlq_envelope uuid5 m err attempts consumer_group instance_id maximum_payload_bytes failed_at =
     (let included = map_option (take maximum_payload_bytes) (cm_value m)
      in \<lparr>de_schema_version = DLQ_SCHEMA_VERSION,
          de_record_id = deterministic_dlq_id uuid5 m (category_value (vi_category err)),
          de_failed_at = failed_at,
          de_source_topic = cm_topic m,
          de_source_partition = cm_partition m,
          de_source_offset = cm_offset m,
          de_source_timestamp = cm_timestamp m,
          de_source_key_base64 = map_option b64encode (cm_key m),
          de_source_headers = sanitize_headers (cm_headers m),
          de_original_value_base64 = map_option b64encode included,
          de_original_value_truncated =
            (case cm_value m of
               None \<Rightarrow> False
             | Some v \<Rightarrow> length v > length (case included of Some w \<Rightarrow> w | None \<Rightarrow> [])),
          de_error_category = category_value (vi_category err),
          de_error_message = str_take MAX_ERROR_MESSAGE_LENGTH (vi_message err),
          de_error_type = vi_error_type err,
          de_processing_attempts = attempts,
          de_consumer_group = consumer_group,
          de_processor_instance_id = instance_id,
          de_original_event_id = vi_event_id err,
          de_original_event_type = vi_event_type err,
          de_original_correlation_id = vi_correlation_id err,
          de_anomaly_type = vi_anomaly_type err\<rparr>)"

section \<open>Publication\<close>

text \<open>
  What the producer client does with one \<open>produce\<close> and \<open>flush\<close>: it raises, or it returns the
  number of messages still queued and the delivery reports it called back with (an error, or None
  for an acknowledgement). The broker stores a message it acknowledges; it may also store one whose
  acknowledgement is lost.
\<close>

datatype dlq_call =
    Produce_raises exn bool
  | Flush_returns nat "string option list" bool

record dlq_message =
  dm_topic :: string
  dm_key :: string
  dm_headers :: "(string \<times> string) list"
  dm_value :: dlq_envelope

definition dlq_message_of :: "string \<Rightarrow> dlq_envelope \<Rightarrow> dlq_message" where
  "dlq_message_of topic d =
     \<lparr>dm_topic = topic, dm_key = kafka_key d, dm_headers = kafka_headers d, dm_value = d\<rparr>"

fun call_stores :: "dlq_call \<Rightarrow> bool" where
  "call_stores (Produce_raises e stored) = stored"
| "call_stores (Flush_returns remaining reports stored) = (stored \<or> None \<in> set reports)"

definition publish ::
  "string \<Rightarrow> dlq_call \<Rightarrow> dlq_envelope \<Rightarrow> dlq_message list \<Rightarrow> (exn + unit) \<times> dlq_message list" where
  "publish topic call d stored =
     (let stored' = (if call_stores call then stored @ [dlq_message_of topic d] else stored)
      in case call of
           Produce_raises e _ \<Rightarrow>
             if isinstance e PyBufferError \<or> isinstance e PyRuntimeError
             then (Inl (Exn RetryableProcessingError ''DLQ publication failed''), stored')
             else (Inl e, stored')
         | Flush_returns remaining reports _ \<Rightarrow>
             if remaining \<noteq> 0 \<or> reports = [] \<or> hd reports \<noteq> None
             then (Inl (Exn RetryableProcessingError ''DLQ delivery was not confirmed''), stored')
             else (Inr (), stored'))"

lemma publish_stored:
  assumes "publish topic call d stored = (r, stored')"
  shows "stored' = stored \<or> stored' = stored @ [dlq_message_of topic d]"
    and "r = Inr () \<Longrightarrow> stored' = stored @ [dlq_message_of topic d]"
  using assms
  by (auto simp: publish_def Let_def split: dlq_call.splits if_splits) (metis hd_in_set)+

section \<open>Headers and identities\<close>

lemma sanitize_snoc: "sanitize_headers (hs @ [h]) = sanitize_header h (sanitize_headers hs)"
  by (simp add: sanitize_headers_def)

lemma str_len_invalid: "str_len ''<invalid-utf8>'' \<le> 256"
  by (simp add: str_len_def is_continuation_def)

lemma sanitize_headers_safe:
  "distinct (map fst (sanitize_headers hs)) \<and>
   (\<forall>(n, v) \<in> set (sanitize_headers hs). n \<in> set SAFE_HEADER_NAMES \<and> str_len v \<le> 256)"
proof (induction hs rule: rev_induct)
  case Nil
  show ?case by (simp add: sanitize_headers_def)
next
  case (snoc h hs)
  obtain n raw where h: "h = (n, raw)" by force
  let ?s = "sanitize_headers hs"
  have "sanitize_headers (hs @ [h]) = ?s \<or> (n \<in> set SAFE_HEADER_NAMES \<and> n \<notin> set (map fst ?s) \<and>
      (\<exists>v. str_len v \<le> 256 \<and> sanitize_headers (hs @ [h]) = ?s @ [(n, v)]))"
    using h str_len_take [of 256] str_len_invalid
    by (auto simp: sanitize_snoc sanitize_header_def split: option.splits)
  with snoc show ?case by auto
qed

text \<open>Splitting at the last colon is unambiguous when the tail has none.\<close>

lemma append_colon_inj:
  assumes "a @ CHR '':'' # x = b @ CHR '':'' # y" "CHR '':'' \<notin> set x" "CHR '':'' \<notin> set y"
  shows "a = b \<and> x = y"
  using assms
proof (induction a arbitrary: b)
  case Nil
  then show ?case by (cases b) auto
next
  case (Cons c a)
  then show ?case by (cases b) auto
qed

lemma coordinate_str_inj:
  "coordinate_str t p n = coordinate_str t' p' n' \<longleftrightarrow> t = t' \<and> p = p' \<and> n = n'"
proof
  assume eq: "coordinate_str t p n = coordinate_str t' p' n'"
  then have "(t @ CHR '':'' # int_str p) @ CHR '':'' # int_str n =
      (t' @ CHR '':'' # int_str p') @ CHR '':'' # int_str n'"
    by (simp add: coordinate_str_def)
  from append_colon_inj [OF this int_str_no_colon int_str_no_colon]
  have "t @ CHR '':'' # int_str p = t' @ CHR '':'' # int_str p'" "n = n'"
    by (simp_all add: int_str_inj)
  with append_colon_inj [OF _ int_str_no_colon int_str_no_colon]
  show "t = t' \<and> p = p' \<and> n = n'" by (metis int_str_inj)
qed simp

lemma dlq_identity_inj:
  assumes "dlq_identity m (category_value c) = dlq_identity m' (category_value c')"
  shows "(cm_topic m, cm_partition m, cm_offset m) = (cm_topic m', cm_partition m', cm_offset m') \<and> c = c'"
proof -
  have "coordinate_str (cm_topic m) (cm_partition m) (cm_offset m) @ CHR '':'' # category_value c =
      coordinate_str (cm_topic m') (cm_partition m') (cm_offset m') @ CHR '':'' # category_value c'"
    using assms by (simp add: dlq_identity_def)
  from append_colon_inj [OF this category_value_no_colon category_value_no_colon]
  show ?thesis by (simp add: coordinate_str_inj category_value_inj)
qed

section \<open>Properties\<close>

text \<open>C6: dead letters are published faithfully. \<open>publish\<close> returns only when the broker holds the
  message, and it never stores anything else; every failure it reports is one the caller may retry,
  unless the client raised an error of another kind. The letter carries the source record: its
  base64 fields decode to the record's key and to the configured prefix of its value, the truncation
  flag says exactly whether bytes were cut off, only the whitelisted headers are kept, each once and
  with at most 256 characters, and the error text has at most 512.\<close>

theorem dead_letter_faithful:
  fixes uuid5 m err attempts grp inst limit failed_at
  defines "d \<equiv> build_dlq_envelope uuid5 m err attempts grp inst limit failed_at"
  assumes "publish topic call d stored = (r, stored')"
  shows "(r = Inr () \<longrightarrow> stored' = stored @ [dlq_message_of topic d]) \<and>
    (stored' = stored \<or> stored' = stored @ [dlq_message_of topic d]) \<and>
    Option.bind (de_source_key_base64 d) b64decode = cm_key m \<and>
    Option.bind (de_original_value_base64 d) b64decode = map_option (take limit) (cm_value m) \<and>
    (de_original_value_truncated d \<longleftrightarrow> map_option (take limit) (cm_value m) \<noteq> cm_value m) \<and>
    distinct (map fst (de_source_headers d)) \<and>
    (\<forall>(n, v) \<in> set (de_source_headers d). n \<in> set SAFE_HEADER_NAMES \<and> str_len v \<le> 256) \<and>
    str_len (de_error_message d) \<le> 512"
proof -
  have "Option.bind (map_option b64encode x) b64decode = x" for x
    by (cases x) (simp_all add: b64_round_trip)
  moreover have "de_original_value_truncated d \<longleftrightarrow> map_option (take limit) (cm_value m) \<noteq> cm_value m"
    by (cases "cm_value m") (auto simp: d_def build_dlq_envelope_def Let_def)
  ultimately show ?thesis
    using publish_stored [OF assms(2)] sanitize_headers_safe [of "cm_headers m"]
      str_len_take [of 512 "vi_message err"]
    by (simp add: d_def build_dlq_envelope_def Let_def MAX_ERROR_MESSAGE_LENGTH_def)
qed

definition demo_error :: validation_error_info where
  "demo_error = validation_error MISSING_KEY ''Kafka key is required'' no_hints None"

theorem dead_letter_faithful_witness:
  "let d = build_dlq_envelope (\<lambda>n s. n) (demo_record\<lparr>cm_value := Some ''abcdef''\<rparr>) demo_error 1 ''g'' ''p'' 4 0;
       (r, stored) = publish ''dlq'' (Flush_returns 0 [None] False) d []
   in r = Inr () \<and> stored = [dlq_message_of ''dlq'' d] \<and> de_original_value_truncated d \<and>
      Option.bind (de_original_value_base64 d) b64decode = Some ''abcd''"
proof -
  let ?d = "build_dlq_envelope (\<lambda>n s. n) (demo_record\<lparr>cm_value := Some ''abcdef''\<rparr>) demo_error 1 ''g'' ''p'' 4 0"
  obtain r stored where p: "publish ''dlq'' (Flush_returns 0 [None] False) ?d [] = (r, stored)" by force
  then have "r = Inr ()" by (simp add: publish_def Let_def)
  with p dead_letter_faithful [OF p] show ?thesis by (simp add: Let_def)
qed

text \<open>Dead letters have identities of their own. Redelivering a record and failing it again for
  the same reason yields the same identity, and two dead letters that differ in the topic, the
  partition or the offset of their record, or in their category, have different identity texts,
  whatever characters the topic name contains; so, as far as \<open>uuid5\<close> is injective on such texts,
  different \<open>dlq_record_id\<close>s.\<close>

theorem dlq_id_identifies:
  assumes "\<And>s t. uuid5 DLQ_NAMESPACE s = uuid5 DLQ_NAMESPACE t \<Longrightarrow>
      s \<in> {dlq_identity m (category_value c), dlq_identity m' (category_value c')} \<Longrightarrow>
      t \<in> {dlq_identity m (category_value c), dlq_identity m' (category_value c')} \<Longrightarrow> s = t"
  shows "deterministic_dlq_id uuid5 m (category_value c) = deterministic_dlq_id uuid5 m' (category_value c') \<longleftrightarrow>
    cm_topic m = cm_topic m' \<and> cm_partition m = cm_partition m' \<and> cm_offset m = cm_offset m' \<and> c = c'"
  using assms [of "dlq_identity m (category_value c)" "dlq_identity m' (category_value c')"]
    dlq_identity_inj [of m c m' c']
  by (auto simp: deterministic_dlq_id_def dlq_identity_def)

theorem dlq_id_identifies_witness:
  "deterministic_dlq_id (\<lambda>n s. if s = dlq_identity demo_record ''missing_key'' then 1 else 2)
     demo_record (category_value MISSING_KEY) \<noteq>
   deterministic_dlq_id (\<lambda>n s. if s = dlq_identity demo_record ''missing_key'' then 1 else 2)
     demo_record (category_value MISSING_VALUE)"
  by (subst dlq_id_identifies) (auto split: if_splits)

end
