(* ===== verification/Consumer.thy ===== *)
theory Consumer
  imports Models Offset_Tracker
begin

text \<open>
  \<^verbatim>\<open>services/event_processor/consumer.py\<close>: the Kafka consumer around the offset tracker. Its own
  state is the set of revoked partitions; everything else is the tracker. A Kafka commit call either
  returns or raises (\<open>ok\<close>), and the list of commit requests is kept as a log. The readings of the
  monotonic clock are arguments.
\<close>

section \<open>State and operations\<close>

record consumer =
  co_tracker :: tracker
  co_revoked :: "pkey set"

type_synonym commit_log = "(pkey \<times> int) list list"

definition new_consumer :: "int \<Rightarrow> rat \<Rightarrow> rat \<Rightarrow> consumer" where
  "new_consumer batch_size interval_ms now =
     \<lparr>co_tracker = new_tracker batch_size (interval_ms / 1000) now, co_revoked = {}\<rparr>"

definition on_assign :: "pkey list \<Rightarrow> consumer \<Rightarrow> consumer" where
  "on_assign keys c = c\<lparr>co_revoked := co_revoked c - set keys\<rparr>"

text \<open>\<open>_commit_offsets\<close>: one synchronous commit request for a batch of partitions.\<close>

definition commit_offsets :: "bool \<Rightarrow> commit_log commit_fn" where
  "commit_offsets ok = scripted_commit ok"

text \<open>A failed flush is logged and swallowed; the partitions are dropped either way.\<close>

definition on_revoke ::
  "bool \<Rightarrow> rat \<Rightarrow> pkey list \<Rightarrow> consumer \<times> commit_log \<Rightarrow> consumer \<times> commit_log" where
  "on_revoke ok now keys = (\<lambda>(c, calls).
     case flush_partitions (commit_offsets ok) keys now (co_tracker c, calls) of
       (_, tr, calls') \<Rightarrow>
         (c\<lparr>co_tracker := fold drop_partition keys tr, co_revoked := co_revoked c \<union> set keys\<rparr>, calls'))"

text \<open>The raw record of a poll, and what the client reports as an error of it (True for the
  end-of-partition marker).\<close>

record raw_message =
  rm_error :: "(bool \<times> string) option"
  rm_topic :: string
  rm_partition :: int
  rm_offset :: int
  rm_timestamp_ms :: "int option"
  rm_key :: "string option"
  rm_value :: "string option"
  rm_headers :: "(string \<times> string option) list option"

definition poll :: "raw_message option \<Rightarrow> exn + consumed_message option" where
  "poll raw =
     (case raw of
        None \<Rightarrow> Inr None
      | Some raw \<Rightarrow>
          (case rm_error raw of
             Some (True, _) \<Rightarrow> Inr None
           | Some (False, text) \<Rightarrow> Inl (Exn FatalInfrastructureError (''Kafka consume failed: '' @ text))
           | None \<Rightarrow>
               Inr (Some
                 \<lparr>cm_topic = rm_topic raw, cm_partition = rm_partition raw, cm_offset = rm_offset raw,
                  cm_timestamp =
                    (case rm_timestamp_ms raw of
                       Some ms \<Rightarrow> if ms \<ge> 0 then Some (ms * 1000) else None
                     | None \<Rightarrow> None),
                  cm_key = rm_key raw, cm_value = rm_value raw,
                  cm_headers = (case rm_headers raw of Some hs \<Rightarrow> hs | None \<Rightarrow> [])\<rparr>)))"

text \<open>A Kafka commit that raises surfaces as a \<open>KafkaException\<close> of the flush.\<close>

definition flush_answer :: "bool \<Rightarrow> exn + unit" where
  "flush_answer ok = (if ok then Inr () else Inl (Exn KafkaException ''commit failed''))"

definition commit_terminal ::
  "bool \<Rightarrow> rat \<Rightarrow> rat \<Rightarrow> consumed_message \<Rightarrow> consumer \<times> commit_log \<Rightarrow>
   (exn + unit) \<times> consumer \<times> commit_log" where
  "commit_terminal ok now now' m = (\<lambda>(c, calls).
     if cm_pkey m \<in> co_revoked c
     then (Inl (Exn FatalInfrastructureError ''partition was revoked before commit''), c, calls)
     else case maybe_flush (commit_offsets ok) now now'
                 (mark_terminal (cm_pkey m) (cm_offset m) (co_tracker c), calls) of
            (done, tr, calls') \<Rightarrow> (flush_answer done, c\<lparr>co_tracker := tr\<rparr>, calls'))"

definition observe_dispatched :: "consumed_message \<Rightarrow> consumer \<Rightarrow> consumer" where
  "observe_dispatched m c = c\<lparr>co_tracker := observe (cm_pkey m) (cm_offset m) (co_tracker c)\<rparr>"

definition maybe_flush_idle ::
  "bool \<Rightarrow> rat \<Rightarrow> rat \<Rightarrow> consumer \<times> commit_log \<Rightarrow> (exn + unit) \<times> consumer \<times> commit_log" where
  "maybe_flush_idle ok now now' = (\<lambda>(c, calls).
     case maybe_flush (commit_offsets ok) now now' (co_tracker c, calls) of
       (done, tr, calls') \<Rightarrow> (flush_answer done, c\<lparr>co_tracker := tr\<rparr>, calls'))"

definition flush_pending ::
  "bool \<Rightarrow> rat \<Rightarrow> consumer \<times> commit_log \<Rightarrow> (exn + unit) \<times> consumer \<times> commit_log" where
  "flush_pending ok now = (\<lambda>(c, calls).
     case flush_all (commit_offsets ok) now (co_tracker c, calls) of
       (done, tr, calls') \<Rightarrow> (flush_answer done, c\<lparr>co_tracker := tr\<rparr>, calls'))"

section \<open>Runs of the consumer\<close>

datatype consumer_op =
    CAssign "pkey list"
  | CRevoke bool rat "pkey list"
  | CCommit bool rat rat consumed_message
  | CObserve consumed_message
  | CIdle bool rat rat
  | CFlush bool rat

fun consumer_step :: "consumer_op \<Rightarrow> consumer \<times> commit_log \<Rightarrow> (exn + unit) \<times> consumer \<times> commit_log" where
  "consumer_step (CAssign keys) (c, calls) = (Inr (), on_assign keys c, calls)"
| "consumer_step (CRevoke ok now keys) s = (Inr (), on_revoke ok now keys s)"
| "consumer_step (CCommit ok now now' m) s = commit_terminal ok now now' m s"
| "consumer_step (CObserve m) (c, calls) = (Inr (), observe_dispatched m c, calls)"
| "consumer_step (CIdle ok now now') s = maybe_flush_idle ok now now' s"
| "consumer_step (CFlush ok now) s = flush_pending ok now s"

definition consumer_run :: "consumer_op list \<Rightarrow> consumer \<times> commit_log \<Rightarrow> consumer \<times> commit_log" where
  "consumer_run ops s = fold (\<lambda>x s. snd (consumer_step x s)) ops s"

text \<open>The tracker calls a consumer operation makes.\<close>

fun tracker_ops :: "consumer \<Rightarrow> consumer_op \<Rightarrow> tracker_op list" where
  "tracker_ops c (CAssign keys) = []"
| "tracker_ops c (CRevoke ok now keys) = OpFlushPartitions ok keys now # map OpDrop keys"
| "tracker_ops c (CCommit ok now now' m) =
     (if cm_pkey m \<in> co_revoked c then []
      else [OpMark (cm_pkey m) (cm_offset m), OpMaybeFlush ok now now'])"
| "tracker_ops c (CObserve m) = [OpObserve (cm_pkey m) (cm_offset m)]"
| "tracker_ops c (CIdle ok now now') = [OpMaybeFlush ok now now']"
| "tracker_ops c (CFlush ok now) = [OpFlushAll ok now]"

lemma fold_drop: "fold tracker_step (map OpDrop keys) (tr, calls) = (fold drop_partition keys tr, calls)"
  by (induction keys arbitrary: tr) simp_all

lemmas consumer_defs = on_assign_def on_revoke_def commit_terminal_def observe_dispatched_def
  maybe_flush_idle_def flush_pending_def commit_offsets_def

text \<open>Refinement: seen from the tracker, a consumer step is the sequence of its tracker calls.\<close>

lemma consumer_step_tracker:
  assumes "consumer_step x (c, calls) = (a, c', calls')"
  shows "fold tracker_step (tracker_ops c x) (co_tracker c, calls) = (co_tracker c', calls')"
  using assms
proof (cases x)
  case (CRevoke ok now keys)
  with assms show ?thesis by (auto simp: consumer_defs fold_drop split: prod.splits)
qed (auto simp: consumer_defs split: prod.splits if_splits)

section \<open>Revoked partitions\<close>

definition nothing_to_commit :: "pkey \<Rightarrow> consumer \<Rightarrow> bool" where
  "nothing_to_commit key c \<longleftrightarrow>
     (\<forall>st. map_of (tr_partitions (co_tracker c)) key = Some st \<longrightarrow> safe_offset st = None)"

fun assigns :: "pkey \<Rightarrow> consumer_op \<Rightarrow> bool" where
  "assigns key (CAssign keys) \<longleftrightarrow> key \<in> set keys"
| "assigns key _ \<longleftrightarrow> False"

definition fenced :: "pkey \<Rightarrow> consumer \<Rightarrow> bool" where
  "fenced key c \<longleftrightarrow> key \<in> co_revoked c \<and> nothing_to_commit key c \<and>
     distinct (map fst (tr_partitions (co_tracker c)))"

definition tracker_fenced :: "pkey \<Rightarrow> tracker \<Rightarrow> bool" where
  "tracker_fenced key tr \<longleftrightarrow> distinct (map fst (tr_partitions tr)) \<and>
     (\<forall>st. map_of (tr_partitions tr) key = Some st \<longrightarrow> safe_offset st = None)"

lemma flush_commits_key:
  assumes "tracker_fenced key tr" shows "key \<notin> fst ` set (flush_commits scope tr)"
proof
  assume "key \<in> fst ` set (flush_commits scope tr)"
  then obtain n where "(key, n) \<in> set (flush_commits scope tr)" by force
  with assms show False
    by (auto simp: flush_commits_mem tracker_fenced_def)
qed

lemma confirm_commits_fenced:
  assumes "tracker_fenced key tr" "key \<notin> fst ` set commits"
  shows "tracker_fenced key (confirm_commits commits tr)"
proof -
  have "map_of commits key = None" using assms(2) by (simp add: map_of_eq_None_iff)
  with assms(1) show ?thesis
    by (auto simp: tracker_fenced_def confirm_commits_def map_of_map_values distinct_fst_map_values
        simp del: map_map map_of_eq_Some_iff)
qed

lemma flush_fenced:
  assumes "tracker_fenced key tr"
  shows "tracker_fenced key (fst (snd (flush (scripted_commit ok) scope now (tr, calls)))) \<and>
    (\<forall>commits \<in> set (snd (snd (flush (scripted_commit ok) scope now (tr, calls)))) - set calls.
       key \<notin> fst ` set commits)"
  using assms confirm_commits_fenced [OF assms flush_commits_key [OF assms]] flush_commits_key [OF assms]
  by (auto simp: flush_def Let_def scripted_commit_def reset_counters_def tracker_fenced_def
      split: bool.splits)

lemma mark_fenced: "tracker_fenced key tr \<Longrightarrow> k \<noteq> key \<Longrightarrow> tracker_fenced key (mark_terminal k off tr)"
  by (simp add: tracker_fenced_def mark_terminal_def distinct_fst_update)

lemma observe_fenced: "tracker_fenced key tr \<Longrightarrow> tracker_fenced key (observe k off tr)"
  by (cases "map_of (tr_partitions tr) k")
    (auto simp: tracker_fenced_def observe_def distinct_fst_update partition_of_def ps_observe_def
      new_partition_state_def simp del: map_of_eq_Some_iff)

lemma drop_fenced: "tracker_fenced key tr \<Longrightarrow> tracker_fenced key (drop_partition k tr)"
  by (auto simp: tracker_fenced_def drop_partition_def distinct_fst_delete simp del: map_of_eq_Some_iff
      split: if_splits)

lemma tracker_step_fenced:
  assumes "tracker_fenced key tr" "\<forall>off. x \<noteq> OpMark key off"
    and "tracker_step x (tr, calls) = (tr', calls')"
  shows "tracker_fenced key tr' \<and> (\<forall>commits \<in> set calls' - set calls. key \<notin> fst ` set commits)"
  using assms
proof (cases x)
  case (OpMaybeFlush ok now now')
  with assms flush_fenced [OF assms(1), of ok None now' calls] show ?thesis
    by (auto simp: maybe_flush_def split: if_splits)
next
  case (OpFlushAll ok now)
  with assms flush_fenced [OF assms(1), of ok None now calls] show ?thesis
    by (auto simp: flush_all_def)
next
  case (OpFlushPartitions ok keys now)
  with assms flush_fenced [OF assms(1), of ok "Some (set keys)" now calls] show ?thesis
    by (auto simp: flush_partitions_def)
qed (auto simp: mark_fenced observe_fenced drop_fenced)

lemma tracker_ops_fenced:
  assumes "tracker_fenced key tr" "\<forall>x \<in> set xs. \<forall>off. x \<noteq> OpMark key off"
    and "fold tracker_step xs (tr, calls) = (tr', calls')"
  shows "tracker_fenced key tr' \<and> (\<forall>commits \<in> set calls' - set calls. key \<notin> fst ` set commits)"
  using assms
proof (induction xs arbitrary: tr calls)
  case Nil
  then show ?case by simp
next
  case (Cons x xs)
  obtain tr1 calls1 where s1: "tracker_step x (tr, calls) = (tr1, calls1)" by force
  have "tracker_fenced key tr1 \<and> (\<forall>commits \<in> set calls1 - set calls. key \<notin> fst ` set commits)"
    using tracker_step_fenced [OF Cons.prems(1) _ s1] Cons.prems(2) by simp
  moreover from this have
    "tracker_fenced key tr' \<and> (\<forall>commits \<in> set calls' - set calls1. key \<notin> fst ` set commits)"
    using Cons.IH [of tr1 calls1] Cons.prems(2,3) s1 by simp
  ultimately show ?case by blast
qed

lemma fenced_tracker: "fenced key c \<longleftrightarrow> key \<in> co_revoked c \<and> tracker_fenced key (co_tracker c)"
  by (auto simp: fenced_def nothing_to_commit_def tracker_fenced_def)

lemma consumer_step_revoked:
  assumes "consumer_step x (c, calls) = (a, c', calls')" "key \<in> co_revoked c" "\<not> assigns key x"
  shows "key \<in> co_revoked c'"
  using assms by (cases x) (auto simp: consumer_defs split: prod.splits if_splits)

lemma consumer_step_fenced:
  assumes "fenced key c" "\<not> assigns key x" "consumer_step x (c, calls) = (a, c', calls')"
  shows "fenced key c' \<and> (\<forall>commits \<in> set calls' - set calls. key \<notin> fst ` set commits)"
proof -
  have "\<forall>y \<in> set (tracker_ops c x). \<forall>off. y \<noteq> OpMark key off"
    using assms(1) by (cases x) (auto simp: fenced_def)
  with tracker_ops_fenced [OF _ _ consumer_step_tracker [OF assms(3)]] assms(1)
    consumer_step_revoked [OF assms(3) _ assms(2)]
  show ?thesis by (auto simp: fenced_tracker)
qed

lemma consumer_run_fenced:
  assumes "fenced key c" "\<forall>x \<in> set ops. \<not> assigns key x" "consumer_run ops (c, calls) = (c', calls')"
  shows "fenced key c' \<and> (\<forall>commits \<in> set calls' - set calls. key \<notin> fst ` set commits)"
  using assms
proof (induction ops arbitrary: c calls)
  case Nil
  then show ?case by (simp add: consumer_run_def)
next
  case (Cons x ops)
  obtain a c1 calls1 where s1: "consumer_step x (c, calls) = (a, c1, calls1)" by (metis prod_cases3)
  note step = consumer_step_fenced [OF Cons.prems(1) _ s1]
  then have "fenced key c' \<and> (\<forall>commits \<in> set calls' - set calls1. key \<notin> fst ` set commits)"
    using Cons.IH [of c1 calls1] Cons.prems(2,3) s1 by (simp add: consumer_run_def)
  with step Cons.prems(2) show ?case by auto
qed

lemma on_revoke_fences:
  assumes "distinct (map fst (tr_partitions (co_tracker c)))" "key \<in> set keys"
    and "on_revoke ok now keys (c, calls) = (c', calls')"
  shows "fenced key c'"
proof -
  obtain b tr where f: "flush_partitions (commit_offsets ok) keys now (co_tracker c, calls) = (b, tr, calls')"
    and c': "c' = c\<lparr>co_tracker := fold drop_partition keys tr, co_revoked := co_revoked c \<union> set keys\<rparr>"
    using assms(3) by (auto simp: on_revoke_def split: prod.splits)
  have "distinct (map fst (tr_partitions tr))"
    using f assms(1) by (auto simp: flush_partitions_def commit_offsets_def flush_def Let_def
        scripted_commit_def confirm_commits_def distinct_fst_map_values simp del: map_map
        split: bool.splits if_splits)
  moreover have "distinct (map fst (tr_partitions (fold drop_partition ks t))) \<and>
      map_of (tr_partitions (fold drop_partition ks t)) key =
        (if key \<in> set ks then None else map_of (tr_partitions t) key)"
    if "distinct (map fst (tr_partitions t))" for ks t
    using that by (induction ks arbitrary: t) (auto simp: drop_partition_def distinct_fst_delete)
  ultimately show ?thesis
    using assms(2) c' by (simp add: fenced_def nothing_to_commit_def)
qed

section \<open>Properties\<close>

text \<open>C7: a revoked partition is fenced. From the moment the rebalance callback has revoked a
  partition, whether or not its last flush succeeded, and until the partition is assigned again: over
  any sequence of consumer operations no commit request names that partition, and every
  \<open>commit_terminal\<close> for one of its records raises \<open>FatalInfrastructureError\<close> and changes nothing.\<close>

theorem revoked_partition_fenced:
  assumes "distinct (map fst (tr_partitions (co_tracker c)))" and "key \<in> set keys"
    and "on_revoke ok now keys (c, calls) = (c1, calls1)"
    and "\<forall>x \<in> set ops. \<not> assigns key x" and "consumer_run ops (c1, calls1) = (c2, calls2)"
    and "cm_pkey m = key"
  shows "(\<forall>commits \<in> set calls2 - set calls1. key \<notin> fst ` set commits) \<and>
    commit_terminal ok' t t' m (c2, calls2) =
      (Inl (Exn FatalInfrastructureError ''partition was revoked before commit''), c2, calls2)"
  using consumer_run_fenced [OF on_revoke_fences [OF assms(1-3)] assms(4,5)] assms(6)
  by (auto simp: commit_terminal_def fenced_def)

definition demo_commit :: "pkey \<Rightarrow> int \<Rightarrow> consumed_message" where
  "demo_commit key off =
     \<lparr>cm_topic = fst key, cm_partition = snd key, cm_offset = off, cm_timestamp = None, cm_key = None,
      cm_value = None, cm_headers = []\<rparr>"

theorem revoked_partition_fenced_witness:
  "commit_terminal True 9 9 (demo_commit (''t'', 0) 6)
     (consumer_run [CIdle True 8 8] (on_revoke True 5 [(''t'', 0)]
        (snd (commit_terminal True 1 1 (demo_commit (''t'', 0) 5) (new_consumer 50 1000 0, []))))) =
   (Inl (Exn FatalInfrastructureError ''partition was revoked before commit''),
    consumer_run [CIdle True 8 8] (on_revoke True 5 [(''t'', 0)]
        (snd (commit_terminal True 1 1 (demo_commit (''t'', 0) 5) (new_consumer 50 1000 0, [])))))"
proof -
  let ?s = "snd (commit_terminal True 1 1 (demo_commit (''t'', 0) 5) (new_consumer 50 1000 0, []))"
  obtain c calls where s: "?s = (c, calls)" by force
  obtain c1 calls1 where r: "on_revoke True 5 [(''t'', 0)] (c, calls) = (c1, calls1)" by force
  obtain c2 calls2 where run: "consumer_run [CIdle True 8 8] (c1, calls1) = (c2, calls2)" by force
  have "fst ?s = (fst ?s)\<lparr>co_tracker := co_tracker (fst ?s)\<rparr>" by simp
  have d: "distinct (map fst (tr_partitions (co_tracker c)))"
    using s by (auto simp: commit_terminal_def new_consumer_def new_tracker_def mark_terminal_def
        maybe_flush_def commit_offsets_def flush_def scripted_commit_def Let_def confirm_commits_def
        reset_counters_def split: if_splits prod.splits)
  have "cm_pkey (demo_commit (''t'', 0) 6) = (''t'', 0)" by (simp add: cm_pkey_def demo_commit_def)
  from revoked_partition_fenced [OF d _ r _ run this] show ?thesis by (simp add: s r run)
qed

end
