(* ===== verification/Fraud_Rules.thy ===== *)
theory Fraud_Rules
  imports Models
begin

text \<open>
  The pure part of the fraud engine: \<^verbatim>\<open>fraud/models.py\<close>, \<^verbatim>\<open>fraud/config.py\<close>, the ten rules
  under \<^verbatim>\<open>fraud/rules\<close>, the registry, the scoring and the engine. A rule is a record of its
  attributes with its \<open>evaluate\<close> method; the contract every rule owes to the engine is the locale
  \<open>sound_rule\<close>, interpreted once for each of the ten rules.
\<close>

section \<open>Models\<close>

datatype fraud_severity = LOW | MEDIUM | HIGH | CRITICAL

fun severity_rank :: "fraud_severity \<Rightarrow> nat" where
  "severity_rank LOW = 0" | "severity_rank MEDIUM = 1" | "severity_rank HIGH = 2" | "severity_rank CRITICAL = 3"

lemma severity_rank_inj: "severity_rank a = severity_rank b \<longleftrightarrow> a = b"
  by (cases a; cases b) simp_all

instantiation fraud_severity :: linorder
begin

definition less_eq_fraud_severity :: "fraud_severity \<Rightarrow> fraud_severity \<Rightarrow> bool" where
  "less_eq_fraud_severity a b \<longleftrightarrow> severity_rank a \<le> severity_rank b"

definition less_fraud_severity :: "fraud_severity \<Rightarrow> fraud_severity \<Rightarrow> bool" where
  "less_fraud_severity a b \<longleftrightarrow> severity_rank a < severity_rank b"

instance
  by standard (auto simp: less_eq_fraud_severity_def less_fraud_severity_def severity_rank_inj)

end

fun decision_rank :: "fraud_decision \<Rightarrow> nat" where
  "decision_rank APPROVE = 0" | "decision_rank REVIEW = 1" | "decision_rank BLOCK = 2"

record fraud_rule_result =
  rr_rule_id :: string
  rr_rule_version :: string
  rr_matched :: bool
  rr_score :: int
  rr_severity :: fraud_severity
  rr_reason_code :: string
  rr_explanation :: string
  rr_evidence :: "json dict"
  rr_evaluated_at :: instant

record fraud_evaluation =
  fv_evaluation_id :: uuid
  fv_source_event_id :: uuid
  fv_customer_id :: uuid
  fv_order_id :: "uuid option"
  fv_payment_id :: "uuid option"
  fv_total_score :: int
  fv_decision :: fraud_decision
  fv_severity :: fraud_severity
  fv_rule_results :: "fraud_rule_result list"
  fv_evaluated_at :: instant
  fv_engine_version :: string
  fv_ruleset_version :: string

definition matched_rules :: "fraud_evaluation \<Rightarrow> fraud_rule_result list" where
  "matched_rules ev = filter rr_matched (fv_rule_results ev)"

section \<open>Configuration\<close>

record fraud_config =
  fraud_engine_enabled :: bool
  fraud_engine_version :: string
  fraud_ruleset_version :: string
  fraud_enabled_rules :: string
  fraud_review_threshold :: int
  fraud_block_threshold :: int
  fraud_history_lookback_days :: int
  fraud_max_history_records :: int
  fraud_high_amount_threshold :: money
  fraud_amount_multiplier_threshold :: money
  fraud_high_amount_score :: int
  fraud_amount_deviation_score :: int
  fraud_velocity_max_attempts :: int
  fraud_velocity_window_seconds :: int
  fraud_velocity_score :: int
  fraud_failed_payment_threshold :: int
  fraud_failed_payment_window_seconds :: int
  fraud_failed_payment_score :: int
  fraud_new_device_score :: int
  fraud_min_history_for_device_rule :: int
  fraud_country_mismatch_score :: int
  fraud_multi_country_score :: int
  fraud_country_window_seconds :: int
  fraud_rapid_checkout_seconds :: int
  fraud_rapid_checkout_score :: int
  fraud_account_takeover_score :: int
  fraud_account_takeover_min_signals :: int
  fraud_refund_rate_threshold :: money
  fraud_rapid_refund_seconds :: int
  fraud_refund_abuse_score :: int
  fraud_bot_view_threshold :: int
  fraud_bot_checkout_score :: int
  fraud_amount_mismatch_score :: int
  fraud_alert_topic :: string
  fraud_outbox_enabled :: bool
  fraud_outbox_batch_size :: int
  fraud_outbox_max_attempts :: int
  fraud_outbox_initial_backoff_ms :: int
  fraud_outbox_max_backoff_ms :: int
  fraud_outbox_claim_ttl_seconds :: int

definition enabled_rule_ids :: "fraud_config \<Rightarrow> string list" where
  "enabled_rule_ids c = filter (\<lambda>item. item \<noteq> []) (map strip (split_on (CHR '','') (fraud_enabled_rules c)))"

definition percent :: "int \<Rightarrow> bool" where
  "percent n \<longleftrightarrow> 0 \<le> n \<and> n \<le> 100"

definition scores_valid :: "fraud_config \<Rightarrow> bool" where
  "scores_valid c \<longleftrightarrow>
     percent (fraud_high_amount_score c) \<and> percent (fraud_amount_deviation_score c) \<and>
     percent (fraud_velocity_score c) \<and> percent (fraud_failed_payment_score c) \<and>
     percent (fraud_new_device_score c) \<and> percent (fraud_country_mismatch_score c) \<and>
     percent (fraud_multi_country_score c) \<and> percent (fraud_rapid_checkout_score c) \<and>
     percent (fraud_account_takeover_score c) \<and> percent (fraud_refund_abuse_score c) \<and>
     percent (fraud_bot_checkout_score c) \<and> percent (fraud_amount_mismatch_score c)"

definition limits_valid :: "fraud_config \<Rightarrow> bool" where
  "limits_valid c \<longleftrightarrow>
     0 < fraud_history_lookback_days c \<and> fraud_history_lookback_days c \<le> 365 \<and>
     0 < fraud_max_history_records c \<and> fraud_max_history_records c \<le> 10000 \<and>
     0 \<le> fraud_high_amount_threshold c \<and> 1 < fraud_amount_multiplier_threshold c \<and>
     0 < fraud_velocity_max_attempts c \<and> 0 < fraud_velocity_window_seconds c \<and>
     0 < fraud_failed_payment_threshold c \<and> 0 < fraud_failed_payment_window_seconds c \<and>
     0 < fraud_min_history_for_device_rule c \<and> 0 < fraud_country_window_seconds c \<and>
     0 < fraud_rapid_checkout_seconds c \<and>
     2 \<le> fraud_account_takeover_min_signals c \<and> fraud_account_takeover_min_signals c \<le> 5 \<and>
     0 \<le> fraud_refund_rate_threshold c \<and> fraud_refund_rate_threshold c \<le> 1 \<and>
     0 < fraud_rapid_refund_seconds c \<and> 0 < fraud_bot_view_threshold c \<and>
     0 < fraud_outbox_batch_size c \<and> fraud_outbox_batch_size c \<le> 1000 \<and>
     0 < fraud_outbox_max_attempts c \<and> fraud_outbox_max_attempts c \<le> 100 \<and>
     0 \<le> fraud_outbox_initial_backoff_ms c \<and> 0 \<le> fraud_outbox_max_backoff_ms c \<and>
     0 < fraud_outbox_claim_ttl_seconds c"

definition validate_relationships :: "fraud_config \<Rightarrow> bool" where
  "validate_relationships c \<longleftrightarrow>
     0 \<le> fraud_review_threshold c \<and> fraud_review_threshold c < fraud_block_threshold c \<and>
     fraud_block_threshold c \<le> 100 \<and>
     \<not> fraud_outbox_initial_backoff_ms c > fraud_outbox_max_backoff_ms c \<and>
     length (remdups (enabled_rule_ids c)) = length (enabled_rule_ids c)"

definition fraud_config_valid :: "fraud_config \<Rightarrow> bool" where
  "fraud_config_valid c \<longleftrightarrow> scores_valid c \<and> limits_valid c \<and> validate_relationships c"

definition default_fraud_config :: fraud_config where
  "default_fraud_config =
     \<lparr>fraud_engine_enabled = True, fraud_engine_version = ''1.0.0'',
      fraud_ruleset_version = ''2026-08'',
      fraud_enabled_rules =
        ''high_amount,payment_velocity,failed_payment_burst,new_device,'' @
        ''country_mismatch,rapid_checkout,account_takeover_composite,'' @
        ''refund_abuse,bot_checkout,payment_amount_mismatch'',
      fraud_review_threshold = 30, fraud_block_threshold = 60,
      fraud_history_lookback_days = 30, fraud_max_history_records = 500,
      fraud_high_amount_threshold = 5000, fraud_amount_multiplier_threshold = 3,
      fraud_high_amount_score = 25, fraud_amount_deviation_score = 20,
      fraud_velocity_max_attempts = 3, fraud_velocity_window_seconds = 120,
      fraud_velocity_score = 20, fraud_failed_payment_threshold = 3,
      fraud_failed_payment_window_seconds = 300, fraud_failed_payment_score = 25,
      fraud_new_device_score = 15, fraud_min_history_for_device_rule = 2,
      fraud_country_mismatch_score = 10, fraud_multi_country_score = 10,
      fraud_country_window_seconds = 600, fraud_rapid_checkout_seconds = 15,
      fraud_rapid_checkout_score = 15, fraud_account_takeover_score = 60,
      fraud_account_takeover_min_signals = 4, fraud_refund_rate_threshold = 1 / 2,
      fraud_rapid_refund_seconds = 600, fraud_refund_abuse_score = 35,
      fraud_bot_view_threshold = 12, fraud_bot_checkout_score = 30,
      fraud_amount_mismatch_score = 100, fraud_alert_topic = ''commerce.fraud-alerts'',
      fraud_outbox_enabled = True, fraud_outbox_batch_size = 20, fraud_outbox_max_attempts = 10,
      fraud_outbox_initial_backoff_ms = 500, fraud_outbox_max_backoff_ms = 30000,
      fraud_outbox_claim_ttl_seconds = 30\<rparr>"

section \<open>The context a rule sees\<close>

record fraud_context =
  fc_source_event_id :: uuid
  fc_event_type :: event_type
  fc_event_time :: instant
  fc_customer_id :: uuid
  fc_order_id :: "uuid option"
  fc_payment_id :: "uuid option"
  fc_session_id :: "uuid option"
  fc_amount :: "money option"
  fc_currency :: "currency option"
  fc_payment_status :: "string option"
  fc_payment_method :: "payment_method option"
  fc_current_device :: "string option"
  fc_current_country :: "string option"
  fc_home_country :: string
  fc_session_started_at :: "instant option"
  fc_order_time :: "instant option"
  fc_historical_average_amount :: "money option"
  fc_recent_payment_attempts :: int
  fc_recent_failed_payments :: int
  fc_recent_failure_reasons :: int
  fc_recent_distinct_devices :: int
  fc_recent_distinct_countries :: int
  fc_recent_orders :: int
  fc_recent_refunds :: int
  fc_lifetime_successful_payments :: int
  fc_lifetime_failed_payments :: int
  fc_lifetime_spend :: money
  fc_refundable_amount :: "money option"
  fc_previous_successful_devices :: "string list"
  fc_previous_successful_countries :: "string list"
  fc_product_view_count :: int
  fc_refund_amount :: "money option"
  fc_seconds_since_payment :: "int option"
  fc_payment_amount_matches_order :: bool

definition established_history :: "fraud_context \<Rightarrow> bool" where
  "established_history x \<longleftrightarrow> fc_lifetime_successful_payments x > 0"

definition is_new_device :: "fraud_context \<Rightarrow> bool" where
  "is_new_device x \<longleftrightarrow>
     (case fc_current_device x of
        None \<Rightarrow> False
      | Some d \<Rightarrow> fc_previous_successful_devices x \<noteq> [] \<and> d \<notin> set (fc_previous_successful_devices x))"

definition country_mismatch :: "fraud_context \<Rightarrow> bool" where
  "country_mismatch x \<longleftrightarrow>
     (case fc_current_country x of None \<Rightarrow> False | Some k \<Rightarrow> k \<noteq> fc_home_country x)"

text \<open>\<open>int(delta.total_seconds())\<close> truncates towards zero; negative values become 0.\<close>

definition elapsed_seconds :: "instant \<Rightarrow> instant \<Rightarrow> int" where
  "elapsed_seconds t start = (if t \<le> start then 0 else (t - start) div 1000000)"

definition checkout_seconds :: "fraud_context \<Rightarrow> int option" where
  "checkout_seconds x = map_option (elapsed_seconds (fc_event_time x)) (fc_session_started_at x)"

section \<open>Rules\<close>

record fraud_rule =
  fr_rule_id :: string
  fr_rule_version :: string
  fr_supported_event_types :: "event_type list"
  fr_maximum_score :: int
  fr_evaluate :: "fraud_context \<Rightarrow> exn + fraud_rule_result"

definition result ::
  "fraud_context \<Rightarrow> string \<Rightarrow> bool \<Rightarrow> int \<Rightarrow> fraud_severity \<Rightarrow> string \<Rightarrow> string \<Rightarrow> json dict \<Rightarrow> fraud_rule_result" where
  "result x rule_id matched score severity reason_code explanation evidence =
     \<lparr>rr_rule_id = rule_id, rr_rule_version = ''1.0'', rr_matched = matched,
      rr_score = (if matched then score else 0),
      rr_severity = (if matched then severity else LOW),
      rr_reason_code = reason_code, rr_explanation = str_take 256 explanation,
      rr_evidence = evidence, rr_evaluated_at = fc_event_time x\<rparr>"

definition ELIGIBLE :: "event_type list" where
  "ELIGIBLE = [CHECKOUT_STARTED, ORDER_CREATED, PAYMENT_FAILED, PAYMENT_COMPLETED, REFUND_REQUESTED]"

definition SUPPORTED :: "event_type list" where
  "SUPPORTED = [CHECKOUT_STARTED, ORDER_CREATED, PAYMENT_FAILED, PAYMENT_COMPLETED]"

text \<open>The amount deviates from the historical average by the configured multiple.\<close>

definition amount_deviates :: "fraud_config \<Rightarrow> fraud_context \<Rightarrow> bool" where
  "amount_deviates c x \<longleftrightarrow>
     (case (fc_amount x, fc_historical_average_amount x) of
        (Some amount, Some average) \<Rightarrow>
          average > 0 \<and> amount \<ge> average * fraud_amount_multiplier_threshold c
      | _ \<Rightarrow> False)"

definition HighAmountRule :: "fraud_config \<Rightarrow> fraud_rule" where
  "HighAmountRule c =
     (let maximum_score = min 100 (fraud_high_amount_score c + fraud_amount_deviation_score c)
      in \<lparr>fr_rule_id = ''high_amount'', fr_rule_version = ''1.0'',
          fr_supported_event_types = ELIGIBLE, fr_maximum_score = maximum_score,
          fr_evaluate = (\<lambda>x.
            let absolute = (case fc_amount x of None \<Rightarrow> False
                            | Some amount \<Rightarrow> amount \<ge> fraud_high_amount_threshold c);
                deviation = amount_deviates c x;
                score = fraud_high_amount_score c * of_bool absolute +
                        fraud_amount_deviation_score c * of_bool deviation
            in Inr (result x ''high_amount'' (absolute \<or> deviation) (min score maximum_score)
                 (if deviation then HIGH else MEDIUM) ''HIGH_AMOUNT''
                 ''Transaction amount exceeds a configured behavioral threshold.''
                 [(''absolute_threshold'', JBool absolute), (''historical_deviation'', JBool deviation)]))\<rparr>)"

definition PaymentAmountMismatchRule :: "fraud_config \<Rightarrow> fraud_rule" where
  "PaymentAmountMismatchRule c =
     \<lparr>fr_rule_id = ''payment_amount_mismatch'', fr_rule_version = ''1.0'',
      fr_supported_event_types = ELIGIBLE, fr_maximum_score = fraud_amount_mismatch_score c,
      fr_evaluate = (\<lambda>x.
        let matched = (\<not> fc_payment_amount_matches_order x)
        in Inr (result x ''payment_amount_mismatch'' matched (fraud_amount_mismatch_score c) CRITICAL
             ''PAYMENT_AMOUNT_MISMATCH''
             ''Persisted monetary integrity indicators do not reconcile.''
             [(''integrity_match'', JBool (\<not> matched))]))\<rparr>"

definition PaymentVelocityRule :: "fraud_config \<Rightarrow> fraud_rule" where
  "PaymentVelocityRule c =
     \<lparr>fr_rule_id = ''payment_velocity'', fr_rule_version = ''1.0'',
      fr_supported_event_types = [PAYMENT_FAILED, PAYMENT_COMPLETED],
      fr_maximum_score = fraud_velocity_score c,
      fr_evaluate = (\<lambda>x.
        Inr (result x ''payment_velocity''
          (fc_recent_payment_attempts x \<ge> fraud_velocity_max_attempts c) (fraud_velocity_score c) MEDIUM
          ''PAYMENT_VELOCITY'' ''Several payment attempts occurred inside the configured window.''
          [(''attempt_count'', JInt (min (fc_recent_payment_attempts x) 999))]))\<rparr>"

definition FailedPaymentBurstRule :: "fraud_config \<Rightarrow> fraud_rule" where
  "FailedPaymentBurstRule c =
     \<lparr>fr_rule_id = ''failed_payment_burst'', fr_rule_version = ''1.0'',
      fr_supported_event_types = [PAYMENT_FAILED, PAYMENT_COMPLETED],
      fr_maximum_score = fraud_failed_payment_score c,
      fr_evaluate = (\<lambda>x.
        Inr (result x ''failed_payment_burst''
          (fc_recent_failed_payments x \<ge> fraud_failed_payment_threshold c)
          (fraud_failed_payment_score c) HIGH
          ''FAILED_PAYMENT_BURST'' ''Repeated normalized payment failures occurred recently.''
          [(''failure_count'', JInt (min (fc_recent_failed_payments x) 999)),
           (''distinct_reason_count'', JInt (min (fc_recent_failure_reasons x) 20))]))\<rparr>"

definition NewDeviceRule :: "fraud_config \<Rightarrow> fraud_rule" where
  "NewDeviceRule c =
     \<lparr>fr_rule_id = ''new_device'', fr_rule_version = ''1.0'',
      fr_supported_event_types = [PAYMENT_FAILED, PAYMENT_COMPLETED],
      fr_maximum_score = fraud_new_device_score c,
      fr_evaluate = (\<lambda>x.
        Inr (result x ''new_device''
          (fc_lifetime_successful_payments x \<ge> fraud_min_history_for_device_rule c \<and> is_new_device x)
          (fraud_new_device_score c) MEDIUM
          ''NEW_DEVICE'' ''An established account used an unrecognized device indicator.''
          [(''established_history'', JBool (established_history x)),
           (''known_device'', JBool (\<not> is_new_device x))]))\<rparr>"

definition CountryMismatchRule :: "fraud_config \<Rightarrow> fraud_rule" where
  "CountryMismatchRule c =
     (let maximum_score = min 100 (fraud_country_mismatch_score c + fraud_multi_country_score c)
      in \<lparr>fr_rule_id = ''country_mismatch'', fr_rule_version = ''1.0'',
          fr_supported_event_types = [ORDER_CREATED, PAYMENT_FAILED, PAYMENT_COMPLETED],
          fr_maximum_score = maximum_score,
          fr_evaluate = (\<lambda>x.
            let mismatch = country_mismatch x;
                multiple = fc_recent_distinct_countries x > 1;
                score = fraud_country_mismatch_score c * of_bool mismatch +
                        fraud_multi_country_score c * of_bool multiple
            in Inr (result x ''country_mismatch'' (mismatch \<or> multiple) (min score maximum_score)
                 (if multiple then HIGH else MEDIUM) ''COUNTRY_MISMATCH''
                 ''Synthetic country indicators differ from established activity.''
                 [(''home_match'', JBool (\<not> mismatch)),
                  (''recent_country_count'', JInt (fc_recent_distinct_countries x))]))\<rparr>)"

definition checkout_is_rapid :: "fraud_config \<Rightarrow> fraud_context \<Rightarrow> bool" where
  "checkout_is_rapid c x \<longleftrightarrow>
     (case checkout_seconds x of None \<Rightarrow> False | Some s \<Rightarrow> s \<le> fraud_rapid_checkout_seconds c)"

definition RapidCheckoutRule :: "fraud_config \<Rightarrow> fraud_rule" where
  "RapidCheckoutRule c =
     \<lparr>fr_rule_id = ''rapid_checkout'', fr_rule_version = ''1.0'',
      fr_supported_event_types = SUPPORTED, fr_maximum_score = fraud_rapid_checkout_score c,
      fr_evaluate = (\<lambda>x.
        Inr (result x ''rapid_checkout'' (checkout_is_rapid c x) (fraud_rapid_checkout_score c) MEDIUM
          ''RAPID_CHECKOUT'' ''The transaction followed session start unusually quickly.''
          [(''elapsed_seconds'', case checkout_seconds x of None \<Rightarrow> JNull | Some s \<Rightarrow> JInt s)]))\<rparr>"

definition AccountTakeoverCompositeRule :: "fraud_config \<Rightarrow> fraud_rule" where
  "AccountTakeoverCompositeRule c =
     \<lparr>fr_rule_id = ''account_takeover_composite'', fr_rule_version = ''1.0'',
      fr_supported_event_types = SUPPORTED, fr_maximum_score = fraud_account_takeover_score c,
      fr_evaluate = (\<lambda>x.
        let signals = [established_history x, is_new_device x, country_mismatch x,
                       checkout_is_rapid c x, amount_deviates c x];
            count = int (length (filter id signals))
        in Inr (result x ''account_takeover_composite''
             (count \<ge> fraud_account_takeover_min_signals c) (fraud_account_takeover_score c) CRITICAL
             ''ACCOUNT_TAKEOVER_PATTERN''
             ''Multiple established-account change indicators occurred together.''
             [(''signal_count'', JInt count),
              (''required_signal_count'', JInt (fraud_account_takeover_min_signals c))]))\<rparr>"

definition RefundAbuseRule :: "fraud_config \<Rightarrow> fraud_rule" where
  "RefundAbuseRule c =
     \<lparr>fr_rule_id = ''refund_abuse'', fr_rule_version = ''1.0'',
      fr_supported_event_types = [REFUND_REQUESTED], fr_maximum_score = fraud_refund_abuse_score c,
      fr_evaluate = (\<lambda>x.
        let rapid = (case fc_seconds_since_payment x of None \<Rightarrow> False
                     | Some s \<Rightarrow> s \<le> fraud_rapid_refund_seconds c);
            near_full = (case (fc_refund_amount x, fc_refundable_amount x) of
                           (Some a, Some r) \<Rightarrow>
                             r > 0 \<and> a / r \<ge> max (fraud_refund_rate_threshold c) (9 / 10)
                         | _ \<Rightarrow> False);
            repeated = fc_recent_refunds x \<ge> 3
        in Inr (result x ''refund_abuse''
             (repeated \<or> (rapid \<and> near_full \<and> fc_recent_refunds x \<ge> 2))
             (fraud_refund_abuse_score c) HIGH ''REFUND_ABUSE_PATTERN''
             (''Refund timing, frequency, and normalized amount form '' @ ''a suspicious pattern.'')
             [(''rapid'', JBool rapid), (''near_full'', JBool near_full),
              (''recent_refund_count'', JInt (fc_recent_refunds x))]))\<rparr>"

definition BotCheckoutRule :: "fraud_config \<Rightarrow> fraud_rule" where
  "BotCheckoutRule c =
     \<lparr>fr_rule_id = ''bot_checkout'', fr_rule_version = ''1.0'',
      fr_supported_event_types = SUPPORTED, fr_maximum_score = fraud_bot_checkout_score c,
      fr_evaluate = (\<lambda>x.
        let rapid = checkout_is_rapid c x
        in Inr (result x ''bot_checkout''
             (fc_product_view_count x \<ge> fraud_bot_view_threshold c \<and> rapid)
             (fraud_bot_checkout_score c) MEDIUM ''BOT_CHECKOUT_PATTERN''
             ''A high browsing count was followed by a very rapid transaction.''
             [(''view_count'', JInt (min (fc_product_view_count x) 999)), (''rapid'', JBool rapid)]))\<rparr>"

section \<open>Registry, scoring and engine\<close>

definition all_rules :: "fraud_config \<Rightarrow> fraud_rule list" where
  "all_rules c =
     [HighAmountRule c, PaymentVelocityRule c, FailedPaymentBurstRule c, NewDeviceRule c,
      CountryMismatchRule c, RapidCheckoutRule c, AccountTakeoverCompositeRule c,
      RefundAbuseRule c, BotCheckoutRule c, PaymentAmountMismatchRule c]"

definition validate_registry :: "fraud_rule list \<Rightarrow> string list \<Rightarrow> exn + unit" where
  "validate_registry rules enabled =
     (let ids = map fr_rule_id rules
      in if length ids \<noteq> length (remdups ids)
         then Inl (Exn FraudRuleConfigurationError ''duplicate fraud rule ID'')
         else if filter (\<lambda>i. i \<notin> set ids) enabled \<noteq> []
         then Inl (Exn FraudRuleConfigurationError ''configured fraud rules do not exist'')
         else if list_ex (\<lambda>r. fr_maximum_score r < 0 \<or> fr_maximum_score r > 100) rules
         then Inl (Exn FraudRuleConfigurationError ''fraud rule score bound is invalid'')
         else Inr ())"

definition build_rule_registry :: "fraud_config \<Rightarrow> exn + fraud_rule list" where
  "build_rule_registry c =
     (case validate_registry (all_rules c) (enabled_rule_ids c) of
        Inl e \<Rightarrow> Inl e
      | Inr _ \<Rightarrow> Inr (filter (\<lambda>r. fr_rule_id r \<in> set (enabled_rule_ids c)) (all_rules c)))"

definition aggregate ::
  "fraud_rule_result list \<Rightarrow> fraud_config \<Rightarrow> exn + int \<times> fraud_decision \<times> fraud_severity" where
  "aggregate results c =
     (if list_ex (\<lambda>r. rr_score r < 0) results
      then Inl (Exn PyValueError ''fraud rules cannot return negative scores'')
      else
        let matched = filter rr_matched results;
            score = min 100 (sum_list (map rr_score matched));
            (decision, minimum) =
              (if score \<ge> fraud_block_threshold c then (BLOCK, HIGH)
               else if score \<ge> fraud_review_threshold c then (REVIEW, MEDIUM)
               else (APPROVE, LOW));
            severity = (case map rr_severity matched of [] \<Rightarrow> minimum | s # ss \<Rightarrow> fold max ss s)
        in Inr (score, decision, if severity < minimum then minimum else severity))"

fun run_rules :: "fraud_rule list \<Rightarrow> fraud_context \<Rightarrow> exn + fraud_rule_result list" where
  "run_rules [] x = Inr []"
| "run_rules (rule # rules) x =
     (if fc_event_type x \<notin> set (fr_supported_event_types rule) then run_rules rules x
      else case fr_evaluate rule x of
             Inl e \<Rightarrow>
               if isinstance e FraudRuleConfigurationError then Inl e
               else Inl (Exn PermanentProcessingError (''fraud rule failed: '' @ fr_rule_id rule))
           | Inr evaluated \<Rightarrow>
               if rr_score evaluated > fr_maximum_score rule
               then Inl (Exn FraudRuleConfigurationError (''fraud rule exceeded maximum: '' @ fr_rule_id rule))
               else (case run_rules rules x of Inl e \<Rightarrow> Inl e | Inr rs \<Rightarrow> Inr (evaluated # rs)))"

definition EVALUATION_NAMESPACE :: uuid where
  "EVALUATION_NAMESPACE = 0xaf5fe7db8df24e57b50639fc223b6e9c"

definition deterministic_evaluation_id :: "(uuid \<Rightarrow> string \<Rightarrow> uuid) \<Rightarrow> uuid \<Rightarrow> string \<Rightarrow> uuid" where
  "deterministic_evaluation_id uuid5 source_event_id ruleset_version =
     uuid5 EVALUATION_NAMESPACE (uuid_str source_event_id @ '':'' @ ruleset_version)"

definition evaluate ::
  "(uuid \<Rightarrow> string \<Rightarrow> uuid) \<Rightarrow> fraud_config \<Rightarrow> fraud_rule list \<Rightarrow> fraud_context \<Rightarrow> exn + fraud_evaluation" where
  "evaluate uuid5 c rules x =
     (case run_rules rules x of
        Inl e \<Rightarrow> Inl e
      | Inr results \<Rightarrow>
          (case aggregate results c of
             Inl e \<Rightarrow> Inl e
           | Inr (score, decision, severity) \<Rightarrow>
               Inr \<lparr>fv_evaluation_id =
                      deterministic_evaluation_id uuid5 (fc_source_event_id x) (fraud_ruleset_version c),
                    fv_source_event_id = fc_source_event_id x, fv_customer_id = fc_customer_id x,
                    fv_order_id = fc_order_id x, fv_payment_id = fc_payment_id x,
                    fv_total_score = score, fv_decision = decision, fv_severity = severity,
                    fv_rule_results = results, fv_evaluated_at = fc_event_time x,
                    fv_engine_version = fraud_engine_version c,
                    fv_ruleset_version = fraud_ruleset_version c\<rparr>))"

end
