(* ===== verification/Database.thy ===== *)
theory Database
  imports Fraud_Rules
begin

text \<open>
  The PostgreSQL tables the processor writes (\<^verbatim>\<open>database/migrations\<close>): a table is the list of its
  rows in insertion order, a row a record of its columns. The columns that only hold the time of the
  write (\<open>created_at\<close>, \<open>updated_at\<close>) are left out; a column holding an enumeration's value holds
  the constructor. NUMERIC(38, 18) columns hold the rational number itself: amounts are assumed to
  have at most 18 fractional digits and fewer than 20 integral ones. INTEGER columns hold an int and
  the statements that write them check the 32-bit range. A statement that violates a constraint
  raises an error with an SQLSTATE; the foreign keys on \<open>processed_events\<close> are deferred to the
  commit.
\<close>

section \<open>Rows\<close>

datatype cart_status = Cart_active | Cart_checkout_started | Cart_ordered
datatype order_status = Order_created | Order_paid | Order_partially_refunded | Order_refunded
datatype payment_status = Payment_completed | Payment_failed | Payment_partially_refunded | Payment_refunded
datatype outbox_status = PENDING | PUBLISHING | PUBLISHED | FAILED

record processed_event_row =
  pe_event_id :: uuid
  pe_event_type :: event_type
  pe_event_version :: int
  pe_correlation_id :: uuid
  pe_source :: string
  pe_event_time :: instant
  pe_produced_at :: instant
  pe_kafka_topic :: string
  pe_kafka_partition :: int
  pe_kafka_offset :: int
  pe_kafka_key :: "string option"
  pe_payload_json :: string
  pe_payload_sha256 :: string
  pe_processor_instance_id :: string

record customer_row =
  cu_customer_id :: uuid
  cu_email_hash :: string
  cu_persona :: customer_persona
  cu_home_country :: string
  cu_registered_at :: instant
  cu_first_event_id :: uuid
  cu_last_event_id :: uuid

record session_row =
  se_session_id :: uuid
  se_customer_id :: uuid
  se_device_id :: string
  se_device_type :: device_type
  se_ip_address :: string
  se_country :: string
  se_channel :: session_channel
  se_started_at :: instant
  se_first_event_id :: uuid

record product_view_row =
  vw_event_id :: uuid
  vw_session_id :: uuid
  vw_customer_id :: uuid
  vw_product_id :: uuid
  vw_category :: string
  vw_price :: money
  vw_currency :: currency
  vw_quantity_available :: int
  vw_viewed_at :: instant

record cart_row =
  ct_cart_id :: uuid
  ct_customer_id :: uuid
  ct_session_id :: uuid
  ct_status :: cart_status
  ct_subtotal :: money
  ct_discount :: money
  ct_total :: money
  ct_currency :: currency
  ct_item_count :: int
  ct_created_event_id :: uuid
  ct_latest_event_id :: uuid

record cart_item_row =
  it_cart_id :: uuid
  it_product_id :: uuid
  it_quantity :: int
  it_unit_price :: money
  it_line_total :: money

record order_row =
  or_order_id :: uuid
  or_customer_id :: uuid
  or_session_id :: uuid
  or_cart_id :: uuid
  or_status :: order_status
  or_subtotal :: money
  or_discount :: money
  or_total :: money
  or_currency :: currency
  or_item_count :: int
  or_shipping_country :: string
  or_billing_country :: string
  or_created_event_id :: uuid
  or_latest_event_id :: uuid
  or_ordered_at :: instant

record payment_row =
  pa_payment_id :: uuid
  pa_order_id :: uuid
  pa_customer_id :: uuid
  pa_status :: payment_status
  pa_amount :: money
  pa_currency :: currency
  pa_payment_method :: payment_method
  pa_failure_reason :: "payment_failure_reason option"
  pa_device_id :: string
  pa_ip_address :: string
  pa_country :: string
  pa_event_id :: uuid
  pa_attempted_at :: instant

record refund_row =
  re_refund_id :: uuid
  re_payment_id :: uuid
  re_order_id :: uuid
  re_customer_id :: uuid
  re_amount :: money
  re_currency :: currency
  re_reason :: string
  re_event_id :: uuid
  re_requested_at :: instant

record fraud_evaluation_row =
  fe_evaluation_id :: uuid
  fe_source_event_id :: uuid
  fe_customer_id :: uuid
  fe_order_id :: "uuid option"
  fe_payment_id :: "uuid option"
  fe_total_score :: int
  fe_decision :: fraud_decision
  fe_severity :: fraud_severity
  fe_engine_version :: string
  fe_ruleset_version :: string
  fe_matched_rule_count :: int
  fe_rule_results :: "fraud_rule_result list"
  fe_evaluated_at :: instant

record fraud_alert_row =
  al_alert_id :: uuid
  al_evaluation_id :: "uuid option"
  al_source_event_id :: uuid
  al_customer_id :: "uuid option"
  al_order_id :: "uuid option"
  al_payment_id :: "uuid option"
  al_score :: int
  al_decision :: fraud_decision
  al_severity :: fraud_severity
  al_reason_codes :: "string list"
  al_alert_event_id :: uuid
  al_created_at :: instant

record outbox_row =
  ob_outbox_id :: uuid
  ob_aggregate_id :: uuid
  ob_event_id :: uuid
  ob_event_type :: event_type
  ob_event_version :: int
  ob_topic :: string
  ob_message_key :: string
  ob_headers :: "(string \<times> string) list"
  ob_payload_json :: string
  ob_payload_bytes :: string
  ob_status :: outbox_status
  ob_attempts :: int
  ob_available_at :: instant
  ob_claimed_at :: "instant option"
  ob_claim_token :: "uuid option"
  ob_published_at :: "instant option"
  ob_last_error :: "string option"

record db =
  t_processed_events :: "processed_event_row list"
  t_customers :: "customer_row list"
  t_sessions :: "session_row list"
  t_product_views :: "product_view_row list"
  t_carts :: "cart_row list"
  t_cart_items :: "cart_item_row list"
  t_orders :: "order_row list"
  t_payments :: "payment_row list"
  t_refunds :: "refund_row list"
  t_fraud_evaluations :: "fraud_evaluation_row list"
  t_fraud_alerts :: "fraud_alert_row list"
  t_fraud_outbox :: "outbox_row list"

definition empty_db :: db where
  "empty_db = \<lparr>t_processed_events = [], t_customers = [], t_sessions = [], t_product_views = [],
     t_carts = [], t_cart_items = [], t_orders = [], t_payments = [], t_refunds = [],
     t_fraud_evaluations = [], t_fraud_alerts = [], t_fraud_outbox = []\<rparr>"

section \<open>Statements\<close>

text \<open>An exception inside a transaction: one raised by the application, or a database error with its
  SQLSTATE.\<close>

datatype db_exn = Raised exn | Sql string

definition select_key :: "('r \<Rightarrow> 'k) \<Rightarrow> 'k \<Rightarrow> 'r list \<Rightarrow> 'r option" where
  "select_key key k rows = find (\<lambda>r. key r = k) rows"

definition update_where :: "('r \<Rightarrow> bool) \<Rightarrow> ('r \<Rightarrow> 'r) \<Rightarrow> 'r list \<Rightarrow> 'r list" where
  "update_where P f rows = map (\<lambda>r. if P r then f r else r) rows"

definition rowcount :: "('r \<Rightarrow> bool) \<Rightarrow> 'r list \<Rightarrow> int" where
  "rowcount P rows = int (length (filter P rows))"

definition exists_key :: "('r \<Rightarrow> 'k) \<Rightarrow> 'k \<Rightarrow> 'r list \<Rightarrow> bool" where
  "exists_key key k rows \<longleftrightarrow> select_key key k rows \<noteq> None"

definition int4 :: "int \<Rightarrow> bool" where
  "int4 n \<longleftrightarrow> - (2 ^ 31) \<le> n \<and> n < 2 ^ 31"

definition unique_violation :: string where "unique_violation = ''23505''"
definition foreign_key_violation :: string where "foreign_key_violation = ''23503''"
definition check_violation :: string where "check_violation = ''23514''"
definition numeric_value_out_of_range :: string where "numeric_value_out_of_range = ''22003''"

section \<open>Keyed tables\<close>

text \<open>The laws of a table with a primary key, proved once: \<open>rows\<close> reads the table out of the
  database and \<open>change\<close> rewrites it.\<close>

definition keys_unique :: "('r \<Rightarrow> 'k) \<Rightarrow> 'r list \<Rightarrow> bool" where
  "keys_unique key rows \<longleftrightarrow> distinct (map key rows)"

lemma select_key_Some: "select_key key k rows = Some r \<Longrightarrow> r \<in> set rows \<and> key r = k"
  by (auto simp: select_key_def find_Some_iff)

lemma select_key_None: "select_key key k rows = None \<longleftrightarrow> k \<notin> key ` set rows"
  by (auto simp: select_key_def find_None_iff)

lemma select_key_unique:
  "keys_unique key rows \<Longrightarrow> r \<in> set rows \<Longrightarrow> select_key key (key r) rows = Some r"
  by (induction rows) (auto simp: keys_unique_def select_key_def)

lemma select_key_append:
  "select_key key k (rows @ [r]) =
     (case select_key key k rows of Some r' \<Rightarrow> Some r' | None \<Rightarrow> if key r = k then Some r else None)"
  by (induction rows) (auto simp: select_key_def)

lemma select_key_update:
  assumes "\<And>r. key (f r) = key r"
  shows "select_key key k (update_where P f rows) =
    map_option (\<lambda>r. if P r then f r else r) (select_key key k rows)"
  using assms by (induction rows) (auto simp: select_key_def update_where_def)

lemma keys_unique_append:
  "keys_unique key (rows @ [r]) \<longleftrightarrow> keys_unique key rows \<and> select_key key (key r) rows = None"
  by (auto simp: keys_unique_def select_key_None)

lemma keys_unique_update:
  "(\<And>r. key (f r) = key r) \<Longrightarrow> keys_unique key (update_where P f rows) \<longleftrightarrow> keys_unique key rows"
  by (simp add: keys_unique_def update_where_def comp_def if_distrib cong: if_cong)

lemma set_update_where: "set (update_where P f rows) = (\<lambda>r. if P r then f r else r) ` set rows"
  by (simp add: update_where_def)

lemma filter_update_other:
  "(\<And>r. P r \<Longrightarrow> \<not> Q r) \<Longrightarrow> (\<And>r. P r \<Longrightarrow> \<not> Q (f r)) \<Longrightarrow> filter Q (update_where P f rows) = filter Q rows"
  by (induction rows) (auto simp: update_where_def)

locale keyed_table =
  fixes key :: "'r \<Rightarrow> 'k" and rows :: "'d \<Rightarrow> 'r list" and change :: "('r list \<Rightarrow> 'r list) \<Rightarrow> 'd \<Rightarrow> 'd"
  assumes rows_change: "rows (change f d) = f (rows d)"
begin

lemma lookup_inserted:
  "select_key key (key r) (rows d) = None \<Longrightarrow>
     select_key key (key r) (rows (change (\<lambda>rs. rs @ [r]) d)) = Some r"
  by (simp add: rows_change select_key_append)

lemma lookup_other:
  "key r \<noteq> k \<Longrightarrow> select_key key k (rows (change (\<lambda>rs. rs @ [r]) d)) = select_key key k (rows d)"
  by (simp add: rows_change select_key_append split: option.split)

lemma insert_keeps_unique:
  "keys_unique key (rows d) \<Longrightarrow> select_key key (key r) (rows d) = None \<Longrightarrow>
     keys_unique key (rows (change (\<lambda>rs. rs @ [r]) d))"
  by (simp add: rows_change keys_unique_append)

lemma update_keeps_unique:
  "(\<And>r. key (f r) = key r) \<Longrightarrow>
     keys_unique key (rows (change (update_where P f) d)) \<longleftrightarrow> keys_unique key (rows d)"
  by (simp add: rows_change keys_unique_update)

lemma lookup_updated:
  "(\<And>r. key (f r) = key r) \<Longrightarrow> select_key key k (rows d) = Some r \<Longrightarrow>
     select_key key k (rows (change (update_where (\<lambda>r. key r = k) f) d)) = Some (f r)"
  using select_key_Some [of key k "rows d" r] by (simp add: rows_change select_key_update)

end

interpretation processed_events: keyed_table pe_event_id t_processed_events t_processed_events_update
  by unfold_locales simp
interpretation customers: keyed_table cu_customer_id t_customers t_customers_update
  by unfold_locales simp
interpretation sessions: keyed_table se_session_id t_sessions t_sessions_update
  by unfold_locales simp
interpretation product_views: keyed_table vw_event_id t_product_views t_product_views_update
  by unfold_locales simp
interpretation carts: keyed_table ct_cart_id t_carts t_carts_update
  by unfold_locales simp
interpretation cart_items: keyed_table "\<lambda>r. (it_cart_id r, it_product_id r)" t_cart_items t_cart_items_update
  by unfold_locales simp
interpretation orders: keyed_table or_order_id t_orders t_orders_update
  by unfold_locales simp
interpretation payments: keyed_table pa_payment_id t_payments t_payments_update
  by unfold_locales simp
interpretation refunds: keyed_table re_refund_id t_refunds t_refunds_update
  by unfold_locales simp
interpretation fraud_evaluations: keyed_table fe_evaluation_id t_fraud_evaluations t_fraud_evaluations_update
  by unfold_locales simp
interpretation fraud_outbox: keyed_table ob_outbox_id t_fraud_outbox t_fraud_outbox_update
  by unfold_locales simp

end
