(* ===== verification/Repositories.thy ===== *)
theory Repositories
  imports Database
begin

text \<open>
  The repositories of \<^verbatim>\<open>persistence/repositories\<close> and the handler registry of
  \<^verbatim>\<open>persistence/handlers.py\<close>: what each event writes inside its transaction. An operation maps the
  database to an exception or to its result and the new database; a transaction that ends with an
  exception is rolled back, so no database accompanies it.

  \<open>canonical_json\<close>, \<open>sha256\<close> and \<open>uuid5\<close> are parameters, and so is \<open>inet_text\<close>, PostgreSQL's
  conversion of a stored address to text.
\<close>

type_synonym rows_written = "(string \<times> int) list"
type_synonym 'a tx = "db \<Rightarrow> db_exn + 'a \<times> db"

record store_env =
  sv_canonical_json :: "envelope \<Rightarrow> string"
  sv_sha256 :: "string \<Rightarrow> string"
  sv_uuid5 :: "uuid \<Rightarrow> string \<Rightarrow> uuid"
  sv_inet_text :: "string \<Rightarrow> string"

abbreviation missing :: "string \<Rightarrow> db_exn + 'a" where
  "missing msg \<equiv> Inl (Raised (Exn MissingBusinessDependencyError msg))"

abbreviation integrity :: "string \<Rightarrow> db_exn + 'a" where
  "integrity msg \<equiv> Inl (Raised (Exn PermanentDatabaseIntegrityError msg))"

section \<open>Event ledger\<close>

definition canonical_payload_hash :: "store_env \<Rightarrow> envelope \<Rightarrow> string" where
  "canonical_payload_hash v e = sv_sha256 v (sv_canonical_json v e)"

definition ledger_row :: "store_env \<Rightarrow> envelope \<Rightarrow> consumed_message \<Rightarrow> processing_context \<Rightarrow> bool \<Rightarrow> processed_event_row" where
  "ledger_row v e m cn persist_raw_json =
     \<lparr>pe_event_id = ev_event_id e, pe_event_type = ev_event_type e,
      pe_event_version = ev_event_version e, pe_correlation_id = ev_correlation_id e,
      pe_source = ev_source e, pe_event_time = ev_event_time e, pe_produced_at = ev_produced_at e,
      pe_kafka_topic = cm_topic m, pe_kafka_partition = cm_partition m, pe_kafka_offset = cm_offset m,
      pe_kafka_key = cm_key m,
      pe_payload_json = (if persist_raw_json then sv_canonical_json v e else ''{}''),
      pe_payload_sha256 = canonical_payload_hash v e,
      pe_processor_instance_id = cn_processor_instance_id cn\<rparr>"

definition pe_coordinate :: "processed_event_row \<Rightarrow> string \<times> int \<times> int" where
  "pe_coordinate r = (pe_kafka_topic r, pe_kafka_partition r, pe_kafka_offset r)"

definition insert_identity ::
  "store_env \<Rightarrow> envelope \<Rightarrow> consumed_message \<Rightarrow> processing_context \<Rightarrow> bool \<Rightarrow> unit tx" where
  "insert_identity v e m cn persist_raw_json d =
     (case select_key pe_event_id (ev_event_id e) (t_processed_events d) of
        Some existing \<Rightarrow>
          if pe_payload_sha256 existing = canonical_payload_hash v e
          then Inl (Raised (Exn AlreadyPersistedEvent (uuid_str (ev_event_id e))))
          else integrity ''event_id conflicts with different canonical event content''
      | None \<Rightarrow>
          if exists_key pe_coordinate (cm_topic m, cm_partition m, cm_offset m) (t_processed_events d)
          then integrity ''Kafka source coordinate is already assigned to another event''
          else if cm_partition m < 0 \<or> cm_offset m < 0 then Inl (Sql check_violation)
          else Inr ((), d\<lparr>t_processed_events := t_processed_events d @ [ledger_row v e m cn persist_raw_json]\<rparr>))"

section \<open>Customers, sessions and product views\<close>

definition customer_identity :: "customer_row \<Rightarrow> string \<times> customer_persona \<times> string \<times> instant" where
  "customer_identity r = (cu_email_hash r, cu_persona r, cu_home_country r, cu_registered_at r)"

definition register :: "user_registered_payload \<Rightarrow> uuid \<Rightarrow> int tx" where
  "register p event_id d =
     (case select_key cu_customer_id (ur_customer_id p) (t_customers d) of
        Some existing \<Rightarrow>
          if customer_identity existing \<noteq>
             (ur_email_hash p, ur_persona p, ur_country_code p, ur_registered_at p)
          then integrity ''customer immutable identity conflict''
          else Inr (0, d\<lparr>t_customers :=
                 update_where (\<lambda>r. cu_customer_id r = ur_customer_id p)
                   (\<lambda>r. r\<lparr>cu_last_event_id := event_id\<rparr>) (t_customers d)\<rparr>)
      | None \<Rightarrow>
          Inr (1, d\<lparr>t_customers := t_customers d @
            [\<lparr>cu_customer_id = ur_customer_id p, cu_email_hash = ur_email_hash p,
              cu_persona = ur_persona p, cu_home_country = ur_country_code p,
              cu_registered_at = ur_registered_at p, cu_first_event_id = event_id,
              cu_last_event_id = event_id\<rparr>]\<rparr>))"

definition insert_session :: "store_env \<Rightarrow> session_started_payload \<Rightarrow> uuid \<Rightarrow> int tx" where
  "insert_session v p event_id d =
     (if \<not> exists_key cu_customer_id (ss_customer_id p) (t_customers d)
      then missing ''customer is not persisted''
      else case select_key se_session_id (ss_session_id p) (t_sessions d) of
             Some r \<Rightarrow>
               if (se_customer_id r, se_device_id r, sv_inet_text v (se_ip_address r), se_country r,
                   se_started_at r) \<noteq>
                  (ss_customer_id p, uuid_str (ss_device_id p), ss_ip_address p, ss_country_code p,
                   ss_started_at p)
               then integrity ''session identity conflict''
               else Inr (0, d)
           | None \<Rightarrow>
               Inr (1, d\<lparr>t_sessions := t_sessions d @
                 [\<lparr>se_session_id = ss_session_id p, se_customer_id = ss_customer_id p,
                   se_device_id = uuid_str (ss_device_id p), se_device_type = ss_device_type p,
                   se_ip_address = ss_ip_address p, se_country = ss_country_code p,
                   se_channel = ss_channel p, se_started_at = ss_started_at p,
                   se_first_event_id = event_id\<rparr>]\<rparr>))"

definition insert_product_view :: "product_viewed_payload \<Rightarrow> uuid \<Rightarrow> instant \<Rightarrow> int tx" where
  "insert_product_view p event_id viewed_at d =
     (if \<not> exists_key cu_customer_id (pv_customer_id p) (t_customers d)
      then missing ''customer is not persisted''
      else if \<not> exists_key se_session_id (pv_session_id p) (t_sessions d)
      then missing ''session is not persisted''
      else if \<not> int4 (pv_quantity_available p) then Inl (Sql numeric_value_out_of_range)
      else if pv_unit_price p < 0 \<or> pv_quantity_available p < 0 then Inl (Sql check_violation)
      else if exists_key vw_event_id event_id (t_product_views d) then Inr (0, d)
      else Inr (1, d\<lparr>t_product_views := t_product_views d @
             [\<lparr>vw_event_id = event_id, vw_session_id = pv_session_id p,
               vw_customer_id = pv_customer_id p, vw_product_id = pv_product_id p,
               vw_category = pv_category p, vw_price = pv_unit_price p, vw_currency = pv_currency p,
               vw_quantity_available = pv_quantity_available p, vw_viewed_at = viewed_at\<rparr>]\<rparr>))"

section \<open>Carts\<close>

text \<open>\<open>INSERT INTO carts ... ON CONFLICT (cart_id) DO UPDATE ... WHERE\<close>: None when the row count is
  zero.\<close>

definition upsert_cart :: "added_to_cart_payload \<Rightarrow> money \<Rightarrow> uuid \<Rightarrow> cart_row list \<Rightarrow> cart_row list option" where
  "upsert_cart p line_total event_id rows =
     (case select_key ct_cart_id (ac_cart_id p) rows of
        None \<Rightarrow>
          Some (rows @
            [\<lparr>ct_cart_id = ac_cart_id p, ct_customer_id = ac_customer_id p,
              ct_session_id = ac_session_id p, ct_status = Cart_active, ct_subtotal = line_total,
              ct_discount = 0, ct_total = line_total, ct_currency = ac_currency p,
              ct_item_count = ac_quantity p, ct_created_event_id = event_id,
              ct_latest_event_id = event_id\<rparr>])
      | Some r \<Rightarrow>
          if ct_customer_id r = ac_customer_id p \<and> ct_session_id r = ac_session_id p \<and>
             ct_currency r = ac_currency p
          then Some (update_where (\<lambda>r. ct_cart_id r = ac_cart_id p)
                 (\<lambda>r. r\<lparr>ct_latest_event_id := event_id\<rparr>) rows)
          else None)"

abbreviation item_key :: "cart_item_row \<Rightarrow> uuid \<times> uuid" where
  "item_key r \<equiv> (it_cart_id r, it_product_id r)"

definition upsert_item :: "added_to_cart_payload \<Rightarrow> money \<Rightarrow> cart_item_row list \<Rightarrow> cart_item_row list" where
  "upsert_item p line_total rows =
     (if exists_key item_key (ac_cart_id p, ac_product_id p) rows
      then update_where (\<lambda>r. item_key r = (ac_cart_id p, ac_product_id p))
             (\<lambda>r. r\<lparr>it_quantity := ac_quantity p, it_unit_price := ac_unit_price p,
                    it_line_total := line_total\<rparr>) rows
      else rows @
        [\<lparr>it_cart_id = ac_cart_id p, it_product_id = ac_product_id p, it_quantity = ac_quantity p,
          it_unit_price = ac_unit_price p, it_line_total = line_total\<rparr>])"

definition items_of :: "uuid \<Rightarrow> cart_item_row list \<Rightarrow> cart_item_row list" where
  "items_of cart_id rows = filter (\<lambda>r. it_cart_id r = cart_id) rows"

definition items_subtotal :: "uuid \<Rightarrow> cart_item_row list \<Rightarrow> money" where
  "items_subtotal cart_id rows = sum_list (map it_line_total (items_of cart_id rows))"

definition items_count :: "uuid \<Rightarrow> cart_item_row list \<Rightarrow> int" where
  "items_count cart_id rows = sum_list (map it_quantity (items_of cart_id rows))"

definition refresh_cart :: "uuid \<Rightarrow> uuid \<Rightarrow> db \<Rightarrow> cart_row \<Rightarrow> cart_row" where
  "refresh_cart event_id cart_id d r =
     r\<lparr>ct_subtotal := items_subtotal cart_id (t_cart_items d),
       ct_total := items_subtotal cart_id (t_cart_items d) - ct_discount r,
       ct_item_count := items_count cart_id (t_cart_items d),
       ct_latest_event_id := event_id\<rparr>"

text \<open>The \<open>UPDATE carts ... FROM (SELECT SUM(...) ... GROUP BY cart_id)\<close> joins nothing when the cart
  has no item.\<close>

definition refresh_totals :: "uuid \<Rightarrow> uuid \<Rightarrow> unit tx" where
  "refresh_totals event_id cart_id d =
     (let target = (\<lambda>r. ct_cart_id r = cart_id \<and> items_of cart_id (t_cart_items d) \<noteq> []);
          carts = update_where target (refresh_cart event_id cart_id d) (t_carts d)
      in if items_of cart_id (t_cart_items d) \<noteq> [] \<and> \<not> int4 (items_count cart_id (t_cart_items d))
         then Inl (Sql numeric_value_out_of_range)
         else if list_ex (\<lambda>r. ct_cart_id r = cart_id \<and>
                   (ct_subtotal r < 0 \<or> ct_total r < 0 \<or> ct_item_count r < 0)) carts
         then Inl (Sql check_violation)
         else Inr ((), d\<lparr>t_carts := carts\<rparr>))"

definition add_item :: "added_to_cart_payload \<Rightarrow> uuid \<Rightarrow> rows_written tx" where
  "add_item p event_id d =
     (if \<not> exists_key cu_customer_id (ac_customer_id p) (t_customers d)
      then missing ''customer is not persisted''
      else if \<not> exists_key se_session_id (ac_session_id p) (t_sessions d)
      then missing ''session is not persisted''
      else
        let line_total = ac_unit_price p * of_int (ac_quantity p)
        in if \<not> int4 (ac_quantity p) then Inl (Sql numeric_value_out_of_range)
           else if ac_quantity p \<le> 0 \<or> ac_unit_price p < 0 then Inl (Sql check_violation)
           else case upsert_cart p line_total event_id (t_carts d) of
                  None \<Rightarrow> integrity ''cart identity conflict''
                | Some carts \<Rightarrow>
                    (case refresh_totals event_id (ac_cart_id p)
                            (d\<lparr>t_carts := carts, t_cart_items := upsert_item p line_total (t_cart_items d)\<rparr>) of
                       Inl x \<Rightarrow> Inl x
                     | Inr (_, d') \<Rightarrow> Inr ([(''carts'', 1), (''cart_items'', 1)], d')))"

definition checkout :: "checkout_started_payload \<Rightarrow> uuid \<Rightarrow> int tx" where
  "checkout p event_id d =
     (case select_key ct_cart_id (cs_cart_id p) (t_carts d) of
        None \<Rightarrow> missing ''cart is not persisted''
      | Some r \<Rightarrow>
          if ct_customer_id r \<noteq> cs_customer_id p \<or> ct_session_id r \<noteq> cs_session_id p \<or>
             ct_subtotal r \<noteq> cs_subtotal p \<or> ct_currency r \<noteq> cs_currency p \<or>
             ct_item_count r \<noteq> cs_item_count p
          then integrity ''checkout totals or cart identity do not match persisted cart''
          else if cs_discount_amount p < 0 \<or> cs_total_amount p < 0 then Inl (Sql check_violation)
          else Inr (rowcount (\<lambda>r. ct_cart_id r = cs_cart_id p) (t_carts d),
                 d\<lparr>t_carts := update_where (\<lambda>r. ct_cart_id r = cs_cart_id p)
                     (\<lambda>r. r\<lparr>ct_status := Cart_checkout_started, ct_discount := cs_discount_amount p,
                            ct_total := cs_total_amount p, ct_latest_event_id := event_id\<rparr>)
                     (t_carts d)\<rparr>))"

section \<open>Orders\<close>

definition order_of :: "order_created_payload \<Rightarrow> uuid \<Rightarrow> order_row" where
  "order_of p event_id =
     \<lparr>or_order_id = oc_order_id p, or_customer_id = oc_customer_id p,
      or_session_id = oc_session_id p, or_cart_id = oc_cart_id p, or_status = Order_created,
      or_subtotal = oc_subtotal p, or_discount = oc_discount_amount p, or_total = oc_total_amount p,
      or_currency = oc_currency p, or_item_count = oc_item_count p,
      or_shipping_country = oc_shipping_country_code p,
      or_billing_country = oc_billing_country_code p, or_created_event_id = event_id,
      or_latest_event_id = event_id, or_ordered_at = oc_created_at p\<rparr>"

definition insert_order :: "order_created_payload \<Rightarrow> uuid \<Rightarrow> rows_written tx" where
  "insert_order p event_id d =
     (case select_key ct_cart_id (oc_cart_id p) (t_carts d) of
        None \<Rightarrow> missing ''cart is not persisted''
      | Some r \<Rightarrow>
          if ct_customer_id r \<noteq> oc_customer_id p \<or> ct_session_id r \<noteq> oc_session_id p \<or>
             ct_subtotal r \<noteq> oc_subtotal p \<or> ct_discount r \<noteq> oc_discount_amount p \<or>
             ct_total r \<noteq> oc_total_amount p \<or> ct_currency r \<noteq> oc_currency p \<or>
             ct_item_count r \<noteq> oc_item_count p
          then integrity ''order totals or identity do not match persisted cart''
          else if oc_subtotal p < 0 \<or> oc_discount_amount p < 0 \<or> oc_total_amount p < 0 \<or> oc_item_count p \<le> 0
          then Inl (Sql check_violation)
          else if exists_key or_order_id (oc_order_id p) (t_orders d)
          then integrity ''order identity conflict''
          else if \<not> exists_key cu_customer_id (oc_customer_id p) (t_customers d) \<or>
                  \<not> exists_key se_session_id (oc_session_id p) (t_sessions d)
          then Inl (Sql foreign_key_violation)
          else Inr ([(''orders'', 1), (''carts'', 1)],
                 d\<lparr>t_orders := t_orders d @ [order_of p event_id],
                   t_carts := update_where (\<lambda>r. ct_cart_id r = oc_cart_id p)
                     (\<lambda>r. r\<lparr>ct_status := Cart_ordered, ct_latest_event_id := event_id\<rparr>) (t_carts d)\<rparr>))"

section \<open>Payments\<close>

text \<open>\<open>_insert\<close> takes the fields the two payment payloads share as a row.\<close>

definition insert_payment :: "payment_row \<Rightarrow> rows_written tx" where
  "insert_payment row d =
     (case select_key or_order_id (pa_order_id row) (t_orders d) of
        None \<Rightarrow> missing ''order is not persisted''
      | Some r \<Rightarrow>
          if or_customer_id r \<noteq> pa_customer_id row \<or> or_total r \<noteq> pa_amount row \<or>
             or_currency r \<noteq> pa_currency row
          then integrity ''payment amount, currency, or customer does not match order''
          else if pa_amount row \<le> 0 then Inl (Sql check_violation)
          else if exists_key pa_payment_id (pa_payment_id row) (t_payments d)
          then integrity ''payment identity conflict''
          else if exists_key pa_event_id (pa_event_id row) (t_payments d)
          then Inl (Sql unique_violation)
          else if \<not> exists_key cu_customer_id (pa_customer_id row) (t_customers d)
          then Inl (Sql foreign_key_violation)
          else
            let d1 = d\<lparr>t_payments := t_payments d @ [row]\<rparr>
            in if pa_status row = Payment_completed
               then Inr ([(''payments'', 1), (''orders'', rowcount (\<lambda>r. or_order_id r = pa_order_id row) (t_orders d))],
                      d1\<lparr>t_orders := update_where (\<lambda>r. or_order_id r = pa_order_id row)
                           (\<lambda>r. r\<lparr>or_status := Order_paid, or_latest_event_id := pa_event_id row\<rparr>)
                           (t_orders d)\<rparr>)
               else Inr ([(''payments'', 1), (''orders'', 0)], d1))"

definition insert_completed :: "payment_completed_payload \<Rightarrow> uuid \<Rightarrow> rows_written tx" where
  "insert_completed p event_id =
     insert_payment
       \<lparr>pa_payment_id = pc_payment_id p, pa_order_id = pc_order_id p, pa_customer_id = pc_customer_id p,
        pa_status = Payment_completed, pa_amount = pc_amount p, pa_currency = pc_currency p,
        pa_payment_method = pc_payment_method p, pa_failure_reason = None,
        pa_device_id = uuid_str (pc_device_id p), pa_ip_address = pc_ip_address p,
        pa_country = pc_country_code p, pa_event_id = event_id, pa_attempted_at = pc_completed_at p\<rparr>"

definition insert_failed :: "payment_failed_payload \<Rightarrow> uuid \<Rightarrow> rows_written tx" where
  "insert_failed p event_id =
     insert_payment
       \<lparr>pa_payment_id = pf_payment_id p, pa_order_id = pf_order_id p, pa_customer_id = pf_customer_id p,
        pa_status = Payment_failed, pa_amount = pf_amount p, pa_currency = pf_currency p,
        pa_payment_method = pf_payment_method p, pa_failure_reason = Some (pf_failure_reason p),
        pa_device_id = uuid_str (pf_device_id p), pa_ip_address = pf_ip_address p,
        pa_country = pf_country_code p, pa_event_id = event_id, pa_attempted_at = pf_failed_at p\<rparr>"

section \<open>Refunds\<close>

definition refunded_total :: "uuid \<Rightarrow> refund_row list \<Rightarrow> money" where
  "refunded_total payment_id rows =
     sum_list (map re_amount (filter (\<lambda>r. re_payment_id r = payment_id) rows))"

definition refund_of :: "refund_requested_payload \<Rightarrow> uuid \<Rightarrow> refund_row" where
  "refund_of p event_id =
     \<lparr>re_refund_id = rr_refund_id p, re_payment_id = rr_payment_id p, re_order_id = rr_order_id p,
      re_customer_id = rr_customer_id p, re_amount = rr_amount p, re_currency = rr_currency p,
      re_reason = rr_reason p, re_event_id = event_id, re_requested_at = rr_requested_at p\<rparr>"

definition insert_refund :: "refund_requested_payload \<Rightarrow> uuid \<Rightarrow> rows_written tx" where
  "insert_refund p event_id d =
     (case select_key pa_payment_id (rr_payment_id p) (t_payments d) of
        None \<Rightarrow> missing ''payment is not persisted''
      | Some pay \<Rightarrow>
          if pa_status pay \<notin> {Payment_completed, Payment_partially_refunded, Payment_refunded}
          then integrity ''refund requires a successful payment''
          else if pa_order_id pay \<noteq> rr_order_id p \<or> pa_customer_id pay \<noteq> rr_customer_id p \<or>
                  pa_currency pay \<noteq> rr_currency p
          then integrity ''refund identity or currency does not match payment''
          else
            let refunded = refunded_total (rr_payment_id p) (t_refunds d)
            in if refunded + rr_amount p > pa_amount pay
               then integrity ''refund exceeds remaining refundable amount''
               else if rr_amount p \<le> 0 then Inl (Sql check_violation)
               else if exists_key re_refund_id (rr_refund_id p) (t_refunds d)
               then integrity ''refund identity conflict''
               else if exists_key re_event_id event_id (t_refunds d)
               then Inl (Sql unique_violation)
               else if \<not> exists_key or_order_id (rr_order_id p) (t_orders d) \<or>
                       \<not> exists_key cu_customer_id (rr_customer_id p) (t_customers d)
               then Inl (Sql foreign_key_violation)
               else
                 let full = (refunded + rr_amount p = pa_amount pay)
                 in Inr ([(''refunds'', 1), (''payments'', 1), (''orders'', 1)],
                      d\<lparr>t_refunds := t_refunds d @ [refund_of p event_id],
                        t_payments := update_where (\<lambda>r. pa_payment_id r = rr_payment_id p)
                          (\<lambda>r. r\<lparr>pa_status := if full then Payment_refunded else Payment_partially_refunded\<rparr>)
                          (t_payments d),
                        t_orders := update_where (\<lambda>r. or_order_id r = rr_order_id p)
                          (\<lambda>r. r\<lparr>or_status := if full then Order_refunded else Order_partially_refunded,
                                 or_latest_event_id := event_id\<rparr>)
                          (t_orders d)\<rparr>))"

section \<open>External fraud alerts\<close>

definition ALERT_EVENT_NAMESPACE :: uuid where
  "ALERT_EVENT_NAMESPACE = 0x8b3f028fd1cb465ca662ebfdcfb74d38"

text \<open>Assigning a NUMERIC to an INTEGER column rounds it, halves away from zero.\<close>

definition round_numeric :: "money \<Rightarrow> int" where
  "round_numeric x = (if x \<ge> 0 then \<lfloor>x + 1 / 2\<rfloor> else - \<lfloor>1 / 2 - x\<rfloor>)"

definition insert_fraud_alert :: "store_env \<Rightarrow> fraud_alert_created_payload \<Rightarrow> int tx" where
  "insert_fraud_alert v p d =
     (let row = \<lparr>al_alert_id = fa_alert_id p, al_evaluation_id = None, al_source_event_id = fa_event_id p,
                 al_customer_id = fa_customer_id p, al_order_id = fa_order_id p, al_payment_id = None,
                 al_score = round_numeric (fa_fraud_score p), al_decision = fa_decision p,
                 al_severity = (if fa_decision p = BLOCK then HIGH else MEDIUM),
                 al_reason_codes = fa_reasons p,
                 al_alert_event_id = sv_uuid5 v ALERT_EVENT_NAMESPACE (uuid_str (fa_alert_id p)),
                 al_created_at = fa_created_at p\<rparr>
      in if exists_key al_source_event_id (fa_event_id p) (t_fraud_alerts d) then Inr (0, d)
         else if exists_key al_alert_id (al_alert_id row) (t_fraud_alerts d) \<or>
                 exists_key al_alert_event_id (al_alert_event_id row) (t_fraud_alerts d)
         then Inl (Sql unique_violation)
         else Inr (1, d\<lparr>t_fraud_alerts := t_fraud_alerts d @ [row]\<rparr>))"

section \<open>Handlers\<close>

definition counted :: "string \<Rightarrow> int tx \<Rightarrow> rows_written tx" where
  "counted table op d =
     (case op d of Inl x \<Rightarrow> Inl x | Inr (n, d') \<Rightarrow> Inr ([(table, n)], d'))"

text \<open>\<open>default_persistence_registry\<close> composed with the handlers' \<open>apply\<close>: the handler of the event's
  type, which checks that the payload is of its class.\<close>

definition apply_handler :: "store_env \<Rightarrow> event_type \<Rightarrow> envelope \<Rightarrow> rows_written tx" where
  "apply_handler v t e =
     (case (t, ev_payload e) of
        (USER_REGISTERED, UserRegistered p) \<Rightarrow> counted ''customers'' (register p (ev_event_id e))
      | (SESSION_STARTED, SessionStarted p) \<Rightarrow> counted ''sessions'' (insert_session v p (ev_event_id e))
      | (PRODUCT_VIEWED, ProductViewed p) \<Rightarrow>
          counted ''product_views'' (insert_product_view p (ev_event_id e) (ev_event_time e))
      | (ADDED_TO_CART, AddedToCart p) \<Rightarrow> add_item p (ev_event_id e)
      | (CHECKOUT_STARTED, CheckoutStarted p) \<Rightarrow> counted ''carts'' (checkout p (ev_event_id e))
      | (ORDER_CREATED, OrderCreated p) \<Rightarrow> insert_order p (ev_event_id e)
      | (PAYMENT_COMPLETED, PaymentCompleted p) \<Rightarrow> insert_completed p (ev_event_id e)
      | (PAYMENT_FAILED, PaymentFailed p) \<Rightarrow> insert_failed p (ev_event_id e)
      | (REFUND_REQUESTED, RefundRequested p) \<Rightarrow> insert_refund p (ev_event_id e)
      | (FRAUD_ALERT_CREATED, FraudAlertCreated p) \<Rightarrow> counted ''fraud_alerts'' (insert_fraud_alert v p)
      | _ \<Rightarrow> (\<lambda>d. integrity ''handler payload type mismatch''))"

lemma apply_handler_matches:
  assumes "payload_type (ev_payload e) = t"
  shows "apply_handler v t e =
    (case ev_payload e of
       UserRegistered p \<Rightarrow> counted ''customers'' (register p (ev_event_id e))
     | SessionStarted p \<Rightarrow> counted ''sessions'' (insert_session v p (ev_event_id e))
     | ProductViewed p \<Rightarrow> counted ''product_views'' (insert_product_view p (ev_event_id e) (ev_event_time e))
     | AddedToCart p \<Rightarrow> add_item p (ev_event_id e)
     | CheckoutStarted p \<Rightarrow> counted ''carts'' (checkout p (ev_event_id e))
     | OrderCreated p \<Rightarrow> insert_order p (ev_event_id e)
     | PaymentCompleted p \<Rightarrow> insert_completed p (ev_event_id e)
     | PaymentFailed p \<Rightarrow> insert_failed p (ev_event_id e)
     | RefundRequested p \<Rightarrow> insert_refund p (ev_event_id e)
     | FraudAlertCreated p \<Rightarrow> counted ''fraud_alerts'' (insert_fraud_alert v p))"
  using assms by (cases "ev_payload e") (auto simp: apply_handler_def)

end
