(* ===== verification/Store_Invariants.thy ===== *)
theory Store_Invariants
  imports Repositories
begin

text \<open>
  The laws the stored data obeys and that every event handler preserves: cart totals agree with the
  cart's items, payments agree with their order, refunds never exceed their payment and fix its
  status, and every reference points at a row. None of them except the foreign keys is enforced by
  the database.
\<close>

section \<open>Carts\<close>

definition item_ok :: "cart_item_row \<Rightarrow> bool" where
  "item_ok i \<longleftrightarrow> it_quantity i > 0 \<and> it_unit_price i \<ge> 0 \<and>
     it_line_total i = it_unit_price i * of_int (it_quantity i)"

definition cart_ok :: "cart_item_row list \<Rightarrow> cart_row \<Rightarrow> bool" where
  "cart_ok items r \<longleftrightarrow> items_of (ct_cart_id r) items \<noteq> [] \<and>
     ct_subtotal r = items_subtotal (ct_cart_id r) items \<and>
     ct_item_count r = items_count (ct_cart_id r) items \<and>
     ct_total r = ct_subtotal r - ct_discount r \<and> ct_discount r \<ge> 0 \<and> ct_total r \<ge> 0"

definition cart_inv :: "db \<Rightarrow> bool" where
  "cart_inv d \<longleftrightarrow> keys_unique ct_cart_id (t_carts d) \<and> keys_unique item_key (t_cart_items d) \<and>
     (\<forall>i \<in> set (t_cart_items d). item_ok i) \<and> (\<forall>r \<in> set (t_carts d). cart_ok (t_cart_items d) r)"

lemma items_of_upsert_other:
  "cid \<noteq> ac_cart_id p \<Longrightarrow> items_of cid (upsert_item p lt rows) = items_of cid rows"
  by (auto simp: items_of_def upsert_item_def intro!: filter_update_other)

lemma items_of_upsert_this: "items_of (ac_cart_id p) (upsert_item p lt rows) \<noteq> []"
proof (cases "exists_key item_key (ac_cart_id p, ac_product_id p) rows")
  case True
  then obtain i where "i \<in> set rows" "item_key i = (ac_cart_id p, ac_product_id p)"
    by (auto simp: exists_key_def dest: select_key_Some)
  then have "\<exists>j \<in> set (upsert_item p lt rows). it_cart_id j = ac_cart_id p"
    using True by (intro bexI [of _ "i\<lparr>it_quantity := ac_quantity p, it_unit_price := ac_unit_price p,
        it_line_total := lt\<rparr>"]) (auto simp: upsert_item_def set_update_where image_iff)
  then show ?thesis unfolding items_of_def filter_empty_conv by simp
qed (simp add: items_of_def upsert_item_def)

lemma upsert_item_keeps:
  assumes "\<forall>i \<in> set rows. item_ok i" "keys_unique item_key rows"
    and "ac_quantity p > 0" "ac_unit_price p \<ge> 0" "lt = ac_unit_price p * of_int (ac_quantity p)"
  shows "(\<forall>i \<in> set (upsert_item p lt rows). item_ok i) \<and> keys_unique item_key (upsert_item p lt rows)"
  using assms
  by (auto simp: upsert_item_def set_update_where item_ok_def keys_unique_update keys_unique_append
      exists_key_def)

lemma upsert_cart_rows:
  assumes "upsert_cart p lt eid rows = Some rows'" "keys_unique ct_cart_id rows"
  shows "keys_unique ct_cart_id rows' \<and> (\<forall>r \<in> set rows'. ct_cart_id r \<noteq> ac_cart_id p \<longrightarrow> r \<in> set rows) \<and>
    (\<forall>r \<in> set rows'. ct_cart_id r = ac_cart_id p \<longrightarrow>
       ct_discount r = 0 \<or> (\<exists>r0 \<in> set rows. ct_cart_id r0 = ac_cart_id p \<and> ct_discount r0 = ct_discount r))"
  using assms
  by (auto simp: upsert_cart_def keys_unique_append keys_unique_update set_update_where
      split: option.splits if_splits) blast

lemma refresh_totals_Inr:
  assumes "refresh_totals eid cid d = Inr (u, d')" "items_of cid (t_cart_items d) \<noteq> []"
  shows "d' = d\<lparr>t_carts := update_where (\<lambda>r. ct_cart_id r = cid) (refresh_cart eid cid d) (t_carts d)\<rparr> \<and>
    (\<forall>r \<in> set (t_carts d'). ct_cart_id r = cid \<longrightarrow> ct_total r \<ge> 0)"
  using assms by (auto simp: refresh_totals_def Let_def list_ex_iff split: if_splits)

lemma add_item_Inr:
  assumes "add_item p eid d = Inr (w, d')"
  obtains carts where
    "ac_quantity p > 0" "ac_unit_price p \<ge> 0" "exists_key cu_customer_id (ac_customer_id p) (t_customers d)"
    "exists_key se_session_id (ac_session_id p) (t_sessions d)"
    "upsert_cart p (ac_unit_price p * of_int (ac_quantity p)) eid (t_carts d) = Some carts"
    "refresh_totals eid (ac_cart_id p) (d\<lparr>t_carts := carts, t_cart_items :=
       upsert_item p (ac_unit_price p * of_int (ac_quantity p)) (t_cart_items d)\<rparr>) = Inr ((), d')"
  using assms by (auto simp: add_item_def Let_def split: if_splits option.splits sum.splits)

lemma cart_inv_add_item:
  assumes inv: "cart_inv d" and add: "add_item p eid d = Inr (w, d')"
  shows "cart_inv d'"
proof -
  let ?lt = "ac_unit_price p * of_int (ac_quantity p)" and ?cid = "ac_cart_id p"
  let ?items = "upsert_item p ?lt (t_cart_items d)"
  obtain carts where q: "ac_quantity p > 0" "ac_unit_price p \<ge> 0"
    and up: "upsert_cart p ?lt eid (t_carts d) = Some carts"
    and rf: "refresh_totals eid ?cid (d\<lparr>t_carts := carts, t_cart_items := ?items\<rparr>) = Inr ((), d')"
    using add by (rule add_item_Inr)
  let ?d1 = "d\<lparr>t_carts := carts, t_cart_items := ?items\<rparr>"
  have d': "d' = ?d1\<lparr>t_carts := update_where (\<lambda>r. ct_cart_id r = ?cid) (refresh_cart eid ?cid ?d1) carts\<rparr>"
    and pos: "\<forall>r \<in> set (t_carts d'). ct_cart_id r = ?cid \<longrightarrow> ct_total r \<ge> 0"
    using refresh_totals_Inr [OF rf] items_of_upsert_this by simp_all
  note old = inv [unfolded cart_inv_def]
  note carts = upsert_cart_rows [OF up]
  have items: "(\<forall>i \<in> set ?items. item_ok i) \<and> keys_unique item_key ?items"
    using old q by (intro upsert_item_keeps) auto
  have rkey: "ct_cart_id (refresh_cart eid ?cid ?d1 r) = ct_cart_id r" for r
    by (simp add: refresh_cart_def)
  have "cart_ok ?items r" if r: "r \<in> set (t_carts d')" for r
  proof (cases "ct_cart_id r = ?cid")
    case True
    then obtain r1 where r1: "r1 \<in> set carts" "ct_cart_id r1 = ?cid" "r = refresh_cart eid ?cid ?d1 r1"
      using r unfolding d' by (auto simp: set_update_where rkey split: if_splits)
    have "ct_discount r1 \<ge> 0" using carts r1(1,2) old by (fastforce simp: cart_ok_def)
    with pos r True r1 show ?thesis
      using items_of_upsert_this [of p ?lt "t_cart_items d"] by (auto simp: cart_ok_def refresh_cart_def)
  next
    case False
    then have "r \<in> set carts" using r unfolding d' by (auto simp: set_update_where rkey split: if_splits)
    then have "cart_ok (t_cart_items d) r" using False carts old by blast
    then show ?thesis
      using False by (simp add: cart_ok_def items_subtotal_def items_count_def items_of_upsert_other)
  qed
  moreover have "keys_unique ct_cart_id (t_carts d')"
    unfolding d' using carts old by (simp add: keys_unique_update rkey)
  moreover have "t_cart_items d' = ?items" by (simp add: d')
  ultimately show ?thesis using items unfolding cart_inv_def by simp
qed

lemma cart_inv_update:
  assumes "cart_inv d" and "\<And>r. ct_cart_id (f r) = ct_cart_id r"
    and "\<And>r. r \<in> set (t_carts d) \<Longrightarrow> P r \<Longrightarrow> cart_ok (t_cart_items d) r \<Longrightarrow> cart_ok (t_cart_items d) (f r)"
    and "t_carts d' = update_where P f (t_carts d)" "t_cart_items d' = t_cart_items d"
  shows "cart_inv d'"
  using assms by (auto simp: cart_inv_def keys_unique_update set_update_where)

lemma cart_inv_checkout:
  assumes inv: "cart_inv d" and pv: "payload_valid (CheckoutStarted p)"
    and co: "checkout p eid d = Inr (n, d')"
  shows "cart_inv d'"
proof -
  let ?P = "\<lambda>r. ct_cart_id r = cs_cart_id p"
  let ?f = "\<lambda>r. r\<lparr>ct_status := Cart_checkout_started, ct_discount := cs_discount_amount p,
    ct_total := cs_total_amount p, ct_latest_event_id := eid\<rparr>"
  obtain r0 where r0: "select_key ct_cart_id (cs_cart_id p) (t_carts d) = Some r0"
    and sub: "ct_subtotal r0 = cs_subtotal p" and pos: "cs_discount_amount p \<ge> 0" "cs_total_amount p \<ge> 0"
    and d': "d' = d\<lparr>t_carts := update_where ?P ?f (t_carts d)\<rparr>"
    using co by (auto simp: checkout_def split: option.splits if_splits)
  show ?thesis
  proof (rule cart_inv_update [OF inv])
    fix r assume r: "r \<in> set (t_carts d)" "?P r" "cart_ok (t_cart_items d) r"
    then have "r = r0" using r0 inv select_key_unique [of ct_cart_id "t_carts d" r]
      by (simp add: cart_inv_def)
    with r sub pos pv show "cart_ok (t_cart_items d) (?f r)"
      by (simp add: cart_ok_def validate_totals_def)
  qed (simp_all add: d')
qed

lemma cart_inv_order:
  assumes "cart_inv d" "insert_order p eid d = Inr (w, d')"
  shows "cart_inv d'"
proof -
  have "t_carts d' = update_where (\<lambda>r. ct_cart_id r = oc_cart_id p)
      (\<lambda>r. r\<lparr>ct_status := Cart_ordered, ct_latest_event_id := eid\<rparr>) (t_carts d)"
    "t_cart_items d' = t_cart_items d"
    using assms(2) by (auto simp: insert_order_def split: option.splits if_splits)
  with assms(1) show ?thesis by (elim cart_inv_update) (simp_all add: cart_ok_def)
qed

section \<open>Frames\<close>

text \<open>What the handlers that write no cart and no payment leave alone.\<close>

lemma simple_frames:
  "register p eid d = Inr (n, d') \<Longrightarrow> t_carts d' = t_carts d \<and> t_cart_items d' = t_cart_items d \<and>
     t_orders d' = t_orders d \<and> t_payments d' = t_payments d \<and> t_refunds d' = t_refunds d"
  "insert_session v q eid d = Inr (n, d') \<Longrightarrow> t_carts d' = t_carts d \<and> t_cart_items d' = t_cart_items d \<and>
     t_orders d' = t_orders d \<and> t_payments d' = t_payments d \<and> t_refunds d' = t_refunds d"
  "insert_product_view u eid t d = Inr (n, d') \<Longrightarrow> t_carts d' = t_carts d \<and> t_cart_items d' = t_cart_items d \<and>
     t_orders d' = t_orders d \<and> t_payments d' = t_payments d \<and> t_refunds d' = t_refunds d"
  "insert_fraud_alert v a d = Inr (n, d') \<Longrightarrow> t_carts d' = t_carts d \<and> t_cart_items d' = t_cart_items d \<and>
     t_orders d' = t_orders d \<and> t_payments d' = t_payments d \<and> t_refunds d' = t_refunds d"
  by (auto simp: register_def insert_session_def insert_product_view_def insert_fraud_alert_def Let_def
      split: option.splits if_splits)

lemma payment_cart_frame:
  "insert_payment row d = Inr (w, d') \<Longrightarrow> t_carts d' = t_carts d \<and> t_cart_items d' = t_cart_items d"
  by (auto simp: insert_payment_def Let_def split: option.splits if_splits)

lemma refund_cart_frame:
  "insert_refund p eid d = Inr (w, d') \<Longrightarrow> t_carts d' = t_carts d \<and> t_cart_items d' = t_cart_items d"
  by (auto simp: insert_refund_def Let_def split: option.splits if_splits)

lemma cart_money_frame:
  "add_item p eid d = Inr (w, d') \<Longrightarrow> t_orders d' = t_orders d \<and> t_payments d' = t_payments d \<and> t_refunds d' = t_refunds d"
  "checkout q eid d = Inr (n, d') \<Longrightarrow> t_orders d' = t_orders d \<and> t_payments d' = t_payments d \<and> t_refunds d' = t_refunds d"
proof -
  have frame: "refresh_totals eid cid d1 = Inr (u, d2) \<Longrightarrow>
      t_orders d2 = t_orders d1 \<and> t_payments d2 = t_payments d1 \<and> t_refunds d2 = t_refunds d1" for cid d1 d2 u
    by (auto simp: refresh_totals_def Let_def split: if_splits)
  assume "add_item p eid d = Inr (w, d')"
  then obtain carts where "refresh_totals eid (ac_cart_id p) (d\<lparr>t_carts := carts, t_cart_items :=
      upsert_item p (ac_unit_price p * of_int (ac_quantity p)) (t_cart_items d)\<rparr>) = Inr ((), d')"
    by (rule add_item_Inr) (rule that)
  from frame [OF this] show "t_orders d' = t_orders d \<and> t_payments d' = t_payments d \<and> t_refunds d' = t_refunds d"
    by simp
qed (auto simp: checkout_def split: option.splits if_splits)

lemma cart_inv_frame: "cart_inv d \<Longrightarrow> t_carts d' = t_carts d \<and> t_cart_items d' = t_cart_items d \<Longrightarrow> cart_inv d'"
  by (simp add: cart_inv_def)

lemma counted_Inr: "counted t op d = Inr (w, d') \<longleftrightarrow> (\<exists>n. op d = Inr (n, d') \<and> w = [(t, n)])"
  by (auto simp: counted_def split: sum.splits)

text \<open>Case analysis on the handler that ran; the payload is valid for its contract.\<close>

lemma handler_cases [consumes 2, case_names user session view add checkout order completed failed refund alert]:
  assumes wf: "event_wf e" and ap: "apply_handler v (ev_event_type e) e d = Inr (w, d')"
    and "\<And>p n. ev_payload e = UserRegistered p \<Longrightarrow> register p (ev_event_id e) d = Inr (n, d') \<Longrightarrow> Q"
    and "\<And>p n. ev_payload e = SessionStarted p \<Longrightarrow> insert_session v p (ev_event_id e) d = Inr (n, d') \<Longrightarrow> Q"
    and "\<And>p n. ev_payload e = ProductViewed p \<Longrightarrow>
      insert_product_view p (ev_event_id e) (ev_event_time e) d = Inr (n, d') \<Longrightarrow> Q"
    and "\<And>p. ev_payload e = AddedToCart p \<Longrightarrow> add_item p (ev_event_id e) d = Inr (w, d') \<Longrightarrow> Q"
    and "\<And>p n. ev_payload e = CheckoutStarted p \<Longrightarrow> payload_valid (CheckoutStarted p) \<Longrightarrow>
      checkout p (ev_event_id e) d = Inr (n, d') \<Longrightarrow> Q"
    and "\<And>p. ev_payload e = OrderCreated p \<Longrightarrow> payload_valid (OrderCreated p) \<Longrightarrow>
      insert_order p (ev_event_id e) d = Inr (w, d') \<Longrightarrow> Q"
    and "\<And>p. ev_payload e = PaymentCompleted p \<Longrightarrow> insert_completed p (ev_event_id e) d = Inr (w, d') \<Longrightarrow> Q"
    and "\<And>p. ev_payload e = PaymentFailed p \<Longrightarrow> insert_failed p (ev_event_id e) d = Inr (w, d') \<Longrightarrow> Q"
    and "\<And>p. ev_payload e = RefundRequested p \<Longrightarrow> insert_refund p (ev_event_id e) d = Inr (w, d') \<Longrightarrow> Q"
    and "\<And>p n. ev_payload e = FraudAlertCreated p \<Longrightarrow> insert_fraud_alert v p d = Inr (n, d') \<Longrightarrow> Q"
  shows Q
proof -
  have t: "payload_type (ev_payload e) = ev_event_type e" and pv: "payload_valid (ev_payload e)"
    using wf by (simp_all add: event_wf_def validate_contract_consistency_def)
  note ap' = ap [unfolded apply_handler_matches [OF t]]
  show Q
    using ap' pv assms(3-12)
    by (cases "ev_payload e") (auto simp: counted_Inr simp del: payload_valid.simps)
qed

lemma cart_inv_handler:
  assumes "cart_inv d" and "event_wf e" and "apply_handler v (ev_event_type e) e d = Inr (w, d')"
  shows "cart_inv d'"
  using assms(2,3)
proof (cases rule: handler_cases)
  case (completed p)
  then show ?thesis
    using cart_inv_frame [OF assms(1) payment_cart_frame] by (simp add: insert_completed_def)
next
  case (failed p)
  then show ?thesis
    using cart_inv_frame [OF assms(1) payment_cart_frame] by (simp add: insert_failed_def)
qed (auto dest: simple_frames refund_cart_frame simp del: payload_valid.simps
    intro: cart_inv_frame [OF assms(1)] cart_inv_add_item [OF assms(1)] cart_inv_checkout [OF assms(1)]
      cart_inv_order [OF assms(1)])

section \<open>Orders, payments and refunds\<close>

definition order_ok :: "order_row \<Rightarrow> bool" where
  "order_ok r \<longleftrightarrow> or_total r = or_subtotal r - or_discount r \<and> or_discount r \<ge> 0 \<and> or_total r \<ge> 0 \<and>
     or_item_count r > 0"

definition payment_backed :: "order_row list \<Rightarrow> payment_row \<Rightarrow> bool" where
  "payment_backed orders p \<longleftrightarrow>
     (\<exists>r. select_key or_order_id (pa_order_id p) orders = Some r \<and> or_customer_id r = pa_customer_id p \<and>
        or_total r = pa_amount p \<and> or_currency r = pa_currency p)"

definition refund_backed :: "payment_row list \<Rightarrow> refund_row \<Rightarrow> bool" where
  "refund_backed payments f \<longleftrightarrow> re_amount f > 0 \<and>
     (\<exists>p. select_key pa_payment_id (re_payment_id f) payments = Some p \<and> pa_order_id p = re_order_id f \<and>
        pa_customer_id p = re_customer_id f \<and> pa_currency p = re_currency f)"

definition payment_settled :: "refund_row list \<Rightarrow> payment_row \<Rightarrow> bool" where
  "payment_settled refunds p \<longleftrightarrow>
     (let s = refunded_total (pa_payment_id p) refunds
      in pa_amount p > 0 \<and> s \<le> pa_amount p \<and>
         (if s = 0 then pa_status p \<in> {Payment_completed, Payment_failed}
          else pa_status p = (if s = pa_amount p then Payment_refunded else Payment_partially_refunded)))"

definition money_inv :: "db \<Rightarrow> bool" where
  "money_inv d \<longleftrightarrow> keys_unique or_order_id (t_orders d) \<and> keys_unique pa_payment_id (t_payments d) \<and>
     keys_unique re_refund_id (t_refunds d) \<and> (\<forall>r \<in> set (t_orders d). order_ok r) \<and>
     (\<forall>p \<in> set (t_payments d). payment_backed (t_orders d) p \<and> payment_settled (t_refunds d) p) \<and>
     (\<forall>f \<in> set (t_refunds d). refund_backed (t_payments d) f)"

lemma money_inv_frame:
  "money_inv d \<Longrightarrow> t_orders d' = t_orders d \<and> t_payments d' = t_payments d \<and> t_refunds d' = t_refunds d \<Longrightarrow>
     money_inv d'"
  by (simp add: money_inv_def)

lemma payment_backed_append: "payment_backed orders p \<Longrightarrow> payment_backed (orders @ [r]) p"
  by (auto simp: payment_backed_def select_key_append)

lemma payment_backed_update:
  assumes "payment_backed orders p"
    and "\<And>r. or_order_id (f r) = or_order_id r \<and> or_customer_id (f r) = or_customer_id r \<and>
      or_total (f r) = or_total r \<and> or_currency (f r) = or_currency r"
  shows "payment_backed (update_where P f orders) p"
proof -
  obtain r where "select_key or_order_id (pa_order_id p) orders = Some r" "or_customer_id r = pa_customer_id p"
    "or_total r = pa_amount p" "or_currency r = pa_currency p"
    using assms(1) by (auto simp: payment_backed_def)
  with assms(2) show ?thesis
    unfolding payment_backed_def by (intro exI [of _ "if P r then f r else r"]) (simp add: select_key_update)
qed

lemma refund_backed_append: "refund_backed payments f \<Longrightarrow> refund_backed (payments @ [p]) f"
  by (auto simp: refund_backed_def select_key_append)

lemma refund_backed_update:
  assumes "refund_backed payments f"
    and "\<And>p. pa_payment_id (g p) = pa_payment_id p \<and> pa_order_id (g p) = pa_order_id p \<and>
      pa_customer_id (g p) = pa_customer_id p \<and> pa_currency (g p) = pa_currency p"
  shows "refund_backed (update_where P g payments) f"
proof -
  obtain p where "re_amount f > 0" "select_key pa_payment_id (re_payment_id f) payments = Some p"
    "pa_order_id p = re_order_id f" "pa_customer_id p = re_customer_id f" "pa_currency p = re_currency f"
    using assms(1) by (auto simp: refund_backed_def)
  with assms(2) show ?thesis
    unfolding refund_backed_def
    by (intro conjI exI [of _ "if P p then g p else p"]) (simp_all add: select_key_update)
qed

lemma order_ok_update:
  "\<forall>r \<in> set orders. order_ok r \<Longrightarrow>
     (\<And>r. or_total (f r) = or_total r \<and> or_subtotal (f r) = or_subtotal r \<and> or_discount (f r) = or_discount r \<and>
        or_item_count (f r) = or_item_count r) \<Longrightarrow>
     \<forall>r \<in> set (update_where P f orders). order_ok r"
  by (auto simp: set_update_where order_ok_def)

lemma refunded_total_append:
  "refunded_total i (rows @ [f]) = refunded_total i rows + (if re_payment_id f = i then re_amount f else 0)"
  by (simp add: refunded_total_def)

lemma refunded_total_nonneg: "\<forall>f \<in> set rows. re_amount f > 0 \<Longrightarrow> refunded_total i rows \<ge> 0"
  unfolding refunded_total_def by (intro sum_list_nonneg) auto

lemma refunded_total_fresh:
  assumes "\<forall>f \<in> set rows. refund_backed payments f" "select_key pa_payment_id i payments = None"
  shows "refunded_total i rows = 0"
proof -
  have "filter (\<lambda>f. re_payment_id f = i) rows = []"
    using assms by (auto simp: filter_empty_conv refund_backed_def)
  then show ?thesis by (simp add: refunded_total_def)
qed

lemma money_inv_order:
  assumes inv: "money_inv d" and pv: "payload_valid (OrderCreated p)"
    and ins: "insert_order p eid d = Inr (w, d')"
  shows "money_inv d'"
proof -
  have d': "t_orders d' = t_orders d @ [order_of p eid]" "t_payments d' = t_payments d" "t_refunds d' = t_refunds d"
    and new: "select_key or_order_id (oc_order_id p) (t_orders d) = None"
    using ins by (auto simp: insert_order_def exists_key_def split: option.splits if_splits)
  have "order_ok (order_of p eid)" using pv by (simp add: order_ok_def order_of_def validate_totals_def)
  moreover have "or_order_id (order_of p eid) = oc_order_id p" by (simp add: order_of_def)
  ultimately show ?thesis
    using inv new unfolding money_inv_def d' by (auto simp: keys_unique_append intro: payment_backed_append)
qed

lemma insert_payment_Inr:
  assumes "insert_payment row d = Inr (w, d')"
  obtains r where "select_key or_order_id (pa_order_id row) (t_orders d) = Some r"
    "or_customer_id r = pa_customer_id row" "or_total r = pa_amount row" "or_currency r = pa_currency row"
    "pa_amount row > 0" "select_key pa_payment_id (pa_payment_id row) (t_payments d) = None"
    "t_payments d' = t_payments d @ [row]" "t_refunds d' = t_refunds d"
    "t_orders d' = (if pa_status row = Payment_completed
       then update_where (\<lambda>r. or_order_id r = pa_order_id row)
         (\<lambda>r. r\<lparr>or_status := Order_paid, or_latest_event_id := pa_event_id row\<rparr>) (t_orders d)
       else t_orders d)"
  using assms by (auto simp: insert_payment_def exists_key_def Let_def split: option.splits if_splits)

lemma money_inv_payment:
  assumes inv: "money_inv d" and ins: "insert_payment row d = Inr (w, d')"
    and st: "pa_status row \<in> {Payment_completed, Payment_failed}"
  shows "money_inv d'"
proof -
  obtain r where r: "select_key or_order_id (pa_order_id row) (t_orders d) = Some r"
    "or_customer_id r = pa_customer_id row" "or_total r = pa_amount row" "or_currency r = pa_currency row"
    and row: "pa_amount row > 0" "select_key pa_payment_id (pa_payment_id row) (t_payments d) = None"
    and d': "t_payments d' = t_payments d @ [row]" "t_refunds d' = t_refunds d"
      "t_orders d' = (if pa_status row = Payment_completed
       then update_where (\<lambda>r. or_order_id r = pa_order_id row)
         (\<lambda>r. r\<lparr>or_status := Order_paid, or_latest_event_id := pa_event_id row\<rparr>) (t_orders d)
       else t_orders d)"
    using ins by (rule insert_payment_Inr) (rule that)
  note old = inv [unfolded money_inv_def]
  have orders: "keys_unique or_order_id (t_orders d') \<and> (\<forall>r \<in> set (t_orders d'). order_ok r)"
    using old unfolding d' by (auto simp: keys_unique_update set_update_where order_ok_def)
  have keep: "payment_backed (t_orders d') p" if "payment_backed (t_orders d) p" for p
    using that unfolding d' by (auto intro: payment_backed_update)
  have "payment_backed (t_orders d) row" using r by (auto simp: payment_backed_def)
  moreover have "refunded_total (pa_payment_id row) (t_refunds d) = 0"
    using refunded_total_fresh old row(2) by blast
  then have "payment_settled (t_refunds d) row" using row(1) st by (simp add: payment_settled_def Let_def)
  ultimately show ?thesis
    using old orders keep row(2) unfolding money_inv_def d'(1,2)
    by (auto simp: keys_unique_append intro: refund_backed_append)
qed

lemma insert_refund_Inr:
  assumes "insert_refund p eid d = Inr (w, d')"
  obtains pay where "select_key pa_payment_id (rr_payment_id p) (t_payments d) = Some pay"
    "pa_status pay \<noteq> Payment_failed"
    "pa_order_id pay = rr_order_id p" "pa_customer_id pay = rr_customer_id p" "pa_currency pay = rr_currency p"
    "refunded_total (rr_payment_id p) (t_refunds d) + rr_amount p \<le> pa_amount pay" "rr_amount p > 0"
    "select_key re_refund_id (rr_refund_id p) (t_refunds d) = None"
    "t_refunds d' = t_refunds d @ [refund_of p eid]"
    "t_payments d' = update_where (\<lambda>r. pa_payment_id r = rr_payment_id p)
       (\<lambda>r. r\<lparr>pa_status := if refunded_total (rr_payment_id p) (t_refunds d) + rr_amount p = pa_amount pay
          then Payment_refunded else Payment_partially_refunded\<rparr>) (t_payments d)"
    "t_orders d' = update_where (\<lambda>r. or_order_id r = rr_order_id p)
       (\<lambda>r. r\<lparr>or_status := if refunded_total (rr_payment_id p) (t_refunds d) + rr_amount p = pa_amount pay
          then Order_refunded else Order_partially_refunded, or_latest_event_id := eid\<rparr>) (t_orders d)"
  using assms by (auto simp: insert_refund_def exists_key_def Let_def split: option.splits if_splits)

lemma money_inv_refund:
  assumes inv: "money_inv d" and ins: "insert_refund p eid d = Inr (w, d')"
  shows "money_inv d'"
proof -
  let ?i = "rr_payment_id p" and ?s = "refunded_total (rr_payment_id p) (t_refunds d)"
  obtain pay where pay: "select_key pa_payment_id ?i (t_payments d) = Some pay"
      "pa_order_id pay = rr_order_id p" "pa_customer_id pay = rr_customer_id p" "pa_currency pay = rr_currency p"
    and amount: "?s + rr_amount p \<le> pa_amount pay" "rr_amount p > 0"
    and fresh: "select_key re_refund_id (rr_refund_id p) (t_refunds d) = None"
    and refunds: "t_refunds d' = t_refunds d @ [refund_of p eid]"
    and payments: "t_payments d' = update_where (\<lambda>r. pa_payment_id r = ?i)
       (\<lambda>r. r\<lparr>pa_status := if ?s + rr_amount p = pa_amount pay
          then Payment_refunded else Payment_partially_refunded\<rparr>) (t_payments d)"
    and orders: "t_orders d' = update_where (\<lambda>r. or_order_id r = rr_order_id p)
       (\<lambda>r. r\<lparr>or_status := if ?s + rr_amount p = pa_amount pay
          then Order_refunded else Order_partially_refunded, or_latest_event_id := eid\<rparr>) (t_orders d)"
    using ins by (rule insert_refund_Inr) (rule that)
  note old = inv [unfolded money_inv_def]
  have rf: "re_payment_id (refund_of p eid) = ?i" "re_amount (refund_of p eid) = rr_amount p"
    by (simp_all add: refund_of_def)
  have nonneg: "?s \<ge> 0" using old by (intro refunded_total_nonneg) (simp add: refund_backed_def)
  have uniq: "q = pay" if "q \<in> set (t_payments d)" "pa_payment_id q = ?i" for q
    using select_key_unique [of pa_payment_id "t_payments d" q] old pay(1) that by simp
  have "payment_backed (t_orders d') q \<and> payment_settled (t_refunds d') q" if q: "q \<in> set (t_payments d')" for q
  proof -
    obtain q0 where q0: "q0 \<in> set (t_payments d)" "q = (if pa_payment_id q0 = ?i then
        q0\<lparr>pa_status := if ?s + rr_amount p = pa_amount pay then Payment_refunded else Payment_partially_refunded\<rparr> else q0)"
      using q unfolding payments set_update_where by blast
    have "payment_backed (t_orders d) q0" "payment_settled (t_refunds d) q0" using old q0(1) by auto
    moreover from this(1) have "payment_backed (t_orders d') q0"
      unfolding orders by (rule payment_backed_update) simp
    ultimately show ?thesis
      using q0 uniq amount nonneg unfolding refunds
      by (auto simp: payment_settled_def payment_backed_def refunded_total_append rf Let_def split: if_splits)
  qed
  moreover have "refund_backed (t_payments d') f" if "f \<in> set (t_refunds d')" for f
  proof -
    have "refund_backed (t_payments d) (refund_of p eid)"
      using pay amount by (simp add: refund_backed_def refund_of_def)
    with that old have "refund_backed (t_payments d) f" unfolding refunds by auto
    then show ?thesis unfolding payments by (rule refund_backed_update) simp
  qed
  moreover have "\<forall>r \<in> set (t_orders d'). order_ok r" using old unfolding orders by (intro order_ok_update) auto
  moreover have "re_refund_id (refund_of p eid) = rr_refund_id p" by (simp add: refund_of_def)
  ultimately show ?thesis
    using old fresh unfolding money_inv_def
    by (simp add: refunds payments orders keys_unique_update keys_unique_append)
qed

lemma money_inv_handler:
  assumes "money_inv d" and "event_wf e" and "apply_handler v (ev_event_type e) e d = Inr (w, d')"
  shows "money_inv d'"
  using assms(2,3)
proof (cases rule: handler_cases)
  case (completed p)
  then show ?thesis
    using money_inv_payment [OF assms(1)] by (simp add: insert_completed_def)
next
  case (failed p)
  then show ?thesis
    using money_inv_payment [OF assms(1)] by (simp add: insert_failed_def)
qed (auto dest: simple_frames cart_money_frame simp del: payload_valid.simps
    intro: money_inv_frame [OF assms(1)] money_inv_order [OF assms(1)] money_inv_refund [OF assms(1)])

end
