(* ===== verification/Fraud_Engine.thy ===== *)
theory Fraud_Engine
  imports Fraud_Rules
begin

text \<open>
  What the fraud rules owe the engine and what the engine guarantees: the locale \<open>sound_rule\<close> states
  the contract of a rule, each of the ten rules is an interpretation of it, and the engine's
  theorems follow for every registry the configuration can select.
\<close>

section \<open>The contract of a rule\<close>

definition fits :: "int \<Rightarrow> fraud_rule_result \<Rightarrow> bool" where
  "fits maximum r \<longleftrightarrow> 0 \<le> rr_score r \<and> rr_score r \<le> maximum \<and>
     (\<not> rr_matched r \<longrightarrow> rr_score r = 0 \<and> rr_severity r = LOW)"

definition rule_wf :: "fraud_rule \<Rightarrow> bool" where
  "rule_wf rule \<longleftrightarrow> 0 \<le> fr_maximum_score rule \<and> fr_maximum_score rule \<le> 100 \<and>
     (\<forall>x. \<exists>r. fr_evaluate rule x = Inr r \<and> fits (fr_maximum_score rule) r \<and>
        rr_rule_id r = fr_rule_id rule \<and> rr_reason_code r \<noteq> [])"

lemma result_fits:
  "0 \<le> score \<Longrightarrow> score \<le> maximum \<Longrightarrow> fits maximum (result x i m score sev code expl evi)"
  by (simp add: fits_def result_def)

locale sound_rule =
  fixes make :: "fraud_config \<Rightarrow> fraud_rule" and name :: string
  assumes rule_id: "fr_rule_id (make c) = name"
    and version: "fr_rule_version (make c) = ''1.0''"
    and wf: "scores_valid c \<Longrightarrow> rule_wf (make c)"
    and eligible: "set (fr_supported_event_types (make c)) \<subseteq> set ELIGIBLE"
begin

text \<open>A rule of the registry never fails and never exceeds its maximum: the engine's two guards do
  not fire on it.\<close>

lemma guards_idle:
  assumes "scores_valid c"
  shows "\<exists>r. fr_evaluate (make c) x = Inr r \<and> \<not> rr_score r > fr_maximum_score (make c) \<and> rr_rule_id r = name"
  using wf [OF assms] rule_id [of c] unfolding rule_wf_def fits_def by (metis linorder_not_less)

lemma ignores_other_events:
  "t \<notin> set ELIGIBLE \<Longrightarrow> fc_event_type x = t \<Longrightarrow> run_rules (make c # rules) x = run_rules rules x"
  using eligible [of c] by auto

end

lemma record_rule_wf:
  assumes "0 \<le> maximum" "maximum \<le> 100" "\<And>x. 0 \<le> score x \<and> score x \<le> maximum" "code \<noteq> []"
  shows "rule_wf \<lparr>fr_rule_id = i, fr_rule_version = v, fr_supported_event_types = ts,
    fr_maximum_score = maximum,
    fr_evaluate = (\<lambda>x. Inr (result x i (m x) (score x) (sev x) code expl (evi x)))\<rparr>"
  using assms result_fits by (auto simp: rule_wf_def result_def fits_def)

lemmas config_bounds = scores_valid_def percent_def

text \<open>Each rule answers with one \<open>result\<close> whose score is within the rule's bound.\<close>

interpretation high_amount: sound_rule HighAmountRule "''high_amount''"
proof unfold_locales
  fix c assume "scores_valid c"
  then show "rule_wf (HighAmountRule c)"
    unfolding HighAmountRule_def Let_def by (intro record_rule_wf) (simp_all add: config_bounds)
qed (simp_all add: HighAmountRule_def Let_def ELIGIBLE_def)

interpretation payment_amount_mismatch: sound_rule PaymentAmountMismatchRule "''payment_amount_mismatch''"
proof unfold_locales
  fix c assume "scores_valid c"
  then show "rule_wf (PaymentAmountMismatchRule c)"
    unfolding PaymentAmountMismatchRule_def Let_def by (intro record_rule_wf) (simp_all add: config_bounds)
qed (simp_all add: PaymentAmountMismatchRule_def Let_def ELIGIBLE_def)

interpretation payment_velocity: sound_rule PaymentVelocityRule "''payment_velocity''"
proof unfold_locales
  fix c assume "scores_valid c"
  then show "rule_wf (PaymentVelocityRule c)"
    unfolding PaymentVelocityRule_def Let_def by (intro record_rule_wf) (simp_all add: config_bounds)
qed (simp_all add: PaymentVelocityRule_def Let_def ELIGIBLE_def)

interpretation failed_payment_burst: sound_rule FailedPaymentBurstRule "''failed_payment_burst''"
proof unfold_locales
  fix c assume "scores_valid c"
  then show "rule_wf (FailedPaymentBurstRule c)"
    unfolding FailedPaymentBurstRule_def Let_def by (intro record_rule_wf) (simp_all add: config_bounds)
qed (simp_all add: FailedPaymentBurstRule_def Let_def ELIGIBLE_def)

interpretation new_device: sound_rule NewDeviceRule "''new_device''"
proof unfold_locales
  fix c assume "scores_valid c"
  then show "rule_wf (NewDeviceRule c)"
    unfolding NewDeviceRule_def Let_def by (intro record_rule_wf) (simp_all add: config_bounds)
qed (simp_all add: NewDeviceRule_def Let_def ELIGIBLE_def)

interpretation country_mismatch: sound_rule CountryMismatchRule "''country_mismatch''"
proof unfold_locales
  fix c assume "scores_valid c"
  then show "rule_wf (CountryMismatchRule c)"
    unfolding CountryMismatchRule_def Let_def by (intro record_rule_wf) (simp_all add: config_bounds)
qed (simp_all add: CountryMismatchRule_def Let_def ELIGIBLE_def)

interpretation rapid_checkout: sound_rule RapidCheckoutRule "''rapid_checkout''"
proof unfold_locales
  fix c assume "scores_valid c"
  then show "rule_wf (RapidCheckoutRule c)"
    unfolding RapidCheckoutRule_def Let_def by (intro record_rule_wf) (simp_all add: config_bounds)
qed (simp_all add: RapidCheckoutRule_def Let_def ELIGIBLE_def SUPPORTED_def)

interpretation account_takeover: sound_rule AccountTakeoverCompositeRule "''account_takeover_composite''"
proof unfold_locales
  fix c assume "scores_valid c"
  then show "rule_wf (AccountTakeoverCompositeRule c)"
    unfolding AccountTakeoverCompositeRule_def Let_def by (intro record_rule_wf) (simp_all add: config_bounds)
qed (simp_all add: AccountTakeoverCompositeRule_def Let_def ELIGIBLE_def SUPPORTED_def)

interpretation refund_abuse: sound_rule RefundAbuseRule "''refund_abuse''"
proof unfold_locales
  fix c assume "scores_valid c"
  then show "rule_wf (RefundAbuseRule c)"
    unfolding RefundAbuseRule_def Let_def by (intro record_rule_wf) (simp_all add: config_bounds)
qed (simp_all add: RefundAbuseRule_def Let_def ELIGIBLE_def)

interpretation bot_checkout: sound_rule BotCheckoutRule "''bot_checkout''"
proof unfold_locales
  fix c assume "scores_valid c"
  then show "rule_wf (BotCheckoutRule c)"
    unfolding BotCheckoutRule_def Let_def by (intro record_rule_wf) (simp_all add: config_bounds)
qed (simp_all add: BotCheckoutRule_def Let_def ELIGIBLE_def SUPPORTED_def)

section \<open>The registry\<close>

definition RULE_IDS :: "string list" where
  "RULE_IDS =
     [''high_amount'', ''payment_velocity'', ''failed_payment_burst'', ''new_device'', ''country_mismatch'',
      ''rapid_checkout'', ''account_takeover_composite'', ''refund_abuse'', ''bot_checkout'',
      ''payment_amount_mismatch'']"

lemma all_rules_ids: "map fr_rule_id (all_rules c) = RULE_IDS"
  by (simp add: all_rules_def RULE_IDS_def high_amount.rule_id payment_velocity.rule_id
      failed_payment_burst.rule_id new_device.rule_id country_mismatch.rule_id rapid_checkout.rule_id
      account_takeover.rule_id refund_abuse.rule_id bot_checkout.rule_id payment_amount_mismatch.rule_id)

lemma all_rules_wf: "scores_valid c \<Longrightarrow> \<forall>r \<in> set (all_rules c). rule_wf r"
  by (simp add: all_rules_def high_amount.wf payment_velocity.wf failed_payment_burst.wf new_device.wf
      country_mismatch.wf rapid_checkout.wf account_takeover.wf refund_abuse.wf bot_checkout.wf
      payment_amount_mismatch.wf)

lemma distinct_RULE_IDS: "distinct RULE_IDS"
  by (simp add: RULE_IDS_def)

lemma build_rule_registry_eq:
  assumes "scores_valid c"
  shows "build_rule_registry c =
    (if set (enabled_rule_ids c) \<subseteq> set RULE_IDS
     then Inr (filter (\<lambda>r. fr_rule_id r \<in> set (enabled_rule_ids c)) (all_rules c))
     else Inl (Exn FraudRuleConfigurationError ''configured fraud rules do not exist''))"
proof -
  have "\<not> list_ex (\<lambda>r. fr_maximum_score r < 0 \<or> fr_maximum_score r > 100) (all_rules c)"
    using all_rules_wf [OF assms] by (auto simp: list_ex_iff rule_wf_def)
  moreover have "filter (\<lambda>i. i \<notin> set RULE_IDS) (enabled_rule_ids c) = [] \<longleftrightarrow>
      set (enabled_rule_ids c) \<subseteq> set RULE_IDS"
    by (auto simp: filter_empty_conv)
  ultimately show ?thesis
    unfolding build_rule_registry_def validate_registry_def Let_def all_rules_ids
    by (simp add: distinct_remdups_id distinct_RULE_IDS)
qed

lemma registry_rules_wf:
  assumes "fraud_config_valid c" "build_rule_registry c = Inr rules"
  shows "\<forall>r \<in> set rules. rule_wf r" "rules = filter (\<lambda>r. fr_rule_id r \<in> set (enabled_rule_ids c)) (all_rules c)"
  using assms all_rules_wf [of c] build_rule_registry_eq [of c]
  by (auto simp: fraud_config_valid_def split: if_splits)

section \<open>Running the rules and scoring\<close>

definition supports :: "event_type \<Rightarrow> fraud_rule \<Rightarrow> bool" where
  "supports t rule \<longleftrightarrow> t \<in> set (fr_supported_event_types rule)"

lemma run_rules_total:
  assumes "\<forall>r \<in> set rules. rule_wf r"
  shows "\<exists>rs. run_rules rules x = Inr rs \<and>
    map rr_rule_id rs = map fr_rule_id (filter (supports (fc_event_type x)) rules) \<and>
    (\<forall>r \<in> set rs. fits 100 r \<and> rr_reason_code r \<noteq> [])"
  using assms
proof (induction rules)
  case Nil
  show ?case by simp
next
  case (Cons rule rules)
  then obtain rs where rs: "run_rules rules x = Inr rs"
    "map rr_rule_id rs = map fr_rule_id (filter (supports (fc_event_type x)) rules)"
    "\<forall>r \<in> set rs. fits 100 r \<and> rr_reason_code r \<noteq> []" by auto
  obtain r where "fr_evaluate rule x = Inr r" "fits (fr_maximum_score rule) r"
    "rr_rule_id r = fr_rule_id rule" "rr_reason_code r \<noteq> []" "fr_maximum_score rule \<le> 100"
  proof -
    have "rule_wf rule" using Cons.prems by simp
    with that show thesis unfolding rule_wf_def by blast
  qed
  with rs show ?case
    by (cases "supports (fc_event_type x) rule") (auto simp: fits_def simp flip: supports_def)
qed

definition decide :: "fraud_config \<Rightarrow> int \<Rightarrow> fraud_decision" where
  "decide c score =
     (if score \<ge> fraud_block_threshold c then BLOCK
      else if score \<ge> fraud_review_threshold c then REVIEW else APPROVE)"

fun minimum_severity :: "fraud_decision \<Rightarrow> fraud_severity" where
  "minimum_severity BLOCK = HIGH" | "minimum_severity REVIEW = MEDIUM" | "minimum_severity APPROVE = LOW"

lemma fold_max_Max: "fold max ss (s :: 'a :: linorder) = Max (set (s # ss))"
  by (rule Max.set_eq_fold [symmetric])

lemma aggregate_eq:
  assumes "\<forall>r \<in> set rs. 0 \<le> rr_score r"
  shows "aggregate rs c =
    (let score = min 100 (sum_list (map rr_score (filter rr_matched rs)))
     in Inr (score, decide c score,
          Max (insert (minimum_severity (decide c score)) (rr_severity ` set (filter rr_matched rs)))))"
proof -
  have no_neg: "\<not> list_ex (\<lambda>r. rr_score r < 0) rs" using assms by (auto simp: list_ex_iff)
  have sev: "(let s = (case map rr_severity ms of [] \<Rightarrow> m | s # ss \<Rightarrow> fold max ss s)
      in if s < m then m else s) = Max (insert m (rr_severity ` set ms))" for m and ms :: "fraud_rule_result list"
  proof (cases ms)
    case Nil
    then show ?thesis by simp
  next
    case (Cons r ms')
    then have "(case map rr_severity ms of [] \<Rightarrow> m | s # ss \<Rightarrow> fold max ss s) = Max (rr_severity ` set ms)"
      by (simp add: fold_max_Max del: Max_insert)
    moreover have "Max (insert m (rr_severity ` set ms)) = max m (Max (rr_severity ` set ms))"
      using Cons by (intro Max_insert) auto
    moreover have "(if s < m then m else s) = max m s" for s
      by (auto simp: max_def not_less)
    ultimately show ?thesis by simp
  qed
  have pair: "(if score \<ge> fraud_block_threshold c then (BLOCK, HIGH)
      else if score \<ge> fraud_review_threshold c then (REVIEW, MEDIUM) else (APPROVE, LOW)) =
      (decide c score, minimum_severity (decide c score))" for score
    by (simp add: decide_def)
  show ?thesis
    using no_neg sev [where ms = "filter rr_matched rs"] unfolding aggregate_def pair by (simp add: Let_def)
qed

lemma evaluate_total:
  assumes "\<forall>r \<in> set rules. rule_wf r"
  shows "\<exists>ev. evaluate uuid5 c rules x = Inr ev \<and>
    map rr_rule_id (fv_rule_results ev) = map fr_rule_id (filter (supports (fc_event_type x)) rules) \<and>
    (\<forall>r \<in> set (fv_rule_results ev). fits 100 r \<and> rr_reason_code r \<noteq> []) \<and>
    fv_total_score ev = min 100 (sum_list (map rr_score (matched_rules ev))) \<and>
    fv_decision ev = decide c (fv_total_score ev) \<and>
    fv_severity ev = Max (insert (minimum_severity (fv_decision ev)) (rr_severity ` set (matched_rules ev))) \<and>
    fv_source_event_id ev = fc_source_event_id x \<and> fv_customer_id ev = fc_customer_id x \<and>
    fv_order_id ev = fc_order_id x \<and> fv_payment_id ev = fc_payment_id x \<and>
    fv_evaluated_at ev = fc_event_time x"
proof -
  obtain rs where rs: "run_rules rules x = Inr rs"
    "map rr_rule_id rs = map fr_rule_id (filter (supports (fc_event_type x)) rules)"
    "\<forall>r \<in> set rs. fits 100 r \<and> rr_reason_code r \<noteq> []"
    using run_rules_total [OF assms] by blast
  then have "\<forall>r \<in> set rs. 0 \<le> rr_score r" by (simp add: fits_def)
  from aggregate_eq [OF this, of c] rs show ?thesis
    by (simp add: evaluate_def Let_def matched_rules_def)
qed

lemma sum_scores_nonneg: "\<forall>r \<in> set rs. 0 \<le> rr_score r \<Longrightarrow> 0 \<le> sum_list (map rr_score (filter P rs))"
  by (rule sum_list_nonneg) auto

lemma decide_mono: "a \<le> b \<Longrightarrow> validate_relationships c \<Longrightarrow> decision_rank (decide c a) \<le> decision_rank (decide c b)"
  by (simp add: decide_def validate_relationships_def)

lemma minimum_severity_mono:
  "decision_rank d \<le> decision_rank d' \<Longrightarrow> minimum_severity d \<le> minimum_severity d'"
  by (cases d; cases d') (simp_all add: less_eq_fraud_severity_def)

section \<open>Properties\<close>

text \<open>C8: the engine is total and its score is explained by its rules. For every valid configuration
  whose registry can be built and every context, the evaluation succeeds: no rule raises and none
  exceeds its maximum. The results are those of exactly the enabled rules that support the event
  type, in registry order; the score is the sum of the matched rules' scores capped at 100 and lies
  between 0 and 100; the decision is the one the two thresholds prescribe; and the severity is the
  highest severity of a matched rule, raised to the minimum of the decision.\<close>

theorem fraud_engine_sound:
  assumes "fraud_config_valid c" and "build_rule_registry c = Inr rules"
  shows "\<exists>ev. evaluate uuid5 c rules x = Inr ev \<and>
    map rr_rule_id (fv_rule_results ev) =
      map fr_rule_id (filter (\<lambda>r. fr_rule_id r \<in> set (enabled_rule_ids c) \<and>
        fc_event_type x \<in> set (fr_supported_event_types r)) (all_rules c)) \<and>
    fv_total_score ev = min 100 (sum_list (map rr_score (matched_rules ev))) \<and>
    0 \<le> fv_total_score ev \<and> fv_total_score ev \<le> 100 \<and>
    (fv_decision ev = BLOCK \<longleftrightarrow> fraud_block_threshold c \<le> fv_total_score ev) \<and>
    (fv_decision ev = APPROVE \<longleftrightarrow> fv_total_score ev < fraud_review_threshold c) \<and>
    fv_severity ev = Max (insert (minimum_severity (fv_decision ev)) (rr_severity ` set (matched_rules ev)))"
proof -
  note wf = registry_rules_wf [OF assms]
  obtain ev where ev: "evaluate uuid5 c rules x = Inr ev"
    "map rr_rule_id (fv_rule_results ev) = map fr_rule_id (filter (supports (fc_event_type x)) rules)"
    "\<forall>r \<in> set (fv_rule_results ev). fits 100 r \<and> rr_reason_code r \<noteq> []"
    "fv_total_score ev = min 100 (sum_list (map rr_score (matched_rules ev)))"
    "fv_decision ev = decide c (fv_total_score ev)"
    "fv_severity ev = Max (insert (minimum_severity (fv_decision ev)) (rr_severity ` set (matched_rules ev)))"
    using evaluate_total [OF wf(1)] by blast
  have "0 \<le> sum_list (map rr_score (matched_rules ev))"
    unfolding matched_rules_def using ev(3) by (intro sum_scores_nonneg) (simp add: fits_def)
  moreover have "filter (supports (fc_event_type x)) rules =
      filter (\<lambda>r. fr_rule_id r \<in> set (enabled_rule_ids c) \<and>
        fc_event_type x \<in> set (fr_supported_event_types r)) (all_rules c)"
    unfolding wf(2) supports_def filter_filter by simp
  moreover have "fraud_review_threshold c < fraud_block_threshold c"
    using assms(1) by (simp add: fraud_config_valid_def validate_relationships_def)
  ultimately show ?thesis using ev by (intro exI [of _ ev]) (auto simp: decide_def)
qed

lemma default_rule_ids: "enabled_rule_ids default_fraud_config = RULE_IDS"
  by (simp add: enabled_rule_ids_def default_fraud_config_def RULE_IDS_def strip_def is_space_def)

lemma default_config_valid: "fraud_config_valid default_fraud_config"
proof -
  have "validate_relationships default_fraud_config"
    unfolding validate_relationships_def default_rule_ids
    using distinct_RULE_IDS by (simp add: default_fraud_config_def distinct_remdups_id)
  then show ?thesis
    by (simp add: fraud_config_valid_def scores_valid_def limits_valid_def percent_def default_fraud_config_def)
qed

lemma default_registry: "build_rule_registry default_fraud_config = Inr (all_rules default_fraud_config)"
proof -
  have "r \<in> set (all_rules default_fraud_config) \<Longrightarrow> fr_rule_id r \<in> set RULE_IDS" for r
    using all_rules_ids [of default_fraud_config] by (metis image_eqI set_map)
  then have "filter (\<lambda>r. fr_rule_id r \<in> set RULE_IDS) (all_rules default_fraud_config) = all_rules default_fraud_config"
    by (simp add: filter_id_conv)
  with build_rule_registry_eq [of default_fraud_config] default_config_valid show ?thesis
    by (simp add: default_rule_ids fraud_config_valid_def)
qed

definition demo_context :: fraud_context where
  "demo_context =
     \<lparr>fc_source_event_id = 1, fc_event_type = PAYMENT_COMPLETED, fc_event_time = 60000000,
      fc_customer_id = 7, fc_order_id = Some 8, fc_payment_id = Some 9, fc_session_id = Some 10,
      fc_amount = Some 6000, fc_currency = Some EUR, fc_payment_status = Some ''completed'',
      fc_payment_method = Some CREDIT_CARD, fc_current_device = Some ''d'',
      fc_current_country = Some ''TR'', fc_home_country = ''TR'', fc_session_started_at = Some 0,
      fc_order_time = None, fc_historical_average_amount = None, fc_recent_payment_attempts = 1,
      fc_recent_failed_payments = 0, fc_recent_failure_reasons = 0, fc_recent_distinct_devices = 1,
      fc_recent_distinct_countries = 1, fc_recent_orders = 1, fc_recent_refunds = 0,
      fc_lifetime_successful_payments = 0, fc_lifetime_failed_payments = 0, fc_lifetime_spend = 0,
      fc_refundable_amount = None, fc_previous_successful_devices = [],
      fc_previous_successful_countries = [], fc_product_view_count = 3, fc_refund_amount = None,
      fc_seconds_since_payment = Some 0, fc_payment_amount_matches_order = True\<rparr>"

theorem fraud_engine_sound_witness:
  "\<exists>ev. evaluate (\<lambda>n s. n) default_fraud_config (all_rules default_fraud_config) demo_context = Inr ev \<and>
    0 \<le> fv_total_score ev \<and> fv_total_score ev \<le> 100"
  using fraud_engine_sound [OF default_config_valid default_registry] by blast

text \<open>The registry is built exactly when every configured rule exists. A configuration with valid
  scores yields the enabled rules in the fixed registry order, without repetition; one that names
  an unknown rule is refused with \<open>FraudRuleConfigurationError\<close>, and nothing else is refused. The
  default configuration enables all ten rules.\<close>

theorem rule_registry_complete:
  assumes "fraud_config_valid c"
  shows "(if set (enabled_rule_ids c) \<subseteq> set (map fr_rule_id (all_rules c))
     then \<exists>rules. build_rule_registry c = Inr rules \<and> distinct (map fr_rule_id rules) \<and>
       set (map fr_rule_id rules) = set (enabled_rule_ids c) \<and> subseq rules (all_rules c)
     else build_rule_registry c =
       Inl (Exn FraudRuleConfigurationError ''configured fraud rules do not exist'')) \<and>
    build_rule_registry default_fraud_config = Inr (all_rules default_fraud_config)"
proof -
  have valid: "scores_valid c" using assms by (simp add: fraud_config_valid_def)
  let ?rules = "filter (\<lambda>r. fr_rule_id r \<in> set (enabled_rule_ids c)) (all_rules c)"
  have ids: "map fr_rule_id ?rules = filter (\<lambda>i. i \<in> set (enabled_rule_ids c)) RULE_IDS"
    unfolding all_rules_ids [of c, symmetric] filter_map comp_def ..
  have "distinct (map fr_rule_id ?rules)" unfolding ids using distinct_RULE_IDS by simp
  moreover have "set (map fr_rule_id ?rules) = set (enabled_rule_ids c)"
    if "set (enabled_rule_ids c) \<subseteq> set RULE_IDS" unfolding ids using that by auto
  moreover have "subseq ?rules (all_rules c)" by simp
  ultimately show ?thesis
    using default_registry unfolding all_rules_ids build_rule_registry_eq [OF valid] by auto
qed

theorem rule_registry_complete_witness:
  "\<exists>rules. build_rule_registry default_fraud_config = Inr rules \<and> distinct (map fr_rule_id rules) \<and>
     set (map fr_rule_id rules) = set RULE_IDS"
  using rule_registry_complete [OF default_config_valid] unfolding default_rule_ids all_rules_ids
  by (metis subset_refl)

text \<open>Evidence accumulates. Whatever results a context produced, one more result never lowers the
  score, the decision or the severity, and a result that did not match changes none of them.\<close>

theorem aggregate_monotone:
  assumes "validate_relationships c" and "\<forall>r \<in> set (rs @ [r']). 0 \<le> rr_score r"
    and "aggregate rs c = Inr (score, decision, severity)"
    and "aggregate (rs @ [r']) c = Inr (score', decision', severity')"
  shows "score \<le> score' \<and> decision_rank decision \<le> decision_rank decision' \<and> severity \<le> severity' \<and>
    (\<not> rr_matched r' \<longrightarrow> (score', decision', severity') = (score, decision, severity))"
proof -
  let ?S = "rr_severity ` set (filter rr_matched rs)" and ?S' = "rr_severity ` set (filter rr_matched (rs @ [r']))"
  have a: "score = min 100 (sum_list (map rr_score (filter rr_matched rs)))" "decision = decide c score"
    "severity = Max (insert (minimum_severity decision) ?S)"
    using assms(2,3) aggregate_eq [of rs c] by (auto simp: Let_def)
  have b: "score' = min 100 (sum_list (map rr_score (filter rr_matched (rs @ [r']))))" "decision' = decide c score'"
    "severity' = Max (insert (minimum_severity decision') ?S')"
    using assms(2,4) aggregate_eq [of "rs @ [r']" c] by (auto simp: Let_def)
  have score: "score \<le> score'" unfolding a b using assms(2) by (simp add: min_le_iff_disj)
  then have rank: "decision_rank decision \<le> decision_rank decision'"
    unfolding a(2) b(2) using assms(1) by (rule decide_mono)
  have "x \<le> severity'" if "x \<in> insert (minimum_severity decision) ?S" for x
  proof (cases "x \<in> ?S")
    case True
    then show ?thesis unfolding b(3) by (intro Max_ge) auto
  next
    case False
    with that have "x = minimum_severity decision" by simp
    also have "\<dots> \<le> minimum_severity decision'" using rank by (rule minimum_severity_mono)
    also have "\<dots> \<le> severity'" unfolding b(3) by (intro Max_ge) auto
    finally show ?thesis .
  qed
  then have "severity \<le> severity'" unfolding a(3) by (intro Max.boundedI) auto
  moreover have "(score', decision', severity') = (score, decision, severity)" if "\<not> rr_matched r'"
    using that unfolding a b by simp
  ultimately show ?thesis using score rank by blast
qed

definition demo_result :: "bool \<Rightarrow> int \<Rightarrow> fraud_severity \<Rightarrow> fraud_rule_result" where
  "demo_result matched score sev =
     \<lparr>rr_rule_id = ''r'', rr_rule_version = ''1.0'', rr_matched = matched, rr_score = score,
      rr_severity = sev, rr_reason_code = ''R'', rr_explanation = [], rr_evidence = [], rr_evaluated_at = 0\<rparr>"

theorem aggregate_monotone_witness:
  "\<exists>score decision severity score' decision' severity'.
    aggregate [demo_result True 40 MEDIUM] default_fraud_config = Inr (score, decision, severity) \<and>
    aggregate [demo_result True 40 MEDIUM, demo_result True 30 HIGH] default_fraud_config =
      Inr (score', decision', severity') \<and>
    score \<le> score' \<and> decision_rank decision \<le> decision_rank decision' \<and> severity \<le> severity'"
proof -
  let ?rs = "[demo_result True 40 MEDIUM]" and ?r = "demo_result True 30 HIGH" and ?c = default_fraud_config
  have v: "validate_relationships ?c" using default_config_valid by (simp add: fraud_config_valid_def)
  have n: "\<forall>r \<in> set (?rs @ [?r]). 0 \<le> rr_score r" by (simp add: demo_result_def)
  obtain a b d where abd: "aggregate ?rs ?c = Inr (a, b, d)"
    using aggregate_eq [of ?rs ?c] n by (simp add: Let_def)
  obtain a' b' d' where abd': "aggregate (?rs @ [?r]) ?c = Inr (a', b', d')"
    using aggregate_eq [of "?rs @ [?r]" ?c] n by (simp add: Let_def)
  have "a \<le> a' \<and> decision_rank b \<le> decision_rank b' \<and> d \<le> d'"
    using aggregate_monotone [OF v n abd abd'] by blast
  with abd abd' show ?thesis by auto
qed

end
