(* ===== verification/Fraud_Context.thy ===== *)
theory Fraud_Context
  imports Store_Invariants Fraud_Engine
begin

text \<open>
  \<^verbatim>\<open>fraud/context.py\<close>: the history the rules see, read from the tables inside the event's own
  transaction, after the event's business rows were written. Averages of \<open>Decimal\<close>s are exact
  rationals.
\<close>

section \<open>Attributes of a payload\<close>

text \<open>\<open>getattr(payload, name, None)\<close> for the attributes the builder reads.\<close>

fun payload_order :: "payload \<Rightarrow> uuid option" where
  "payload_order (OrderCreated p) = Some (oc_order_id p)"
| "payload_order (PaymentCompleted p) = Some (pc_order_id p)"
| "payload_order (PaymentFailed p) = Some (pf_order_id p)"
| "payload_order (RefundRequested p) = Some (rr_order_id p)"
| "payload_order (FraudAlertCreated p) = fa_order_id p"
| "payload_order _ = None"

fun payload_payment :: "payload \<Rightarrow> uuid option" where
  "payload_payment (PaymentCompleted p) = Some (pc_payment_id p)"
| "payload_payment (PaymentFailed p) = Some (pf_payment_id p)"
| "payload_payment (RefundRequested p) = Some (rr_payment_id p)"
| "payload_payment _ = None"

fun payload_session :: "payload \<Rightarrow> uuid option" where
  "payload_session (SessionStarted p) = Some (ss_session_id p)"
| "payload_session (ProductViewed p) = Some (pv_session_id p)"
| "payload_session (AddedToCart p) = Some (ac_session_id p)"
| "payload_session (CheckoutStarted p) = Some (cs_session_id p)"
| "payload_session (OrderCreated p) = Some (oc_session_id p)"
| "payload_session _ = None"

fun payload_amount :: "payload \<Rightarrow> money option" where
  "payload_amount (PaymentCompleted p) = Some (pc_amount p)"
| "payload_amount (PaymentFailed p) = Some (pf_amount p)"
| "payload_amount (RefundRequested p) = Some (rr_amount p)"
| "payload_amount _ = None"

fun payload_total_amount :: "payload \<Rightarrow> money option" where
  "payload_total_amount (CheckoutStarted p) = Some (cs_total_amount p)"
| "payload_total_amount (OrderCreated p) = Some (oc_total_amount p)"
| "payload_total_amount _ = None"

fun payload_currency :: "payload \<Rightarrow> currency option" where
  "payload_currency (ProductViewed p) = Some (pv_currency p)"
| "payload_currency (AddedToCart p) = Some (ac_currency p)"
| "payload_currency (CheckoutStarted p) = Some (cs_currency p)"
| "payload_currency (OrderCreated p) = Some (oc_currency p)"
| "payload_currency (PaymentCompleted p) = Some (pc_currency p)"
| "payload_currency (PaymentFailed p) = Some (pf_currency p)"
| "payload_currency (RefundRequested p) = Some (rr_currency p)"
| "payload_currency _ = None"

fun payload_device :: "payload \<Rightarrow> uuid option" where
  "payload_device (SessionStarted p) = Some (ss_device_id p)"
| "payload_device (PaymentCompleted p) = Some (pc_device_id p)"
| "payload_device (PaymentFailed p) = Some (pf_device_id p)"
| "payload_device _ = None"

fun payload_country :: "payload \<Rightarrow> string option" where
  "payload_country (UserRegistered p) = Some (ur_country_code p)"
| "payload_country (SessionStarted p) = Some (ss_country_code p)"
| "payload_country (PaymentCompleted p) = Some (pc_country_code p)"
| "payload_country (PaymentFailed p) = Some (pf_country_code p)"
| "payload_country _ = None"

fun payload_method :: "payload \<Rightarrow> payment_method option" where
  "payload_method (PaymentCompleted p) = Some (pc_payment_method p)"
| "payload_method (PaymentFailed p) = Some (pf_payment_method p)"
| "payload_method _ = None"

text \<open>\<open>amount or total_amount\<close>: zero is false in Python.\<close>

definition event_amount :: "payload \<Rightarrow> money option" where
  "event_amount p =
     (case payload_amount p of
        Some a \<Rightarrow> if a = 0 then payload_total_amount p else Some a
      | None \<Rightarrow> payload_total_amount p)"

section \<open>Queries\<close>

text \<open>\<open>ORDER BY time DESC, key LIMIT n\<close>.\<close>

definition latest :: "('r \<Rightarrow> instant) \<Rightarrow> ('r \<Rightarrow> uuid) \<Rightarrow> int \<Rightarrow> 'r list \<Rightarrow> 'r list" where
  "latest time key limit rows = take (nat limit) (sort_key (\<lambda>r. - time r) (sort_key key rows))"

definition customer_and_order ::
  "uuid \<Rightarrow> uuid option \<Rightarrow> db \<Rightarrow> db_exn + string \<times> order_row option" where
  "customer_and_order customer_id order_id d =
     (case select_key cu_customer_id customer_id (t_customers d) of
        None \<Rightarrow> Inl (Raised (Exn FraudContextDependencyError ''customer fraud context is unavailable''))
      | Some c \<Rightarrow>
          Inr (cu_home_country c,
            case order_id of None \<Rightarrow> None | Some i \<Rightarrow> select_key or_order_id i (t_orders d)))"

definition refund_facts :: "uuid option \<Rightarrow> instant \<Rightarrow> db \<Rightarrow> money option \<times> int option" where
  "refund_facts payment_id event_time d =
     (case payment_id of
        None \<Rightarrow> (None, None)
      | Some i \<Rightarrow>
          (case select_key pa_payment_id i (t_payments d) of
             None \<Rightarrow> (None, None)
           | Some p \<Rightarrow>
               (Some (pa_amount p - refunded_total i (t_refunds d)),
                Some (elapsed_seconds event_time (pa_attempted_at p)))))"

definition history_payments :: "uuid \<Rightarrow> instant \<Rightarrow> instant \<Rightarrow> int \<Rightarrow> db \<Rightarrow> payment_row list" where
  "history_payments customer_id until since limit d =
     latest pa_attempted_at pa_payment_id limit
       (filter (\<lambda>r. pa_customer_id r = customer_id \<and> pa_attempted_at r \<le> until \<and> pa_attempted_at r \<ge> since)
          (t_payments d))"

definition prior_payments :: "uuid \<Rightarrow> instant \<Rightarrow> int \<Rightarrow> db \<Rightarrow> payment_row list" where
  "prior_payments customer_id before limit d =
     latest pa_attempted_at pa_payment_id limit
       (filter (\<lambda>r. pa_customer_id r = customer_id \<and> pa_attempted_at r < before) (t_payments d))"

definition history_refunds :: "uuid \<Rightarrow> instant \<Rightarrow> instant \<Rightarrow> int \<Rightarrow> db \<Rightarrow> refund_row list" where
  "history_refunds customer_id until since limit d =
     latest re_requested_at re_refund_id limit
       (filter (\<lambda>r. re_customer_id r = customer_id \<and> re_requested_at r \<le> until \<and> re_requested_at r \<ge> since)
          (t_refunds d))"

definition bounded_count :: "('r \<Rightarrow> bool) \<Rightarrow> int \<Rightarrow> 'r list \<Rightarrow> int" where
  "bounded_count P limit rows = min (int (length (filter P rows))) limit"

section \<open>The builder\<close>

definition microseconds :: "int \<Rightarrow> int" where
  "microseconds seconds = seconds * 1000000"

definition average :: "money list \<Rightarrow> money option" where
  "average xs = (if xs = [] then None else Some (sum_list xs / of_nat (length xs)))"

definition build :: "fraud_config \<Rightarrow> envelope \<Rightarrow> db \<Rightarrow> db_exn + fraud_context" where
  "build c e d =
     (case payload_customer (ev_payload e) of
        None \<Rightarrow> Inl (Raised (Exn FraudContextDependencyError ''eligible event has no customer identity''))
      | Some customer_id \<Rightarrow>
          let payload = ev_payload e; now = ev_event_time e; t = ev_event_type e;
              order_id = payload_order payload;
              payment_id = payload_payment payload;
              amount = event_amount payload;
              currency = payload_currency payload;
              lookback = now - microseconds (fraud_history_lookback_days c * 86400);
              limit = fraud_max_history_records c
          in case customer_and_order customer_id order_id d of
               Inl x \<Rightarrow> Inl x
             | Inr (home_country, order) \<Rightarrow>
                 let session_id =
                       (case (payload_session payload, order_id) of
                          (Some s, _) \<Rightarrow> Some s
                        | (None, Some i) \<Rightarrow> map_option or_session_id (select_key or_order_id i (t_orders d))
                        | (None, None) \<Rightarrow> None);
                     session_started =
                       (case session_id of
                          None \<Rightarrow> None
                        | Some s \<Rightarrow> map_option se_started_at (select_key se_session_id s (t_sessions d)));
                     order_matches =
                       (case (order, amount) of
                          (Some r, Some a) \<Rightarrow> or_total r = a \<and> Some (or_currency r) = currency
                        | _ \<Rightarrow> True);
                     payments = history_payments customer_id now lookback limit d;
                     prior = prior_payments customer_id now limit d;
                     refunds = history_refunds customer_id now lookback limit d;
                     recent_orders =
                       bounded_count (\<lambda>r. or_customer_id r = customer_id \<and> or_ordered_at r \<le> now \<and>
                         or_ordered_at r \<ge> lookback) limit (t_orders d);
                     views_from = (case session_started of Some s \<Rightarrow> s | None \<Rightarrow> lookback);
                     view_count =
                       bounded_count (\<lambda>r. vw_customer_id r = customer_id \<and> vw_viewed_at r \<le> now \<and>
                         vw_viewed_at r \<ge> views_from) limit (t_product_views d);
                     (refundable, seconds_since_payment) = refund_facts payment_id now d;
                     successful = filter (\<lambda>r. pa_status r = Payment_completed) prior;
                     matching = map pa_amount (filter (\<lambda>r. Some (pa_currency r) = currency) successful);
                     velocity = filter (\<lambda>r. pa_attempted_at r \<ge> now - microseconds (fraud_velocity_window_seconds c)) payments;
                     failures = filter (\<lambda>r. pa_status r = Payment_failed \<and>
                       pa_attempted_at r \<ge> now - microseconds (fraud_failed_payment_window_seconds c)) payments;
                     countries = map pa_country (filter (\<lambda>r.
                       pa_attempted_at r \<ge> now - microseconds (fraud_country_window_seconds c)) payments)
                 in Inr
                   \<lparr>fc_source_event_id = ev_event_id e, fc_event_type = t, fc_event_time = now,
                    fc_customer_id = customer_id, fc_order_id = order_id, fc_payment_id = payment_id,
                    fc_session_id = session_id, fc_amount = amount, fc_currency = currency,
                    fc_payment_status =
                      (if t = PAYMENT_COMPLETED then Some ''completed''
                       else if t = PAYMENT_FAILED then Some ''failed'' else None),
                    fc_payment_method = payload_method payload,
                    fc_current_device = map_option uuid_str (payload_device payload),
                    fc_current_country =
                      (case payload_country payload of
                         Some k \<Rightarrow> Some k
                       | None \<Rightarrow> if t = ORDER_CREATED then map_option or_billing_country order else None),
                    fc_home_country = home_country, fc_session_started_at = session_started,
                    fc_order_time = map_option or_ordered_at order,
                    fc_historical_average_amount = average matching,
                    fc_recent_payment_attempts = int (length velocity),
                    fc_recent_failed_payments = int (length failures),
                    fc_recent_failure_reasons =
                      int (length (remdups (List.map_filter pa_failure_reason failures))),
                    fc_recent_distinct_devices = int (length (remdups (map pa_device_id velocity))),
                    fc_recent_distinct_countries = int (length (remdups countries)),
                    fc_recent_orders = recent_orders, fc_recent_refunds = int (length refunds),
                    fc_lifetime_successful_payments = int (length successful),
                    fc_lifetime_failed_payments =
                      int (length (filter (\<lambda>r. pa_status r = Payment_failed) prior)),
                    fc_lifetime_spend = sum_list (map pa_amount successful),
                    fc_refundable_amount = refundable,
                    fc_previous_successful_devices = map pa_device_id successful,
                    fc_previous_successful_countries = map pa_country successful,
                    fc_product_view_count = view_count,
                    fc_refund_amount = (if t = REFUND_REQUESTED then payload_amount payload else None),
                    fc_seconds_since_payment = seconds_since_payment,
                    fc_payment_amount_matches_order = order_matches\<rparr>)"

text \<open>The builder fails only for lack of a customer, and its answer keeps the event's identity.\<close>

lemma build_total:
  assumes "payload_customer (ev_payload e) = Some k"
    and "select_key cu_customer_id k (t_customers d) = Some row"
  shows "\<exists>x. build c e d = Inr x \<and> fc_source_event_id x = ev_event_id e \<and> fc_event_type x = ev_event_type e \<and>
    fc_event_time x = ev_event_time e \<and> fc_customer_id x = k \<and>
    fc_order_id x = payload_order (ev_payload e) \<and> fc_payment_id x = payload_payment (ev_payload e)"
  using assms by (simp add: build_def customer_and_order_def Let_def split: prod.split)

lemma build_identity:
  "build c e d = Inr x \<Longrightarrow> fc_source_event_id x = ev_event_id e \<and> fc_event_type x = ev_event_type e \<and>
     fc_event_time x = ev_event_time e"
  by (auto simp: build_def Let_def split: option.splits sum.splits prod.splits)

lemma build_Inl:
  assumes "build c e d = Inl x"
  shows "\<exists>msg. x = Raised (Exn FraudContextDependencyError msg)"
  using assms
  by (auto simp: build_def customer_and_order_def Let_def split: option.splits prod.splits)

end
