(* ===== verification/Unit_Of_Work.thy ===== *)
theory Unit_Of_Work
  imports Fraud_Context "HOL-Library.Char_ord" "HOL-Library.List_Lexorder"
begin

text \<open>
  \<^verbatim>\<open>fraud/publisher.py\<close> (the alert event), \<^verbatim>\<open>fraud/repository.py\<close> (evaluation, alert and outbox
  rows) and \<^verbatim>\<open>persistence/unit_of_work.py\<close>: one transaction per source event that writes the
  ledger row, the business rows and the fraud rows together, or nothing.
\<close>

section \<open>Alert messages\<close>

definition ALERT_NAMESPACE :: uuid where "ALERT_NAMESPACE = 0x8738db40333e491aa20d4658782dfc44"
definition OUTBOX_NAMESPACE :: uuid where "OUTBOX_NAMESPACE = 0xdc27cc58f4b849499417490923fc7ae2"

record fraud_alert_message =
  am_alert_id :: uuid
  am_alert_event_id :: uuid
  am_outbox_id :: uuid
  am_event :: envelope
  am_key :: string
  am_headers :: "(string \<times> string) list"
  am_payload_bytes :: string

definition reason_codes :: "fraud_evaluation \<Rightarrow> string list" where
  "reason_codes ev = map rr_reason_code (matched_rules ev)"

definition alert_event :: "store_env \<Rightarrow> fraud_evaluation \<Rightarrow> envelope \<Rightarrow> envelope" where
  "alert_event v ev src =
     (let alert_id = sv_uuid5 v ALERT_NAMESPACE (uuid_str (fv_evaluation_id ev));
          reasons = reason_codes ev
      in \<lparr>ev_event_id = sv_uuid5 v ALERT_EVENT_NAMESPACE (uuid_str alert_id),
          ev_event_type = FRAUD_ALERT_CREATED, ev_event_version = CURRENT_EVENT_VERSION,
          ev_event_time = fv_evaluated_at ev, ev_produced_at = fv_evaluated_at ev,
          ev_source = ''fraud-engine'', ev_correlation_id = ev_correlation_id src,
          ev_payload = FraudAlertCreated
            \<lparr>fa_alert_id = alert_id, fa_event_id = fv_source_event_id ev,
             fa_customer_id = Some (fv_customer_id ev), fa_order_id = fv_order_id ev,
             fa_fraud_score = of_int (fv_total_score ev), fa_decision = fv_decision ev,
             fa_reasons = (if reasons \<noteq> [] then reasons else [''DECISION_THRESHOLD'']),
             fa_created_at = fv_evaluated_at ev\<rparr>\<rparr>)"

text \<open>The contract models reject an alert that breaks a constraint with a \<open>ValidationError\<close>, which is
  a \<open>ValueError\<close>.\<close>

definition build_alert_message :: "store_env \<Rightarrow> fraud_evaluation \<Rightarrow> envelope \<Rightarrow> exn + fraud_alert_message" where
  "build_alert_message v ev src =
     (let e = alert_event v ev src;
          alert_id = sv_uuid5 v ALERT_NAMESPACE (uuid_str (fv_evaluation_id ev))
      in if \<not> event_wf e then Inl (Exn PyValueError ''ValidationError'')
         else Inr \<lparr>am_alert_id = alert_id, am_alert_event_id = ev_event_id e,
                   am_outbox_id = sv_uuid5 v OUTBOX_NAMESPACE (uuid_str (ev_event_id e)),
                   am_event = e, am_key = event_message_key e,
                   am_headers = event_message_headers e @ [(''causation_id'', uuid_str (ev_event_id src))],
                   am_payload_bytes = sv_canonical_json v e\<rparr>)"

section \<open>Fraud rows\<close>

definition evaluation_row :: "fraud_evaluation \<Rightarrow> fraud_evaluation_row" where
  "evaluation_row ev =
     \<lparr>fe_evaluation_id = fv_evaluation_id ev, fe_source_event_id = fv_source_event_id ev,
      fe_customer_id = fv_customer_id ev, fe_order_id = fv_order_id ev,
      fe_payment_id = fv_payment_id ev, fe_total_score = fv_total_score ev,
      fe_decision = fv_decision ev, fe_severity = fv_severity ev,
      fe_engine_version = fv_engine_version ev, fe_ruleset_version = fv_ruleset_version ev,
      fe_matched_rule_count = int (length (matched_rules ev)),
      fe_rule_results = fv_rule_results ev, fe_evaluated_at = fv_evaluated_at ev\<rparr>"

definition evaluation_identity ::
  "fraud_evaluation_row \<Rightarrow> int \<times> fraud_decision \<times> fraud_severity \<times> string \<times> string \<times> fraud_rule_result list" where
  "evaluation_identity r =
     (fe_total_score r, fe_decision r, fe_severity r, fe_engine_version r, fe_ruleset_version r,
      fe_rule_results r)"

definition alert_row :: "fraud_evaluation \<Rightarrow> fraud_alert_message \<Rightarrow> fraud_alert_row" where
  "alert_row ev am =
     \<lparr>al_alert_id = am_alert_id am, al_evaluation_id = Some (fv_evaluation_id ev),
      al_source_event_id = fv_source_event_id ev, al_customer_id = Some (fv_customer_id ev),
      al_order_id = fv_order_id ev, al_payment_id = fv_payment_id ev, al_score = fv_total_score ev,
      al_decision = fv_decision ev, al_severity = fv_severity ev, al_reason_codes = reason_codes ev,
      al_alert_event_id = am_alert_event_id am, al_created_at = fv_evaluated_at ev\<rparr>"

definition outbox_row_of :: "fraud_config \<Rightarrow> instant \<Rightarrow> fraud_alert_message \<Rightarrow> outbox_row" where
  "outbox_row_of c now am =
     \<lparr>ob_outbox_id = am_outbox_id am, ob_aggregate_id = am_alert_id am,
      ob_event_id = am_alert_event_id am, ob_event_type = ev_event_type (am_event am),
      ob_event_version = ev_event_version (am_event am), ob_topic = fraud_alert_topic c,
      ob_message_key = am_key am, ob_headers = am_headers am,
      ob_payload_json = am_payload_bytes am, ob_payload_bytes = am_payload_bytes am,
      ob_status = PENDING, ob_attempts = 0, ob_available_at = now, ob_claimed_at = None,
      ob_claim_token = None, ob_published_at = None, ob_last_error = None\<rparr>"

definition insert_evaluation :: "fraud_evaluation \<Rightarrow> unit tx" where
  "insert_evaluation ev d =
     (if fv_total_score ev < 0 \<or> fv_total_score ev > 100 then Inl (Sql check_violation)
      else if exists_key fe_evaluation_id (fv_evaluation_id ev) (t_fraud_evaluations d)
      then Inl (Sql unique_violation)
      else if \<not> exists_key cu_customer_id (fv_customer_id ev) (t_customers d)
      then Inl (Sql foreign_key_violation)
      else Inr ((), d\<lparr>t_fraud_evaluations := t_fraud_evaluations d @ [evaluation_row ev]\<rparr>))"

definition insert_alert_row :: "fraud_alert_row \<Rightarrow> unit tx" where
  "insert_alert_row r d =
     (if exists_key al_source_event_id (al_source_event_id r) (t_fraud_alerts d) \<or>
         exists_key al_alert_id (al_alert_id r) (t_fraud_alerts d) \<or>
         exists_key al_alert_event_id (al_alert_event_id r) (t_fraud_alerts d) \<or>
         (al_evaluation_id r \<noteq> None \<and> exists_key al_evaluation_id (al_evaluation_id r) (t_fraud_alerts d))
      then Inl (Sql unique_violation)
      else Inr ((), d\<lparr>t_fraud_alerts := t_fraud_alerts d @ [r]\<rparr>))"

definition insert_outbox_row :: "outbox_row \<Rightarrow> unit tx" where
  "insert_outbox_row r d =
     (if exists_key ob_outbox_id (ob_outbox_id r) (t_fraud_outbox d) \<or>
         exists_key ob_event_id (ob_event_id r) (t_fraud_outbox d)
      then Inl (Sql unique_violation)
      else Inr ((), d\<lparr>t_fraud_outbox := t_fraud_outbox d @ [r]\<rparr>))"

definition persist_alert ::
  "store_env \<Rightarrow> fraud_config \<Rightarrow> instant \<Rightarrow> fraud_evaluation \<Rightarrow> envelope \<Rightarrow> rows_written tx" where
  "persist_alert v c now ev src d =
     (case build_alert_message v ev src of
        Inl x \<Rightarrow> Inl (Raised x)
      | Inr am \<Rightarrow>
          (case insert_alert_row (alert_row ev am) d of
             Inl x \<Rightarrow> Inl x
           | Inr (_, d1) \<Rightarrow>
               if fraud_outbox_enabled c
               then (case insert_outbox_row (outbox_row_of c now am) d1 of
                       Inl x \<Rightarrow> Inl x
                     | Inr (_, d2) \<Rightarrow>
                         Inr ([(''fraud_evaluations'', 1), (''fraud_alerts'', 1), (''fraud_outbox'', 1)], d2))
               else Inr ([(''fraud_evaluations'', 1), (''fraud_alerts'', 1)], d1)))"

definition persist_fraud ::
  "store_env \<Rightarrow> fraud_config \<Rightarrow> instant \<Rightarrow> fraud_evaluation \<Rightarrow> envelope \<Rightarrow> rows_written tx" where
  "persist_fraud v c now ev src d =
     (case select_key fe_source_event_id (fv_source_event_id ev) (t_fraud_evaluations d) of
        Some existing \<Rightarrow>
          if evaluation_identity existing \<noteq> evaluation_identity (evaluation_row ev)
          then Inl (Raised (Exn FraudEvaluationIntegrityError
                 ''source event has conflicting deterministic fraud evaluation''))
          else Inr ([(''fraud_evaluations'', 0)], d)
      | None \<Rightarrow>
          (case insert_evaluation ev d of
             Inl x \<Rightarrow> Inl x
           | Inr (_, d1) \<Rightarrow>
               if fv_decision ev = APPROVE then Inr ([(''fraud_evaluations'', 1)], d1)
               else persist_alert v c now ev src d1))"

section \<open>The transaction\<close>

definition FRAUD_ELIGIBLE_EVENT_TYPES :: "event_type list" where
  "FRAUD_ELIGIBLE_EVENT_TYPES =
     [CHECKOUT_STARTED, ORDER_CREATED, PAYMENT_FAILED, PAYMENT_COMPLETED, REFUND_REQUESTED]"

record uow_config =
  uc_fraud :: fraud_config
  uc_rules :: "fraud_rule list"
  uc_persist_raw_event_json :: bool

record persistence_result =
  pr_already_persisted :: bool
  pr_affected_tables :: "string list"
  pr_rows_written :: rows_written
  pr_duration_ms :: rat
  pr_fraud_event_type :: "event_type option"
  pr_fraud_severity :: "fraud_severity option"
  pr_fraud_score :: "int option"
  pr_fraud_decision :: "fraud_decision option"
  pr_matched_rule_ids :: "string list"

definition add_count :: "string \<times> int \<Rightarrow> rows_written \<Rightarrow> rows_written" where
  "add_count = (\<lambda>(table, count) rows.
     AList.update table ((case map_of rows table of None \<Rightarrow> 0 | Some n \<Rightarrow> n) + count) rows)"

text \<open>The fraud stage: the evaluation, if the event is eligible, and the rows it wrote.\<close>

definition fraud_stage ::
  "store_env \<Rightarrow> uow_config \<Rightarrow> instant \<Rightarrow> envelope \<Rightarrow> (fraud_evaluation \<times> rows_written) option tx" where
  "fraud_stage v uc now e d =
     (if \<not> fraud_engine_enabled (uc_fraud uc) \<or> ev_event_type e \<notin> set FRAUD_ELIGIBLE_EVENT_TYPES
      then Inr (None, d)
      else case build (uc_fraud uc) e d of
             Inl x \<Rightarrow> Inl x
           | Inr context \<Rightarrow>
               (case evaluate (sv_uuid5 v) (uc_fraud uc) (uc_rules uc) context of
                  Inl x \<Rightarrow> Inl (Raised x)
                | Inr ev \<Rightarrow>
                    (case persist_fraud v (uc_fraud uc) now ev e d of
                       Inl x \<Rightarrow> Inl x
                     | Inr (rows, d') \<Rightarrow> Inr (Some (ev, rows), d'))))"

definition tx_body ::
  "store_env \<Rightarrow> uow_config \<Rightarrow> instant \<Rightarrow> envelope \<Rightarrow> consumed_message \<Rightarrow> processing_context \<Rightarrow>
   (rows_written \<times> fraud_evaluation option) tx" where
  "tx_body v uc now e m cn d =
     (case insert_identity v e m cn (uc_persist_raw_event_json uc) d of
        Inl x \<Rightarrow> Inl x
      | Inr (_, d1) \<Rightarrow>
          (case apply_handler v (ev_event_type e) e d1 of
             Inl x \<Rightarrow> Inl x
           | Inr (rows, d2) \<Rightarrow>
               (case fraud_stage v uc now e d2 of
                  Inl x \<Rightarrow> Inl x
                | Inr (None, d3) \<Rightarrow> Inr ((rows, None), d3)
                | Inr (Some (ev, fraud_rows), d3) \<Rightarrow> Inr ((fold add_count fraud_rows rows, Some ev), d3))))"

text \<open>The deferred foreign keys, checked at the commit.\<close>

definition deferred_ok :: "db \<Rightarrow> bool" where
  "deferred_ok d \<longleftrightarrow>
     (let known = set (map pe_event_id (t_processed_events d));
          evaluations = set (map fe_evaluation_id (t_fraud_evaluations d))
      in list_all (\<lambda>r. cu_first_event_id r \<in> known \<and> cu_last_event_id r \<in> known) (t_customers d) \<and>
         list_all (\<lambda>r. se_first_event_id r \<in> known) (t_sessions d) \<and>
         list_all (\<lambda>r. vw_event_id r \<in> known) (t_product_views d) \<and>
         list_all (\<lambda>r. ct_created_event_id r \<in> known \<and> ct_latest_event_id r \<in> known) (t_carts d) \<and>
         list_all (\<lambda>r. or_created_event_id r \<in> known \<and> or_latest_event_id r \<in> known) (t_orders d) \<and>
         list_all (\<lambda>r. pa_event_id r \<in> known) (t_payments d) \<and>
         list_all (\<lambda>r. re_event_id r \<in> known) (t_refunds d) \<and>
         list_all (\<lambda>r. fe_source_event_id r \<in> known) (t_fraud_evaluations d) \<and>
         list_all (\<lambda>r. al_source_event_id r \<in> known \<and>
           (case al_evaluation_id r of None \<Rightarrow> True | Some i \<Rightarrow> i \<in> evaluations)) (t_fraud_alerts d))"

text \<open>
  What the environment does to one attempt: nothing, no connection in time, a database error that
  aborts the transaction (the client may know no SQLSTATE for it), or a commit that takes effect
  although the client sees an error.
\<close>

datatype db_fault = No_fault | Pool_timeout | Aborted "string option" | Commit_lost "string option"

definition translate_sqlstate :: "string option \<Rightarrow> exn" where
  "translate_sqlstate st =
     (case st of
        Some s \<Rightarrow>
          if take 2 s = ''08'' \<or> s \<in> {''40001'', ''40P01''}
          then Exn RetryableDatabaseError ''transient PostgreSQL failure''
          else Exn PermanentDatabaseIntegrityError ''deterministic PostgreSQL constraint failure''
      | None \<Rightarrow> Exn PermanentDatabaseIntegrityError ''deterministic PostgreSQL constraint failure'')"

definition committed_result :: "rat \<Rightarrow> envelope \<Rightarrow> rows_written \<Rightarrow> fraud_evaluation option \<Rightarrow> persistence_result" where
  "committed_result duration e rows ev =
     (let rows' = AList.update ''processed_events'' 1 rows
      in \<lparr>pr_already_persisted = False,
          pr_affected_tables = sort (map fst (filter (\<lambda>(_, count). count \<noteq> 0) rows')),
          pr_rows_written = rows', pr_duration_ms = duration,
          pr_fraud_event_type = map_option (\<lambda>_. ev_event_type e) ev,
          pr_fraud_severity = map_option fv_severity ev, pr_fraud_score = map_option fv_total_score ev,
          pr_fraud_decision = map_option fv_decision ev,
          pr_matched_rule_ids = (case ev of None \<Rightarrow> [] | Some x \<Rightarrow> map rr_rule_id (matched_rules x))\<rparr>)"

definition already_result :: "rat \<Rightarrow> persistence_result" where
  "already_result duration =
     \<lparr>pr_already_persisted = True, pr_affected_tables = [], pr_rows_written = [],
      pr_duration_ms = duration, pr_fraud_event_type = None, pr_fraud_severity = None,
      pr_fraud_score = None, pr_fraud_decision = None, pr_matched_rule_ids = []\<rparr>"

definition persist ::
  "store_env \<Rightarrow> uow_config \<Rightarrow> db_fault \<Rightarrow> instant \<Rightarrow> rat \<Rightarrow> envelope \<Rightarrow> consumed_message \<Rightarrow> processing_context \<Rightarrow>
   db \<Rightarrow> (exn + persistence_result) \<times> db" where
  "persist v uc fault now duration e m cn d =
     (case fault of
        Pool_timeout \<Rightarrow> (Inl (Exn RetryableDatabaseError ''database pool acquisition timed out''), d)
      | Aborted st \<Rightarrow> (Inl (translate_sqlstate st), d)
      | _ \<Rightarrow>
          (case tx_body v uc now e m cn d of
             Inl (Raised x) \<Rightarrow>
               if isinstance x AlreadyPersistedEvent then (Inr (already_result duration), d) else (Inl x, d)
           | Inl (Sql s) \<Rightarrow> (Inl (translate_sqlstate (Some s)), d)
           | Inr ((rows, ev), d') \<Rightarrow>
               if \<not> deferred_ok d' then (Inl (translate_sqlstate (Some foreign_key_violation)), d)
               else (case fault of
                       Commit_lost st \<Rightarrow> (Inl (translate_sqlstate st), d')
                     | _ \<Rightarrow> (Inr (committed_result duration e rows ev), d'))))"

end
