(* ===== verification/Demo_Journey.thy ===== *)
theory Demo_Journey
  imports Unit_Of_Work
begin

text \<open>
  A concrete purchase for the witnesses: a customer registers, opens a session, fills a cart, orders,
  pays and gets a part of the money back, with a concrete environment and the default fraud
  configuration.
\<close>

definition demo_env :: store_env where
  "demo_env = \<lparr>sv_canonical_json = (\<lambda>e. uuid_str (ev_event_id e)), sv_sha256 = id, sv_uuid5 = (\<lambda>n s. n),
     sv_inet_text = (\<lambda>a. a @ ''/32'')\<rparr>"

definition demo_uow :: uow_config where
  "demo_uow = \<lparr>uc_fraud = default_fraud_config, uc_rules = all_rules default_fraud_config,
     uc_persist_raw_event_json = True\<rparr>"

definition quiet_uow :: uow_config where
  "quiet_uow = demo_uow\<lparr>uc_fraud := default_fraud_config\<lparr>fraud_engine_enabled := False\<rparr>\<rparr>"

definition demo_envelope :: "uuid \<Rightarrow> payload \<Rightarrow> envelope" where
  "demo_envelope i p =
     \<lparr>ev_event_id = i, ev_event_type = payload_type p, ev_event_version = 1, ev_event_time = 0,
      ev_produced_at = 0, ev_source = ''gen'', ev_correlation_id = 9, ev_payload = p\<rparr>"

definition demo_registration :: envelope where
  "demo_registration = demo_envelope 1 (UserRegistered
     \<lparr>ur_customer_id = 7, ur_email_hash = ''h'', ur_country_code = ''TR'', ur_persona = NORMAL,
      ur_registered_at = 0\<rparr>)"

definition demo_session :: envelope where
  "demo_session = demo_envelope 2 (SessionStarted
     \<lparr>ss_session_id = 20, ss_customer_id = 7, ss_device_id = 5, ss_device_type = DESKTOP,
      ss_ip_address = ''10.0.0.1'', ss_country_code = ''TR'', ss_channel = WEB, ss_started_at = 0\<rparr>)"

definition demo_cart :: envelope where
  "demo_cart = demo_envelope 3 (AddedToCart
     \<lparr>ac_session_id = 20, ac_customer_id = 7, ac_cart_id = 30, ac_product_id = 31, ac_quantity = 2,
      ac_unit_price = 50, ac_currency = EUR\<rparr>)"

definition demo_order :: envelope where
  "demo_order = demo_envelope 4 (OrderCreated
     \<lparr>oc_order_id = 40, oc_customer_id = 7, oc_session_id = 20, oc_cart_id = 30, oc_item_count = 2,
      oc_subtotal = 100, oc_discount_amount = 0, oc_total_amount = 100, oc_currency = EUR,
      oc_shipping_country_code = ''TR'', oc_billing_country_code = ''TR'', oc_created_at = 0\<rparr>)"

definition demo_payment :: envelope where
  "demo_payment = demo_envelope 5 (PaymentCompleted
     \<lparr>pc_payment_id = 50, pc_order_id = 40, pc_customer_id = 7, pc_amount = 100, pc_currency = EUR,
      pc_payment_method = CREDIT_CARD, pc_device_id = 5, pc_ip_address = ''10.0.0.1'',
      pc_country_code = ''TR'', pc_completed_at = 0\<rparr>)"

definition demo_refund :: envelope where
  "demo_refund = demo_envelope 6 (RefundRequested
     \<lparr>rr_refund_id = 60, rr_payment_id = 50, rr_order_id = 40, rr_customer_id = 7, rr_amount = 30,
      rr_currency = EUR, rr_reason = ''late'', rr_requested_at = 0\<rparr>)"

definition demo_journey :: "envelope list" where
  "demo_journey = [demo_registration, demo_session, demo_cart, demo_order, demo_payment, demo_refund]"

lemmas demo_events = demo_registration_def demo_session_def demo_cart_def demo_order_def
  demo_payment_def demo_refund_def demo_envelope_def

lemma demo_journey_wf: "\<forall>e \<in> set demo_journey. event_wf e"
  by (simp add: demo_journey_def demo_events event_wf_def validate_contract_consistency_def
      validate_totals_def non_empty_string_def country_code_def MAX_PRODUCER_CLOCK_SKEW_def)

lemma demo_registration_wf: "event_wf demo_registration"
  using demo_journey_wf by (simp add: demo_journey_def)

text \<open>The records of the journey, at consecutive offsets of one partition.\<close>

definition demo_message :: "int \<Rightarrow> consumed_message" where
  "demo_message i =
     \<lparr>cm_topic = ''t'', cm_partition = 0, cm_offset = i, cm_timestamp = None, cm_key = None,
      cm_value = None, cm_headers = []\<rparr>"

definition demo_processing :: "int \<Rightarrow> processing_context" where
  "demo_processing i =
     \<lparr>cn_topic = ''t'', cn_partition = 0, cn_offset = i, cn_consumer_group = ''g'',
      cn_processor_instance_id = ''p'', cn_attempt = 1\<rparr>"

end
