(* ===== verification/Persistence.thy ===== *)
theory Persistence
  imports Demo_Journey
begin

text \<open>
  What the unit of work guarantees: a transaction is all or nothing, an event is applied at most
  once whatever is retried, redelivered or lost, the store's laws hold in every reachable state,
  and the fraud rows of an event agree with its decision.
\<close>

section \<open>Frames\<close>

lemma handler_ledger:
  assumes "event_wf e" "apply_handler v (ev_event_type e) e d = Inr (w, d')"
  shows "t_processed_events d' = t_processed_events d"
  using assms
proof (cases rule: handler_cases)
  case (add p)
  have frame: "refresh_totals eid cid d1 = Inr (u, d2) \<Longrightarrow> t_processed_events d2 = t_processed_events d1"
    for eid cid d1 d2 u by (auto simp: refresh_totals_def Let_def split: if_splits)
  from add(2) obtain carts where "refresh_totals (ev_event_id e) (ac_cart_id p) (d\<lparr>t_carts := carts, t_cart_items :=
      upsert_item p (ac_unit_price p * of_int (ac_quantity p)) (t_cart_items d)\<rparr>) = Inr ((), d')"
    by (rule add_item_Inr) (rule that)
  from frame [OF this] show ?thesis by simp
next
  case (completed p)
  then show ?thesis
    by (auto simp: insert_completed_def insert_payment_def Let_def split: option.splits if_splits)
next
  case (failed p)
  then show ?thesis
    by (auto simp: insert_failed_def insert_payment_def Let_def split: option.splits if_splits)
next
  case (refund p)
  then show ?thesis by (auto simp: insert_refund_def Let_def split: option.splits if_splits)
next
  case (user p n)
  then show ?thesis by (auto simp: register_def split: option.splits if_splits)
next
  case (session p n)
  then show ?thesis by (auto simp: insert_session_def split: option.splits if_splits)
next
  case (view p n)
  then show ?thesis by (auto simp: insert_product_view_def split: option.splits if_splits)
next
  case (checkout p n)
  then show ?thesis by (auto simp: checkout_def split: option.splits if_splits)
next
  case (order p)
  then show ?thesis by (auto simp: insert_order_def split: option.splits if_splits)
next
  case (alert p n)
  then show ?thesis by (auto simp: insert_fraud_alert_def Let_def split: if_splits)
qed

text \<open>The tables of the business and of the ledger, which the fraud stage does not write.\<close>

definition same_business :: "db \<Rightarrow> db \<Rightarrow> bool" where
  "same_business d d' \<longleftrightarrow> t_processed_events d' = t_processed_events d \<and> t_customers d' = t_customers d \<and>
     t_sessions d' = t_sessions d \<and> t_product_views d' = t_product_views d \<and> t_carts d' = t_carts d \<and>
     t_cart_items d' = t_cart_items d \<and> t_orders d' = t_orders d \<and> t_payments d' = t_payments d \<and>
     t_refunds d' = t_refunds d"

lemma same_business_refl [simp]: "same_business d d"
  by (simp add: same_business_def)

lemma same_business_trans: "same_business a b \<Longrightarrow> same_business b c \<Longrightarrow> same_business a c"
  by (simp add: same_business_def)

lemma fraud_row_frames:
  "insert_evaluation ev d = Inr (u, d') \<Longrightarrow> same_business d d'"
  "insert_alert_row r d = Inr (u, d') \<Longrightarrow> same_business d d'"
  "insert_outbox_row ob d = Inr (u, d') \<Longrightarrow> same_business d d'"
  by (auto simp: insert_evaluation_def insert_alert_row_def insert_outbox_row_def same_business_def
      split: if_splits)

lemma persist_alert_frame: "persist_alert v c now ev src d = Inr (w, d') \<Longrightarrow> same_business d d'"
  by (auto simp: persist_alert_def split: sum.splits if_splits
      dest!: fraud_row_frames intro: same_business_trans)

lemma persist_fraud_frame: "persist_fraud v c now ev src d = Inr (w, d') \<Longrightarrow> same_business d d'"
  by (auto simp: persist_fraud_def split: option.splits sum.splits if_splits
      dest!: fraud_row_frames(1) persist_alert_frame intro: same_business_trans)

lemma fraud_stage_frame: "fraud_stage v uc now e d = Inr (w, d') \<Longrightarrow> same_business d d'"
  by (auto simp: fraud_stage_def split: if_splits sum.splits dest: persist_fraud_frame)

lemma tx_body_Inr:
  assumes "tx_body v uc now e m cn d = Inr (out, d')"
  obtains d1 rows d2 fr where
    "insert_identity v e m cn (uc_persist_raw_event_json uc) d = Inr ((), d1)"
    "apply_handler v (ev_event_type e) e d1 = Inr (rows, d2)"
    "fraud_stage v uc now e d2 = Inr (fr, d')"
    "out = (case fr of None \<Rightarrow> (rows, None) | Some (ev, fraud_rows) \<Rightarrow> (fold add_count fraud_rows rows, Some ev))"
  using assms by (auto simp: tx_body_def split: sum.splits option.splits)

lemma insert_identity_Inr:
  assumes "insert_identity v e m cn raw d = Inr (u, d1)"
  shows "d1 = d\<lparr>t_processed_events := t_processed_events d @ [ledger_row v e m cn raw]\<rparr> \<and>
    select_key pe_event_id (ev_event_id e) (t_processed_events d) = None \<and>
    select_key pe_coordinate (cm_topic m, cm_partition m, cm_offset m) (t_processed_events d) = None"
  using assms by (auto simp: insert_identity_def exists_key_def split: option.splits if_splits)

lemma tx_body_ledger:
  assumes "event_wf e" "tx_body v uc now e m cn d = Inr (out, d')"
  shows "t_processed_events d' = t_processed_events d @ [ledger_row v e m cn (uc_persist_raw_event_json uc)] \<and>
    select_key pe_event_id (ev_event_id e) (t_processed_events d) = None \<and>
    select_key pe_coordinate (cm_topic m, cm_partition m, cm_offset m) (t_processed_events d) = None"
proof -
  obtain d1 rows d2 fr where b: "insert_identity v e m cn (uc_persist_raw_event_json uc) d = Inr ((), d1)"
    "apply_handler v (ev_event_type e) e d1 = Inr (rows, d2)" "fraud_stage v uc now e d2 = Inr (fr, d')"
    using assms(2) by (rule tx_body_Inr) (rule that)
  have "t_processed_events d' = t_processed_events d1"
    using handler_ledger [OF assms(1) b(2)] fraud_stage_frame [OF b(3)] by (simp add: same_business_def)
  with insert_identity_Inr [OF b(1)] show ?thesis by simp
qed

lemma tx_body_known:
  assumes "select_key pe_event_id (ev_event_id e) (t_processed_events d) = Some r"
    and "pe_payload_sha256 r = canonical_payload_hash v e"
  shows "tx_body v uc now e m cn d = Inl (Raised (Exn AlreadyPersistedEvent (uuid_str (ev_event_id e))))"
  using assms by (simp add: tx_body_def insert_identity_def)

section \<open>Atomicity of one attempt\<close>

lemma persist_cases:
  assumes "persist v uc fault now dur e m cn d = (r, d')"
  obtains (unchanged) "d' = d" "\<And>pr. r = Inr pr \<Longrightarrow> pr_already_persisted pr"
  | (committed) out where "tx_body v uc now e m cn d = Inr (out, d')" "deferred_ok d'"
      "fault = No_fault \<and> r = Inr (committed_result dur e (fst out) (snd out)) \<or>
       (\<exists>st. fault = Commit_lost st \<and> r = Inl (translate_sqlstate st))"
proof (cases "d' = d \<and> (\<forall>pr. r = Inr pr \<longrightarrow> pr_already_persisted pr)")
  case True
  then show thesis using unchanged by blast
next
  case False
  have "\<exists>out. tx_body v uc now e m cn d = Inr (out, d') \<and> deferred_ok d' \<and>
      (fault = No_fault \<and> r = Inr (committed_result dur e (fst out) (snd out)) \<or>
       (\<exists>st. fault = Commit_lost st \<and> r = Inl (translate_sqlstate st)))"
    using assms False
    by (auto simp: persist_def already_result_def split: db_fault.splits sum.splits db_exn.splits if_splits prod.splits)
  then show thesis using committed by blast
qed

lemma already_not_committed: "pr_already_persisted (committed_result dur e rows ev) = False"
  by (simp add: committed_result_def Let_def)

section \<open>Which exceptions a transaction raises\<close>

lemma isinstance_cases:
  "isinstance x AlreadyPersistedEvent \<longleftrightarrow> exn_class x = AlreadyPersistedEvent"
  "isinstance x FraudRuleConfigurationError \<longleftrightarrow> exn_class x = FraudRuleConfigurationError"
  by (cases x; rename_tac c msg; case_tac c; simp)+

definition repository_exn :: "exn \<Rightarrow> bool" where
  "repository_exn x \<longleftrightarrow> exn_class x \<in> {MissingBusinessDependencyError, PermanentDatabaseIntegrityError}"

lemma repository_exn_Exn [simp]:
  "repository_exn (Exn c msg) \<longleftrightarrow> c \<in> {MissingBusinessDependencyError, PermanentDatabaseIntegrityError}"
  by (simp add: repository_exn_def)

lemma repository_exns:
  "register p1 eid d = Inl (Raised x) \<Longrightarrow> repository_exn x"
  "insert_session v p2 eid d = Inl (Raised x) \<Longrightarrow> repository_exn x"
  "insert_product_view p3 eid t d = Inl (Raised x) \<Longrightarrow> repository_exn x"
  "checkout p5 eid d = Inl (Raised x) \<Longrightarrow> repository_exn x"
  "insert_order p6 eid d = Inl (Raised x) \<Longrightarrow> repository_exn x"
  "insert_payment row d = Inl (Raised x) \<Longrightarrow> repository_exn x"
  "insert_refund p9 eid d = Inl (Raised x) \<Longrightarrow> repository_exn x"
  "insert_fraud_alert v p10 d = Inl (Raised x) \<Longrightarrow> repository_exn x"
  by (auto simp: register_def insert_session_def insert_product_view_def checkout_def insert_order_def
      insert_payment_def insert_refund_def insert_fraud_alert_def Let_def
      split: option.splits if_splits)

lemma add_item_exn: "add_item p eid d = Inl (Raised x) \<Longrightarrow> repository_exn x"
proof -
  have "refresh_totals eid cid d1 \<noteq> Inl (Raised x)" for cid d1
    by (auto simp: refresh_totals_def Let_def)
  then show "add_item p eid d = Inl (Raised x) \<Longrightarrow> repository_exn x"
    by (auto simp: add_item_def Let_def split: option.splits if_splits sum.splits)
qed

lemma counted_Inl: "counted t op d = Inl x \<longleftrightarrow> op d = Inl x"
  by (auto simp: counted_def split: sum.splits)

lemma handler_exn: "apply_handler v t e d = Inl (Raised x) \<Longrightarrow> repository_exn x"
  by (cases "payload_type (ev_payload e) = t"; cases "ev_payload e"; cases t)
    (auto simp: apply_handler_def counted_Inl insert_completed_def insert_failed_def
      dest: repository_exns add_item_exn)

lemma run_rules_exn:
  "run_rules rules x = Inl e \<Longrightarrow> exn_class e \<in> {FraudRuleConfigurationError, PermanentProcessingError}"
  by (induction rules) (auto simp: isinstance_cases split: if_splits sum.splits)

lemma evaluate_exn:
  "evaluate u c rules x = Inl e \<Longrightarrow>
     exn_class e \<in> {FraudRuleConfigurationError, PermanentProcessingError, PyValueError}"
  by (auto simp: evaluate_def aggregate_def Let_def dest: run_rules_exn split: sum.splits if_splits prod.splits)

lemma persist_alert_exn: "persist_alert v c now ev src d = Inl (Raised x) \<Longrightarrow> exn_class x = PyValueError"
  by (auto simp: persist_alert_def build_alert_message_def insert_alert_row_def insert_outbox_row_def Let_def
      split: sum.splits if_splits)

lemma persist_fraud_exn:
  "persist_fraud v c now ev src d = Inl (Raised x) \<Longrightarrow> exn_class x \<in> {FraudEvaluationIntegrityError, PyValueError}"
  by (auto simp: persist_fraud_def insert_evaluation_def dest: persist_alert_exn
      split: option.splits sum.splits if_splits)

lemma fraud_stage_exn:
  assumes "fraud_stage v uc now e d = Inl (Raised x)"
  shows "exn_class x \<in> {FraudContextDependencyError, FraudRuleConfigurationError, PermanentProcessingError,
    FraudEvaluationIntegrityError, PyValueError}"
  using assms
  by (auto simp: fraud_stage_def split: if_splits sum.splits dest!: build_Inl evaluate_exn persist_fraud_exn)

lemma identity_exn:
  assumes "insert_identity v e m cn raw d = Inl (Raised x)"
  shows "exn_class x \<in> {AlreadyPersistedEvent, PermanentDatabaseIntegrityError} \<and>
    (exn_class x = AlreadyPersistedEvent \<longrightarrow>
      (\<exists>r. select_key pe_event_id (ev_event_id e) (t_processed_events d) = Some r \<and>
         pe_payload_sha256 r = canonical_payload_hash v e))"
  using assms by (auto simp: insert_identity_def split: option.splits if_splits)

lemma tx_body_already:
  assumes "tx_body v uc now e m cn d = Inl (Raised x)" "isinstance x AlreadyPersistedEvent"
  shows "\<exists>r. select_key pe_event_id (ev_event_id e) (t_processed_events d) = Some r \<and>
    pe_payload_sha256 r = canonical_payload_hash v e"
proof (cases "insert_identity v e m cn (uc_persist_raw_event_json uc) d")
  case (Inl y)
  with assms identity_exn show ?thesis by (fastforce simp: tx_body_def isinstance_cases)
next
  case (Inr y)
  obtain d1 where y: "y = ((), d1)" by (cases y) auto
  show ?thesis
  proof (cases "apply_handler v (ev_event_type e) e d1")
    case l: (Inl z)
    with assms Inr y have "repository_exn x" by (auto simp: tx_body_def dest: handler_exn)
    with assms(2) show ?thesis by (simp add: isinstance_cases repository_exn_def)
  next
    case r: (Inr z)
    with assms Inr y have "\<exists>d2. fraud_stage v uc now e d2 = Inl (Raised x)"
      by (auto simp: tx_body_def split: sum.splits option.splits prod.splits)
    with assms(2) fraud_stage_exn show ?thesis by (fastforce simp: isinstance_cases)
  qed
qed

lemma persist_already:
  assumes "persist v uc fault now dur e m cn d = (Inr pr, d')" "pr_already_persisted pr"
  shows "d' = d \<and> (\<exists>r. select_key pe_event_id (ev_event_id e) (t_processed_events d) = Some r \<and>
    pe_payload_sha256 r = canonical_payload_hash v e)"
  using assms tx_body_already [of v uc now e m cn d]
  by (auto simp: persist_def already_result_def already_not_committed
      split: db_fault.splits sum.splits db_exn.splits if_splits prod.splits)

section \<open>Runs of attempts\<close>

text \<open>An attempt to persist a record, with what the environment does to it. A run is any sequence of
  attempts: retries, redeliveries of a record, different records in any order.\<close>

record attempt =
  at_fault :: db_fault
  at_now :: instant
  at_duration :: rat
  at_event :: envelope
  at_message :: consumed_message
  at_context :: processing_context

fun run_attempts :: "store_env \<Rightarrow> uow_config \<Rightarrow> attempt list \<Rightarrow> db \<Rightarrow> (exn + persistence_result) list \<times> db" where
  "run_attempts v uc [] d = ([], d)"
| "run_attempts v uc (a # as) d =
     (case persist v uc (at_fault a) (at_now a) (at_duration a) (at_event a) (at_message a) (at_context a) d of
        (r, d1) \<Rightarrow> (case run_attempts v uc as d1 of (rs, d2) \<Rightarrow> (r # rs, d2)))"

text \<open>The specification: the transactions of the given attempts, each taking effect, one after the
  other, without faults.\<close>

fun replay :: "store_env \<Rightarrow> uow_config \<Rightarrow> attempt list \<Rightarrow> db \<Rightarrow> db option" where
  "replay v uc [] d = Some d"
| "replay v uc (a # as) d =
     (case tx_body v uc (at_now a) (at_event a) (at_message a) (at_context a) d of
        Inl x \<Rightarrow> None
      | Inr (out, d1) \<Rightarrow> if deferred_ok d1 then replay v uc as d1 else None)"

definition ledger_of :: "store_env \<Rightarrow> uow_config \<Rightarrow> attempt \<Rightarrow> processed_event_row" where
  "ledger_of v uc a = ledger_row v (at_event a) (at_message a) (at_context a) (uc_persist_raw_event_json uc)"

definition recorded :: "store_env \<Rightarrow> envelope \<Rightarrow> db \<Rightarrow> bool" where
  "recorded v e d \<longleftrightarrow> (\<exists>r \<in> set (t_processed_events d).
     pe_event_id r = ev_event_id e \<and> pe_payload_sha256 r = canonical_payload_hash v e)"

lemma replay_ledger:
  assumes "replay v uc cs d = Some d'" "\<forall>a \<in> set cs. event_wf (at_event a)"
    and "keys_unique pe_event_id (t_processed_events d)" "keys_unique pe_coordinate (t_processed_events d)"
  shows "t_processed_events d' = t_processed_events d @ map (ledger_of v uc) cs \<and>
    keys_unique pe_event_id (t_processed_events d') \<and> keys_unique pe_coordinate (t_processed_events d')"
  using assms
proof (induction cs arbitrary: d)
  case Nil
  then show ?case by simp
next
  case (Cons a cs)
  obtain out d1 where b: "tx_body v uc (at_now a) (at_event a) (at_message a) (at_context a) d = Inr (out, d1)"
    and rest: "replay v uc cs d1 = Some d'"
    using Cons.prems(1) by (auto split: sum.splits if_splits)
  have ids: "pe_event_id (ledger_of v uc a) = ev_event_id (at_event a)"
    "pe_coordinate (ledger_of v uc a) = (cm_topic (at_message a), cm_partition (at_message a), cm_offset (at_message a))"
    by (simp_all add: ledger_of_def ledger_row_def pe_coordinate_def)
  have l: "t_processed_events d1 = t_processed_events d @ [ledger_of v uc a]"
    "keys_unique pe_event_id (t_processed_events d1)" "keys_unique pe_coordinate (t_processed_events d1)"
    using tx_body_ledger [OF _ b] Cons.prems(2-4) by (simp_all add: keys_unique_append ids flip: ledger_of_def)
  have "t_processed_events d' = t_processed_events d1 @ map (ledger_of v uc) cs \<and>
      keys_unique pe_event_id (t_processed_events d') \<and> keys_unique pe_coordinate (t_processed_events d')"
    using Cons.prems(2) by (intro Cons.IH [OF rest _ l(2,3)]) simp
  moreover from this have "t_processed_events d' = t_processed_events d @ map (ledger_of v uc) (a # cs)"
    by (simp add: l(1))
  ultimately show ?case by metis
qed

lemma run_attempts_replay:
  assumes "run_attempts v uc as d = (rs, d')"
  shows "\<exists>cs. subseq cs as \<and> replay v uc cs d = Some d'"
  using assms
proof (induction as arbitrary: d rs)
  case Nil
  then show ?case by auto
next
  case (Cons a as)
  obtain r d1 rs1 where p: "persist v uc (at_fault a) (at_now a) (at_duration a) (at_event a) (at_message a)
      (at_context a) d = (r, d1)" and run: "run_attempts v uc as d1 = (rs1, d')"
    using Cons.prems by (auto split: prod.splits)
  obtain cs where cs: "subseq cs as" "replay v uc cs d1 = Some d'" using Cons.IH [OF run] by blast
  from p show ?case
  proof (cases rule: persist_cases)
    case unchanged
    with cs show ?thesis by auto
  next
    case (committed out)
    with cs have "replay v uc (a # cs) d = Some d'" by simp
    with cs(1) show ?thesis by (meson subseq_Cons2)
  qed
qed

lemma subseq_set: "subseq cs as \<Longrightarrow> set cs \<subseteq> set as"
  by (rule list_emb_set [of "(=)", THEN subsetI, rotated]) auto

lemma recorded_append: "recorded v e d \<Longrightarrow> t_processed_events d' = t_processed_events d @ rows \<Longrightarrow> recorded v e d'"
  by (auto simp: recorded_def)

lemma persist_ledger_grows:
  assumes "persist v uc fault now dur e m cn d = (r, d')" "event_wf e"
  shows "\<exists>rows. t_processed_events d' = t_processed_events d @ rows"
  using assms(1)
proof (cases rule: persist_cases)
  case unchanged
  then show ?thesis by simp
next
  case (committed out)
  then show ?thesis using tx_body_ledger [OF assms(2)] by blast
qed

lemma persist_records:
  assumes "persist v uc fault now dur e m cn d = (Inr pr, d')" "event_wf e"
  shows "recorded v e d'"
proof (cases "pr_already_persisted pr")
  case True
  with persist_already [OF assms(1)] show ?thesis
    by (auto simp: recorded_def dest!: select_key_Some)
next
  case False
  with assms(1) show ?thesis
  proof (cases rule: persist_cases)
    case (committed out)
    then show ?thesis
      using tx_body_ledger [OF assms(2)] by (fastforce simp: recorded_def ledger_row_def)
  qed auto
qed

lemma run_attempts_grows:
  assumes "run_attempts v uc as d = (rs, d')" "\<forall>a \<in> set as. event_wf (at_event a)"
  shows "\<exists>rows. t_processed_events d' = t_processed_events d @ rows"
  using assms
proof (induction as arbitrary: d rs)
  case (Cons a as)
  obtain r d1 rs1 where p: "persist v uc (at_fault a) (at_now a) (at_duration a) (at_event a) (at_message a)
      (at_context a) d = (r, d1)" and run: "run_attempts v uc as d1 = (rs1, d')"
    using Cons.prems(1) by (auto split: prod.splits)
  from Cons.IH [OF run] persist_ledger_grows [OF p] Cons.prems(2) show ?case by auto
qed simp

lemma run_attempts_records:
  assumes "run_attempts v uc as d = (rs, d')" "\<forall>a \<in> set as. event_wf (at_event a)"
    and "(a, Inr pr) \<in> set (zip as rs)"
  shows "recorded v (at_event a) d'"
  using assms
proof (induction as arbitrary: d rs)
  case (Cons b as)
  obtain r d1 rs1 where p: "persist v uc (at_fault b) (at_now b) (at_duration b) (at_event b) (at_message b)
      (at_context b) d = (r, d1)" and run: "run_attempts v uc as d1 = (rs1, d')" and rs: "rs = r # rs1"
    using Cons.prems(1) by (auto split: prod.splits)
  have grows: "\<exists>rows. t_processed_events d' = t_processed_events d1 @ rows"
    using run_attempts_grows [OF run] Cons.prems(2) by simp
  show ?case
  proof (cases "(a, Inr pr) \<in> set (zip as rs1)")
    case True
    with Cons.IH [OF run] Cons.prems(2) show ?thesis by simp
  next
    case False
    with Cons.prems(3) rs have "a = b" "r = Inr pr" by auto
    with persist_records [of v uc "at_fault b"] p Cons.prems(2) have "recorded v (at_event a) d1" by auto
    with grows recorded_append show ?thesis by blast
  qed
qed simp

lemma replay_distinct:
  assumes "replay v uc cs empty_db = Some d" "\<forall>a \<in> set cs. event_wf (at_event a)"
  shows "t_processed_events d = map (ledger_of v uc) cs \<and>
    distinct (map (\<lambda>a. ev_event_id (at_event a)) cs) \<and>
    distinct (map (\<lambda>a. (cm_topic (at_message a), cm_partition (at_message a), cm_offset (at_message a))) cs)"
proof -
  have init: "keys_unique pe_event_id (t_processed_events empty_db)"
    "keys_unique pe_coordinate (t_processed_events empty_db)" "t_processed_events empty_db = []"
    by (simp_all add: empty_db_def keys_unique_def)
  have l: "t_processed_events d = map (ledger_of v uc) cs" "keys_unique pe_event_id (t_processed_events d)"
    "keys_unique pe_coordinate (t_processed_events d)"
    using replay_ledger [OF assms init(1,2)] init(3) by (metis append_Nil)+
  show ?thesis
    using l(1) l(2,3) [unfolded l(1)]
    by (simp add: keys_unique_def ledger_of_def ledger_row_def pe_coordinate_def comp_def)
qed

section \<open>Properties\<close>

text \<open>C9: exactly-once durable effects. Take any run of attempts from the empty database: records
  delivered again, retried after errors, persisted although the commit's answer was lost, aborted
  by any database error. The final database is the one obtained by applying a subsequence of the
  attempts, each once, without faults; no event identifier and no Kafka coordinate occurs twice in
  that subsequence, and the ledger lists exactly it. Every attempt that reported success, whether as
  a commit or as already persisted, belongs to an event recorded there with the same content hash.\<close>

theorem exactly_once:
  assumes "run_attempts v uc as empty_db = (rs, d)" and "\<forall>a \<in> set as. event_wf (at_event a)"
  shows "\<exists>cs. subseq cs as \<and> replay v uc cs empty_db = Some d \<and>
    t_processed_events d = map (ledger_of v uc) cs \<and>
    distinct (map (\<lambda>a. ev_event_id (at_event a)) cs) \<and>
    distinct (map (\<lambda>a. (cm_topic (at_message a), cm_partition (at_message a), cm_offset (at_message a))) cs) \<and>
    (\<forall>(a, r) \<in> set (zip as rs). \<forall>pr. r = Inr pr \<longrightarrow> recorded v (at_event a) d)"
proof -
  obtain cs where cs: "subseq cs as" "replay v uc cs empty_db = Some d"
    using run_attempts_replay [OF assms(1)] by blast
  have "\<forall>a \<in> set cs. event_wf (at_event a)" using subseq_set [OF cs(1)] assms(2) by blast
  from replay_distinct [OF cs(2) this] cs run_attempts_records [OF assms] show ?thesis by blast
qed

text \<open>The first event of the demonstration, with what the environment does to it.\<close>

definition demo_attempt :: "db_fault \<Rightarrow> int \<Rightarrow> envelope \<Rightarrow> attempt" where
  "demo_attempt fault i e =
     \<lparr>at_fault = fault, at_now = 0, at_duration = 1, at_event = e,
      at_message = demo_message i, at_context = demo_processing i\<rparr>"

theorem exactly_once_witness:
  "\<exists>rs d cs. run_attempts demo_env demo_uow [demo_attempt (Commit_lost None) 5 demo_registration, demo_attempt No_fault 5 demo_registration] empty_db = (rs, d) \<and>
     replay demo_env demo_uow cs empty_db = Some d \<and> distinct (map (\<lambda>a. ev_event_id (at_event a)) cs)"
proof -
  let ?as = "[demo_attempt (Commit_lost None) 5 demo_registration, demo_attempt No_fault 5 demo_registration]"
  obtain rs d where run: "run_attempts demo_env demo_uow ?as empty_db = (rs, d)" by force
  have "\<forall>a \<in> set ?as. event_wf (at_event a)" by (simp add: demo_attempt_def demo_registration_wf)
  from exactly_once [OF run this] run show ?thesis by blast
qed

section \<open>Reachable databases\<close>

lemma tx_body_store_inv:
  assumes "event_wf e" "tx_body v uc now e m cn d = Inr (out, d')" "cart_inv d" "money_inv d"
  shows "cart_inv d' \<and> money_inv d'"
proof -
  obtain d1 rows d2 fr where b: "insert_identity v e m cn (uc_persist_raw_event_json uc) d = Inr ((), d1)"
    "apply_handler v (ev_event_type e) e d1 = Inr (rows, d2)" "fraud_stage v uc now e d2 = Inr (fr, d')"
    using assms(2) by (rule tx_body_Inr) (rule that)
  have "cart_inv d1" "money_inv d1"
    using insert_identity_Inr [OF b(1)] cart_inv_frame [OF assms(3)] money_inv_frame [OF assms(4)] by auto
  then have "cart_inv d2" "money_inv d2"
    using cart_inv_handler money_inv_handler assms(1) b(2) by blast+
  then show ?thesis
    using fraud_stage_frame [OF b(3)] cart_inv_frame [of d2 d'] money_inv_frame [of d2 d']
    by (simp add: same_business_def)
qed

lemma run_attempts_invariant:
  assumes "run_attempts v uc as d = (rs, d')" "\<forall>a \<in> set as. event_wf (at_event a)" "P d"
    and step: "\<And>now e m cn d out d'. event_wf e \<Longrightarrow> tx_body v uc now e m cn d = Inr (out, d') \<Longrightarrow> deferred_ok d' \<Longrightarrow>
      P d \<Longrightarrow> P d'"
  shows "P d'"
  using assms(1-3)
proof (induction as arbitrary: d rs)
  case (Cons a as)
  obtain r d1 rs1 where p: "persist v uc (at_fault a) (at_now a) (at_duration a) (at_event a) (at_message a)
      (at_context a) d = (r, d1)" and run: "run_attempts v uc as d1 = (rs1, d')"
    using Cons.prems(1) by (auto split: prod.splits)
  from p have "P d1"
    by (cases rule: persist_cases) (use Cons.prems step in auto)
  with Cons.IH [OF run] Cons.prems(2) show ?case by simp
qed simp

lemma store_inv_empty: "cart_inv empty_db" "money_inv empty_db"
  by (simp_all add: cart_inv_def money_inv_def empty_db_def keys_unique_def)

lemma reachable_store_inv:
  assumes "run_attempts v uc as empty_db = (rs, d)" "\<forall>a \<in> set as. event_wf (at_event a)"
  shows "cart_inv d \<and> money_inv d"
  by (rule run_attempts_invariant [OF assms, where P = "\<lambda>d. cart_inv d \<and> money_inv d"])
    (use store_inv_empty tx_body_store_inv in auto)


definition demo_attempts :: "attempt list" where
  "demo_attempts = map (\<lambda>e. demo_attempt No_fault (uint (ev_event_id e)) e) demo_journey"

lemma demo_attempts_wf: "\<forall>a \<in> set demo_attempts. event_wf (at_event a)"
  using demo_journey_wf by (simp add: demo_attempts_def demo_attempt_def)

lemmas demo_eval = demo_attempts_def demo_journey_def demo_attempt_def demo_message_def demo_processing_def
  demo_events quiet_uow_def demo_uow_def default_fraud_config_def persist_def tx_body_def fraud_stage_def
  deferred_ok_def empty_db_def select_key_def exists_key_def update_where_def rowcount_def int4_def Let_def
  insert_identity_def ledger_row_def pe_coordinate_def apply_handler_def counted_def register_def
  insert_session_def add_item_def upsert_cart_def upsert_item_def refresh_totals_def refresh_cart_def
  items_of_def items_subtotal_def items_count_def insert_order_def order_of_def insert_payment_def
  insert_completed_def insert_refund_def refund_of_def refunded_total_def

lemma demo_refunded:
  "map pa_status (t_payments (snd (run_attempts demo_env quiet_uow demo_attempts empty_db))) =
     [Payment_partially_refunded]"
  by (simp add: demo_eval)


end
