(* ===== verification/Fraud_Stage.thy ===== *)
theory Fraud_Stage
  imports Persistence
begin

text \<open>
  The fraud rows of a transaction, for a unit of work whose fraud configuration is valid and whose
  rules are the registry of that configuration, which is how \<open>UnitOfWorkFactory.__init__\<close> builds
  it: the stage never raises a configuration error, and it leaves an evaluation, and an alert with
  its outbox message when the decision is not to approve.
\<close>

definition uow_wf :: "uow_config \<Rightarrow> bool" where
  "uow_wf uc \<longleftrightarrow> fraud_config_valid (uc_fraud uc) \<and> build_rule_registry (uc_fraud uc) = Inr (uc_rules uc)"

lemma demo_uow_wf: "uow_wf demo_uow"
  by (simp add: uow_wf_def demo_uow_def default_config_valid default_registry)

section \<open>Evaluations and alerts\<close>

definition evaluation_ok :: "fraud_context \<Rightarrow> fraud_evaluation \<Rightarrow> bool" where
  "evaluation_ok x ev \<longleftrightarrow> 0 \<le> fv_total_score ev \<and> fv_total_score ev \<le> 100 \<and>
     list_all non_empty_string (reason_codes ev) \<and> fv_source_event_id ev = fc_source_event_id x \<and>
     fv_customer_id ev = fc_customer_id x"

lemma evaluate_ok:
  assumes "uow_wf uc"
  shows "\<exists>ev. evaluate u (uc_fraud uc) (uc_rules uc) x = Inr ev \<and> evaluation_ok x ev"
proof -
  have wf: "\<forall>r \<in> set (uc_rules uc). rule_wf r"
    using assms by (intro registry_rules_wf(1) [of "uc_fraud uc"]) (simp_all add: uow_wf_def)
  obtain ev where ev: "evaluate u (uc_fraud uc) (uc_rules uc) x = Inr ev"
    "\<forall>r \<in> set (fv_rule_results ev). fits 100 r \<and> rr_reason_code r \<noteq> []"
    "fv_total_score ev = min 100 (sum_list (map rr_score (matched_rules ev)))"
    "fv_source_event_id ev = fc_source_event_id x" "fv_customer_id ev = fc_customer_id x"
    using evaluate_total [OF wf] by blast
  moreover have "0 \<le> sum_list (map rr_score (matched_rules ev))"
    unfolding matched_rules_def using ev(2) by (intro sum_scores_nonneg) (simp add: fits_def)
  moreover have "list_all non_empty_string (reason_codes ev)"
    using ev(2) by (auto simp: list_all_iff reason_codes_def matched_rules_def non_empty_string_def Suc_le_eq)
  ultimately show ?thesis by (auto simp: evaluation_ok_def)
qed

lemma alert_event_wf: "evaluation_ok x ev \<Longrightarrow> event_wf (alert_event v ev src)"
  by (auto simp: evaluation_ok_def alert_event_def event_wf_def validate_contract_consistency_def Let_def
      non_empty_string_def CURRENT_EVENT_VERSION_def MAX_PRODUCER_CLOCK_SKEW_def)

lemma build_alert_total:
  assumes "evaluation_ok x ev"
  shows "\<exists>am. build_alert_message v ev src = Inr am \<and> am_event am = alert_event v ev src"
  using alert_event_wf [OF assms, of v src] by (simp add: build_alert_message_def Let_def)

lemma persist_alert_raises_nothing:
  "evaluation_ok x ev \<Longrightarrow> persist_alert v c now ev src d \<noteq> Inl (Raised y)"
  using build_alert_total [of x ev v src]
  by (auto simp: persist_alert_def insert_alert_row_def insert_outbox_row_def split: if_splits)

text \<open>With a well-formed unit of work no error of the engine's configuration and no contract error of
  the alert can occur.\<close>

lemma fraud_stage_exn_wf:
  assumes "uow_wf uc" "fraud_stage v uc now e d = Inl (Raised x)"
  shows "exn_class x \<in> {FraudContextDependencyError, FraudEvaluationIntegrityError}"
proof (cases "build (uc_fraud uc) e d")
  case (Inl y)
  with assms(2) show ?thesis by (auto simp: fraud_stage_def dest!: build_Inl split: if_splits)
next
  case (Inr c)
  obtain ev where ev: "evaluate (sv_uuid5 v) (uc_fraud uc) (uc_rules uc) c = Inr ev" "evaluation_ok c ev"
    using evaluate_ok [OF assms(1)] by blast
  with assms(2) Inr have "persist_fraud v (uc_fraud uc) now ev e d = Inl (Raised x)"
    by (auto simp: fraud_stage_def split: if_splits sum.splits)
  with persist_alert_raises_nothing [OF ev(2)] show ?thesis
    by (auto simp: persist_fraud_def insert_evaluation_def split: option.splits if_splits sum.splits)
qed

lemma tx_body_exn_wf:
  assumes "uow_wf uc" "tx_body v uc now e m cn d = Inl (Raised x)"
  shows "isinstance x RetryableProcessingError \<or> isinstance x PermanentProcessingError \<or>
    isinstance x AlreadyPersistedEvent"
proof -
  have known: "isinstance x RetryableProcessingError \<or> isinstance x PermanentProcessingError \<or>
      isinstance x AlreadyPersistedEvent"
    if "exn_class x \<in> {FraudContextDependencyError, FraudEvaluationIntegrityError, AlreadyPersistedEvent,
      MissingBusinessDependencyError, PermanentDatabaseIntegrityError}"
    using that by (cases x) auto
  show ?thesis
  proof (cases "insert_identity v e m cn (uc_persist_raw_event_json uc) d")
    case (Inl y)
    with assms(2) identity_exn have "exn_class x \<in> {AlreadyPersistedEvent, PermanentDatabaseIntegrityError}"
      by (auto simp: tx_body_def)
    with known show ?thesis by blast
  next
    case (Inr y)
    obtain d1 where y: "y = ((), d1)" by (cases y) auto
    show ?thesis
    proof (cases "apply_handler v (ev_event_type e) e d1")
      case l: (Inl z)
      with assms Inr y have "repository_exn x" by (auto simp: tx_body_def dest: handler_exn)
      with known show ?thesis by (auto simp: repository_exn_def)
    next
      case r: (Inr z)
      with assms Inr y have "\<exists>d2. fraud_stage v uc now e d2 = Inl (Raised x)"
        by (auto simp: tx_body_def split: sum.splits option.splits prod.splits)
      with fraud_stage_exn_wf [OF assms(1)] known show ?thesis by blast
    qed
  qed
qed

lemma translate_classes:
  "isinstance (translate_sqlstate st) RetryableProcessingError \<or>
   isinstance (translate_sqlstate st) PermanentProcessingError"
  by (auto simp: translate_sqlstate_def split: option.splits)

lemma persist_exn_wf:
  assumes "uow_wf uc" "persist v uc fault now dur e m cn d = (Inl x, d')"
  shows "isinstance x RetryableProcessingError \<or> isinstance x PermanentProcessingError"
  using assms(2) tx_body_exn_wf [OF assms(1), of v now e m cn d] translate_classes
  by (auto simp: persist_def split: db_fault.splits sum.splits db_exn.splits if_splits prod.splits)

section \<open>The rows of one transaction\<close>

text \<open>The fraud tables and the ones a transaction of an eligible event leaves alone.\<close>

lemma handler_fraud_tables:
  assumes "event_wf e" "apply_handler v (ev_event_type e) e d = Inr (w, d')"
    and "ev_event_type e \<noteq> FRAUD_ALERT_CREATED"
  shows "t_fraud_evaluations d' = t_fraud_evaluations d \<and> t_fraud_alerts d' = t_fraud_alerts d \<and>
    t_fraud_outbox d' = t_fraud_outbox d"
  using assms(1,2)
proof (cases rule: handler_cases)
  case (add p)
  have frame: "refresh_totals eid cid d1 = Inr (u, d2) \<Longrightarrow> t_fraud_evaluations d2 = t_fraud_evaluations d1 \<and>
      t_fraud_alerts d2 = t_fraud_alerts d1 \<and> t_fraud_outbox d2 = t_fraud_outbox d1"
    for eid cid d1 d2 u by (auto simp: refresh_totals_def Let_def split: if_splits)
  from add(2) obtain carts where "refresh_totals (ev_event_id e) (ac_cart_id p) (d\<lparr>t_carts := carts, t_cart_items :=
      upsert_item p (ac_unit_price p * of_int (ac_quantity p)) (t_cart_items d)\<rparr>) = Inr ((), d')"
    by (rule add_item_Inr) (rule that)
  from frame [OF this] show ?thesis by simp
next
  case (alert p n)
  with assms(1,3) show ?thesis by (simp add: event_wf_def validate_contract_consistency_def)
qed (auto simp: insert_completed_def insert_failed_def insert_payment_def insert_refund_def register_def
    insert_session_def insert_product_view_def checkout_def insert_order_def Let_def
    split: option.splits if_splits)

definition fraud_rows_of ::
  "store_env \<Rightarrow> fraud_config \<Rightarrow> instant \<Rightarrow> envelope \<Rightarrow> fraud_evaluation \<Rightarrow> db \<Rightarrow> db \<Rightarrow> bool" where
  "fraud_rows_of v c now e ev d d' \<longleftrightarrow>
     t_fraud_evaluations d' = t_fraud_evaluations d @ [evaluation_row ev] \<and>
     (if fv_decision ev = APPROVE
      then t_fraud_alerts d' = t_fraud_alerts d \<and> t_fraud_outbox d' = t_fraud_outbox d
      else \<exists>am. build_alert_message v ev e = Inr am \<and> event_wf (am_event am) \<and>
             t_fraud_alerts d' = t_fraud_alerts d @ [alert_row ev am] \<and>
             t_fraud_outbox d' = t_fraud_outbox d @ (if fraud_outbox_enabled c then [outbox_row_of c now am] else []))"

lemma persist_alert_rows:
  assumes "evaluation_ok x ev" "persist_alert v c now ev e d = Inr (rows, d')"
  shows "\<exists>am. build_alert_message v ev e = Inr am \<and> event_wf (am_event am) \<and>
    t_fraud_evaluations d' = t_fraud_evaluations d \<and> t_fraud_alerts d' = t_fraud_alerts d @ [alert_row ev am] \<and>
    t_fraud_outbox d' = t_fraud_outbox d @ (if fraud_outbox_enabled c then [outbox_row_of c now am] else [])"
  using assms(2) build_alert_total [OF assms(1), of v e] alert_event_wf [OF assms(1), of v e]
  by (auto simp: persist_alert_def insert_alert_row_def insert_outbox_row_def split: if_splits sum.splits)

lemma persist_fraud_rows:
  assumes "evaluation_ok x ev" "persist_fraud v c now ev e d = Inr (rows, d')"
    and "select_key fe_source_event_id (fv_source_event_id ev) (t_fraud_evaluations d) = None"
  shows "fraud_rows_of v c now e ev d d'"
proof -
  obtain d1 where d1: "d1 = d\<lparr>t_fraud_evaluations := t_fraud_evaluations d @ [evaluation_row ev]\<rparr>" by simp
  with assms(2,3) have
    "if fv_decision ev = APPROVE then d' = d1 else persist_alert v c now ev e d1 = Inr (rows, d')"
    by (auto simp: persist_fraud_def insert_evaluation_def split: if_splits)
  then show ?thesis
    using persist_alert_rows [OF assms(1), of v c now e d1 rows d'] d1
    by (auto simp: fraud_rows_of_def split: if_splits)
qed

lemma evaluated_events_known:
  "deferred_ok d \<Longrightarrow> select_key pe_event_id i (t_processed_events d) = None \<Longrightarrow>
     select_key fe_source_event_id i (t_fraud_evaluations d) = None"
  by (force simp: deferred_ok_def Let_def list_all_iff select_key_None)


lemmas fraud_eval = build_def customer_and_order_def refund_facts_def history_payments_def prior_payments_def
  history_refunds_def latest_def bounded_count_def average_def microseconds_def event_amount_def evaluate_def
  aggregate_def all_rules_def result_def HighAmountRule_def PaymentVelocityRule_def FailedPaymentBurstRule_def
  NewDeviceRule_def CountryMismatchRule_def RapidCheckoutRule_def AccountTakeoverCompositeRule_def
  RefundAbuseRule_def BotCheckoutRule_def PaymentAmountMismatchRule_def ELIGIBLE_def SUPPORTED_def
  amount_deviates_def checkout_is_rapid_def checkout_seconds_def elapsed_seconds_def established_history_def
  is_new_device_def country_mismatch_def persist_fraud_def insert_evaluation_def evaluation_row_def
  FRAUD_ELIGIBLE_EVENT_TYPES_def less_fraud_severity_def

definition demo_db :: "nat \<Rightarrow> db" where
  "demo_db n = snd (run_attempts demo_env quiet_uow (take n demo_attempts) empty_db)"

lemma demo_db_deferred: "deferred_ok (demo_db 3)"
  by (simp add: demo_db_def demo_eval)

lemma demo_order_commits:
  "\<exists>rows evaluation d'. tx_body demo_env demo_uow 0 demo_order (demo_message 4) (demo_processing 4) (demo_db 3) =
     Inr ((rows, evaluation), d')"
  by (simp add: demo_db_def demo_eval fraud_eval)


section \<open>Partial refunds\<close>

text \<open>The rule of a registry contributes its result to every evaluation of a supported event.\<close>

lemma run_rules_member:
  assumes "run_rules rules x = Inr rs" "rule \<in> set rules" "fc_event_type x \<in> set (fr_supported_event_types rule)"
    and "fr_evaluate rule x = Inr r"
  shows "r \<in> set rs"
  using assms(1,2)
proof (induction rules arbitrary: rs)
  case (Cons a rules)
  then show ?case using assms(3,4) by (auto split: if_splits sum.splits)
qed simp

lemma blocked_by_rule:
  assumes "uow_wf uc" "rule \<in> set (uc_rules uc)" "fc_event_type x \<in> set (fr_supported_event_types rule)"
    and "fr_evaluate rule x = Inr r" "rr_matched r" "fraud_block_threshold (uc_fraud uc) \<le> rr_score r"
    and "evaluate u (uc_fraud uc) (uc_rules uc) x = Inr ev"
  shows "fv_decision ev = BLOCK"
proof -
  have wf: "\<forall>r \<in> set (uc_rules uc). rule_wf r"
    using assms(1) by (intro registry_rules_wf(1) [of "uc_fraud uc"]) (simp_all add: uow_wf_def)
  have ev: "\<forall>r \<in> set (fv_rule_results ev). fits 100 r \<and> rr_reason_code r \<noteq> []"
    "fv_total_score ev = min 100 (sum_list (map rr_score (matched_rules ev)))"
    "fv_decision ev = decide (uc_fraud uc) (fv_total_score ev)"
    using evaluate_total [OF wf, of u "uc_fraud uc" x] assms(7) by auto
  obtain rs where rs: "run_rules (uc_rules uc) x = Inr rs" "fv_rule_results ev = rs"
    using assms(7) by (auto simp: evaluate_def split: sum.splits prod.splits)
  have r: "r \<in> set (matched_rules ev)"
    using run_rules_member [OF rs(1) assms(2-4)] rs(2) assms(5) by (simp add: matched_rules_def)
  have "rr_score r \<le> sum_list (map rr_score (matched_rules ev))"
    using r ev(1) by (intro member_le_sum_list) (auto simp: matched_rules_def fits_def)
  moreover have "rr_score r \<le> 100" using ev(1) r by (auto simp: matched_rules_def fits_def)
  ultimately show ?thesis using assms(6) ev(2,3) by (simp add: decide_def)
qed

lemma build_refund:
  assumes "build c e d = Inr x" "ev_payload e = RefundRequested p" "rr_amount p \<noteq> 0"
    and "select_key or_order_id (rr_order_id p) (t_orders d) = Some r"
  shows "fc_payment_amount_matches_order x \<longleftrightarrow> or_total r = rr_amount p \<and> or_currency r = rr_currency p"
  using assms by (auto simp: build_def customer_and_order_def event_amount_def Let_def
      split: option.splits prod.splits)

lemma insert_refund_order:
  assumes "insert_refund p eid d = Inr (w, d')" "money_inv d"
    and "select_key pa_payment_id (rr_payment_id p) (t_payments d) = Some pay"
  shows "\<exists>r. select_key or_order_id (rr_order_id p) (t_orders d') = Some r \<and> or_total r = pa_amount pay"
proof -
  let ?st = "if refunded_total (rr_payment_id p) (t_refunds d) + rr_amount p = pa_amount pay
    then Order_refunded else Order_partially_refunded"
  have "pa_order_id pay = rr_order_id p" and orders: "t_orders d' = update_where (\<lambda>r. or_order_id r = rr_order_id p)
      (\<lambda>r. r\<lparr>or_status := ?st, or_latest_event_id := eid\<rparr>) (t_orders d)"
    using assms(1,3) by (auto simp: insert_refund_def Let_def split: if_splits)
  moreover have "payment_backed (t_orders d) pay"
    using assms(2,3) by (auto simp: money_inv_def dest!: select_key_Some)
  ultimately obtain r where "select_key or_order_id (rr_order_id p) (t_orders d) = Some r" "or_total r = pa_amount pay"
    by (auto simp: payment_backed_def)
  then show ?thesis
    unfolding orders by (subst select_key_update) (auto simp del: if_split_asm)
qed

text \<open>A partial refund is always blocked. The context compares the amount of a refund with the total
  of its order, so with the amount-mismatch rule enabled at a score of at least the blocking
  threshold (the default configuration), every committed refund of less than the payment ends in
  the decision to block.\<close>

theorem partial_refund_blocked:
  assumes "uow_wf uc" and "fraud_engine_enabled (uc_fraud uc)"
    and "PaymentAmountMismatchRule (uc_fraud uc) \<in> set (uc_rules uc)"
    and "fraud_block_threshold (uc_fraud uc) \<le> fraud_amount_mismatch_score (uc_fraud uc)"
    and "event_wf e" and "ev_payload e = RefundRequested p" and "money_inv d"
    and "select_key pa_payment_id (rr_payment_id p) (t_payments d) = Some pay" and "rr_amount p < pa_amount pay"
    and "tx_body v uc now e m cn d = Inr ((rows, evaluation), d')"
  shows "\<exists>ev. evaluation = Some ev \<and> fv_decision ev = BLOCK"
proof -
  obtain d1 hrows d2 fr where b: "insert_identity v e m cn (uc_persist_raw_event_json uc) d = Inr ((), d1)"
    "apply_handler v (ev_event_type e) e d1 = Inr (hrows, d2)" "fraud_stage v uc now e d2 = Inr (fr, d')"
    "(rows, evaluation) = (case fr of None \<Rightarrow> (hrows, None) | Some (ev, fraud_rows) \<Rightarrow> (fold add_count fraud_rows hrows, Some ev))"
    using assms(10) by (rule tx_body_Inr) (rule that)
  have t: "ev_event_type e = REFUND_REQUESTED" and pos: "rr_amount p > 0"
    using assms(5,6) by (simp_all add: event_wf_def validate_contract_consistency_def)
  have d1: "money_inv d1" "select_key pa_payment_id (rr_payment_id p) (t_payments d1) = Some pay"
    using insert_identity_Inr [OF b(1)] assms(7,8) money_inv_frame [of d d1] by auto
  have "insert_refund p (ev_event_id e) d1 = Inr (hrows, d2)"
    using b(2) t assms(6) by (simp add: apply_handler_def)
  from insert_refund_order [OF this d1] obtain r where
    r: "select_key or_order_id (rr_order_id p) (t_orders d2) = Some r" "or_total r = pa_amount pay" by blast
  obtain c ev fraud_rows where c: "build (uc_fraud uc) e d2 = Inr c"
    and ev: "evaluate (sv_uuid5 v) (uc_fraud uc) (uc_rules uc) c = Inr ev" and fr: "fr = Some (ev, fraud_rows)"
    using b(3) assms(2) t by (auto simp: fraud_stage_def FRAUD_ELIGIBLE_EVENT_TYPES_def split: sum.splits)
  have "\<not> fc_payment_amount_matches_order c" "fc_event_type c = REFUND_REQUESTED"
    using build_refund [OF c assms(6) _ r(1)] build_identity [OF c] t r(2) pos assms(9) by auto
  then have "fv_decision ev = BLOCK"
    by (intro blocked_by_rule [OF assms(1,3) _ _ _ _ ev])
      (auto simp: PaymentAmountMismatchRule_def ELIGIBLE_def result_def Let_def assms(4))
  with fr b(4) show ?thesis by simp
qed

lemma demo_refund_commits:
  "\<exists>rows evaluation d'. tx_body demo_env demo_uow 0 demo_refund (demo_message 6) (demo_processing 6) (demo_db 5) =
     Inr ((rows, evaluation), d')"
  by (simp add: demo_db_def demo_eval fraud_eval persist_alert_def build_alert_message_def alert_event_def
      insert_alert_row_def insert_outbox_row_def event_wf_def validate_contract_consistency_def
      non_empty_string_def CURRENT_EVENT_VERSION_def MAX_PRODUCER_CLOCK_SKEW_def reason_codes_def matched_rules_def)

lemma demo_paid: "map pa_amount (t_payments (demo_db 5)) = [100] \<and> map pa_payment_id (t_payments (demo_db 5)) = [50]"
  by (simp add: demo_db_def demo_eval)

lemma demo_db_money: "money_inv (demo_db n)"
proof -
  obtain rs d where run: "run_attempts demo_env quiet_uow (take n demo_attempts) empty_db = (rs, d)" by force
  have "\<forall>a \<in> set (take n demo_attempts). event_wf (at_event a)" using demo_attempts_wf in_set_takeD by fast
  from reachable_store_inv [OF run this] run show ?thesis by (simp add: demo_db_def)
qed

theorem partial_refund_blocked_witness:
  "\<exists>rows ev d'. tx_body demo_env demo_uow 0 demo_refund (demo_message 6) (demo_processing 6) (demo_db 5) =
     Inr ((rows, Some ev), d') \<and> fv_decision ev = BLOCK"
proof -
  obtain rows evaluation d' where tx:
    "tx_body demo_env demo_uow 0 demo_refund (demo_message 6) (demo_processing 6) (demo_db 5) =
       Inr ((rows, evaluation), d')"
    using demo_refund_commits by blast
  obtain pay where pay: "t_payments (demo_db 5) = [pay]" "pa_amount pay = 100" "pa_payment_id pay = 50"
    using demo_paid by (cases "t_payments (demo_db 5)") auto
  let ?p = "\<lparr>rr_refund_id = 60, rr_payment_id = 50, rr_order_id = 40, rr_customer_id = 7, rr_amount = 30,
      rr_currency = EUR, rr_reason = ''late'', rr_requested_at = 0\<rparr>"
  have "\<exists>ev. evaluation = Some ev \<and> fv_decision ev = BLOCK"
  proof (rule partial_refund_blocked [OF demo_uow_wf _ _ _ _ _ demo_db_money _ _ tx])
    show "ev_payload demo_refund = RefundRequested ?p" by (simp add: demo_refund_def demo_envelope_def)
    show "event_wf demo_refund" using demo_journey_wf by (simp add: demo_journey_def)
    show "select_key pa_payment_id (rr_payment_id ?p) (t_payments (demo_db 5)) = Some pay"
      using pay by (simp add: select_key_def)
    show "rr_amount ?p < pa_amount pay" using pay by simp
  qed (simp_all add: demo_uow_def default_fraud_config_def all_rules_def)
  with tx show ?thesis by blast
qed

end
