(* ===== verification/Processor.thy ===== *)
theory Processor
  imports Idempotency Dlq Consumer Persistence
begin

text \<open>
  \<^verbatim>\<open>processor.py\<close> and \<^verbatim>\<open>handler.py\<close>: the life of one record. It is validated, reserved in Redis,
  persisted with retries, completed in Redis, and only then its offset is handed to the committer;
  a record that cannot be processed goes to the dead-letter topic first.

  The world is everything the processor shares: Redis, the database, the committer's state, the
  dead-letter topic, the run summary and the in-flight gauge. What the environment decides during
  one call (lost replies, database faults, clock readings, the random token, what other
  instances do while this one waits) is the record \<open>weather\<close>. The other metrics and the log lines
  are left out.
\<close>

section \<open>Sequencing calls that may raise\<close>

definition bind_ex :: "(exn + 'a) \<times> 'w \<Rightarrow> ('a \<Rightarrow> 'w \<Rightarrow> (exn + 'b) \<times> 'w) \<Rightarrow> (exn + 'b) \<times> 'w" where
  "bind_ex r f = (case r of (Inl x, w) \<Rightarrow> (Inl x, w) | (Inr a, w) \<Rightarrow> f a w)"

lemma bind_ex_simps [simp]: "bind_ex (Inl x, w) f = (Inl x, w)" "bind_ex (Inr a, w) f = f a w"
  by (simp_all add: bind_ex_def)

lemma bind_ex_cases:
  assumes "bind_ex r f = (b, w')"
  obtains (raised) x where "r = (Inl x, w')" "b = Inl x"
  | (returned) a w where "r = (Inr a, w)" "f a w = (b, w')"
  using assms by (cases r; rename_tac q u; case_tac q) auto

section \<open>Configuration, world and environment\<close>

text \<open>\<open>mp_persistence\<close> is None for the processor without a database; \<open>mp_handlers\<close> lists the event
  types with a registered handler, which are the handlers of \<open>default_persistence_registry\<close> or of
  the audit registry.\<close>

record message_processor =
  mp_codec :: codec
  mp_store :: store_env
  mp_lease :: lease_config
  mp_retry :: retry_policy
  mp_persistence :: "uow_config option"
  mp_handlers :: "event_type list"
  mp_dlq_topic :: string
  mp_consumer_group :: string
  mp_instance_id :: string
  mp_dlq_max_payload_bytes :: nat
  mp_slow_query_ms :: rat

record 'k world =
  w_redis :: redis
  w_db :: db
  w_kafka :: 'k
  w_dlq :: "dlq_message list"
  w_summary :: run_summary
  w_inflight :: int

type_synonym 'k committer = "consumed_message \<Rightarrow> 'k \<Rightarrow> (exn + unit) \<times> 'k"

record weather =
  we_token :: string
  we_reserve :: redis_call
  we_reserve_at :: int
  we_first_seen_at :: instant
  we_db_fault :: "nat \<Rightarrow> db_fault"
  we_db_now :: "nat \<Rightarrow> instant"
  we_db_duration_ms :: "nat \<Rightarrow> rat"
  we_rng :: "nat \<Rightarrow> rat"
  we_meanwhile :: "rat \<Rightarrow> db \<Rightarrow> db"
  we_complete :: redis_call
  we_complete_at :: int
  we_completed_at :: instant
  we_release :: redis_call
  we_release_at :: int
  we_dlq :: dlq_call
  we_failed_at :: instant
  we_duration_ms :: rat

definition tally :: "summary_counter \<Rightarrow> 'k world \<Rightarrow> 'k world" where
  "tally k w = w\<lparr>w_summary := incr k (w_summary w)\<rparr>"

definition tally_by :: "summary_counter \<Rightarrow> int \<Rightarrow> 'k world \<Rightarrow> 'k world" where
  "tally_by k n w =
     w\<lparr>w_summary := (w_summary w)\<lparr>su_count := (su_count (w_summary w))(k := su_count (w_summary w) k + n)\<rparr>\<rparr>"

definition tally_if :: "bool \<Rightarrow> summary_counter \<Rightarrow> 'k world \<Rightarrow> 'k world" where
  "tally_if b k w = (if b then tally k w else w)"

section \<open>Handlers\<close>

definition resolve_handler :: "event_type list \<Rightarrow> event_type \<Rightarrow> exn + event_type" where
  "resolve_handler registry t =
     (if t \<in> set registry then Inr t
      else Inl (Exn PermanentProcessingError (''no handler registered for '' @ event_type_value t)))"

definition no_persistence_result :: persistence_result where
  "no_persistence_result =
     \<lparr>pr_already_persisted = False, pr_affected_tables = [], pr_rows_written = [], pr_duration_ms = 0,
      pr_fraud_event_type = None, pr_fraud_severity = None, pr_fraud_score = None,
      pr_fraud_decision = None, pr_matched_rule_ids = []\<rparr>"

definition handle ::
  "message_processor \<Rightarrow> weather \<Rightarrow> envelope \<Rightarrow> consumed_message \<Rightarrow> nat \<Rightarrow> 'k world \<Rightarrow>
   (exn + persistence_result) \<times> 'k world" where
  "handle mp we e m attempt w =
     (let cn = \<lparr>cn_topic = cm_topic m, cn_partition = cm_partition m, cn_offset = cm_offset m,
                cn_consumer_group = mp_consumer_group mp, cn_processor_instance_id = mp_instance_id mp,
                cn_attempt = attempt\<rparr>
      in case mp_persistence mp of
           None \<Rightarrow> (Inr no_persistence_result, w)
         | Some uc \<Rightarrow>
             (case persist (mp_store mp) uc (we_db_fault we attempt) (we_db_now we attempt)
                     (we_db_duration_ms we attempt) e m cn (w_db w) of
                (Inr pr, d) \<Rightarrow> (Inr pr, (tally Database_transactions_started w)\<lparr>w_db := d\<rparr>)
              | (Inl x, d) \<Rightarrow>
                  (Inl x, tally Database_transactions_rolled_back
                     ((tally Database_transactions_started w)\<lparr>w_db := d\<rparr>))))"

definition on_retry :: "nat \<Rightarrow> exn \<Rightarrow> 'k world \<Rightarrow> 'k world" where
  "on_retry attempt x w =
     tally_if (isinstance x RetryableDatabaseError \<or> isinstance x MissingBusinessDependencyError)
       Database_retries (tally Retries w)"

text \<open>\<open>self._wait\<close>: meanwhile other instances may change the database.\<close>

definition wait_for :: "weather \<Rightarrow> rat \<Rightarrow> 'k world \<Rightarrow> 'k world" where
  "wait_for we seconds w = w\<lparr>w_db := we_meanwhile we seconds (w_db w)\<rparr>"

definition handle_with_retry ::
  "message_processor \<Rightarrow> weather \<Rightarrow> envelope \<Rightarrow> consumed_message \<Rightarrow> 'k world \<Rightarrow>
   (exn + persistence_result \<times> nat) \<times> 'k world" where
  "handle_with_retry mp we e m w =
     (case resolve_handler (mp_handlers mp) (ev_event_type e) of
        Inl x \<Rightarrow> (Inl x, w)
      | Inr _ \<Rightarrow>
          run_with_retry (handle mp we e m) (mp_retry mp) (wait_for we) (we_rng we) on_retry w)"

section \<open>The summary of a transaction\<close>

definition rows_of :: "string \<Rightarrow> rows_written \<Rightarrow> int" where
  "rows_of table rows = (case map_of rows table of None \<Rightarrow> 0 | Some n \<Rightarrow> n)"

definition count_persisted :: "persistence_result \<Rightarrow> run_summary \<Rightarrow> run_summary" where
  "count_persisted pr s =
     s\<lparr>su_rows_written_by_table :=
         (\<lambda>t. su_rows_written_by_table s t + rows_of t (pr_rows_written pr)),
       su_matched_rules :=
         (\<lambda>i. su_matched_rules s i + int (count_list (pr_matched_rule_ids pr) i))\<rparr>"

definition decision_counter :: "fraud_decision \<Rightarrow> summary_counter" where
  "decision_counter d =
     (case d of APPROVE \<Rightarrow> Approve_decisions | REVIEW \<Rightarrow> Review_decisions | BLOCK \<Rightarrow> Block_decisions)"

definition record_persistence :: "message_processor \<Rightarrow> persistence_result \<Rightarrow> 'k world \<Rightarrow> 'k world" where
  "record_persistence mp pr w =
     (if mp_persistence mp = None then w
      else
        let rows = pr_rows_written pr;
            w1 = (if pr_already_persisted pr then tally Already_persisted_events w
                  else
                    let w2 = tally Database_transactions_committed w;
                        w3 = w2\<lparr>w_summary := count_persisted pr (w_summary w2)\<rparr>;
                        w4 = tally_by Fraud_outbox_rows_created (rows_of ''fraud_outbox'' rows)
                               (tally_by Fraud_alerts_created (rows_of ''fraud_alerts'' rows)
                                  (tally_by Fraud_evaluations (rows_of ''fraud_evaluations'' rows) w3))
                    in case pr_fraud_decision pr of
                         None \<Rightarrow> w4
                       | Some d \<Rightarrow> tally (decision_counter d) w4)
        in tally_if (pr_duration_ms pr \<ge> mp_slow_query_ms mp) Slow_database_operations w1)"

section \<open>Terminal steps\<close>

fun class_name :: "exn_class \<Rightarrow> string" where
  "class_name PyException = ''Exception''"
| "class_name PyRuntimeError = ''RuntimeError''"
| "class_name PyBufferError = ''BufferError''"
| "class_name PyValueError = ''ValueError''"
| "class_name PyKeyError = ''KeyError''"
| "class_name PyAssertionError = ''AssertionError''"
| "class_name RedisError = ''RedisError''"
| "class_name KafkaException = ''KafkaException''"
| "class_name PoolTimeout = ''PoolTimeout''"
| "class_name PsycopgError = ''Error''"
| "class_name ProcessorError = ''ProcessorError''"
| "class_name PermanentMessageError = ''PermanentMessageError''"
| "class_name RetryableProcessingError = ''RetryableProcessingError''"
| "class_name PermanentProcessingError = ''PermanentProcessingError''"
| "class_name FatalInfrastructureError = ''FatalInfrastructureError''"
| "class_name RetryableDatabaseError = ''RetryableDatabaseError''"
| "class_name MissingBusinessDependencyError = ''MissingBusinessDependencyError''"
| "class_name PermanentDatabaseIntegrityError = ''PermanentDatabaseIntegrityError''"
| "class_name AlreadyPersistedEvent = ''AlreadyPersistedEvent''"
| "class_name StartupDatabaseError = ''StartupDatabaseError''"
| "class_name FraudContextDependencyError = ''FraudContextDependencyError''"
| "class_name FraudRuleConfigurationError = ''FraudRuleConfigurationError''"
| "class_name FraudEvaluationIntegrityError = ''FraudEvaluationIntegrityError''"
| "class_name FraudOutboxRetryableError = ''FraudOutboxRetryableError''"
| "class_name FraudOutboxPermanentError = ''FraudOutboxPermanentError''"

definition processing_error :: "envelope \<Rightarrow> exn \<Rightarrow> string \<Rightarrow> validation_error_info" where
  "processing_error e x category =
     (let shown = str_take 512 (exn_message x)
      in \<lparr>vi_category =
            (if category = ''retry_exhausted'' then RETRY_EXHAUSTED
             else if category = ''missing_business_dependency'' then MISSING_BUSINESS_DEPENDENCY
             else if category = ''database_integrity_error'' then DATABASE_INTEGRITY_ERROR
             else PERMANENT_PROCESSING_ERROR),
          vi_message = (if shown \<noteq> [] then shown else category),
          vi_error_type = class_name (exn_class x),
          vi_event_id = Some (ev_event_id e),
          vi_event_type = Some (event_type_value (ev_event_type e)),
          vi_correlation_id = Some (ev_correlation_id e),
          vi_anomaly_type = None\<rparr>)"

abbreviation outcome :: "processing_status \<Rightarrow> nat \<Rightarrow> event_type option \<Rightarrow> processing_outcome" where
  "outcome s n t \<equiv> \<lparr>po_status = s, po_attempts = n, po_event_type = t\<rparr>"

definition commit :: "'k committer \<Rightarrow> consumed_message \<Rightarrow> 'k world \<Rightarrow> (exn + unit) \<times> 'k world" where
  "commit committer m w =
     (case committer m (w_kafka w) of
        (Inl x, k) \<Rightarrow> (Inl x, tally Unresolved_records (tally Commit_failures (w\<lparr>w_kafka := k\<rparr>)))
      | (Inr _, k) \<Rightarrow> (Inr (), tally Commit_successes (w\<lparr>w_kafka := k\<rparr>)))"

definition dead_letter_record ::
  "message_processor \<Rightarrow> weather \<Rightarrow> consumed_message \<Rightarrow> validation_error_info \<Rightarrow> nat \<Rightarrow> dlq_envelope" where
  "dead_letter_record mp we m err attempts =
     build_dlq_envelope (sv_uuid5 (mp_store mp)) m err attempts (mp_consumer_group mp) (mp_instance_id mp)
       (mp_dlq_max_payload_bytes mp) (we_failed_at we)"

definition dead_letter ::
  "message_processor \<Rightarrow> weather \<Rightarrow> 'k committer \<Rightarrow> consumed_message \<Rightarrow> validation_error_info \<Rightarrow> nat \<Rightarrow>
   'k world \<Rightarrow> (exn + processing_outcome) \<times> 'k world" where
  "dead_letter mp we committer m err attempts w =
     (case publish (mp_dlq_topic mp) (we_dlq we) (dead_letter_record mp we m err attempts) (w_dlq w) of
        (Inl x, stored) \<Rightarrow>
          if isinstance x RetryableProcessingError
          then (Inr (outcome UNRESOLVED attempts None), tally Unresolved_records (w\<lparr>w_dlq := stored\<rparr>))
          else (Inl x, w\<lparr>w_dlq := stored\<rparr>)
      | (Inr _, stored) \<Rightarrow>
          bind_ex (commit committer m (w\<lparr>w_dlq := stored\<rparr>))
            (\<lambda>_ w1. (Inr (outcome DLQ attempts None), tally Dlq_records w1)))"

definition safe_release :: "message_processor \<Rightarrow> weather \<Rightarrow> uuid \<Rightarrow> 'k world \<Rightarrow> 'k world" where
  "safe_release mp we event_id w =
     (case release (mp_lease mp) (we_release we) (we_release_at we) event_id (we_token we) (w_redis w) of
        (Inl x, r) \<Rightarrow> tally Redis_errors (w\<lparr>w_redis := r\<rparr>)
      | (Inr _, r) \<Rightarrow> w\<lparr>w_redis := r\<rparr>)"

definition observe_terminal :: "'k world \<Rightarrow> 'k world" where
  "observe_terminal w = w\<lparr>w_inflight := w_inflight w - 1\<rparr>"

section \<open>Processing one record\<close>

text \<open>\<open>_persist_with_retry\<close>: the transaction of a record whose lease is already completed. The result
  is a persistence result, or the outcome of having dead-lettered the record.\<close>

definition persist_with_retry ::
  "message_processor \<Rightarrow> weather \<Rightarrow> 'k committer \<Rightarrow> envelope \<Rightarrow> consumed_message \<Rightarrow> 'k world \<Rightarrow>
   (exn + (persistence_result + processing_outcome)) \<times> 'k world" where
  "persist_with_retry mp we committer e m w =
     (case handle_with_retry mp we e m w of
        (Inr (pr, _), w1) \<Rightarrow> (Inr (Inl pr), w1)
      | (Inl x, w1) \<Rightarrow>
          if isinstance x PermanentProcessingError
          then bind_ex
                 (dead_letter mp we committer m (processing_error e x ''database_integrity_error'') 1
                    (tally_if (isinstance x PermanentDatabaseIntegrityError) Integrity_failures w1))
                 (\<lambda>out w2. (Inr (Inr out), w2))
          else if isinstance x RetryableProcessingError
          then bind_ex
                 (dead_letter mp we committer m
                    (processing_error e x
                       (if isinstance x MissingBusinessDependencyError then ''missing_business_dependency''
                        else ''retry_exhausted''))
                    (maximum_attempts (mp_retry mp)) (tally Retry_exhausted_count w1))
                 (\<lambda>out w2. (Inr (Inr out), w2))
          else (Inl x, w1))"

text \<open>The branch of a record whose lease says it was completed before, and its end once the offset was
  handed over.\<close>

definition finish_duplicate ::
  "message_processor \<Rightarrow> envelope \<Rightarrow> bool \<Rightarrow> 'k world \<Rightarrow> (exn + processing_outcome) \<times> 'k world" where
  "finish_duplicate mp e recovered_persisted w =
     (let w1 = tally Duplicate_records w;
          w2 = (if mp_persistence mp = None then w1
                else tally_by Already_persisted_events (of_bool recovered_persisted) w1)
      in (Inr (outcome DUPLICATE 1 (Some (ev_event_type e))), observe_terminal w2))"

definition process_completed ::
  "message_processor \<Rightarrow> weather \<Rightarrow> 'k committer \<Rightarrow> envelope \<Rightarrow> consumed_message \<Rightarrow> 'k world \<Rightarrow>
   (exn + processing_outcome) \<times> 'k world" where
  "process_completed mp we committer e m w =
     (if mp_persistence mp = None
      then bind_ex (commit committer m w) (\<lambda>_. finish_duplicate mp e False)
      else bind_ex (persist_with_retry mp we committer e m w)
             (\<lambda>recovery w1.
                case recovery of
                  Inr out \<Rightarrow> (Inr out, w1)
                | Inl pr \<Rightarrow>
                    bind_ex
                      (commit committer m
                         (if pr_already_persisted pr then w1 else record_persistence mp pr w1))
                      (\<lambda>_. finish_duplicate mp e (pr_already_persisted pr))))"

text \<open>The branch of a record whose lease this call obtained: first the failures, then the rest.\<close>

definition give_up ::
  "message_processor \<Rightarrow> weather \<Rightarrow> 'k committer \<Rightarrow> envelope \<Rightarrow> consumed_message \<Rightarrow> exn \<Rightarrow> 'k world \<Rightarrow>
   (exn + processing_outcome) \<times> 'k world" where
  "give_up mp we committer e m x w =
     (let failed = tally Processing_failures w
      in if isinstance x PermanentProcessingError
         then let integrity = isinstance x PermanentDatabaseIntegrityError;
                  w1 = tally_if (isinstance x FraudEvaluationIntegrityError) Fraud_integrity_failures failed;
                  w2 = tally_if integrity Database_errors (tally_if integrity Integrity_failures w1)
              in dead_letter mp we committer m
                   (processing_error e x
                      (if integrity then ''database_integrity_error'' else ''permanent_processing_error''))
                   1 (safe_release mp we (ev_event_id e) w2)
         else if isinstance x RetryableProcessingError
         then let missing = isinstance x MissingBusinessDependencyError;
                  w1 = tally_if missing Missing_dependency_errors (tally Retry_exhausted_count failed);
                  w2 = tally_if (isinstance x FraudContextDependencyError) Fraud_context_failures w1;
                  w3 = tally_if (isinstance x RetryableDatabaseError) Database_errors w2
              in dead_letter mp we committer m
                   (processing_error e x (if missing then ''missing_business_dependency'' else ''retry_exhausted''))
                   (maximum_attempts (mp_retry mp)) (safe_release mp we (ev_event_id e) w3)
         else (Inl x, w))"

definition finish_processed :: "weather \<Rightarrow> envelope \<Rightarrow> nat \<Rightarrow> 'k world \<Rightarrow> (exn + processing_outcome) \<times> 'k world" where
  "finish_processed we e attempts w =
     (let t = ev_event_type e;
          w1 = tally Processed_records w;
          s = w_summary w1;
          w2 = w1\<lparr>w_summary := record_latency (we_duration_ms we)
                 (s\<lparr>su_processed_events := (su_processed_events s)(t := su_processed_events s t + 1)\<rparr>)\<rparr>
      in (Inr (outcome PROCESSED attempts (Some t)), observe_terminal w2))"

definition process_reserved ::
  "message_processor \<Rightarrow> weather \<Rightarrow> 'k committer \<Rightarrow> envelope \<Rightarrow> consumed_message \<Rightarrow> 'k world \<Rightarrow>
   (exn + processing_outcome) \<times> 'k world" where
  "process_reserved mp we committer e m w =
     (case handle_with_retry mp we e m w of
        (Inl x, w1) \<Rightarrow> give_up mp we committer e m x w1
      | (Inr (pr, attempts), w1) \<Rightarrow>
          let w2 = record_persistence mp pr w1
          in case complete (mp_lease mp) (we_complete we) (we_complete_at we) (ev_event_id e) (we_token we)
                    (we_completed_at we) (w_redis w2) of
               (Inr True, r) \<Rightarrow>
                 bind_ex (commit committer m (w2\<lparr>w_redis := r\<rparr>)) (\<lambda>_. finish_processed we e attempts)
             | (_, r) \<Rightarrow>
                 (Inr (outcome UNRESOLVED attempts None),
                  tally Unresolved_records (tally Redis_errors (w2\<lparr>w_redis := r\<rparr>))))"

definition process ::
  "message_processor \<Rightarrow> weather \<Rightarrow> 'k committer \<Rightarrow> consumed_message \<Rightarrow> 'k world \<Rightarrow>
   (exn + processing_outcome) \<times> 'k world" where
  "process mp we committer m w =
     (let w1 = tally Consumed_records (w\<lparr>w_inflight := w_inflight w + 1\<rparr>)
      in case validate_message (mp_codec mp) m of
           Inl err \<Rightarrow>
             let s = w_summary w1; k = vi_category err;
                 w2 = w1\<lparr>w_summary := s\<lparr>su_validation_failures :=
                        (su_validation_failures s)(k := su_validation_failures s k + 1)\<rparr>\<rparr>
             in bind_ex (dead_letter mp we committer m err 1 w2) (\<lambda>out w3. (Inr out, observe_terminal w3))
         | Inr e \<Rightarrow>
             let w2 = tally Valid_records w1
             in case reserve (mp_lease mp) (we_reserve we) (we_reserve_at we) (ev_event_id e) (we_token we)
                       (cm_topic m, cm_partition m, cm_offset m) (we_first_seen_at we) (w_redis w2) of
                  (Inl x, r) \<Rightarrow>
                    (Inr (outcome UNRESOLVED 1 None),
                     tally Unresolved_records (tally Redis_errors (w2\<lparr>w_redis := r\<rparr>)))
                | (Inr res, r) \<Rightarrow>
                    let w3 = w2\<lparr>w_redis := r\<rparr>
                    in case rs_state res of
                         COMPLETED \<Rightarrow> process_completed mp we committer e m w3
                       | PROCESSING \<Rightarrow>
                           (Inr (outcome UNRESOLVED 1 None),
                            observe_terminal (tally Unresolved_records w3))
                       | RESERVED \<Rightarrow> process_reserved mp we committer e m w3)"

end
