(* ===== verification/Processing.thy ===== *)
theory Processing
  imports Processor Fraud_Stage
begin

text \<open>
  What processing one record guarantees, for any committer: an offset is handed over at most once and
  only when the record is durable, in the database or in the dead-letter topic; which exceptions
  escape; that redelivery changes nothing; and what the counters and the gauge show.
\<close>

section \<open>Frames\<close>

lemma tally_frame [simp]:
  "w_redis (tally k w) = w_redis w" "w_db (tally k w) = w_db w" "w_kafka (tally k w) = w_kafka w"
  "w_dlq (tally k w) = w_dlq w" "w_inflight (tally k w) = w_inflight w"
  "w_summary (tally k w) = incr k (w_summary w)"
  by (simp_all add: tally_def)

lemma tally_by_frame [simp]:
  "w_redis (tally_by k n w) = w_redis w" "w_db (tally_by k n w) = w_db w"
  "w_kafka (tally_by k n w) = w_kafka w" "w_dlq (tally_by k n w) = w_dlq w"
  "w_inflight (tally_by k n w) = w_inflight w"
  "su_count (w_summary (tally_by k n w)) = (su_count (w_summary w))(k := su_count (w_summary w) k + n)"
  by (simp_all add: tally_by_def)

lemma tally_if_frame [simp]:
  "w_redis (tally_if b k w) = w_redis w" "w_db (tally_if b k w) = w_db w"
  "w_kafka (tally_if b k w) = w_kafka w" "w_dlq (tally_if b k w) = w_dlq w"
  "w_inflight (tally_if b k w) = w_inflight w"
  "w_summary (tally_if b k w) = (if b then incr k (w_summary w) else w_summary w)"
  by (simp_all add: tally_if_def)

lemma observe_terminal_frame [simp]:
  "w_redis (observe_terminal w) = w_redis w" "w_db (observe_terminal w) = w_db w"
  "w_kafka (observe_terminal w) = w_kafka w" "w_dlq (observe_terminal w) = w_dlq w"
  "w_summary (observe_terminal w) = w_summary w" "w_inflight (observe_terminal w) = w_inflight w - 1"
  by (simp_all add: observe_terminal_def)

lemma record_persistence_frame [simp]:
  "w_redis (record_persistence mp pr w) = w_redis w" "w_db (record_persistence mp pr w) = w_db w"
  "w_kafka (record_persistence mp pr w) = w_kafka w" "w_dlq (record_persistence mp pr w) = w_dlq w"
  "w_inflight (record_persistence mp pr w) = w_inflight w"
  by (simp_all add: record_persistence_def Let_def split: option.splits)

lemma safe_release_frame [simp]:
  "w_db (safe_release mp we i w) = w_db w" "w_kafka (safe_release mp we i w) = w_kafka w"
  "w_dlq (safe_release mp we i w) = w_dlq w" "w_inflight (safe_release mp we i w) = w_inflight w"
  by (simp_all add: safe_release_def split: prod.splits sum.splits)

text \<open>What the retried operation leaves alone.\<close>

definition untouched :: "'k world \<Rightarrow> 'k world \<Rightarrow> bool" where
  "untouched w w' \<longleftrightarrow> w_redis w' = w_redis w \<and> w_kafka w' = w_kafka w \<and> w_dlq w' = w_dlq w \<and>
     w_inflight w' = w_inflight w"

lemma handle_untouched: "handle mp we e m n w = (r, w') \<Longrightarrow> untouched w w'"
  by (auto simp: handle_def untouched_def Let_def split: option.splits prod.splits sum.splits)

lemma handle_with_retry_untouched:
  assumes "handle_with_retry mp we e m w = (r, w')"
  shows "untouched w w'"
proof (cases "resolve_handler (mp_handlers mp) (ev_event_type e)")
  case (Inl x)
  with assms show ?thesis by (simp add: handle_with_retry_def untouched_def)
next
  case (Inr t)
  with assms have "retry_loop (handle mp we e m) (mp_retry mp) (wait_for we) (we_rng we) on_retry
      (maximum_attempts (mp_retry mp)) 0 w = (r, w')"
    by (simp add: handle_with_retry_def run_with_retry_def)
  then show ?thesis
  proof (rule retry_loop_inv [where I = "untouched w", rotated -1])
    show "untouched w w" by (simp add: untouched_def)
    show "untouched w s'" if "untouched w s" "handle mp we e m n s = (q, s')" for n s q s'
      using that(1) handle_untouched [OF that(2)] by (simp add: untouched_def)
  qed (simp_all add: untouched_def on_retry_def wait_for_def)
qed

lemma handle_with_retry_last:
  assumes "handle_with_retry mp we e m w = (r, w')" "0 < maximum_attempts (mp_retry mp)"
  obtains (unhandled) x where "r = Inl x" "w' = w" "exn_class x = PermanentProcessingError"
  | (success) pr n w0 where "r = Inr (pr, n)" "handle mp we e m n w0 = (Inr pr, w')"
  | (failure) x n w0 where "r = Inl x" "handle mp we e m n w0 = (Inl x, w')"
proof (cases "resolve_handler (mp_handlers mp) (ev_event_type e)")
  case (Inl x)
  with assms unhandled show thesis
    by (auto simp: handle_with_retry_def resolve_handler_def split: if_splits)
next
  case (Inr t)
  let ?op = "handle mp we e m" and ?p = "mp_retry mp"
  let ?start = "\<lambda>k. attempt_state ?op ?p (wait_for we) (we_rng we) on_retry k w"
  from Inr assms(1) have "retry_loop ?op ?p (wait_for we) (we_rng we) on_retry (maximum_attempts ?p) 0 w = (r, w')"
    by (simp add: handle_with_retry_def run_with_retry_def)
  with retry_loop_outcome [OF assms(2), of 0 ?p ?op "wait_for we" "we_rng we" on_retry w]
  obtain k where k: "settles ?p k (?op k (?start (k - 1))) (r, w')" by auto
  obtain q s where q: "?op k (?start (k - 1)) = (q, s)" by force
  show thesis
  proof (cases q)
    case (Inl x)
    with k q show thesis by (intro failure [of x k "?start (k - 1)"]) (auto simp: settles_def)
  next
    case (Inr pr)
    with k q show thesis by (intro success [of pr k "?start (k - 1)"]) (auto simp: settles_def)
  qed
qed

section \<open>Durability\<close>

text \<open>A record is durable when its event is in the ledger with its content, or when the dead-letter
  topic holds a dead letter built from it.\<close>

definition durable :: "message_processor \<Rightarrow> consumed_message \<Rightarrow> db \<Rightarrow> dlq_message list \<Rightarrow> bool" where
  "durable mp m d letters \<longleftrightarrow>
     (\<exists>e. validate_message (mp_codec mp) m = Inr e \<and> recorded (mp_store mp) e d) \<or>
     (\<exists>we err n. dlq_message_of (mp_dlq_topic mp) (dead_letter_record mp we m err n) \<in> set letters)"

lemma validated_wf: "validate_message cx m = Inr e \<Longrightarrow> event_wf e"
  by (erule validate_message_Inr) (auto dest: validate_body_Inr parse_event_wf)

lemma handle_records:
  assumes "handle mp we e m n w = (Inr pr, w')" "mp_persistence mp = Some uc" "event_wf e"
  shows "recorded (mp_store mp) e (w_db w')"
  using assms by (auto simp: handle_def Let_def split: prod.splits sum.splits dest: persist_records)

lemma handle_with_retry_records:
  assumes "handle_with_retry mp we e m w = (Inr (pr, n), w')" "mp_persistence mp = Some uc" "event_wf e"
    and "0 < maximum_attempts (mp_retry mp)"
  shows "recorded (mp_store mp) e (w_db w')"
  using assms(1,4) by (cases rule: handle_with_retry_last) (use assms(2,3) handle_records in auto)

section \<open>Commits\<close>

lemma commit_cases:
  assumes "commit committer m w = (r, w')"
  shows "w_kafka w' = snd (committer m (w_kafka w)) \<and> r = fst (committer m (w_kafka w)) \<and>
    w_db w' = w_db w \<and> w_dlq w' = w_dlq w \<and> w_redis w' = w_redis w \<and> w_inflight w' = w_inflight w"
  using assms by (auto simp: commit_def split: prod.splits sum.splits)

text \<open>The two ways a step of the processor ends: without a call of the committer and without a
  terminal outcome, or with one call, the record being durable, and the outcome decided by that
  call.\<close>

definition settled ::
  "message_processor \<Rightarrow> 'k committer \<Rightarrow> consumed_message \<Rightarrow> 'k \<Rightarrow> exn + processing_outcome \<Rightarrow> 'k world \<Rightarrow> bool" where
  "settled mp committer m k r w' \<longleftrightarrow>
     w_kafka w' = k \<and> (\<forall>out. r = Inr out \<longrightarrow> \<not> terminal out) \<or>
     w_kafka w' = snd (committer m k) \<and> durable mp m (w_db w') (w_dlq w') \<and>
       (case fst (committer m k) of Inl x \<Rightarrow> r = Inl x | Inr _ \<Rightarrow> \<exists>out. r = Inr out \<and> terminal out)"

lemma settled_idle: "w_kafka w' = k \<Longrightarrow> (\<And>out. r = Inr out \<Longrightarrow> \<not> terminal out) \<Longrightarrow> settled mp committer m k r w'"
  by (simp add: settled_def)

text \<open>The end of a branch, after the committer returned.\<close>

definition finishes :: "'k world \<Rightarrow> (exn + processing_outcome) \<times> 'k world \<Rightarrow> bool" where
  "finishes w r \<longleftrightarrow> w_kafka (snd r) = w_kafka w \<and> w_db (snd r) = w_db w \<and> w_dlq (snd r) = w_dlq w \<and>
     (\<exists>out. fst r = Inr out \<and> terminal out)"

lemma finishes_ends [simp]:
  "finishes w (finish_duplicate mp e b w)" "finishes w (finish_processed we e n w)"
  "finishes w (Inr (outcome DLQ n None), tally Dlq_records w)"
  by (simp_all add: finishes_def finish_duplicate_def finish_processed_def terminal_def Let_def)

lemma settled_commit:
  assumes "bind_ex (commit committer m w) f = (r, w')" "durable mp m (w_db w) (w_dlq w)"
    and "\<And>w1. finishes w1 (f () w1)"
  shows "settled mp committer m (w_kafka w) r w'"
  using assms(1)
proof (cases rule: bind_ex_cases)
  case (raised x)
  with commit_cases [of committer m w "Inl x" w'] assms(2) show ?thesis
    by (auto simp: settled_def split: sum.splits)
next
  case (returned a w1)
  with commit_cases [of committer m w "Inr a" w1] assms(2) assms(3) [of w1] show ?thesis
    by (auto simp: settled_def finishes_def split: sum.splits)
qed

lemma settled_transfer:
  assumes "settled mp committer m k r w1" "w_kafka w2 = w_kafka w1" "w_db w2 = w_db w1" "w_dlq w2 = w_dlq w1"
  shows "settled mp committer m k r w2"
  using assms by (simp add: settled_def)

lemma dead_letter_settled:
  assumes "dead_letter mp we committer m err n w = (r, w')"
  shows "settled mp committer m (w_kafka w) r w'"
proof -
  let ?rec = "dead_letter_record mp we m err n"
  obtain q stored where p: "publish (mp_dlq_topic mp) (we_dlq we) ?rec (w_dlq w) = (q, stored)" by force
  show ?thesis
  proof (cases q)
    case (Inl x)
    with assms p show ?thesis
      by (intro settled_idle) (auto simp: dead_letter_def terminal_def split: if_splits)
  next
    case (Inr u)
    have "stored = w_dlq w @ [dlq_message_of (mp_dlq_topic mp) ?rec]"
      using publish_stored(2) [OF p] Inr by simp
    then have dur: "durable mp m (w_db (w\<lparr>w_dlq := stored\<rparr>)) (w_dlq (w\<lparr>w_dlq := stored\<rparr>))"
      by (auto simp: durable_def)
    have "bind_ex (commit committer m (w\<lparr>w_dlq := stored\<rparr>))
        (\<lambda>_ w1. (Inr (outcome DLQ n None), tally Dlq_records w1)) = (r, w')"
      using assms p Inr by (simp add: dead_letter_def)
    from settled_commit [OF this dur] show ?thesis by simp
  qed
qed

lemma give_up_settled:
  assumes "give_up mp we committer e m x w = (r, w')"
  shows "settled mp committer m (w_kafka w) r w'"
proof -
  have "settled mp committer m (w_kafka w) r w'"
    if "dead_letter mp we committer m err n w1 = (r, w')" "w_kafka w1 = w_kafka w" for err n w1
    using dead_letter_settled [OF that(1)] that(2) by simp
  with assms show ?thesis
    by (auto simp: give_up_def Let_def intro: settled_idle split: if_splits)
qed

lemma process_reserved_settled:
  assumes "process_reserved mp we committer e m w = (r, w')" "mp_persistence mp = Some uc"
    and "validate_message (mp_codec mp) m = Inr e" "0 < maximum_attempts (mp_retry mp)"
  shows "settled mp committer m (w_kafka w) r w'"
proof -
  obtain q w1 where h: "handle_with_retry mp we e m w = (q, w1)" by force
  have k: "w_kafka w1 = w_kafka w" using handle_with_retry_untouched [OF h] by (simp add: untouched_def)
  show ?thesis
  proof (cases q)
    case (Inl x)
    with assms(1) h k give_up_settled [of mp we committer e m x w1 r w'] show ?thesis
      by (simp add: process_reserved_def)
  next
    case (Inr a)
    obtain pr n where a: "a = (pr, n)" by force
    have dur: "durable mp m (w_db w1) l" for l
      using handle_with_retry_records [of mp we e m w pr n w1 uc] h Inr a assms(2-4) validated_wf
      by (auto simp: durable_def)
    let ?w2 = "record_persistence mp pr w1"
    obtain c rd where c: "complete (mp_lease mp) (we_complete we) (we_complete_at we) (ev_event_id e) (we_token we)
        (we_completed_at we) (w_redis ?w2) = (c, rd)" by force
    show ?thesis
    proof (cases "c = Inr True")
      case False
      with assms(1) h Inr a c k show ?thesis
        by (intro settled_idle) (auto simp: process_reserved_def Let_def terminal_def split: sum.splits bool.splits)
    next
      case True
      then have "bind_ex (commit committer m (?w2\<lparr>w_redis := rd\<rparr>)) (\<lambda>_. finish_processed we e n) = (r, w')"
        using assms(1) h Inr a c by (simp add: process_reserved_def Let_def)
      from settled_commit [OF this] k dur show ?thesis by simp
    qed
  qed
qed

lemma persist_with_retry_settled:
  assumes "persist_with_retry mp we committer e m w = (q, w')"
  shows "case q of Inl x \<Rightarrow> settled mp committer m (w_kafka w) (Inl x) w'
    | Inr (Inr out) \<Rightarrow> settled mp committer m (w_kafka w) (Inr out) w'
    | Inr (Inl pr) \<Rightarrow> \<exists>n. handle_with_retry mp we e m w = (Inr (pr, n), w')"
proof -
  obtain h w1 where h: "handle_with_retry mp we e m w = (h, w1)" by force
  have k: "w_kafka w1 = w_kafka w" using handle_with_retry_untouched [OF h] by (simp add: untouched_def)
  have dead: "case q of Inl x \<Rightarrow> settled mp committer m (w_kafka w) (Inl x) w'
      | Inr (Inr out) \<Rightarrow> settled mp committer m (w_kafka w) (Inr out) w' | Inr (Inl pr) \<Rightarrow> False"
    if "bind_ex (dead_letter mp we committer m err n w2) (\<lambda>out w2. (Inr (Inr out), w2)) = (q, w')"
      "w_kafka w2 = w_kafka w" for err n w2
    using that(1) by (cases rule: bind_ex_cases) (use dead_letter_settled that(2) in force)+
  show ?thesis
  proof (cases h)
    case (Inr a)
    with assms h show ?thesis by (cases a) (auto simp: persist_with_retry_def)
  next
    case (Inl x)
    show ?thesis
    proof (cases "isinstance x PermanentProcessingError \<or> isinstance x RetryableProcessingError")
      case True
      then obtain err n w2 where "w_kafka w2 = w_kafka w"
        "bind_ex (dead_letter mp we committer m err n w2) (\<lambda>out w2. (Inr (Inr out), w2)) = (q, w')"
        using assms h Inl k by (auto simp: persist_with_retry_def split: if_splits intro: that [rotated])
      from dead [OF this(2,1)] show ?thesis by (auto split: sum.splits)
    next
      case False
      with assms h Inl k show ?thesis by (auto simp: persist_with_retry_def intro: settled_idle)
    qed
  qed
qed

lemma process_completed_settled:
  assumes "process_completed mp we committer e m w = (r, w')" "mp_persistence mp = Some uc"
    and "validate_message (mp_codec mp) m = Inr e" "0 < maximum_attempts (mp_retry mp)"
  shows "settled mp committer m (w_kafka w) r w'"
proof -
  obtain q w1 where p: "persist_with_retry mp we committer e m w = (q, w1)" by force
  note s = persist_with_retry_settled [OF p]
  show ?thesis
  proof (cases "\<exists>pr. q = Inr (Inl pr)")
    case False
    with s assms(1,2) p show ?thesis by (auto simp: process_completed_def split: sum.splits)
  next
    case True
    then obtain pr n where q: "q = Inr (Inl pr)" and h: "handle_with_retry mp we e m w = (Inr (pr, n), w1)"
      using s by auto
    have k: "w_kafka w1 = w_kafka w" using handle_with_retry_untouched [OF h] by (simp add: untouched_def)
    let ?w2 = "if pr_already_persisted pr then w1 else record_persistence mp pr w1"
    have dur: "durable mp m (w_db ?w2) (w_dlq ?w2)"
      using handle_with_retry_records [OF h assms(2) validated_wf [OF assms(3)] assms(4)] assms(3)
      by (auto simp: durable_def)
    have "bind_ex (commit committer m ?w2) (\<lambda>_. finish_duplicate mp e (pr_already_persisted pr)) = (r, w')"
      using assms(1,2) p q by (simp add: process_completed_def)
    from settled_commit [OF this dur] k show ?thesis by (simp split: if_splits)
  qed
qed

lemma process_settled:
  assumes "process mp we committer m w = (r, w')" "mp_persistence mp = Some uc"
    and "0 < maximum_attempts (mp_retry mp)"
  shows "settled mp committer m (w_kafka w) r w'"
proof (cases "validate_message (mp_codec mp) m")
  case (Inl err)
  let ?w1 = "tally Consumed_records (w\<lparr>w_inflight := w_inflight w + 1\<rparr>)"
  let ?w2 = "?w1\<lparr>w_summary := (w_summary ?w1)\<lparr>su_validation_failures :=
    (su_validation_failures (w_summary ?w1))(vi_category err := su_validation_failures (w_summary ?w1) (vi_category err) + 1)\<rparr>\<rparr>"
  have k: "w_kafka ?w2 = w_kafka w" by simp
  have b: "bind_ex (dead_letter mp we committer m err 1 ?w2) (\<lambda>out w3. (Inr out, observe_terminal w3)) = (r, w')"
    using assms(1) Inl by (simp add: process_def Let_def)
  from b show ?thesis
  proof (cases rule: bind_ex_cases)
    case (raised x)
    with dead_letter_settled k show ?thesis by metis
  next
    case (returned out w3)
    with settled_transfer [OF dead_letter_settled [OF returned(1)], of w'] k show ?thesis by auto
  qed
next
  case (Inr e)
  let ?w2 = "tally Valid_records (tally Consumed_records (w\<lparr>w_inflight := w_inflight w + 1\<rparr>))"
  obtain q rd where res: "reserve (mp_lease mp) (we_reserve we) (we_reserve_at we) (ev_event_id e) (we_token we)
      (cm_topic m, cm_partition m, cm_offset m) (we_first_seen_at we) (w_redis ?w2) = (q, rd)" by force
  show ?thesis
  proof (cases q)
    case l: (Inl x)
    with assms(1) Inr res show ?thesis
      by (intro settled_idle) (auto simp: process_def Let_def terminal_def)
  next
    case r: (Inr rv)
    let ?w3 = "?w2\<lparr>w_redis := rd\<rparr>"
    show ?thesis
    proof (cases "rs_state rv")
      case RESERVED
      with assms(1) Inr res r have "process_reserved mp we committer e m ?w3 = (r, w')"
        by (simp add: process_def Let_def)
      from process_reserved_settled [OF this assms(2) Inr assms(3)] show ?thesis by simp
    next
      case COMPLETED
      with assms(1) Inr res r have "process_completed mp we committer e m ?w3 = (r, w')"
        by (simp add: process_def Let_def)
      from process_completed_settled [OF this assms(2) Inr assms(3)] show ?thesis by simp
    next
      case PROCESSING
      with assms(1) Inr res r show ?thesis
        by (intro settled_idle) (auto simp: process_def Let_def terminal_def)
    qed
  qed
qed

section \<open>Exceptions\<close>

text \<open>An exception of the processor that none of its handlers catches.\<close>

definition escapes :: "'k committer \<Rightarrow> weather \<Rightarrow> consumed_message \<Rightarrow> 'k \<Rightarrow> exn \<Rightarrow> bool" where
  "escapes committer we m k x \<longleftrightarrow> fst (committer m k) = Inl x \<or>
     (\<exists>stored. we_dlq we = Produce_raises x stored \<and> \<not> isinstance x PyBufferError \<and> \<not> isinstance x PyRuntimeError)"

lemma commit_raises: "commit committer m w = (Inl x, w') \<Longrightarrow> fst (committer m (w_kafka w)) = Inl x"
  using commit_cases [of committer m w "Inl x" w'] by simp

lemma dead_letter_raises:
  assumes "dead_letter mp we committer m err n w = (Inl x, w')"
  shows "escapes committer we m (w_kafka w) x"
  using assms
  by (auto simp: dead_letter_def publish_def escapes_def Let_def bind_ex_def dest!: commit_raises
      split: dlq_call.splits if_splits prod.splits sum.splits)

lemma handle_with_retry_raises:
  assumes "handle_with_retry mp we e m w = (Inl x, w')" "mp_persistence mp = Some uc" "uow_wf uc"
    and "0 < maximum_attempts (mp_retry mp)"
  shows "isinstance x RetryableProcessingError \<or> isinstance x PermanentProcessingError"
  using assms(1,4)
proof (cases rule: handle_with_retry_last)
  case (unhandled y)
  then show ?thesis by (cases y) simp
next
  case (success pr n w0)
  then show ?thesis by simp
next
  case (failure y n w0)
  then show ?thesis
    using assms(2) persist_exn_wf [OF assms(3)]
    by (auto simp: handle_def Let_def split: prod.splits sum.splits)
qed

lemma give_up_raises:
  assumes "give_up mp we committer e m y w = (Inl x, w')"
    and "isinstance y RetryableProcessingError \<or> isinstance y PermanentProcessingError"
  shows "escapes committer we m (w_kafka w) x"
proof -
  have "escapes committer we m (w_kafka w) x"
    if "dead_letter mp we committer m err n w1 = (Inl x, w')" "w_kafka w1 = w_kafka w" for err n w1
    using dead_letter_raises [OF that(1)] that(2) by simp
  with assms show ?thesis by (auto simp: give_up_def Let_def split: if_splits)
qed

lemma finish_returns: "fst (finish_duplicate mp e b w) \<noteq> Inl x" "fst (finish_processed we e n w) \<noteq> Inl x"
  by (simp_all add: finish_duplicate_def finish_processed_def Let_def)

lemma commit_then_raises:
  assumes "bind_ex (commit committer m w) f = (Inl x, w')" "\<And>a w1. fst (f a w1) \<noteq> Inl x"
  shows "escapes committer we m (w_kafka w) x"
  using assms(1)
proof (cases rule: bind_ex_cases)
  case (raised y)
  with commit_raises [of committer m w y w'] show ?thesis by (simp add: escapes_def)
next
  case (returned a w1)
  with assms(2) [of a w1] show ?thesis by simp
qed

lemma process_reserved_raises:
  assumes "process_reserved mp we committer e m w = (Inl x, w')" "mp_persistence mp = Some uc" "uow_wf uc"
    and "0 < maximum_attempts (mp_retry mp)"
  shows "escapes committer we m (w_kafka w) x"
proof -
  obtain q w1 where h: "handle_with_retry mp we e m w = (q, w1)" by force
  have k: "w_kafka w1 = w_kafka w" using handle_with_retry_untouched [OF h] by (simp add: untouched_def)
  show ?thesis
  proof (cases q)
    case (Inl y)
    with assms(1) h have "give_up mp we committer e m y w1 = (Inl x, w')" by (simp add: process_reserved_def)
    from give_up_raises [OF this] handle_with_retry_raises [of mp we e m w y w1] h Inl assms(2-4) k
    show ?thesis by simp
  next
    case (Inr a)
    obtain pr n where a: "a = (pr, n)" by force
    then obtain rd where "bind_ex (commit committer m ((record_persistence mp pr w1)\<lparr>w_redis := rd\<rparr>))
        (\<lambda>_. finish_processed we e n) = (Inl x, w')"
      using assms(1) h Inr by (auto simp: process_reserved_def Let_def split: prod.splits sum.splits bool.splits)
    from commit_then_raises [OF this finish_returns(2), where we = we] k show ?thesis by simp
  qed
qed

lemma process_completed_raises:
  assumes "process_completed mp we committer e m w = (Inl x, w')" "mp_persistence mp = Some uc" "uow_wf uc"
    and "0 < maximum_attempts (mp_retry mp)"
  shows "escapes committer we m (w_kafka w) x"
proof -
  obtain q w1 where h: "handle_with_retry mp we e m w = (q, w1)" by force
  have k: "w_kafka w1 = w_kafka w" using handle_with_retry_untouched [OF h] by (simp add: untouched_def)
  have dead: "escapes committer we m (w_kafka w) x"
    if "dead_letter mp we committer m err n w2 = (Inl x, w')" "w_kafka w2 = w_kafka w" for err n w2
    using dead_letter_raises [OF that(1)] that(2) by simp
  show ?thesis
  proof (cases q)
    case (Inl y)
    have "isinstance y RetryableProcessingError \<or> isinstance y PermanentProcessingError"
      using handle_with_retry_raises [of mp we e m w y w1] h Inl assms(2-4) by simp
    with assms(1,2) h Inl k dead show ?thesis
      by (fastforce simp: process_completed_def persist_with_retry_def elim!: bind_ex_cases split: if_splits)
  next
    case (Inr a)
    obtain pr n where a: "a = (pr, n)" by force
    let ?w2 = "if pr_already_persisted pr then w1 else record_persistence mp pr w1"
    have "bind_ex (commit committer m ?w2) (\<lambda>_. finish_duplicate mp e (pr_already_persisted pr)) = (Inl x, w')"
      using assms(1,2) h Inr a by (simp add: process_completed_def persist_with_retry_def)
    from commit_then_raises [OF this finish_returns(1), where we = we] k show ?thesis by (simp split: if_splits)
  qed
qed

lemma process_raises:
  assumes "process mp we committer m w = (Inl x, w')" "mp_persistence mp = Some uc" "uow_wf uc"
    and "0 < maximum_attempts (mp_retry mp)"
  shows "escapes committer we m (w_kafka w) x"
proof (cases "validate_message (mp_codec mp) m")
  case (Inl err)
  have dead: "escapes committer we m (w_kafka w) x"
    if "dead_letter mp we committer m err n w2 = (Inl x, w')" "w_kafka w2 = w_kafka w" for n w2
    using dead_letter_raises [OF that(1)] that(2) by simp
  from assms(1) Inl show ?thesis
    by (auto simp: process_def Let_def elim!: bind_ex_cases intro: dead)
next
  case (Inr e)
  then obtain w3 where "w_kafka w3 = w_kafka w" "process_reserved mp we committer e m w3 = (Inl x, w') \<or>
      process_completed mp we committer e m w3 = (Inl x, w')"
    using assms(1)
    by (auto simp: process_def Let_def split: prod.splits sum.splits reservation_state.splits intro: that [rotated])
  with process_reserved_raises [OF _ assms(2-4)] process_completed_raises [OF _ assms(2-4)] show ?thesis
    by metis
qed

section \<open>The database as a sequence of attempts\<close>

text \<open>A database that a run of attempts leads to from another one.\<close>

definition reaches :: "store_env \<Rightarrow> uow_config \<Rightarrow> db \<Rightarrow> db \<Rightarrow> bool" where
  "reaches v uc d d' \<longleftrightarrow>
     (\<exists>as rs. run_attempts v uc as d = (rs, d') \<and> (\<forall>a \<in> set as. event_wf (at_event a)))"

lemma reaches_refl [simp]: "reaches v uc d d"
  unfolding reaches_def by (rule exI [of _ "[]"]) simp

lemma run_attempts_append:
  "run_attempts v uc (as @ bs) d =
     (case run_attempts v uc as d of (rs, d1) \<Rightarrow> case run_attempts v uc bs d1 of (rs', d2) \<Rightarrow> (rs @ rs', d2))"
  by (induction as arbitrary: d) (auto split: prod.splits)

lemma reaches_trans: "reaches v uc a b \<Longrightarrow> reaches v uc b c \<Longrightarrow> reaches v uc a c"
  unfolding reaches_def
proof (elim exE conjE)
  fix as rs bs rs'
  assume "run_attempts v uc as a = (rs, b)" "run_attempts v uc bs b = (rs', c)"
    "\<forall>x \<in> set as. event_wf (at_event x)" "\<forall>x \<in> set bs. event_wf (at_event x)"
  then show "\<exists>as rs. run_attempts v uc as a = (rs, c) \<and> (\<forall>x \<in> set as. event_wf (at_event x))"
    by (intro exI [of _ "as @ bs"]) (auto simp: run_attempts_append)
qed

lemma reaches_persist:
  assumes "persist v uc fault now dur e m cn d = (r, d')" "event_wf e"
  shows "reaches v uc d d'"
  unfolding reaches_def
  by (rule exI [of _ "[\<lparr>at_fault = fault, at_now = now, at_duration = dur, at_event = e, at_message = m,
      at_context = cn\<rparr>]"]) (simp add: assms)

lemma reaches_recorded: "reaches v uc d d' \<Longrightarrow> recorded v e d \<Longrightarrow> recorded v e d'"
  unfolding reaches_def using run_attempts_grows recorded_append by blast

text \<open>Other instances change the database only by attempts of their own.\<close>

definition meanwhile_ok :: "message_processor \<Rightarrow> weather \<Rightarrow> bool" where
  "meanwhile_ok mp we \<longleftrightarrow>
     (\<forall>uc s d. mp_persistence mp = Some uc \<longrightarrow> reaches (mp_store mp) uc d (we_meanwhile we s d))"

lemma handle_reaches:
  assumes "handle mp we e m n w = (r, w')" "mp_persistence mp = Some uc" "event_wf e"
  shows "reaches (mp_store mp) uc (w_db w) (w_db w')"
  using assms by (auto simp: handle_def Let_def split: prod.splits sum.splits dest: reaches_persist)

lemma handle_with_retry_reaches:
  assumes "handle_with_retry mp we e m w = (r, w')" "mp_persistence mp = Some uc" "event_wf e"
    and "meanwhile_ok mp we"
  shows "reaches (mp_store mp) uc (w_db w) (w_db w')"
proof (cases "resolve_handler (mp_handlers mp) (ev_event_type e)")
  case (Inl x)
  with assms show ?thesis by (simp add: handle_with_retry_def)
next
  case (Inr t)
  with assms have loop: "retry_loop (handle mp we e m) (mp_retry mp) (wait_for we) (we_rng we) on_retry
      (maximum_attempts (mp_retry mp)) 0 w = (r, w')"
    by (simp add: handle_with_retry_def run_with_retry_def)
  show ?thesis
  proof (rule retry_loop_inv [where I = "\<lambda>s. reaches (mp_store mp) uc (w_db w) (w_db s)", OF _ _ _ _ loop])
    show "reaches (mp_store mp) uc (w_db w) (w_db s')"
      if "reaches (mp_store mp) uc (w_db w) (w_db s)" "handle mp we e m n s = (q, s')" for n s q s'
      using that(1) handle_reaches [OF that(2) assms(2,3)] by (rule reaches_trans)
    show "reaches (mp_store mp) uc (w_db w) (w_db (wait_for we t s))"
      if "reaches (mp_store mp) uc (w_db w) (w_db s)" for t s
      using that assms(2,4) by (auto simp: wait_for_def meanwhile_ok_def intro: reaches_trans)
  qed (simp_all add: on_retry_def)
qed

lemma dead_letter_db:
  assumes "dead_letter mp we committer m err n w = (r, w')"
  shows "w_db w' = w_db w \<and> (\<exists>ls. w_dlq w' = w_dlq w @ ls)"
proof -
  obtain q stored where p: "publish (mp_dlq_topic mp) (we_dlq we) (dead_letter_record mp we m err n) (w_dlq w) = (q, stored)"
    by force
  note st = publish_stored(1) [OF p]
  show ?thesis
    using assms p st
    by (auto simp: dead_letter_def bind_ex_def split: sum.splits if_splits prod.splits dest!: commit_cases)
qed

text \<open>One call of the processor: the database moves by attempts and the dead-letter topic grows.\<close>

definition progresses :: "message_processor \<Rightarrow> uow_config \<Rightarrow> 'k world \<Rightarrow> 'k world \<Rightarrow> bool" where
  "progresses mp uc w w' \<longleftrightarrow> reaches (mp_store mp) uc (w_db w) (w_db w') \<and> (\<exists>ls. w_dlq w' = w_dlq w @ ls)"

lemma progresses_refl: "w_db w' = w_db w \<Longrightarrow> w_dlq w' = w_dlq w \<Longrightarrow> progresses mp uc w w'"
  by (simp add: progresses_def)

lemma progresses_trans: "progresses mp uc a b \<Longrightarrow> progresses mp uc b c \<Longrightarrow> progresses mp uc a c"
  by (auto simp: progresses_def intro: reaches_trans)

lemma progresses_dead_letter:
  "dead_letter mp we committer m err n w1 = (r, w') \<Longrightarrow> progresses mp uc w w1 \<Longrightarrow> progresses mp uc w w'"
  by (auto simp: progresses_def dest!: dead_letter_db)

lemma progresses_frame:
  "progresses mp uc w w1 \<Longrightarrow> w_db w2 = w_db w1 \<Longrightarrow> w_dlq w2 = w_dlq w1 \<Longrightarrow> progresses mp uc w w2"
  by (simp add: progresses_def)

lemma progresses_commit:
  assumes "bind_ex (commit committer m w1) f = (r, w')" "progresses mp uc w w1"
    and "\<And>w2. w_db (snd (f () w2)) = w_db w2 \<and> w_dlq (snd (f () w2)) = w_dlq w2"
  shows "progresses mp uc w w'"
  using assms(1)
proof (cases rule: bind_ex_cases)
  case (raised x)
  with assms(2) commit_cases [of committer m w1 "Inl x" w'] show ?thesis by (auto intro: progresses_frame)
next
  case (returned a w2)
  with assms(2) commit_cases [of committer m w1 "Inr a" w2] assms(3) [of w2] show ?thesis
    by (auto intro: progresses_frame)
qed

lemma finish_frames:
  "w_db (snd (finish_duplicate mp e b w)) = w_db w" "w_dlq (snd (finish_duplicate mp e b w)) = w_dlq w"
  "w_db (snd (finish_processed we e n w)) = w_db w" "w_dlq (snd (finish_processed we e n w)) = w_dlq w"
  by (simp_all add: finish_duplicate_def finish_processed_def Let_def)

lemma handle_with_retry_progresses:
  assumes "handle_with_retry mp we e m w = (r, w')" "mp_persistence mp = Some uc" "event_wf e" "meanwhile_ok mp we"
  shows "progresses mp uc w w'"
  using handle_with_retry_reaches [OF assms] handle_with_retry_untouched [OF assms(1)]
  by (simp add: progresses_def untouched_def)

lemma process_reserved_progresses:
  assumes "process_reserved mp we committer e m w = (r, w')" "mp_persistence mp = Some uc" "event_wf e" "meanwhile_ok mp we"
  shows "progresses mp uc w w'"
proof -
  obtain q w1 where h: "handle_with_retry mp we e m w = (q, w1)" by force
  note p = handle_with_retry_progresses [OF h assms(2-4)]
  show ?thesis
  proof (cases q)
    case (Inl x)
    have "progresses mp uc w w'" if "dead_letter mp we committer m err n w2 = (r, w')" "w_db w2 = w_db w1" "w_dlq w2 = w_dlq w1"
      for err n w2 using progresses_dead_letter [OF that(1)] progresses_frame [OF p that(2,3)] by blast
    with assms(1) h Inl p show ?thesis
      by (auto simp: process_reserved_def give_up_def Let_def split: if_splits)
  next
    case (Inr a)
    obtain pr n where a: "a = (pr, n)" by force
    let ?w2 = "record_persistence mp pr w1"
    have "progresses mp uc w (?w2\<lparr>w_redis := rd\<rparr>)" for rd using p by (rule progresses_frame) simp_all
    with assms(1) h Inr a p show ?thesis
      by (auto simp: process_reserved_def Let_def finish_frames split: prod.splits sum.splits bool.splits
          elim!: progresses_commit intro: progresses_frame)
  qed
qed

lemma process_completed_progresses:
  assumes "process_completed mp we committer e m w = (r, w')" "mp_persistence mp = Some uc" "event_wf e" "meanwhile_ok mp we"
  shows "progresses mp uc w w'"
proof -
  obtain q w1 where h: "handle_with_retry mp we e m w = (q, w1)" by force
  note p = handle_with_retry_progresses [OF h assms(2-4)]
  show ?thesis
  proof (cases q)
    case (Inl x)
    have "progresses mp uc w w2" if "dead_letter mp we committer m err n w3 = (o', w2)" "w_db w3 = w_db w1" "w_dlq w3 = w_dlq w1"
      for err n w2 w3 o' using progresses_dead_letter [OF that(1)] progresses_frame [OF p that(2,3)] by blast
    with assms(1,2) h Inl p show ?thesis
      by (fastforce simp: process_completed_def persist_with_retry_def elim!: bind_ex_cases split: if_splits)
  next
    case (Inr a)
    obtain pr n where a: "a = (pr, n)" by force
    let ?w2 = "if pr_already_persisted pr then w1 else record_persistence mp pr w1"
    have "bind_ex (commit committer m ?w2) (\<lambda>_. finish_duplicate mp e (pr_already_persisted pr)) = (r, w')"
      using assms(1,2) h Inr a by (simp add: process_completed_def persist_with_retry_def)
    then show ?thesis
      by (rule progresses_commit) (auto simp: finish_frames intro: progresses_frame [OF p])
  qed
qed

lemma process_progresses:
  assumes "process mp we committer m w = (r, w')" "mp_persistence mp = Some uc" "meanwhile_ok mp we"
  shows "progresses mp uc w w'"
proof (cases "validate_message (mp_codec mp) m")
  case (Inl err)
  have "progresses mp uc w w2" if "dead_letter mp we committer m err n w3 = (o', w2)" "w_db w3 = w_db w" "w_dlq w3 = w_dlq w"
    for n w2 w3 o' using progresses_dead_letter [OF that(1)] progresses_refl [OF that(2,3)] by blast
  with assms(1) Inl show ?thesis
    by (fastforce simp: process_def Let_def elim!: bind_ex_cases intro: progresses_frame)
next
  case (Inr e)
  note wf = validated_wf [OF Inr]
  have r: "progresses mp uc w w2" if "process_reserved mp we committer e m w3 = (o', w2)" "w_db w3 = w_db w" "w_dlq w3 = w_dlq w"
    for w2 w3 o' using process_reserved_progresses [OF that(1) assms(2) wf assms(3)] that(2,3) by (simp add: progresses_def)
  have c: "progresses mp uc w w2" if "process_completed mp we committer e m w3 = (o', w2)" "w_db w3 = w_db w" "w_dlq w3 = w_dlq w"
    for w2 w3 o' using process_completed_progresses [OF that(1) assms(2) wf assms(3)] that(2,3) by (simp add: progresses_def)
  from assms(1) Inr show ?thesis
    by (auto simp: process_def Let_def split: prod.splits sum.splits reservation_state.splits
        intro: progresses_refl elim!: r c)
qed

lemma progresses_durable: "progresses mp uc w w' \<Longrightarrow> durable mp m (w_db w) (w_dlq w) \<Longrightarrow> durable mp m (w_db w') (w_dlq w')"
  by (auto simp: progresses_def durable_def dest: reaches_recorded)

section \<open>Runs without faults\<close>

lemma handle_known:
  assumes "mp_persistence mp = Some uc" "we_db_fault we n = No_fault"
    and "select_key pe_event_id (ev_event_id e) (t_processed_events (w_db w)) = Some r"
    and "pe_payload_sha256 r = canonical_payload_hash (mp_store mp) e"
  shows "\<exists>w'. handle mp we e m n w = (Inr (already_result (we_db_duration_ms we n)), w') \<and> w_db w' = w_db w"
  using assms tx_body_known [OF assms(3,4)]
  by (simp add: handle_def persist_def Let_def)

lemma handle_with_retry_first:
  assumes "handle mp we e m 1 w = (Inr pr, w')" "ev_event_type e \<in> set (mp_handlers mp)"
    and "0 < maximum_attempts (mp_retry mp)"
  shows "handle_with_retry mp we e m w = (Inr (pr, 1), w')"
  using assms
  by (cases "maximum_attempts (mp_retry mp)")
    (simp_all add: handle_with_retry_def resolve_handler_def run_with_retry_def Let_def)

lemma commit_returns:
  assumes "fst (committer m (w_kafka w)) = Inr ()"
  shows "\<exists>w'. commit committer m w = (Inr (), w') \<and> w_kafka w' = snd (committer m (w_kafka w)) \<and>
    w_db w' = w_db w \<and> w_dlq w' = w_dlq w"
  using assms by (auto simp: commit_def split: prod.splits)

text \<open>The end of a record whose transaction succeeded and whose lease is held until it is completed.\<close>

lemma process_reserved_finishes:
  assumes "handle_with_retry mp we e m w = (Inr (pr, n), w1)" "fst (committer m (w_kafka w)) = Inr ()"
    and "we_complete we = Answered"
    and "redis_get (we_complete_at we) (key_for (mp_lease mp) (ev_event_id e)) (w_redis w) =
      Some (Processing (we_token we) g tp p off seen)"
  shows "\<exists>w'. process_reserved mp we committer e m w = (Inr (outcome PROCESSED n (Some (ev_event_type e))), w') \<and>
    w_db w' = w_db w1 \<and> w_dlq w' = w_dlq w \<and> w_kafka w' = snd (committer m (w_kafka w))"
proof -
  have u: "w_redis w1 = w_redis w" "w_kafka w1 = w_kafka w" "w_dlq w1 = w_dlq w"
    using handle_with_retry_untouched [OF assms(1)] by (simp_all add: untouched_def)
  let ?w2 = "record_persistence mp pr w1"
  obtain rd where c: "complete (mp_lease mp) (we_complete we) (we_complete_at we) (ev_event_id e) (we_token we)
      (we_completed_at we) (w_redis ?w2) = (Inr True, rd)"
    using assms(3,4) u by (simp add: complete_def redis_eval_def complete_script_def)
  obtain w3 where w3: "commit committer m (?w2\<lparr>w_redis := rd\<rparr>) = (Inr (), w3)"
    "w_kafka w3 = snd (committer m (w_kafka w))" "w_db w3 = w_db w1" "w_dlq w3 = w_dlq w"
    using commit_returns [of committer m "?w2\<lparr>w_redis := rd\<rparr>"] assms(2) u by auto
  show ?thesis
    using assms(1) c w3 by (simp add: process_reserved_def finish_processed_def Let_def)
qed

text \<open>A record whose lease is free, and one whose lease is completed.\<close>

lemma process_reserves:
  assumes "validate_message (mp_codec mp) m = Inr e" "we_reserve we = Answered"
    and "redis_get (we_reserve_at we) (key_for (mp_lease mp) (ev_event_id e)) (w_redis w) = None"
    and "t < we_reserve_at we + lc_processing_ttl (mp_lease mp)"
  shows "\<exists>w3. process mp we committer m w = process_reserved mp we committer e m w3 \<and> w_db w3 = w_db w \<and>
    w_kafka w3 = w_kafka w \<and> w_dlq w3 = w_dlq w \<and> w_inflight w3 = w_inflight w + 1 \<and>
    redis_get t (key_for (mp_lease mp) (ev_event_id e)) (w_redis w3) =
      Some (Processing (we_token we) (lc_consumer_group (mp_lease mp)) (cm_topic m) (cm_partition m) (cm_offset m)
        (we_first_seen_at we))"
proof -
  let ?w2 = "tally Valid_records (tally Consumed_records (w\<lparr>w_inflight := w_inflight w + 1\<rparr>))"
  let ?v = "Processing (we_token we) (lc_consumer_group (mp_lease mp)) (cm_topic m) (cm_partition m) (cm_offset m)
    (we_first_seen_at we)"
  let ?w3 = "?w2\<lparr>w_redis := redis_set_ex (we_reserve_at we) (key_for (mp_lease mp) (ev_event_id e)) ?v
    (lc_processing_ttl (mp_lease mp)) (w_redis w)\<rparr>"
  have "process mp we committer m w = process_reserved mp we committer e m ?w3"
    using assms(1-3) by (simp add: process_def reserve_def redis_eval_def reserve_script_def Let_def)
  with assms(4) show ?thesis by (intro exI [of _ ?w3]) (simp add: redis_get_def redis_set_ex_def)
qed

lemma process_completes:
  assumes "validate_message (mp_codec mp) m = Inr e" "we_reserve we = Answered"
    and "redis_get (we_reserve_at we) (key_for (mp_lease mp) (ev_event_id e)) (w_redis w) = Some (Completed g c)"
  shows "\<exists>w3. process mp we committer m w = process_completed mp we committer e m w3 \<and> w_db w3 = w_db w \<and>
    w_kafka w3 = w_kafka w \<and> w_dlq w3 = w_dlq w"
proof -
  let ?w2 = "tally Valid_records (tally Consumed_records (w\<lparr>w_inflight := w_inflight w + 1\<rparr>))"
  have "process mp we committer m w = process_completed mp we committer e m (?w2\<lparr>w_redis := w_redis w\<rparr>)"
    using assms by (simp add: process_def reserve_def redis_eval_def reserve_script_def Let_def)
  then show ?thesis by auto
qed

section \<open>Properties\<close>

text \<open>C11: an offset is handed to the committer only when its record is durable. For any committer, any
  faults of Redis, the database and the dead-letter producer, and whatever other instances do
  meanwhile, one call of \<open>process\<close> either leaves the committer alone and reports no terminal
  outcome, or calls it exactly once, for this record, when the event is in the ledger with its
  content hash or a dead letter built from the record is in the dead-letter topic; then the call
  returns a terminal outcome if the committer returned, and raises the committer's exception if it
  raised.\<close>

theorem commit_only_durable:
  assumes "process mp we committer m w = (r, w')" and "mp_persistence mp = Some uc"
    and "0 < maximum_attempts (mp_retry mp)"
  shows "(w_kafka w' = w_kafka w \<and> (\<forall>out. r = Inr out \<longrightarrow> po_status out = UNRESOLVED)) \<or>
    (w_kafka w' = snd (committer m (w_kafka w)) \<and>
     ((\<exists>e. validate_message (mp_codec mp) m = Inr e \<and> recorded (mp_store mp) e (w_db w')) \<or>
      (\<exists>err n we'. dlq_message_of (mp_dlq_topic mp) (dead_letter_record mp we' m err n) \<in> set (w_dlq w'))) \<and>
     (case fst (committer m (w_kafka w)) of
        Inl x \<Rightarrow> r = Inl x
      | Inr _ \<Rightarrow> \<exists>out. r = Inr out \<and> po_status out \<noteq> UNRESOLVED))"
  using process_settled [OF assms] unfolding settled_def durable_def terminal_def by blast

text \<open>A processor and a quiet environment for the witnesses.\<close>

definition demo_processor :: message_processor where
  "demo_processor =
     \<lparr>mp_codec = demo_codec, mp_store = demo_env,
      mp_lease = \<lparr>lc_key_prefix = ''k'', lc_consumer_group = ''g'', lc_processing_ttl = 60, lc_completed_ttl = 600\<rparr>,
      mp_retry = \<lparr>maximum_attempts = 3, initial_backoff_ms = 100, maximum_backoff_ms = 1000, multiplier = 2,
        jitter_ratio = 0\<rparr>,
      mp_persistence = Some demo_uow, mp_handlers = event_types, mp_dlq_topic = ''dlq'',
      mp_consumer_group = ''g'', mp_instance_id = ''p'', mp_dlq_max_payload_bytes = 100, mp_slow_query_ms = 250\<rparr>"

definition demo_weather :: weather where
  "demo_weather =
     \<lparr>we_token = ''t1'', we_reserve = Answered, we_reserve_at = 0, we_first_seen_at = 0,
      we_db_fault = (\<lambda>_. No_fault), we_db_now = (\<lambda>_. 0), we_db_duration_ms = (\<lambda>_. 5), we_rng = (\<lambda>_. 0),
      we_meanwhile = (\<lambda>_ d. d), we_complete = Answered, we_complete_at = 1, we_completed_at = 0,
      we_release = Answered, we_release_at = 1, we_dlq = Flush_returns 0 [None] True, we_failed_at = 0,
      we_duration_ms = 7\<rparr>"

definition demo_world :: "consumed_message list world" where
  "demo_world =
     \<lparr>w_redis = (\<lambda>_. None), w_db = empty_db, w_kafka = [], w_dlq = [], w_summary = new_run_summary,
      w_inflight = 0\<rparr>"

text \<open>A committer that only notes the records, like the one of the worker pool.\<close>

definition noting :: "consumed_message list committer" where
  "noting m k = (Inr (), k @ [m])"

definition demo_delivery :: consumed_message where
  "demo_delivery = event_message ''body'' [] demo_event demo_record"

lemma demo_delivery_valid: "validate_message (mp_codec demo_processor) demo_delivery = Inr demo_event"
  by (simp add: demo_processor_def demo_delivery_def demo_validates)

lemma demo_processor_simps [simp]:
  "mp_persistence demo_processor = Some demo_uow" "maximum_attempts (mp_retry demo_processor) = 3"
  "mp_store demo_processor = demo_env" "mp_handlers demo_processor = event_types"
  by (simp_all add: demo_processor_def)

lemma demo_event_handles:
  assumes "w_db w = empty_db"
  shows "\<exists>pr w'. handle demo_processor demo_weather demo_event demo_delivery 1 w = (Inr pr, w')"
  using assms
  by (simp add: handle_def Let_def persist_def demo_weather_def tx_body_def insert_identity_def select_key_def
      exists_key_def empty_db_def demo_event_def envelope_of_def demo_input_def demo_payload_def apply_handler_def
      counted_def register_def fraud_stage_def FRAUD_ELIGIBLE_EVENT_TYPES_def deferred_ok_def ledger_row_def
      demo_delivery_def event_message_def demo_record_def)

theorem commit_only_durable_witness:
  "\<exists>out w'. process demo_processor demo_weather noting demo_delivery demo_world = (Inr out, w') \<and>
     po_status out = PROCESSED \<and> w_kafka w' = [demo_delivery] \<and>
     ((\<exists>e. validate_message demo_codec demo_delivery = Inr e \<and> recorded demo_env e (w_db w')) \<or>
      (\<exists>err n we'. dlq_message_of ''dlq'' (dead_letter_record demo_processor we' demo_delivery err n) \<in> set (w_dlq w')))"
proof -
  have free: "we_reserve demo_weather = Answered" "w_redis demo_world = (\<lambda>_. None)"
    "1 < we_reserve_at demo_weather + lc_processing_ttl (mp_lease demo_processor)"
    by (simp_all add: demo_weather_def demo_world_def demo_processor_def)
  obtain w3 where w3: "process demo_processor demo_weather noting demo_delivery demo_world =
      process_reserved demo_processor demo_weather noting demo_event demo_delivery w3"
    "w_db w3 = w_db demo_world" "w_kafka w3 = w_kafka demo_world"
    "redis_get 1 (key_for (mp_lease demo_processor) (ev_event_id demo_event)) (w_redis w3) =
       Some (Processing (we_token demo_weather) (lc_consumer_group (mp_lease demo_processor)) (cm_topic demo_delivery)
         (cm_partition demo_delivery) (cm_offset demo_delivery) (we_first_seen_at demo_weather))"
    using process_reserves [OF demo_delivery_valid free(1) _ free(3), of demo_world noting] free(2)
    by (auto simp: redis_get_def)
  obtain pr w1 where "handle demo_processor demo_weather demo_event demo_delivery 1 w3 = (Inr pr, w1)"
    using demo_event_handles [of w3] w3(2) by (auto simp: demo_world_def)
  then have h: "handle_with_retry demo_processor demo_weather demo_event demo_delivery w3 = (Inr (pr, 1), w1)"
    by (rule handle_with_retry_first) (simp_all add: event_types_all)
  obtain w' where p: "process demo_processor demo_weather noting demo_delivery demo_world =
      (Inr (outcome PROCESSED 1 (Some (ev_event_type demo_event))), w')" "w_kafka w' = [demo_delivery]"
    using process_reserved_finishes [OF h, of noting] w3 by (auto simp: noting_def demo_weather_def demo_world_def)
  from commit_only_durable [OF p(1)] p show ?thesis by (auto simp: demo_processor_def noting_def demo_world_def)
qed


definition refusing :: "consumed_message list committer" where
  "refusing m k = (Inl (Exn FatalInfrastructureError ''partition was revoked before commit''), k)"




lemma retry_absorbs:
  assumes "\<And>j s. d < j \<Longrightarrow> j < k \<Longrightarrow> I s \<Longrightarrow> \<exists>x s'. operation j s = (Inl x, s') \<and> I s' \<and> isinstance x RetryableProcessingError"
    and "\<And>s. I s \<Longrightarrow> \<exists>s'. operation k s = (Inr v, s') \<and> J s'"
    and "\<And>n e s. I s \<Longrightarrow> I (onr n e s)" and "\<And>t s. I s \<Longrightarrow> I (wt t s)"
    and "I s" "d < k" "d + left = maximum_attempts p" "k \<le> maximum_attempts p"
  shows "\<exists>s'. retry_loop operation p wt rng onr left d s = (Inr (v, k), s') \<and> J s'"
  using assms(1,5-8)
proof (induction left arbitrary: d s)
  case 0
  then show ?case by simp
next
  case (Suc left)
  show ?case
  proof (cases "Suc d = k")
    case True
    with assms(2) [OF Suc.prems(2)] show ?thesis by (auto simp: Let_def)
  next
    case False
    with Suc.prems obtain x s' where o: "operation (Suc d) s = (Inl x, s')" "I s'" "isinstance x RetryableProcessingError"
      by (metis Suc_lessI lessI)
    have "\<exists>s''. retry_loop operation p wt rng onr left (Suc d)
        (wt (backoff_seconds p (Suc d) (rng (Suc d))) (onr (Suc d) x s')) = (Inr (v, k), s'') \<and> J s''"
      by (rule Suc.IH) (use Suc.prems False o assms(3,4) in auto)
    with o False Suc.prems show ?thesis by (auto simp: Let_def)
  qed
qed

definition transient_fault :: "db_fault \<Rightarrow> bool" where
  "transient_fault f \<longleftrightarrow> f = Pool_timeout \<or>
     (\<exists>s. f = Aborted (Some s) \<and> isinstance (translate_sqlstate (Some s)) RetryableProcessingError)"

definition processing_context_of :: "message_processor \<Rightarrow> consumed_message \<Rightarrow> nat \<Rightarrow> processing_context" where
  "processing_context_of mp m n =
     \<lparr>cn_topic = cm_topic m, cn_partition = cm_partition m, cn_offset = cm_offset m,
      cn_consumer_group = mp_consumer_group mp, cn_processor_instance_id = mp_instance_id mp, cn_attempt = n\<rparr>"

text \<open>C14: transient database failures are absorbed. If the first \<open>k - 1\<close> attempts meet a pool timeout or
  a retryable SQLSTATE and the transaction then goes through in attempt \<open>k\<close>, within the configured
  bound, with a free lease that outlives the attempts and no interference, the record is processed
  in \<open>k\<close> attempts, its transaction is applied exactly as it would have been at once, and its
  offset is handed over.\<close>

theorem transient_faults_absorbed:
  assumes "validate_message (mp_codec mp) m = Inr e" and "mp_persistence mp = Some uc"
    and "ev_event_type e \<in> set (mp_handlers mp)" and "0 < k" and "k \<le> maximum_attempts (mp_retry mp)"
    and "\<And>j. 0 < j \<Longrightarrow> j < k \<Longrightarrow> transient_fault (we_db_fault we j)" and "we_db_fault we k = No_fault"
    and "tx_body (mp_store mp) uc (we_db_now we k) e m (processing_context_of mp m k) (w_db w) = Inr (out, d')"
    and "deferred_ok d'" and "\<And>s d. we_meanwhile we s d = d"
    and "we_reserve we = Answered" and "we_complete we = Answered"
    and "we_complete_at we < we_reserve_at we + lc_processing_ttl (mp_lease mp)"
    and "redis_get (we_reserve_at we) (key_for (mp_lease mp) (ev_event_id e)) (w_redis w) = None"
    and "fst (committer m (w_kafka w)) = Inr ()"
  shows "\<exists>w'. process mp we committer m w = (Inr (outcome PROCESSED k (Some (ev_event_type e))), w') \<and>
    w_db w' = d' \<and> w_kafka w' = snd (committer m (w_kafka w))"
proof -
  from process_reserves [OF assms(1,11,14,13), of committer]
  obtain w3 where w3: "process mp we committer m w = process_reserved mp we committer e m w3" "w_db w3 = w_db w"
    "w_kafka w3 = w_kafka w" "w_dlq w3 = w_dlq w"
    "redis_get (we_complete_at we) (key_for (mp_lease mp) (ev_event_id e)) (w_redis w3) =
      Some (Processing (we_token we) (lc_consumer_group (mp_lease mp)) (cm_topic m) (cm_partition m) (cm_offset m)
        (we_first_seen_at we))" by blast
  have "\<exists>w1. retry_loop (handle mp we e m) (mp_retry mp) (wait_for we) (we_rng we) on_retry
      (maximum_attempts (mp_retry mp)) 0 w3 =
      (Inr (committed_result (we_db_duration_ms we k) e (fst out) (snd out), k), w1) \<and> w_db w1 = d'"
  proof (rule retry_absorbs [where I = "\<lambda>s. w_db s = w_db w"])
    show "\<exists>x s'. handle mp we e m j s = (Inl x, s') \<and> w_db s' = w_db w \<and> isinstance x RetryableProcessingError"
      if "0 < j" "j < k" "w_db s = w_db w" for j and s :: "'a world"
      using assms(2) assms(6) [OF that(1,2)] that(3)
      by (auto simp: handle_def persist_def transient_fault_def Let_def)
    show "\<exists>s'. handle mp we e m k s = (Inr (committed_result (we_db_duration_ms we k) e (fst out) (snd out)), s') \<and>
        w_db s' = d'" if "w_db s = w_db w" for s :: "'a world"
      using assms(2,7-9) that by (cases out) (simp add: handle_def persist_def Let_def processing_context_of_def)
  qed (use assms(4,5,10) w3(2) in \<open>simp_all add: on_retry_def wait_for_def\<close>)
  then obtain w1 where h: "handle_with_retry mp we e m w3 =
      (Inr (committed_result (we_db_duration_ms we k) e (fst out) (snd out), k), w1)" "w_db w1 = d'"
    using assms(3) by (auto simp: handle_with_retry_def resolve_handler_def run_with_retry_def)
  from process_reserved_finishes [OF h(1) _ assms(12) w3(5), of committer] assms(15) h(2) w3 show ?thesis by auto
qed

theorem transient_faults_absorbed_witness:
  "\<exists>w'. process demo_processor (demo_weather\<lparr>we_db_fault := (\<lambda>n. if n = 1 then Aborted (Some ''40001'') else No_fault)\<rparr>)
     noting demo_delivery demo_world = (Inr (outcome PROCESSED 2 (Some USER_REGISTERED)), w')"
proof -
  let ?we = "demo_weather\<lparr>we_db_fault := (\<lambda>n. if n = 1 then Aborted (Some ''40001'') else No_fault)\<rparr>"
  have tx: "\<exists>out d'. tx_body demo_env demo_uow (we_db_now ?we 2) demo_event demo_delivery
      (processing_context_of demo_processor demo_delivery 2) (w_db demo_world) = Inr (out, d') \<and> deferred_ok d'"
    by (simp add: demo_world_def tx_body_def insert_identity_def select_key_def exists_key_def empty_db_def
        demo_event_def envelope_of_def demo_input_def demo_payload_def apply_handler_def counted_def register_def
        fraud_stage_def FRAUD_ELIGIBLE_EVENT_TYPES_def deferred_ok_def ledger_row_def demo_delivery_def
        event_message_def demo_record_def)
  then obtain out d' where o: "tx_body demo_env demo_uow (we_db_now ?we 2) demo_event demo_delivery
      (processing_context_of demo_processor demo_delivery 2) (w_db demo_world) = Inr (out, d')" "deferred_ok d'" by blast
  have t: "ev_event_type demo_event = USER_REGISTERED" by (simp add: demo_event_def envelope_of_def demo_input_def)
  have "\<exists>w'. process demo_processor ?we noting demo_delivery demo_world =
      (Inr (outcome PROCESSED 2 (Some (ev_event_type demo_event))), w') \<and> w_db w' = d' \<and>
      w_kafka w' = snd (noting demo_delivery (w_kafka demo_world))"
    by (rule transient_faults_absorbed [where uc = demo_uow and out = out, OF demo_delivery_valid])
      (use o in \<open>simp_all add: event_types_all demo_weather_def demo_processor_def demo_world_def redis_get_def noting_def
        transient_fault_def translate_sqlstate_def\<close>)
  with t show ?thesis by auto
qed

lemma give_up_permanent:
  assumes "isinstance x PermanentProcessingError"
  shows "\<exists>err w4. give_up mp we committer e m x w = dead_letter mp we committer m err 1 w4 \<and>
    w_kafka w4 = w_kafka w \<and> w_inflight w4 = w_inflight w \<and> w_db w4 = w_db w"
proof -
  have "\<exists>err' w4. dead_letter mp we committer m err 1 w1 = dead_letter mp we committer m err' 1 w4 \<and>
      w_kafka w4 = w_kafka w \<and> w_inflight w4 = w_inflight w \<and> w_db w4 = w_db w"
    if "w_kafka w1 = w_kafka w" "w_inflight w1 = w_inflight w" "w_db w1 = w_db w" for err w1
    using that by blast
  then show ?thesis unfolding give_up_def using assms by (simp add: Let_def)
qed

text \<open>C15: a lost database connection dead-letters a good record. When the client reports a database error
  without an SQLSTATE, which is what a dropped connection looks like, the first attempt is the last:
  the error counts as a permanent integrity failure, so a valid record goes to the dead-letter topic
  and its offset is handed over although nothing of it was stored. On this way out the in-flight
  gauge is not decremented either: the record is terminal and the gauge stays one too high.\<close>

theorem connection_loss_dead_letters:
  assumes "validate_message (mp_codec mp) m = Inr e" and "mp_persistence mp = Some uc"
    and "ev_event_type e \<in> set (mp_handlers mp)" and "0 < maximum_attempts (mp_retry mp)"
    and "we_reserve we = Answered"
    and "redis_get (we_reserve_at we) (key_for (mp_lease mp) (ev_event_id e)) (w_redis w) = None"
    and "we_db_fault we 1 = Aborted None"
    and "we_dlq we = Flush_returns 0 [None] True" and "fst (committer m (w_kafka w)) = Inr ()"
  shows "\<exists>w'. process mp we committer m w = (Inr (outcome DLQ 1 None), w') \<and> w_db w' = w_db w \<and>
    w_kafka w' = snd (committer m (w_kafka w)) \<and> w_inflight w' = w_inflight w + 1"
proof -
  obtain w3 where w3: "process mp we committer m w = process_reserved mp we committer e m w3"
    "w_kafka w3 = w_kafka w" "w_inflight w3 = w_inflight w + 1" "w_db w3 = w_db w"
    using process_reserves [OF assms(1,5,6), of "we_reserve_at we + lc_processing_ttl (mp_lease mp) - 1" committer] by auto
  let ?x = "Exn PermanentDatabaseIntegrityError ''deterministic PostgreSQL constraint failure''"
  obtain w1 where h: "handle_with_retry mp we e m w3 = (Inl ?x, w1)" "w_db w1 = w_db w"
    using assms(2-4,7) w3(4)
    by (cases "maximum_attempts (mp_retry mp)")
      (simp_all add: handle_with_retry_def resolve_handler_def run_with_retry_def handle_def persist_def
        translate_sqlstate_def Let_def)
  have u: "w_kafka w1 = w_kafka w" "w_inflight w1 = w_inflight w + 1"
    using handle_with_retry_untouched [OF h(1)] w3 by (simp_all add: untouched_def)
  have "isinstance ?x PermanentProcessingError" by simp
  from give_up_permanent [OF this, of mp we committer e m w1] obtain err w4 where
    g: "give_up mp we committer e m ?x w1 = dead_letter mp we committer m err 1 w4"
    "w_kafka w4 = w_kafka w" "w_inflight w4 = w_inflight w + 1" "w_db w4 = w_db w" using u h(2) by auto
  have "\<exists>w'. dead_letter mp we committer m err 1 w4 = (Inr (outcome DLQ 1 None), w') \<and> w_inflight w' = w_inflight w4 \<and>
      w_db w' = w_db w4 \<and> w_kafka w' = snd (committer m (w_kafka w4))"
    using assms(8,9) g(2) by (auto simp: dead_letter_def publish_def commit_def Let_def split: prod.splits)
  with g h(1) w3(1) show ?thesis by (auto simp: process_reserved_def)
qed

theorem connection_loss_dead_letters_witness:
  "\<exists>w'. process demo_processor (demo_weather\<lparr>we_db_fault := (\<lambda>_. Aborted None)\<rparr>) noting demo_delivery demo_world =
     (Inr (outcome DLQ 1 None), w') \<and> w_db w' = empty_db \<and> w_kafka w' = [demo_delivery] \<and> w_inflight w' = 1"
proof -
  have "\<exists>w'. process demo_processor (demo_weather\<lparr>we_db_fault := (\<lambda>_. Aborted None)\<rparr>) noting demo_delivery demo_world =
      (Inr (outcome DLQ 1 None), w') \<and> w_db w' = w_db demo_world \<and>
      w_kafka w' = snd (noting demo_delivery (w_kafka demo_world)) \<and> w_inflight w' = w_inflight demo_world + 1"
    by (rule connection_loss_dead_letters [OF demo_delivery_valid])
      (simp_all add: event_types_all demo_weather_def demo_world_def redis_get_def noting_def)
  then show ?thesis by (simp add: demo_world_def noting_def)
qed

end
