(* ===== verification/Commit_Source.thy ===== *)
theory Commit_Source
  imports Consumer
begin

text \<open>
  The interface between a Kafka consumer and whoever drives it: the single-threaded loop of
  \<^verbatim>\<open>main.py\<close> and the worker pool of \<^verbatim>\<open>main_pooled.py\<close>. A driver moves the consumer by consumer
  operations only, and asks it to commit only records it has settled. What this says about the
  offsets Kafka is told is proved here once.
\<close>

section \<open>The tracker calls of a sequence of consumer operations\<close>

fun tracker_trace :: "consumer \<times> commit_log \<Rightarrow> consumer_op list \<Rightarrow> tracker_op list" where
  "tracker_trace k [] = []"
| "tracker_trace k (x # xs) = tracker_ops (fst k) x @ tracker_trace (snd (consumer_step x k)) xs"

lemma tracker_trace_append:
  "tracker_trace k (xs @ ys) = tracker_trace k xs @ tracker_trace (consumer_run xs k) ys"
  by (induction xs arbitrary: k) (simp_all add: consumer_run_def)

lemma tracker_trace_run:
  "fold tracker_step (tracker_trace (c, calls) ops) (co_tracker c, calls) =
     (co_tracker (fst (consumer_run ops (c, calls))), snd (consumer_run ops (c, calls)))"
proof (induction ops arbitrary: c calls)
  case (Cons x ops)
  obtain a c1 calls1 where s1: "consumer_step x (c, calls) = (a, c1, calls1)" by (metis prod_cases3)
  with consumer_step_tracker [OF s1] Cons [of c1 calls1] show ?case by (simp add: consumer_run_def)
qed (simp add: consumer_run_def)

lemma tracker_trace_new:
  assumes "consumer_run ops (new_consumer b i t, []) = (c, calls)"
  shows "tracker_run b (i / 1000) t (tracker_trace (new_consumer b i t, []) ops) = (co_tracker c, calls)"
  using tracker_trace_run [of "new_consumer b i t" "[]" ops] assms by (simp add: tracker_run_def new_consumer_def)

lemma tracker_ops_mark:
  "OpMark key off \<in> set (tracker_ops c x) \<Longrightarrow>
     \<exists>ok u u' m. x = CCommit ok u u' m \<and> cm_pkey m = key \<and> cm_offset m = off"
  by (cases x) (auto split: if_splits)

lemma tracker_ops_observe:
  "OpObserve key off \<in> set (tracker_ops c x) \<longleftrightarrow> (\<exists>m. x = CObserve m \<and> cm_pkey m = key \<and> cm_offset m = off)"
  by (cases x) (auto split: if_splits)

lemma tracker_trace_mark:
  "OpMark key off \<in> set (tracker_trace k ops) \<Longrightarrow>
     \<exists>ok u u' m. CCommit ok u u' m \<in> set ops \<and> cm_pkey m = key \<and> cm_offset m = off"
proof (induction ops arbitrary: k)
  case (Cons x ops)
  then show ?case using tracker_ops_mark [of key off "fst k" x] by (simp, metis)
qed simp

lemma tracker_trace_observe:
  "OpObserve key off \<in> set (tracker_trace k ops) \<longleftrightarrow> (\<exists>m. CObserve m \<in> set ops \<and> cm_pkey m = key \<and> cm_offset m = off)"
proof (induction ops arbitrary: k)
  case (Cons x ops)
  then show ?case using tracker_ops_observe [of key off "fst k" x] by (simp, metis)
qed simp

text \<open>A key's history holds its marks and observations, and nothing else.\<close>

lemma history_in:
  "Mark off \<in> set (key_history key ops) \<Longrightarrow> OpMark key off \<in> set ops"
  "Observe off \<in> set (key_history key ops) \<Longrightarrow> OpObserve key off \<in> set ops"
proof (induction ops rule: rev_induct)
  case (snoc x ops)
  {
    case 1
    with snoc show ?case by (cases x) (auto split: if_splits)
  next
    case 2
    with snoc show ?case by (cases x) (auto split: if_splits)
  }
qed simp_all

lemma history_marks: "off \<in> marks (key_history key ops) \<Longrightarrow> OpMark key off \<in> set ops"
  by (rule history_in) (auto simp: marks_def)

section \<open>Drivers\<close>

text \<open>
  \<open>step s ops s'\<close>: the driver moves from \<open>s\<close> to \<open>s'\<close> and calls the consumer operations \<open>ops\<close>.
\<close>

locale commit_source =
  fixes step :: "'s \<Rightarrow> consumer_op list \<Rightarrow> 's \<Rightarrow> bool"
    and kafka :: "'s \<Rightarrow> consumer \<times> commit_log"
    and settled_in :: "'s \<Rightarrow> consumed_message \<Rightarrow> bool"
  assumes keeps: "step s ops s' \<Longrightarrow> settled_in s m \<Longrightarrow> settled_in s' m"
    and moves: "step s ops s' \<Longrightarrow> kafka s' = consumer_run ops (kafka s)"
    and commits: "step s ops s' \<Longrightarrow> CCommit ok t t' m \<in> set ops \<Longrightarrow> settled_in s' m"
begin

inductive trace :: "'s \<Rightarrow> consumer_op list \<Rightarrow> 's \<Rightarrow> bool" where
  stay: "trace s [] s"
| go: "trace s xs s' \<Longrightarrow> step s' ys s'' \<Longrightarrow> trace s (xs @ ys) s''"

lemma trace_one: "step s ops s' \<Longrightarrow> trace s ops s'"
  using go [OF stay] by fastforce

lemma trace_trans: "trace s' ys s'' \<Longrightarrow> trace s xs s' \<Longrightarrow> trace s (xs @ ys) s''"
  by (induction rule: trace.induct) (auto intro: go simp flip: append_assoc)

lemma trace_keeps: "trace s ops s' \<Longrightarrow> settled_in s m \<Longrightarrow> settled_in s' m"
  by (induction rule: trace.induct) (auto intro: keeps)

lemma trace_kafka: "trace s ops s' \<Longrightarrow> kafka s' = consumer_run ops (kafka s)"
  by (induction rule: trace.induct) (simp_all add: moves consumer_run_def)

lemma trace_commits: "trace s ops s' \<Longrightarrow> CCommit ok t t' m \<in> set ops \<Longrightarrow> settled_in s' m"
proof (induction rule: trace.induct)
  case (go s xs s' ys s'')
  then show ?case using keeps [OF go.hyps(2)] commits [OF go.hyps(2)] by auto
qed simp

text \<open>What a committed offset means: after some prefix of the tracker calls, every offset from the first
  one the partition's tracker had seen up to the committed one belongs to a settled record.\<close>

lemma committed_settled:
  assumes "trace s ops s'" "kafka s = (new_consumer b i t, [])" "kafka s' = (c, calls)"
    and "commits \<in> set calls" "(key, n) \<in> set commits"
  obtains pre where "prefix pre (tracker_trace (new_consumer b i t, []) ops)" "key_history key pre \<noteq> []"
    "op_offset (hd (key_history key pre)) \<le> n" "n \<notin> marks (key_history key pre)"
    "\<And>off. off \<in> {op_offset (hd (key_history key pre))..<n} \<Longrightarrow>
       \<exists>ok u u' m. CCommit ok u u' m \<in> set ops \<and> cm_pkey m = key \<and> cm_offset m = off \<and> settled_in s' m"
proof -
  let ?tops = "tracker_trace (new_consumer b i t, []) ops"
  have "consumer_run ops (new_consumer b i t, []) = (c, calls)"
    using trace_kafka [OF assms(1)] assms(2,3) by simp
  from commit_call_covered [OF tracker_trace_new [OF this] assms(4,5)]
  obtain pre where pre: "prefix pre ?tops" "key_history key pre \<noteq> []"
    "op_offset (hd (key_history key pre)) \<le> n" "n \<notin> marks (key_history key pre)"
    "{op_offset (hd (key_history key pre))..<n} \<subseteq> marks (key_history key pre)" by blast
  have "\<exists>ok u u' m. CCommit ok u u' m \<in> set ops \<and> cm_pkey m = key \<and> cm_offset m = off \<and> settled_in s' m"
    if "off \<in> {op_offset (hd (key_history key pre))..<n}" for off
  proof -
    have "OpMark key off \<in> set ?tops"
      using history_marks [of off key pre] pre(1,5) that set_mono_prefix by blast
    from tracker_trace_mark [OF this] trace_commits [OF assms(1)] show ?thesis by blast
  qed
  with pre that show ?thesis by blast
qed

text \<open>A driver that never announces records ahead commits a non-empty range.\<close>

lemma committed_settled_range:
  assumes "trace s ops s'" "kafka s = (new_consumer b i t, [])" "kafka s' = (c, calls)"
    and "commits \<in> set calls" "(key, n) \<in> set commits" and "\<And>m. CObserve m \<notin> set ops"
  shows "\<exists>first < n. \<forall>off \<in> {first..<n}. \<exists>m. cm_pkey m = key \<and> cm_offset m = off \<and> settled_in s' m"
proof -
  obtain pre where pre: "prefix pre (tracker_trace (new_consumer b i t, []) ops)" "key_history key pre \<noteq> []"
    "op_offset (hd (key_history key pre)) \<le> n" "n \<notin> marks (key_history key pre)"
    "\<And>off. off \<in> {op_offset (hd (key_history key pre))..<n} \<Longrightarrow>
       \<exists>ok u u' m. CCommit ok u u' m \<in> set ops \<and> cm_pkey m = key \<and> cm_offset m = off \<and> settled_in s' m"
    using committed_settled [OF assms(1-5)] by metis
  let ?x = "hd (key_history key pre)"
  have in_pre: "?x \<in> set (key_history key pre)" using pre(2) by simp
  have "\<nexists>off. ?x = Observe off"
    using history_in(2) [of _ key pre] in_pre set_mono_prefix [OF pre(1)] tracker_trace_observe assms(6) by (metis subsetD)
  then have "op_offset ?x \<in> marks (key_history key pre)" using in_pre by (cases ?x) (auto simp: marks_def)
  with pre(3,4) have "op_offset ?x < n" by (metis order_le_imp_less_or_eq)
  with pre(5) show ?thesis by blast
qed

end

end
