(* ===== verification/Run_Loop.thy ===== *)
theory Run_Loop
  imports Processing Commit_Source
begin

text \<open>
  \<^verbatim>\<open>main.py\<close>: the single-threaded loop that polls, processes and commits, with its exit code. What
  the environment decides in one iteration (the shutdown flag, the rebalance callbacks that run
  inside \<open>poll\<close>, the record polled, clock readings, whether commits go through) is a \<open>tick\<close>; a
  run is a list of ticks. That the offsets it commits are safe rests on the interface of
  \<^verbatim>\<open>Commit_Source\<close>, which the iterations implement.
\<close>

section \<open>The loop of \<open>run_processor\<close>\<close>

record loop_config =
  lo_max_messages :: "int option"
  lo_idle_timeout_seconds :: rat

datatype rebalance = Assigned "pkey list" | Revoked bool rat "pkey list"

record tick =
  tk_shutdown :: bool
  tk_rebalances :: "rebalance list"
  tk_raw :: "raw_message option"
  tk_idle_flush :: "bool \<times> rat \<times> rat"
  tk_monotonic :: rat
  tk_has_assignment :: bool
  tk_commit :: "bool \<times> rat \<times> rat"
  tk_weather :: weather

type_synonym kafka = "consumer \<times> commit_log"

record loop_state =
  ls_world :: "kafka world"
  ls_terminal_count :: int
  ls_last_record_at :: rat

fun on_rebalance :: "rebalance \<Rightarrow> kafka \<Rightarrow> kafka" where
  "on_rebalance (Assigned keys) (c, calls) = (on_assign keys c, calls)"
| "on_rebalance (Revoked ok now keys) s = on_revoke ok now keys s"

definition consumer_committer :: "bool \<times> rat \<times> rat \<Rightarrow> kafka committer" where
  "consumer_committer = (\<lambda>(ok, now, now') m k. commit_terminal ok now now' m k)"

datatype iteration = Continue loop_state | Break loop_state | Raise exn loop_state

definition bound_reached :: "loop_config \<Rightarrow> loop_state \<Rightarrow> bool" where
  "bound_reached lo s = (case lo_max_messages lo of None \<Rightarrow> False | Some n \<Rightarrow> ls_terminal_count s \<ge> n)"

definition idle_iteration :: "loop_config \<Rightarrow> tick \<Rightarrow> loop_state \<Rightarrow> iteration" where
  "idle_iteration lo tk s =
     (case tk_idle_flush tk of (ok, now, now') \<Rightarrow>
        case maybe_flush_idle ok now now' (w_kafka (ls_world s)) of
          (Inl x, k) \<Rightarrow> Raise x (s\<lparr>ls_world := (ls_world s)\<lparr>w_kafka := k\<rparr>\<rparr>)
        | (Inr _, k) \<Rightarrow>
            let w = (ls_world s)\<lparr>w_kafka := k\<rparr>
            in if lo_max_messages lo \<noteq> None \<and>
                  tk_monotonic tk - ls_last_record_at s \<ge> lo_idle_timeout_seconds lo
               then Break (s\<lparr>ls_world := if \<not> tk_has_assignment tk
                                         then tally Unresolved_records (tally Kafka_errors w) else w\<rparr>)
               else Continue (s\<lparr>ls_world := w\<rparr>))"

definition record_iteration :: "message_processor \<Rightarrow> tick \<Rightarrow> consumed_message \<Rightarrow> loop_state \<Rightarrow> iteration" where
  "record_iteration mp tk m s =
     (case process mp (tk_weather tk) (consumer_committer (tk_commit tk)) m (ls_world s) of
        (Inl x, w) \<Rightarrow> Raise x (s\<lparr>ls_world := w, ls_last_record_at := tk_monotonic tk\<rparr>)
      | (Inr out, w) \<Rightarrow>
          let s1 = s\<lparr>ls_world := w, ls_last_record_at := tk_monotonic tk\<rparr>
          in if \<not> terminal out then Break s1
             else Continue (s1\<lparr>ls_terminal_count := ls_terminal_count s1 + 1\<rparr>))"

definition loop_iteration :: "loop_config \<Rightarrow> message_processor \<Rightarrow> tick \<Rightarrow> loop_state \<Rightarrow> iteration" where
  "loop_iteration lo mp tk s =
     (if tk_shutdown tk \<or> bound_reached lo s then Break s
      else
        let w = ls_world s;
            s1 = s\<lparr>ls_world := w\<lparr>w_kafka := fold on_rebalance (tk_rebalances tk) (w_kafka w)\<rparr>\<rparr>
        in case poll (tk_raw tk) of
             Inl x \<Rightarrow> Raise x s1
           | Inr None \<Rightarrow> idle_iteration lo tk s1
           | Inr (Some m) \<Rightarrow> record_iteration mp tk m s1)"

text \<open>None: the loop is still running when the ticks are used up.\<close>

fun run_loop :: "loop_config \<Rightarrow> message_processor \<Rightarrow> tick list \<Rightarrow> loop_state \<Rightarrow> ((exn + unit) \<times> loop_state) option" where
  "run_loop lo mp [] s = None"
| "run_loop lo mp (tk # tks) s =
     (case loop_iteration lo mp tk s of
        Continue s' \<Rightarrow> run_loop lo mp tks s'
      | Break s' \<Rightarrow> Some (Inr (), s')
      | Raise x s' \<Rightarrow> Some (Inl x, s'))"

text \<open>The \<open>finally\<close> block flushes what is safe and swallows a failure of that flush; the startup calls
  before the loop may raise.\<close>

definition shutdown_flush :: "bool \<Rightarrow> rat \<Rightarrow> loop_state \<Rightarrow> loop_state" where
  "shutdown_flush ok now s =
     s\<lparr>ls_world := (ls_world s)\<lparr>w_kafka := snd (flush_pending ok now (w_kafka (ls_world s)))\<rparr>\<rparr>"

definition exit_status :: "run_summary \<Rightarrow> int" where
  "exit_status s = (if su_count s Unresolved_records \<noteq> 0 then 1 else 0)"

definition run_processor ::
  "loop_config \<Rightarrow> message_processor \<Rightarrow> exn option \<Rightarrow> bool \<times> rat \<Rightarrow> tick list \<Rightarrow> loop_state \<Rightarrow>
   ((exn + int) \<times> loop_state) option" where
  "run_processor lo mp startup final tks s =
     (case startup of
        Some x \<Rightarrow> Some (Inl x, s)
      | None \<Rightarrow>
          (case run_loop lo mp tks s of
             None \<Rightarrow> None
           | Some (r, s1) \<Rightarrow>
               let s2 = shutdown_flush (fst final) (snd final) s1
               in (case r of
                     Inl x \<Rightarrow> Some (Inl x, s2)
                   | Inr _ \<Rightarrow> Some (Inr (exit_status (w_summary (ls_world s2))), s2))))"

text \<open>The exit code of \<open>main\<close>, which catches every exception.\<close>

definition main_code :: "exn + int \<Rightarrow> int" where
  "main_code r = (case r of Inl _ \<Rightarrow> 1 | Inr code \<Rightarrow> code)"

section \<open>The loop drives its consumer safely\<close>

fun iteration_state :: "iteration \<Rightarrow> loop_state" where
  "iteration_state (Continue s) = s"
| "iteration_state (Break s) = s"
| "iteration_state (Raise x s) = s"

definition processor_ok :: "message_processor \<Rightarrow> bool" where
  "processor_ok mp \<longleftrightarrow> mp_persistence mp \<noteq> None \<and> 0 < maximum_attempts (mp_retry mp)"

text \<open>A record that a poll of \<open>T\<close> delivered and that is durable.\<close>

definition settled_record :: "message_processor \<Rightarrow> tick set \<Rightarrow> loop_state \<Rightarrow> consumed_message \<Rightarrow> bool" where
  "settled_record mp T s m \<longleftrightarrow> (\<exists>tk \<in> T. poll (tk_raw tk) = Inr (Some m)) \<and>
     durable mp m (w_db (ls_world s)) (w_dlq (ls_world s))"

fun rebalance_op :: "rebalance \<Rightarrow> consumer_op" where
  "rebalance_op (Assigned keys) = CAssign keys"
| "rebalance_op (Revoked ok now keys) = CRevoke ok now keys"

lemma rebalance_run: "fold on_rebalance rs k = consumer_run (map rebalance_op rs) k"
proof (induction rs arbitrary: k)
  case (Cons r rs)
  have "on_rebalance r k = snd (consumer_step (rebalance_op r) k)" by (cases r; cases k) auto
  with Cons show ?case by (simp add: consumer_run_def)
qed (simp add: consumer_run_def)

lemma consumer_run_append: "consumer_run (xs @ ys) k = consumer_run ys (consumer_run xs k)"
  by (simp add: consumer_run_def)

lemma consumer_run_one: "consumer_run [x] k = snd (consumer_step x k)"
  by (simp add: consumer_run_def)

text \<open>The moves of the loop: the consumer changes by operations that announce nothing and commit only
  settled records, the database and the dead-letter topic only grow. An iteration and the final
  flush are such moves.\<close>

definition loop_moves :: "message_processor \<Rightarrow> tick set \<Rightarrow> loop_state \<Rightarrow> consumer_op list \<Rightarrow> loop_state \<Rightarrow> bool" where
  "loop_moves mp T s ops s' \<longleftrightarrow>
     w_kafka (ls_world s') = consumer_run ops (w_kafka (ls_world s)) \<and>
     (\<forall>ok t t' m. CCommit ok t t' m \<in> set ops \<longrightarrow> settled_record mp T s' m) \<and> (\<forall>m. CObserve m \<notin> set ops) \<and>
     (\<exists>uc. mp_persistence mp = Some uc \<and> progresses mp uc (ls_world s) (ls_world s'))"

lemma settled_progresses: "progresses mp uc (ls_world s) (ls_world s') \<Longrightarrow> settled_record mp T s m \<Longrightarrow> settled_record mp T s' m"
  using progresses_durable by (auto simp: settled_record_def)

interpretation run: commit_source "loop_moves mp T" "\<lambda>s. w_kafka (ls_world s)" "settled_record mp T" for mp T
  by unfold_locales (auto simp: loop_moves_def dest: settled_progresses)

lemma loop_moves_ops:
  assumes "w_kafka (ls_world s') = consumer_run ops (w_kafka (ls_world s))"
    and "w_db (ls_world s') = w_db (ls_world s)" "w_dlq (ls_world s') = w_dlq (ls_world s)"
    and "\<And>ok t t' m. CCommit ok t t' m \<notin> set ops" "\<And>m. CObserve m \<notin> set ops" "processor_ok mp"
  shows "loop_moves mp T s ops s'"
  using assms by (auto simp: loop_moves_def processor_ok_def intro: progresses_refl)

lemma loop_moves_trans:
  assumes "loop_moves mp T a xs b" "loop_moves mp T b ys c"
  shows "loop_moves mp T a (xs @ ys) c"
proof -
  obtain uc where p: "mp_persistence mp = Some uc" "progresses mp uc (ls_world a) (ls_world b)"
    "progresses mp uc (ls_world b) (ls_world c)"
    using assms by (auto simp: loop_moves_def)
  with progresses_trans [OF p(2,3)] settled_progresses [OF p(3), of T] assms show ?thesis
    unfolding loop_moves_def by (auto simp: consumer_run_append)
qed

lemma record_moves:
  assumes "processor_ok mp" "meanwhile_ok mp (tk_weather tk)" "tk \<in> T" "poll (tk_raw tk) = Inr (Some m)"
  shows "\<exists>ops. loop_moves mp T s ops (iteration_state (record_iteration mp tk m s))"
proof -
  obtain uc where uc: "mp_persistence mp = Some uc" and max: "0 < maximum_attempts (mp_retry mp)"
    using assms(1) by (auto simp: processor_ok_def)
  obtain ok t t' where c: "tk_commit tk = (ok, t, t')" by (metis prod_cases3)
  let ?com = "consumer_committer (tk_commit tk)" and ?s' = "iteration_state (record_iteration mp tk m s)"
  obtain r w' where p: "process mp (tk_weather tk) ?com m (ls_world s) = (r, w')" by force
  have w': "ls_world ?s' = w'"
    using p by (auto simp: record_iteration_def Let_def split: sum.splits)
  have k: "snd (?com m (w_kafka (ls_world s))) = consumer_run [CCommit ok t t' m] (w_kafka (ls_world s))"
    by (simp add: c consumer_committer_def consumer_run_one)
  note pr = process_progresses [OF p uc assms(2)]
  from process_settled [OF p uc max] consider
    "w_kafka w' = consumer_run [] (w_kafka (ls_world s))"
  | "w_kafka w' = consumer_run [CCommit ok t t' m] (w_kafka (ls_world s))" "durable mp m (w_db w') (w_dlq w')"
    using k by (auto simp: settled_def consumer_run_def)
  then show ?thesis
  proof cases
    case 1
    with pr uc have "loop_moves mp T s [] ?s'" by (simp add: loop_moves_def w')
    then show ?thesis ..
  next
    case 2
    with pr uc assms(3,4) have "loop_moves mp T s [CCommit ok t t' m] ?s'"
      by (auto simp: loop_moves_def settled_record_def w')
    then show ?thesis ..
  qed
qed

lemma idle_moves:
  assumes "processor_ok mp"
  shows "\<exists>ops. loop_moves mp T s ops (iteration_state (idle_iteration lo tk s))"
proof -
  obtain ok t t' where c: "tk_idle_flush tk = (ok, t, t')" by (metis prod_cases3)
  obtain r k where f: "maybe_flush_idle ok t t' (w_kafka (ls_world s)) = (r, k)" by (rule prod.exhaust)
  then have k: "k = consumer_run [CIdle ok t t'] (w_kafka (ls_world s))" by (simp add: consumer_run_one)
  have "loop_moves mp T s [CIdle ok t t'] (iteration_state (idle_iteration lo tk s))"
    using assms by (intro loop_moves_ops)
      (auto simp: idle_iteration_def c f Let_def k [symmetric] split: sum.splits)
  then show ?thesis ..
qed

lemma iteration_moves:
  assumes "processor_ok mp" "meanwhile_ok mp (tk_weather tk)" "tk \<in> T"
  shows "\<exists>ops. loop_moves mp T s ops (iteration_state (loop_iteration lo mp tk s))"
proof -
  let ?s1 = "s\<lparr>ls_world := (ls_world s)\<lparr>w_kafka := fold on_rebalance (tk_rebalances tk) (w_kafka (ls_world s))\<rparr>\<rparr>"
  have reb: "loop_moves mp T s (map rebalance_op (tk_rebalances tk)) ?s1"
    using assms(1) by (intro loop_moves_ops) (auto simp: rebalance_run dest: rebalance_op.elims [OF sym])
  have stay: "loop_moves mp T s [] s" using assms(1) by (intro loop_moves_ops) (simp_all add: consumer_run_def)
  have rec: "\<exists>ops. loop_moves mp T s ops (iteration_state (record_iteration mp tk m ?s1))"
    if "poll (tk_raw tk) = Inr (Some m)" for m
    using loop_moves_trans [OF reb] record_moves [OF assms that] by blast
  have idle: "\<exists>ops. loop_moves mp T s ops (iteration_state (idle_iteration lo tk ?s1))"
    using loop_moves_trans [OF reb] idle_moves [OF assms(1)] by blast
  show ?thesis
    using stay reb rec idle unfolding loop_iteration_def Let_def by (simp split: sum.split option.split) blast
qed

lemma flush_moves: "processor_ok mp \<Longrightarrow> loop_moves mp T s [CFlush ok now] (shutdown_flush ok now s)"
  by (rule loop_moves_ops) (simp_all add: shutdown_flush_def consumer_run_one)

lemma trace_silent: "run.trace mp T s ops s' \<Longrightarrow> CObserve m \<notin> set ops"
  by (induction rule: run.trace.induct) (auto simp: loop_moves_def)

section \<open>Runs of the loop\<close>

lemma run_loop_trace:
  assumes "run_loop lo mp tks s = Some (r, s')" "processor_ok mp" "set tks \<subseteq> T"
    and "\<forall>tk \<in> T. meanwhile_ok mp (tk_weather tk)"
  shows "\<exists>ops. run.trace mp T s ops s'"
  using assms(1,3)
proof (induction tks arbitrary: s)
  case (Cons tk tks)
  obtain xs where xs: "loop_moves mp T s xs (iteration_state (loop_iteration lo mp tk s))"
    using iteration_moves Cons.prems(2) assms(2,4) by (metis list.set_intros(1) subsetD)
  show ?case
  proof (cases "loop_iteration lo mp tk s")
    case (Continue s1)
    with Cons.prems obtain ys where "run.trace mp T s1 ys s'" using Cons.IH [of s1] by auto
    from run.trace_trans [OF this run.trace_one] xs Continue show ?thesis by auto
  qed (use Cons.prems run.trace_one [OF xs] in auto)
qed simp

lemma run_processor_trace:
  assumes "run_processor lo mp startup final tks s = Some (r, s')" "processor_ok mp"
    and "\<forall>tk \<in> set tks. meanwhile_ok mp (tk_weather tk)"
  shows "\<exists>ops. run.trace mp (set tks) s ops s'"
proof (cases "startup = None")
  case False
  with assms(1) have "s' = s" by (auto simp: run_processor_def)
  with run.stay show ?thesis by blast
next
  case True
  then obtain q s1 where l: "run_loop lo mp tks s = Some (q, s1)" and s': "s' = shutdown_flush (fst final) (snd final) s1"
    using assms(1) by (auto simp: run_processor_def Let_def split: option.splits sum.splits prod.splits)
  obtain ops where "run.trace mp (set tks) s ops s1" using run_loop_trace [OF l assms(2) order.refl assms(3)] by blast
  from run.go [OF this flush_moves [OF assms(2)]] show ?thesis unfolding s' by blast
qed

section \<open>Unresolved records\<close>

definition unresolved :: "'k world \<Rightarrow> int" where
  "unresolved w = su_count (w_summary w) Unresolved_records"

lemma unresolved_tally [simp]:
  "unresolved (tally k w) = unresolved w + of_bool (k = Unresolved_records)"
  "unresolved (tally_if b k w) = unresolved w + of_bool (b \<and> k = Unresolved_records)"
  "k \<noteq> Unresolved_records \<Longrightarrow> unresolved (tally_by k n w) = unresolved w"
  "unresolved (observe_terminal w) = unresolved w"
  "unresolved (w\<lparr>w_kafka := k'\<rparr>) = unresolved w" "unresolved (w\<lparr>w_redis := rd\<rparr>) = unresolved w"
  "unresolved (w\<lparr>w_db := d\<rparr>) = unresolved w" "unresolved (w\<lparr>w_dlq := l\<rparr>) = unresolved w"
  "unresolved (w\<lparr>w_inflight := n'\<rparr>) = unresolved w"
  by (auto simp: unresolved_def)

lemma unresolved_record_persistence [simp]: "unresolved (record_persistence mp pr w) = unresolved w"
proof -
  have "decision_counter d \<noteq> Unresolved_records" for d by (cases d) (simp_all add: decision_counter_def)
  moreover have "unresolved (w\<lparr>w_summary := count_persisted pr s\<rparr>) = su_count s Unresolved_records" for w :: "'a world" and s
    by (simp add: unresolved_def count_persisted_def)
  moreover have "unresolved w = su_count (w_summary w) Unresolved_records" by (simp add: unresolved_def)
  ultimately show ?thesis by (simp add: record_persistence_def Let_def split: option.splits)
qed

lemma unresolved_safe_release [simp]: "unresolved (safe_release mp we i w) = unresolved w"
  by (simp add: safe_release_def split: prod.splits sum.splits)

lemma unresolved_finish [simp]:
  "unresolved (snd (finish_duplicate mp e b w)) = unresolved w"
  "unresolved (snd (finish_processed we e n w)) = unresolved w"
  by (simp_all add: finish_duplicate_def finish_processed_def Let_def unresolved_def)

text \<open>How a call ends: the counter never falls, and rises when the outcome is not terminal.\<close>

definition tells :: "'k world \<Rightarrow> (exn + processing_outcome) \<times> 'k world \<Rightarrow> bool" where
  "tells w r \<longleftrightarrow> unresolved w \<le> unresolved (snd r) \<and>
     (\<forall>out. fst r = Inr out \<longrightarrow> \<not> terminal out \<longrightarrow> unresolved w < unresolved (snd r))"

lemma tells_commit:
  assumes "unresolved w1 = unresolved w" "\<And>w2. unresolved (snd (f () w2)) = unresolved w2"
    and "\<And>w2 out. fst (f () w2) = Inr out \<Longrightarrow> terminal out"
  shows "tells w (bind_ex (commit committer m w1) f)"
  using assms by (auto simp: tells_def commit_def bind_ex_def split: prod.splits sum.splits)

lemma tells_dead_letter: "unresolved w1 = unresolved w \<Longrightarrow> tells w (dead_letter mp we committer m err n w1)"
  using tells_commit [of "w1\<lparr>w_dlq := l\<rparr>" w "\<lambda>_ w1. (Inr (outcome DLQ n None), tally Dlq_records w1)" committer m for l]
  by (auto simp: dead_letter_def terminal_def split: prod.splits sum.splits) (auto simp: tells_def terminal_def)

lemma finish_terminal:
  "fst (finish_duplicate mp e b w) = Inr out \<Longrightarrow> terminal out"
  "fst (finish_processed we e n w) = Inr out \<Longrightarrow> terminal out"
  by (auto simp: finish_duplicate_def finish_processed_def Let_def terminal_def)

lemma unresolved_handle_with_retry:
  assumes "handle_with_retry mp we e m w = (r, w')"
  shows "unresolved w' = unresolved w"
proof (cases "resolve_handler (mp_handlers mp) (ev_event_type e)")
  case (Inl x)
  with assms show ?thesis by (simp add: handle_with_retry_def)
next
  case (Inr t)
  with assms have loop: "retry_loop (handle mp we e m) (mp_retry mp) (wait_for we) (we_rng we) on_retry
      (maximum_attempts (mp_retry mp)) 0 w = (r, w')"
    by (simp add: handle_with_retry_def run_with_retry_def)
  show ?thesis
    by (rule retry_loop_inv [where I = "\<lambda>s. unresolved s = unresolved w", OF _ _ _ _ loop])
      (auto simp: on_retry_def wait_for_def handle_def Let_def split: option.splits prod.splits sum.splits)
qed

lemma tells_give_up: "unresolved w1 = unresolved w \<Longrightarrow> tells w (give_up mp we committer e m x w1)"
  by (auto simp: give_up_def Let_def tells_dead_letter tells_def [of w "(Inl x, w1)"])

lemma tells_reserved: 
  assumes "unresolved w1 = unresolved w"
  shows "tells w (process_reserved mp we committer e m w1)"
proof -
  obtain q w2 where h: "handle_with_retry mp we e m w1 = (q, w2)" by (rule prod.exhaust)
  have u: "unresolved w2 = unresolved w" using unresolved_handle_with_retry [OF h] assms by simp
  have fin: "tells w (bind_ex (commit committer m ((record_persistence mp pr w2)\<lparr>w_redis := rd\<rparr>)) (\<lambda>_. finish_processed we e n))"
    for pr n rd using u by (intro tells_commit) (auto dest: finish_terminal)
  show ?thesis
  proof (cases q)
    case (Inl x)
    with h u show ?thesis by (simp add: process_reserved_def tells_give_up)
  next
    case (Inr a)
    obtain pr n where "a = (pr, n)" by force
    with h Inr u fin show ?thesis
      by (auto simp: process_reserved_def Let_def split: prod.splits sum.splits bool.splits) (auto simp: tells_def)
  qed
qed

lemma tells_completed:
  assumes "unresolved w1 = unresolved w" "mp_persistence mp \<noteq> None"
  shows "tells w (process_completed mp we committer e m w1)"
proof -
  obtain q w2 where h: "handle_with_retry mp we e m w1 = (q, w2)" by (rule prod.exhaust)
  have u: "unresolved w2 = unresolved w" using unresolved_handle_with_retry [OF h] assms by simp
  have dead: "tells w (bind_ex (bind_ex (dead_letter mp we committer m err n w3) (\<lambda>out w2. (Inr (Inr out), w2)))
      (\<lambda>recovery w1. case recovery of Inr out \<Rightarrow> (Inr out, w1) | Inl pr \<Rightarrow> f pr w1))"
    if "unresolved w3 = unresolved w" for err n w3 f
    using tells_dead_letter [OF that, of mp we committer m err n]
    by (cases "dead_letter mp we committer m err n w3"; cases "fst (dead_letter mp we committer m err n w3)") auto
  show ?thesis
  proof (cases q)
    case (Inl x)
    have raised: "tells w (Inl x, w2)" using u by (simp add: tells_def)
    from h Inl u assms(2) raised show ?thesis
      by (auto simp: process_completed_def persist_with_retry_def intro: dead)
  next
    case (Inr a)
    obtain pr n where a: "a = (pr, n)" by force
    let ?w3 = "if pr_already_persisted pr then w2 else record_persistence mp pr w2"
    have "tells w (bind_ex (commit committer m ?w3) (\<lambda>_. finish_duplicate mp e (pr_already_persisted pr)))"
      using u by (intro tells_commit) (auto dest: finish_terminal)
    with h Inr a assms(2) show ?thesis by (auto simp: process_completed_def persist_with_retry_def)
  qed
qed

lemma tells_process:
  assumes "mp_persistence mp \<noteq> None"
  shows "tells w (process mp we committer m w)"
proof (cases "validate_message (mp_codec mp) m")
  case (Inl err)
  let ?w1 = "tally Consumed_records (w\<lparr>w_inflight := w_inflight w + 1\<rparr>)"
  let ?w2 = "?w1\<lparr>w_summary := (w_summary ?w1)\<lparr>su_validation_failures :=
    (su_validation_failures (w_summary ?w1))(vi_category err := su_validation_failures (w_summary ?w1) (vi_category err) + 1)\<rparr>\<rparr>"
  have "unresolved ?w2 = unresolved w" by (simp add: unresolved_def)
  from tells_dead_letter [OF this, of mp we committer m err 1] Inl show ?thesis
    by (cases "dead_letter mp we committer m err 1 ?w2"; cases "fst (dead_letter mp we committer m err 1 ?w2)")
      (auto simp: process_def Let_def tells_def)
next
  case (Inr e)
  with assms show ?thesis
    by (auto simp: process_def Let_def split: prod.splits sum.splits reservation_state.splits
        intro!: tells_reserved tells_completed) (auto simp: tells_def)
qed

text \<open>The records a run hands to the processor.\<close>

fun consumed :: "loop_config \<Rightarrow> message_processor \<Rightarrow> tick list \<Rightarrow> loop_state \<Rightarrow> consumed_message list" where
  "consumed lo mp [] s = []"
| "consumed lo mp (tk # tks) s =
     (if tk_shutdown tk \<or> bound_reached lo s then []
      else (case poll (tk_raw tk) of Inr (Some m) \<Rightarrow> [m] | _ \<Rightarrow> []) @
           (case loop_iteration lo mp tk s of Continue s' \<Rightarrow> consumed lo mp tks s' | _ \<Rightarrow> []))"

lemma idle_unresolved: "unresolved (ls_world s) \<le> unresolved (ls_world (iteration_state (idle_iteration lo tk s)))"
  by (auto simp: idle_iteration_def Let_def split: prod.splits sum.splits)

lemma record_tells:
  assumes "mp_persistence mp \<noteq> None"
  shows "unresolved (ls_world s) \<le> unresolved (ls_world (iteration_state (record_iteration mp tk m s)))"
    and "record_iteration mp tk m s = Break s' \<Longrightarrow> unresolved (ls_world s) < unresolved (ls_world s')"
proof -
  obtain r w' where p: "process mp (tk_weather tk) (consumer_committer (tk_commit tk)) m (ls_world s) = (r, w')"
    by (rule prod.exhaust)
  from tells_process [OF assms, of "ls_world s" "tk_weather tk" "consumer_committer (tk_commit tk)" m]
  have t: "unresolved (ls_world s) \<le> unresolved w'"
    "\<And>out. r = Inr out \<Longrightarrow> \<not> terminal out \<Longrightarrow> unresolved (ls_world s) < unresolved w'"
    by (simp_all add: p tells_def)
  show "unresolved (ls_world s) \<le> unresolved (ls_world (iteration_state (record_iteration mp tk m s)))"
    using t(1) p by (auto simp: record_iteration_def Let_def split: sum.splits)
  show "unresolved (ls_world s) < unresolved (ls_world s')" if "record_iteration mp tk m s = Break s'"
    using that t(2) p by (auto simp: record_iteration_def Let_def split: sum.splits if_splits)
qed

lemma record_durable:
  assumes "processor_ok mp" "record_iteration mp tk m s = Continue s'"
  shows "durable mp m (w_db (ls_world s')) (w_dlq (ls_world s'))"
proof -
  obtain uc where uc: "mp_persistence mp = Some uc" and max: "0 < maximum_attempts (mp_retry mp)"
    using assms(1) by (auto simp: processor_ok_def)
  obtain out w' where p: "process mp (tk_weather tk) (consumer_committer (tk_commit tk)) m (ls_world s) = (Inr out, w')"
    and t: "terminal out" and s': "ls_world s' = w'"
    using assms(2) by (auto simp: record_iteration_def Let_def split: prod.splits sum.splits if_splits)
  from process_settled [OF p uc max] t s' show ?thesis by (auto simp: settled_def)
qed

lemma iteration_unresolved:
  assumes "mp_persistence mp \<noteq> None"
  shows "unresolved (ls_world s) \<le> unresolved (ls_world (iteration_state (loop_iteration lo mp tk s)))"
proof -
  let ?s1 = "s\<lparr>ls_world := (ls_world s)\<lparr>w_kafka := fold on_rebalance (tk_rebalances tk) (w_kafka (ls_world s))\<rparr>\<rparr>"
  have "unresolved (ls_world s) \<le> unresolved (ls_world (iteration_state (record_iteration mp tk m ?s1)))" for m
    using record_tells(1) [OF assms, of ?s1 tk m] by simp
  moreover have "unresolved (ls_world s) \<le> unresolved (ls_world (iteration_state (idle_iteration lo tk ?s1)))"
    using idle_unresolved [of ?s1 lo tk] by simp
  ultimately show ?thesis by (auto simp: loop_iteration_def Let_def split: sum.split option.split)
qed

lemma run_loop_unresolved:
  assumes "run_loop lo mp tks s = Some (r, s')" "mp_persistence mp \<noteq> None"
  shows "unresolved (ls_world s) \<le> unresolved (ls_world s')"
  using assms(1)
proof (induction tks arbitrary: s)
  case (Cons tk tks)
  note st = iteration_unresolved [OF assms(2), of s lo tk]
  show ?case
  proof (cases "loop_iteration lo mp tk s")
    case (Continue s1)
    with Cons.IH [of s1] Cons.prems st show ?thesis by simp
  qed (use Cons.prems st in auto)
qed simp

text \<open>The record of an iteration after which the loop goes on is durable from then on.\<close>

lemma continued_durable:
  assumes "loop_iteration lo mp tk s = Continue s1" "poll (tk_raw tk) = Inr (Some m)"
    and "run_loop lo mp tks s1 = Some (r, s')" "processor_ok mp"
    and "\<forall>tk \<in> set (tk # tks). meanwhile_ok mp (tk_weather tk)"
  shows "durable mp m (w_db (ls_world s')) (w_dlq (ls_world s'))"
proof -
  let ?s1 = "s\<lparr>ls_world := (ls_world s)\<lparr>w_kafka := fold on_rebalance (tk_rebalances tk) (w_kafka (ls_world s))\<rparr>\<rparr>"
  have "record_iteration mp tk m ?s1 = Continue s1"
    using assms(1,2) by (auto simp: loop_iteration_def Let_def split: if_splits)
  from record_durable [OF assms(4) this] have d: "settled_record mp (set (tk # tks)) s1 m"
    using assms(2) by (auto simp: settled_record_def)
  obtain ops where "run.trace mp (set (tk # tks)) s1 ops s'"
    using run_loop_trace [OF assms(3,4), of "set (tk # tks)"] assms(5) by (metis set_subset_Cons)
  from run.trace_keeps [OF this d] show ?thesis by (simp add: settled_record_def)
qed

lemma run_loop_earlier:
  assumes "run_loop lo mp tks s = Some (r, s')" "processor_ok mp"
    and "\<forall>tk \<in> set tks. meanwhile_ok mp (tk_weather tk)" "m \<in> set (butlast (consumed lo mp tks s))"
  shows "durable mp m (w_db (ls_world s')) (w_dlq (ls_world s'))"
  using assms(1,3,4)
proof (induction tks arbitrary: s)
  case (Cons tk tks)
  let ?polled = "case poll (tk_raw tk) of Inr (Some m) \<Rightarrow> [m] | _ \<Rightarrow> []"
  have one: "butlast ?polled = []" by (simp split: sum.split option.split)
  show ?case
  proof (cases "loop_iteration lo mp tk s")
    case (Continue s1)
    have rest: "run_loop lo mp tks s1 = Some (r, s')" using Cons.prems(1) Continue by simp
    have "m \<in> set (butlast (?polled @ consumed lo mp tks s1))"
      using Cons.prems(3) Continue by (simp split: if_splits)
    then consider "m \<in> set (butlast (consumed lo mp tks s1))" | "m \<in> set ?polled"
      using one by (auto simp: butlast_append split: if_splits)
    then show ?thesis
    proof cases
      case 1
      with Cons.IH [OF rest] Cons.prems(2) show ?thesis by simp
    next
      case 2
      then have "poll (tk_raw tk) = Inr (Some m)" by (auto split: sum.splits option.splits)
      from continued_durable [OF Continue this rest assms(2) Cons.prems(2)] show ?thesis .
    qed
  qed (use Cons.prems(3) one in \<open>auto split: if_splits\<close>)
qed simp

lemma run_loop_clean:
  assumes "run_loop lo mp tks s = Some (Inr (), s')" "processor_ok mp"
    and "\<forall>tk \<in> set tks. meanwhile_ok mp (tk_weather tk)"
    and "unresolved (ls_world s') = unresolved (ls_world s)" "m \<in> set (consumed lo mp tks s)"
  shows "durable mp m (w_db (ls_world s')) (w_dlq (ls_world s'))"
  using assms(1,3-5)
proof (induction tks arbitrary: s)
  case (Cons tk tks)
  have p: "mp_persistence mp \<noteq> None" using assms(2) by (auto simp: processor_ok_def)
  let ?s1 = "s\<lparr>ls_world := (ls_world s)\<lparr>w_kafka := fold on_rebalance (tk_rebalances tk) (w_kafka (ls_world s))\<rparr>\<rparr>"
  have active: "\<not> (tk_shutdown tk \<or> bound_reached lo s)" using Cons.prems(4) by (auto split: if_splits)
  show ?case
  proof (cases "loop_iteration lo mp tk s")
    case (Continue s1)
    have rest: "run_loop lo mp tks s1 = Some (Inr (), s')" using Cons.prems(1) Continue by simp
    have same: "unresolved (ls_world s') = unresolved (ls_world s1)"
      using run_loop_unresolved [OF rest p] iteration_unresolved [OF p, of s lo tk] Continue Cons.prems(3) by simp
    show ?thesis
    proof (cases "m \<in> set (consumed lo mp tks s1)")
      case True
      with Cons.IH [OF rest _ same] Cons.prems(2) show ?thesis by simp
    next
      case False
      with Cons.prems(4) Continue active have "poll (tk_raw tk) = Inr (Some m)"
        by (auto split: sum.splits option.splits)
      from continued_durable [OF Continue this rest assms(2) Cons.prems(2)] show ?thesis .
    qed
  next
    case (Break s1)
    with Cons.prems have s': "s1 = s'" and m: "poll (tk_raw tk) = Inr (Some m)"
      using active by (auto split: sum.splits option.splits)
    with Break active have "record_iteration mp tk m ?s1 = Break s'" by (simp add: loop_iteration_def Let_def)
    from record_tells(2) [OF p this] Cons.prems(3) show ?thesis by simp
  next
    case (Raise x s1)
    with Cons.prems(1) show ?thesis by simp
  qed
qed simp

section \<open>Properties\<close>

text \<open>C16: no record is lost by a commit. In any run of the processor that starts with a fresh consumer,
  whatever is polled, revoked, retried, lost or done by other instances: every record it consumed
  before the last one is durable (in the ledger with its content, or in the dead-letter topic) when
  the run ends; and every offset it asked Kafka to commit ends a non-empty gapless range of offsets
  each of which belongs to a record that a poll of this run delivered and that is durable.\<close>

theorem committed_offsets_durable:
  assumes "run_processor lo mp None final tks s = Some (r, s')" and "processor_ok mp"
    and "\<forall>tk \<in> set tks. meanwhile_ok mp (tk_weather tk)"
    and "w_kafka (ls_world s) = (new_consumer b i t, [])"
  shows "(\<forall>m \<in> set (butlast (consumed lo mp tks s)). durable mp m (w_db (ls_world s')) (w_dlq (ls_world s'))) \<and>
    (\<forall>commits \<in> set (snd (w_kafka (ls_world s'))). \<forall>(key, n) \<in> set commits.
       \<exists>first < n. \<forall>off \<in> {first..<n}. \<exists>m. cm_pkey m = key \<and> cm_offset m = off \<and>
         (\<exists>tk \<in> set tks. poll (tk_raw tk) = Inr (Some m)) \<and>
         durable mp m (w_db (ls_world s')) (w_dlq (ls_world s')))"
proof (intro conjI ballI, safe)
  fix m
  assume "m \<in> set (butlast (consumed lo mp tks s))"
  moreover obtain q s1 where "run_loop lo mp tks s = Some (q, s1)" and "s' = shutdown_flush (fst final) (snd final) s1"
    using assms(1) by (auto simp: run_processor_def Let_def split: option.splits sum.splits prod.splits)
  ultimately show "durable mp m (w_db (ls_world s')) (w_dlq (ls_world s'))"
    using run_loop_earlier [OF _ assms(2,3)] by (auto simp: shutdown_flush_def)
next
  fix commits topic partition n
  assume c: "commits \<in> set (snd (w_kafka (ls_world s')))" "((topic, partition), n) \<in> set commits"
  obtain ops where t: "run.trace mp (set tks) s ops s'" using run_processor_trace [OF assms(1-3)] by blast
  from run.committed_settled_range [OF t assms(4) surjective_pairing c] trace_silent [OF t]
  show "\<exists>first < n. \<forall>off \<in> {first..<n}. \<exists>m. cm_pkey m = (topic, partition) \<and> cm_offset m = off \<and>
      (\<exists>tk \<in> set tks. poll (tk_raw tk) = Inr (Some m)) \<and> durable mp m (w_db (ls_world s')) (w_dlq (ls_world s'))"
    unfolding settled_record_def by blast
qed

text \<open>A run for the witnesses: one record without a value, then a shutdown request.\<close>

definition demo_raw :: raw_message where
  "demo_raw =
     \<lparr>rm_error = None, rm_topic = ''commerce.events'', rm_partition = 0, rm_offset = 5, rm_timestamp_ms = None,
      rm_key = None, rm_value = None, rm_headers = None\<rparr>"

definition demo_tick :: "bool \<Rightarrow> raw_message option \<Rightarrow> tick" where
  "demo_tick stop raw =
     \<lparr>tk_shutdown = stop, tk_rebalances = [Assigned [(''commerce.events'', 0)]], tk_raw = raw,
      tk_idle_flush = (True, 1, 1), tk_monotonic = 1, tk_has_assignment = True, tk_commit = (True, 1, 1),
      tk_weather = demo_weather\<rparr>"

definition demo_ticks :: "tick list" where
  "demo_ticks = [demo_tick False (Some demo_raw), demo_tick True None]"

definition demo_loop :: loop_config where
  "demo_loop = \<lparr>lo_max_messages = None, lo_idle_timeout_seconds = 10\<rparr>"

definition demo_start :: loop_state where
  "demo_start =
     \<lparr>ls_world = \<lparr>w_redis = (\<lambda>_. None), w_db = empty_db, w_kafka = (new_consumer 1 1000 0, []), w_dlq = [],
        w_summary = new_run_summary, w_inflight = 0\<rparr>, ls_terminal_count = 0, ls_last_record_at = 0\<rparr>"

lemma demo_polls: "poll (tk_raw (demo_tick b (Some demo_raw))) = Inr (Some demo_record)"
  by (simp add: demo_tick_def poll_def demo_raw_def demo_record_def)

lemma demo_ticks_quiet: "\<forall>tk \<in> set demo_ticks. meanwhile_ok demo_processor (tk_weather tk)"
  by (simp add: demo_ticks_def demo_tick_def meanwhile_ok_def demo_weather_def)

lemma demo_processor_ok: "processor_ok demo_processor"
  by (simp add: processor_ok_def)

lemma demo_run:
  "\<exists>s'. run_processor demo_loop demo_processor None (True, 9) demo_ticks demo_start = Some (Inr 0, s') \<and>
     snd (w_kafka (ls_world s')) = [[((''commerce.events'', 0), 6)]]"
  by (simp add: run_processor_def demo_ticks_def loop_iteration_def poll_def demo_raw_def Let_def record_iteration_def
      process_def validate_message_def dead_letter_def publish_def commit_def consumer_committer_def commit_terminal_def
      on_assign_def demo_start_def new_consumer_def new_tracker_def mark_terminal_def partition_of_def
      new_partition_state_def ps_mark_terminal_def maybe_flush_def flush_def flush_commits_def
      has_uncommitted_safe_offset_def scripted_commit_def commit_offsets_def confirm_commits_def confirm_commit_def
      reset_counters_def flush_answer_def shutdown_flush_def flush_pending_def flush_all_def exit_status_def
      bound_reached_def terminal_def cm_pkey_def demo_tick_def demo_loop_def demo_weather_def new_run_summary_def)

theorem committed_offsets_durable_witness:
  "\<exists>r s' first. run_processor demo_loop demo_processor None (True, 9) demo_ticks demo_start = Some (r, s') \<and> first < 6 \<and>
     (\<forall>off \<in> {first..<6}. \<exists>m. cm_pkey m = (''commerce.events'', 0) \<and> cm_offset m = off \<and>
        durable demo_processor m (w_db (ls_world s')) (w_dlq (ls_world s')))"
proof -
  obtain s' where run: "run_processor demo_loop demo_processor None (True, 9) demo_ticks demo_start = Some (Inr 0, s')"
    "snd (w_kafka (ls_world s')) = [[((''commerce.events'', 0), 6)]]" using demo_run by blast
  have start: "w_kafka (ls_world demo_start) = (new_consumer 1 1000 0, [])" by (simp add: demo_start_def)
  from committed_offsets_durable [OF run(1) demo_processor_ok demo_ticks_quiet start] run show ?thesis
    by (simp only: run(2)) fastforce
qed

text \<open>C17: the exit code tells the truth. If the processor exits with code 0 after a run that started
  without unresolved records, then every record it took from Kafka is in the ledger with its content
  or in the dead-letter topic; an exception, an undecided lease, a lost completion or an unconfirmed
  dead letter all give exit code 1.\<close>

theorem clean_exit_resolved:
  assumes "run_processor lo mp startup final tks s = Some (r, s')" and "main_code r = 0"
    and "processor_ok mp" and "\<forall>tk \<in> set tks. meanwhile_ok mp (tk_weather tk)"
    and "su_count (w_summary (ls_world s)) Unresolved_records = 0" and "m \<in> set (consumed lo mp tks s)"
  shows "durable mp m (w_db (ls_world s')) (w_dlq (ls_world s'))"
proof -
  have st: "startup = None"
    using assms(1,2) by (cases startup) (auto simp: run_processor_def main_code_def)
  then obtain q s1 where l: "run_loop lo mp tks s = Some (q, s1)" and s': "s' = shutdown_flush (fst final) (snd final) s1"
    and rq: "r = (case q of Inl x \<Rightarrow> Inl x | Inr _ \<Rightarrow> Inr (exit_status (w_summary (ls_world s'))))"
    using assms(1) by (auto simp: run_processor_def Let_def split: option.splits sum.splits prod.splits)
  have frame: "w_summary (ls_world s') = w_summary (ls_world s1)" "w_db (ls_world s') = w_db (ls_world s1)"
    "w_dlq (ls_world s') = w_dlq (ls_world s1)" by (simp_all add: s' shutdown_flush_def)
  have q: "q = Inr ()" and "unresolved (ls_world s1) = unresolved (ls_world s)"
    using assms(2,5) rq frame(1) by (auto simp: main_code_def exit_status_def unresolved_def split: sum.splits if_splits)
  with run_loop_clean [OF l [unfolded q] assms(3,4) _ assms(6)] frame show ?thesis by simp
qed

theorem clean_exit_resolved_witness:
  "\<exists>s'. run_processor demo_loop demo_processor None (True, 9) demo_ticks demo_start = Some (Inr 0, s') \<and>
     durable demo_processor demo_record (w_db (ls_world s')) (w_dlq (ls_world s'))"
proof -
  obtain s' where run: "run_processor demo_loop demo_processor None (True, 9) demo_ticks demo_start = Some (Inr 0, s')"
    using demo_run by blast
  have "\<not> tk_shutdown (demo_tick False (Some demo_raw))" by (simp add: demo_tick_def)
  then have "demo_record \<in> set (consumed demo_loop demo_processor demo_ticks demo_start)"
    by (simp add: demo_ticks_def demo_polls bound_reached_def demo_loop_def)
  moreover have "su_count (w_summary (ls_world demo_start)) Unresolved_records = 0"
    by (simp add: demo_start_def new_run_summary_def)
  ultimately show ?thesis
    using clean_exit_resolved [OF run _ demo_processor_ok demo_ticks_quiet] run by (simp add: main_code_def)
qed



end
