(* ===== verification/Worker_Pool.thy ===== *)
theory Worker_Pool
  imports Run_Loop "HOL-Library.Multiset"
begin

text \<open>
  \<^verbatim>\<open>main_pooled.py\<close>: the processor with several worker threads. The poll thread owns the consumer; it
  announces a record to the tracker, puts it on a bounded queue, and later commits what the workers
  have put on the commit queue. A worker takes a record, processes it and forgets it.

  A run is a list of actions of the poll thread and of the workers, in any order; an action that is
  not enabled does nothing. A worker's processing of a record is one action, so workers finish in
  any order; what happens to the database inside a call is left to its \<open>weather\<close>.
\<close>

section \<open>Merging the workers' summaries\<close>

definition merge_summary :: "run_summary \<Rightarrow> run_summary \<Rightarrow> run_summary" where
  "merge_summary s merged =
     \<lparr>su_count = (\<lambda>k. su_count merged k + su_count s k),
      su_latency_total_ms = su_latency_total_ms merged + su_latency_total_ms s,
      su_latency_max_ms = max (su_latency_max_ms merged) (su_latency_max_ms s),
      su_validation_failures = (\<lambda>k. su_validation_failures merged k + su_validation_failures s k),
      su_processed_events = (\<lambda>k. su_processed_events merged k + su_processed_events s k),
      su_rows_written_by_table = (\<lambda>k. su_rows_written_by_table merged k + su_rows_written_by_table s k),
      su_matched_rules = (\<lambda>k. su_matched_rules merged k + su_matched_rules s k)\<rparr>"

definition merge_summaries :: "run_summary list \<Rightarrow> run_summary" where
  "merge_summaries summaries = fold merge_summary summaries new_run_summary"

lemma fold_merge_count: "su_count (fold merge_summary ss acc) k = su_count acc k + (\<Sum>s\<leftarrow>ss. su_count s k)"
  by (induction ss arbitrary: acc) (simp_all add: merge_summary_def)

lemma merge_count: "su_count (merge_summaries ss) k = (\<Sum>s\<leftarrow>ss. su_count s k)"
  by (simp add: merge_summaries_def fold_merge_count new_run_summary_def)

section \<open>State\<close>

datatype poll_thread =
    Polling
  | Dispatching consumed_message
  | Joining
  | Unwinding "exn option"
  | Stopped "exn + int"

text \<open>\<open>pl_world\<close> holds what the workers share, with the commit queue as the state of their committer; a
  worker runs on it with its own summary.\<close>

record pool =
  pl_world :: "consumed_message list world"
  pl_summaries :: "run_summary list"
  pl_kafka :: kafka
  pl_work_queue :: "consumed_message list"
  pl_hands :: "consumed_message option list"
  pl_errors :: "exn list"
  pl_terminal_count :: int
  pl_last_record_at :: rat
  pl_thread :: poll_thread

abbreviation pl_commit_queue :: "pool \<Rightarrow> consumed_message list" where
  "pl_commit_queue s \<equiv> w_kafka (pl_world s)"

definition new_pool :: "nat \<Rightarrow> consumed_message list world \<Rightarrow> kafka \<Rightarrow> rat \<Rightarrow> pool" where
  "new_pool pool_size w k now =
     \<lparr>pl_world = w\<lparr>w_kafka := []\<rparr>, pl_summaries = replicate pool_size new_run_summary, pl_kafka = k,
      pl_work_queue = [], pl_hands = replicate pool_size None, pl_errors = [], pl_terminal_count = 0,
      pl_last_record_at = now, pl_thread = Polling\<rparr>"

section \<open>Workers\<close>

definition queued_committer :: "consumed_message list committer" where
  "queued_committer m sink = (Inr (), sink @ [m])"

definition take_work :: "nat \<Rightarrow> pool \<Rightarrow> pool" where
  "take_work i s =
     (case pl_work_queue s of
        [] \<Rightarrow> s
      | m # rest \<Rightarrow>
          if i < length (pl_hands s) \<and> pl_hands s ! i = None
          then s\<lparr>pl_work_queue := rest, pl_hands := (pl_hands s)[i := Some m]\<rparr> else s)"

definition finish_work :: "message_processor \<Rightarrow> nat \<Rightarrow> weather \<Rightarrow> pool \<Rightarrow> pool" where
  "finish_work mp i we s =
     (if i < length (pl_hands s) \<and> i < length (pl_summaries s) then
        (case pl_hands s ! i of
           None \<Rightarrow> s
         | Some m \<Rightarrow>
             (case process mp we queued_committer m ((pl_world s)\<lparr>w_summary := pl_summaries s ! i\<rparr>) of
                (r, w) \<Rightarrow>
                  s\<lparr>pl_world := w, pl_summaries := (pl_summaries s)[i := w_summary w],
                    pl_hands := (pl_hands s)[i := None],
                    pl_errors := pl_errors s @ (case r of Inl x \<Rightarrow> [x] | Inr _ \<Rightarrow> [])\<rparr>))
      else s)"

section \<open>Poll thread\<close>

text \<open>What Kafka answers to the commits of one drain, with the clock readings.\<close>

type_synonym answers = "nat \<Rightarrow> bool \<times> rat \<times> rat"

fun drain_queue ::
  "answers \<Rightarrow> consumed_message list \<Rightarrow> kafka \<Rightarrow> int \<Rightarrow> (exn + unit) \<times> consumed_message list \<times> kafka \<times> int" where
  "drain_queue an [] k n = (Inr (), [], k, n)"
| "drain_queue an (m # q) k n =
     (case an 0 of (ok, now, now') \<Rightarrow>
        case commit_terminal ok now now' m k of
          (Inl x, k') \<Rightarrow> (Inl x, q, k', n)
        | (Inr _, k') \<Rightarrow> drain_queue (an \<circ> Suc) q k' (n + 1))"

definition drain_commits :: "answers \<Rightarrow> pool \<Rightarrow> (exn + unit) \<times> pool" where
  "drain_commits an s =
     (case drain_queue an (pl_commit_queue s) (pl_kafka s) (pl_terminal_count s) of
        (r, q, k, n) \<Rightarrow>
          (r, s\<lparr>pl_world := (pl_world s)\<lparr>w_kafka := q\<rparr>, pl_kafka := k, pl_terminal_count := n\<rparr>))"

definition check_errors :: "pool \<Rightarrow> (exn + unit) \<times> pool" where
  "check_errors s = (case pl_errors s of [] \<Rightarrow> (Inr (), s) | x # xs \<Rightarrow> (Inl x, s\<lparr>pl_errors := xs\<rparr>))"

text \<open>An exception in the loop goes to the \<open>finally\<close> block.\<close>

definition then_next :: "(exn + unit) \<times> pool \<Rightarrow> poll_thread \<Rightarrow> pool" where
  "then_next r pc =
     (case r of (Inl x, s) \<Rightarrow> s\<lparr>pl_thread := Unwinding (Some x)\<rparr> | (Inr _, s) \<Rightarrow> s\<lparr>pl_thread := pc\<rparr>)"

definition pool_bound_reached :: "loop_config \<Rightarrow> pool \<Rightarrow> bool" where
  "pool_bound_reached lo s = (case lo_max_messages lo of None \<Rightarrow> False | Some n \<Rightarrow> pl_terminal_count s \<ge> n)"

definition idle_expired :: "loop_config \<Rightarrow> tick \<Rightarrow> pool \<Rightarrow> bool" where
  "idle_expired lo tk s \<longleftrightarrow> lo_max_messages lo \<noteq> None \<and>
     tk_monotonic tk - pl_last_record_at s \<ge> lo_idle_timeout_seconds lo \<and> \<not> tk_has_assignment tk"

definition idle_poll :: "loop_config \<Rightarrow> tick \<Rightarrow> answers \<Rightarrow> pool \<Rightarrow> pool" where
  "idle_poll lo tk an s =
     (case tk_idle_flush tk of (ok, now, now') \<Rightarrow>
        case maybe_flush_idle ok now now' (pl_kafka s) of
          (Inl x, k) \<Rightarrow> s\<lparr>pl_kafka := k, pl_thread := Unwinding (Some x)\<rparr>
        | (Inr _, k) \<Rightarrow>
            let s1 = s\<lparr>pl_kafka := k\<rparr>
            in then_next (drain_commits an s1) (if idle_expired lo tk s1 then Joining else Polling))"

definition poll_once :: "loop_config \<Rightarrow> tick \<Rightarrow> answers \<Rightarrow> pool \<Rightarrow> pool" where
  "poll_once lo tk an s =
     (if tk_shutdown tk \<or> pool_bound_reached lo s then s\<lparr>pl_thread := Joining\<rparr>
      else case check_errors s of
             (Inl x, s1) \<Rightarrow> s1\<lparr>pl_thread := Unwinding (Some x)\<rparr>
           | (Inr _, s1) \<Rightarrow>
               let s2 = s1\<lparr>pl_kafka := fold on_rebalance (tk_rebalances tk) (pl_kafka s1)\<rparr>
               in case poll (tk_raw tk) of
                    Inl x \<Rightarrow> s2\<lparr>pl_thread := Unwinding (Some x)\<rparr>
                  | Inr None \<Rightarrow> idle_poll lo tk an s2
                  | Inr (Some m) \<Rightarrow>
                      s2\<lparr>pl_last_record_at := tk_monotonic tk,
                         pl_kafka := (case pl_kafka s2 of (c, calls) \<Rightarrow> (observe_dispatched m c, calls)),
                         pl_thread := Dispatching m\<rparr>)"

definition put_work :: "answers \<Rightarrow> consumed_message \<Rightarrow> pool \<Rightarrow> pool" where
  "put_work an m s = then_next (drain_commits an (s\<lparr>pl_work_queue := pl_work_queue s @ [m]\<rparr>)) Polling"

text \<open>After the loop: all work is done, then one last drain and one last look for errors.\<close>

definition join_workers :: "answers \<Rightarrow> pool \<Rightarrow> pool" where
  "join_workers an s =
     (case drain_commits an s of
        (Inl x, s1) \<Rightarrow> s1\<lparr>pl_thread := Unwinding (Some x)\<rparr>
      | (Inr _, s1) \<Rightarrow> then_next (check_errors s1) (Unwinding None))"

definition finally_stop :: "bool \<Rightarrow> rat \<Rightarrow> exn option \<Rightarrow> pool \<Rightarrow> pool" where
  "finally_stop ok now raised s =
     s\<lparr>pl_kafka := snd (flush_pending ok now (pl_kafka s)),
       pl_thread := Stopped (case raised of Some x \<Rightarrow> Inl x
                             | None \<Rightarrow> Inr (exit_status (merge_summaries (pl_summaries s))))\<rparr>"

section \<open>Runs\<close>

datatype action =
    Poll tick answers
  | Put answers
  | Take nat
  | Finish nat weather
  | Join answers
  | Finally bool rat

definition all_idle :: "pool \<Rightarrow> bool" where
  "all_idle s \<longleftrightarrow> pl_work_queue s = [] \<and> list_all (\<lambda>h. h = None) (pl_hands s)"

fun act :: "loop_config \<Rightarrow> message_processor \<Rightarrow> action \<Rightarrow> pool \<Rightarrow> pool" where
  "act lo mp (Poll tk an) s = (if pl_thread s = Polling then poll_once lo tk an s else s)"
| "act lo mp (Put an) s =
     (case pl_thread s of
        Dispatching m \<Rightarrow> if length (pl_work_queue s) < 2 * length (pl_hands s) then put_work an m s else s
      | _ \<Rightarrow> s)"
| "act lo mp (Take i) s = take_work i s"
| "act lo mp (Finish i we) s = finish_work mp i we s"
| "act lo mp (Join an) s = (if pl_thread s = Joining \<and> all_idle s then join_workers an s else s)"
| "act lo mp (Finally ok now) s = (case pl_thread s of Unwinding r \<Rightarrow> finally_stop ok now r s | _ \<Rightarrow> s)"

definition pool_run :: "loop_config \<Rightarrow> message_processor \<Rightarrow> action list \<Rightarrow> pool \<Rightarrow> pool" where
  "pool_run lo mp as s = fold (act lo mp) as s"

text \<open>The records a run dispatches, in order.\<close>

fun dispatches :: "pool \<Rightarrow> pool \<Rightarrow> consumed_message list" where
  "dispatches s s' = (case (pl_thread s, pl_thread s') of (Polling, Dispatching m) \<Rightarrow> [m] | _ \<Rightarrow> [])"

fun dispatched :: "loop_config \<Rightarrow> message_processor \<Rightarrow> action list \<Rightarrow> pool \<Rightarrow> consumed_message list" where
  "dispatched lo mp [] s = []"
| "dispatched lo mp (a # as) s = dispatches s (act lo mp a s) @ dispatched lo mp as (act lo mp a s)"

lemma pool_run_simps [simp]:
  "pool_run lo mp [] s = s" "pool_run lo mp (a # as) s = pool_run lo mp as (act lo mp a s)"
  "pool_run lo mp (as @ bs) s = pool_run lo mp bs (pool_run lo mp as s)"
  by (simp_all add: pool_run_def)

lemma dispatched_append:
  "dispatched lo mp (as @ bs) s = dispatched lo mp as s @ dispatched lo mp bs (pool_run lo mp as s)"
  by (induction as arbitrary: s) simp_all

section \<open>The pool drives its consumer safely\<close>

abbreviation pool_durable :: "message_processor \<Rightarrow> pool \<Rightarrow> consumed_message \<Rightarrow> bool" where
  "pool_durable mp s m \<equiv> durable mp m (w_db (pl_world s)) (w_dlq (pl_world s))"

definition pool_moves :: "message_processor \<Rightarrow> pool \<Rightarrow> consumer_op list \<Rightarrow> pool \<Rightarrow> bool" where
  "pool_moves mp s ops s' \<longleftrightarrow> pl_kafka s' = consumer_run ops (pl_kafka s) \<and>
     (\<forall>ok t t' m. CCommit ok t t' m \<in> set ops \<longrightarrow> pool_durable mp s' m) \<and>
     (\<exists>uc. mp_persistence mp = Some uc \<and> progresses mp uc (pl_world s) (pl_world s'))"

interpretation pool: commit_source "pool_moves mp" pl_kafka "pool_durable mp" for mp
  by unfold_locales (auto simp: pool_moves_def dest: progresses_durable)

text \<open>What the pool knows about the records in its hands: each was dispatched, and each on the commit
  queue is durable.\<close>

definition pool_inv :: "consumed_message set \<Rightarrow> message_processor \<Rightarrow> pool \<Rightarrow> bool" where
  "pool_inv D mp s \<longleftrightarrow> (\<forall>m. pl_thread s = Dispatching m \<longrightarrow> m \<in> D) \<and> set (pl_work_queue s) \<subseteq> D \<and>
     (\<forall>m. Some m \<in> set (pl_hands s) \<longrightarrow> m \<in> D) \<and> (\<forall>m \<in> set (pl_commit_queue s). m \<in> D \<and> pool_durable mp s m)"

fun observed :: "consumer_op list \<Rightarrow> consumed_message list" where
  "observed [] = []"
| "observed (CObserve m # ops) = m # observed ops"
| "observed (x # ops) = observed ops"

lemma observed_append [simp]: "observed (xs @ ys) = observed xs @ observed ys"
  by (induction xs rule: observed.induct) simp_all

lemma observed_iff: "m \<in> set (observed ops) \<longleftrightarrow> CObserve m \<in> set ops"
  by (induction ops rule: observed.induct) auto

lemma observed_rebalance [simp]: "observed (map rebalance_op rs) = []"
  by (induction rs) (auto split: rebalance.splits elim: rebalance_op.elims, metis observed.simps(3,4) rebalance_op.elims)

fun revokes :: "pkey \<Rightarrow> action \<Rightarrow> bool" where
  "revokes key (Poll tk an) \<longleftrightarrow> (\<exists>ok now keys. Revoked ok now keys \<in> set (tk_rebalances tk) \<and> key \<in> set keys)"
| "revokes key _ \<longleftrightarrow> False"

fun quiet :: "message_processor \<Rightarrow> action \<Rightarrow> bool" where
  "quiet mp (Finish i we) \<longleftrightarrow> meanwhile_ok mp we"
| "quiet mp _ \<longleftrightarrow> True"

text \<open>The simulation: an action is a sequence of consumer operations that announces what it dispatches,
  commits only dispatched records, and revokes only what it says.\<close>

definition simulates ::
  "consumed_message set \<Rightarrow> message_processor \<Rightarrow> action \<Rightarrow> pool \<Rightarrow> consumer_op list \<Rightarrow> pool \<Rightarrow> bool" where
  "simulates D mp a s ops s' \<longleftrightarrow> pool_moves mp s ops s' \<and> observed ops = dispatches s s' \<and>
     (\<forall>ok t t' m. CCommit ok t t' m \<in> set ops \<longrightarrow> m \<in> D) \<and>
     (\<forall>ok t keys key. CRevoke ok t keys \<in> set ops \<longrightarrow> key \<in> set keys \<longrightarrow> revokes key a) \<and>
     pool_inv (D \<union> set (dispatches s s')) mp s'"

lemma drain_queue_ops:
  assumes "drain_queue an q k n = (r, q', k', n')"
  shows "\<exists>ops. k' = consumer_run ops k \<and> (\<forall>x \<in> set ops. \<exists>ok t t' m. x = CCommit ok t t' m \<and> m \<in> set q) \<and> set q' \<subseteq> set q"
  using assms
proof (induction an q k n rule: drain_queue.induct)
  case (1 an k n)
  then show ?case by (auto simp: consumer_run_def intro: exI [of _ "[]"])
next
  case (2 an m q k n)
  obtain ok now now' where an: "an 0 = (ok, now, now')" by (metis prod_cases3)
  obtain a k1 where c: "commit_terminal ok now now' m k = (a, k1)" by (rule prod.exhaust)
  have k1: "consumer_run [CCommit ok now now' m] k = k1" by (simp add: consumer_run_one c)
  show ?case
  proof (cases a)
    case (Inl x)
    with 2 an c k1 show ?thesis by (intro exI [of _ "[CCommit ok now now' m]"]) auto
  next
    case (Inr u)
    with 2 an c obtain ops where "k' = consumer_run ops k1"
      "\<forall>x \<in> set ops. \<exists>ok t t' m. x = CCommit ok t t' m \<and> m \<in> set q" "set q' \<subseteq> set q" by fastforce
    with k1 show ?thesis
      by (intro exI [of _ "CCommit ok now now' m # ops"]) (fastforce simp: consumer_run_def)
  qed
qed

lemma drain_commits_ops:
  assumes "drain_commits an s = (r, s')"
  obtains ops q n where "s' = s\<lparr>pl_world := (pl_world s)\<lparr>w_kafka := q\<rparr>, pl_kafka := consumer_run ops (pl_kafka s), pl_terminal_count := n\<rparr>"
    "\<And>x. x \<in> set ops \<Longrightarrow> \<exists>ok t t' m. x = CCommit ok t t' m \<and> m \<in> set (pl_commit_queue s)" "set q \<subseteq> set (pl_commit_queue s)"
proof -
  obtain r0 q k n where d: "drain_queue an (pl_commit_queue s) (pl_kafka s) (pl_terminal_count s) = (r0, q, k, n)"
    by (metis prod_cases4)
  obtain ops where "k = consumer_run ops (pl_kafka s)" "set q \<subseteq> set (pl_commit_queue s)"
    "\<forall>x \<in> set ops. \<exists>ok t t' m. x = CCommit ok t t' m \<and> m \<in> set (pl_commit_queue s)"
    using drain_queue_ops [OF d] by blast
  moreover have "s' = s\<lparr>pl_world := (pl_world s)\<lparr>w_kafka := q\<rparr>, pl_kafka := k, pl_terminal_count := n\<rparr>"
    using assms d by (simp add: drain_commits_def)
  ultimately show ?thesis using that by blast
qed

lemma observed_commits: "(\<And>x. x \<in> set ops \<Longrightarrow> \<exists>ok t t' m. x = CCommit ok t t' m) \<Longrightarrow> observed ops = []"
  by (induction ops rule: observed.induct) fastforce+

text \<open>An action of the poll thread moves records between queues and leaves the shared world alone.\<close>

lemma simulatesI:
  assumes "pool_inv D mp s" "processor_ok mp"
    and "w_db (pl_world s') = w_db (pl_world s)" "w_dlq (pl_world s') = w_dlq (pl_world s)"
    and "pl_kafka s' = consumer_run ops (pl_kafka s)" "observed ops = dispatches s s'"
    and "\<And>ok t t' m. CCommit ok t t' m \<in> set ops \<Longrightarrow> m \<in> set (pl_commit_queue s)"
    and "\<And>ok t keys key. CRevoke ok t keys \<in> set ops \<Longrightarrow> key \<in> set keys \<Longrightarrow> revokes key a"
    and "set (pl_commit_queue s') \<subseteq> set (pl_commit_queue s)"
    and "set (pl_work_queue s') \<subseteq> set (pl_work_queue s) \<union> {m. pl_thread s = Dispatching m}"
    and "\<And>m. Some m \<in> set (pl_hands s') \<Longrightarrow> Some m \<in> set (pl_hands s) \<or> m \<in> set (pl_work_queue s)"
    and "\<And>m. pl_thread s' = Dispatching m \<Longrightarrow> pl_thread s = Dispatching m \<or> m \<in> set (dispatches s s')"
  shows "simulates D mp a s ops s'"
proof -
  obtain uc where "mp_persistence mp = Some uc" using assms(2) by (auto simp: processor_ok_def)
  moreover have "progresses mp uc (pl_world s) (pl_world s')" using assms(3,4) by (rule progresses_refl)
  moreover have inv: "\<forall>m \<in> set (pl_commit_queue s). m \<in> D \<and> pool_durable mp s' m"
    using assms(1,3,4) by (simp add: pool_inv_def)
  moreover have "pool_inv (D \<union> set (dispatches s s')) mp s'"
    using assms(1,9-12) inv unfolding pool_inv_def by blast
  ultimately show ?thesis using assms(5-8) unfolding simulates_def pool_moves_def by blast
qed

lemma simulates_stay: "pool_inv D mp s \<Longrightarrow> processor_ok mp \<Longrightarrow> simulates D mp a s [] s"
  by (rule simulatesI) (auto simp: consumer_run_def split: poll_thread.split)

lemma simulates_drain:
  assumes "pool_inv D mp s" "processor_ok mp" "drain_commits an s1 = (r, s2)"
    and "pl_world s1 = pl_world s" "pl_kafka s1 = consumer_run xs (pl_kafka s)" "observed xs = []"
    and "\<And>ok t t' m. CCommit ok t t' m \<notin> set xs"
    and "\<And>ok t keys key. CRevoke ok t keys \<in> set xs \<Longrightarrow> key \<in> set keys \<Longrightarrow> revokes key a"
    and "set (pl_work_queue s1) \<subseteq> set (pl_work_queue s) \<union> {m. pl_thread s = Dispatching m}" "pl_hands s1 = pl_hands s"
    and "\<And>m. pc \<noteq> Dispatching m"
  shows "\<exists>ops. simulates D mp a s ops (s2\<lparr>pl_thread := pc, pl_errors := es\<rparr>)"
proof -
  obtain ys q n where s2: "s2 = s1\<lparr>pl_world := (pl_world s1)\<lparr>w_kafka := q\<rparr>, pl_kafka := consumer_run ys (pl_kafka s1), pl_terminal_count := n\<rparr>"
    and ys: "\<And>x. x \<in> set ys \<Longrightarrow> \<exists>ok t t' m. x = CCommit ok t t' m \<and> m \<in> set (pl_commit_queue s1)"
    and q: "set q \<subseteq> set (pl_commit_queue s1)"
    by (rule drain_commits_ops [OF assms(3)]) (rule that)
  have no: "observed ys = []" by (rule observed_commits) (use ys in blast)
  have rev: "CRevoke ok t keys \<notin> set ys" for ok t keys using ys by blast
  have com: "m \<in> set (pl_commit_queue s1)" if "CCommit ok t t' m \<in> set ys" for ok t t' m using ys [OF that] by blast
  have d: "dispatches s (s2\<lparr>pl_thread := pc, pl_errors := es\<rparr>) = []"
    using assms(11) by (cases pc) (auto split: poll_thread.split)
  have "simulates D mp a s (xs @ ys) (s2\<lparr>pl_thread := pc, pl_errors := es\<rparr>)"
  proof (rule simulatesI [OF assms(1,2)])
    fix ok t t' m
    assume "CCommit ok t t' m \<in> set (xs @ ys)"
    with assms(7) com show "m \<in> set (pl_commit_queue s)" by (metis Un_iff assms(4) set_append)
  next
    fix ok t keys key
    assume "CRevoke ok t keys \<in> set (xs @ ys)" "key \<in> set keys"
    with rev assms(8) show "revokes key a" by (metis Un_iff set_append)
  qed (use assms(4-6,9-11) no q d in \<open>simp_all add: s2 consumer_run_append del: dispatches.simps\<close>)
  then show ?thesis ..
qed

lemma then_next_eq: "then_next (r, s) pc = s\<lparr>pl_thread := case r of Inl x \<Rightarrow> Unwinding (Some x) | Inr _ \<Rightarrow> pc\<rparr>"
  by (simp add: then_next_def split: sum.split)

lemma same_errors: "s\<lparr>pl_thread := pc\<rparr> = s\<lparr>pl_thread := pc, pl_errors := pl_errors s\<rparr>"
  by simp

lemma rebalance_ops_pure:
  "CCommit ok t t' m \<notin> set (map rebalance_op rs)" "CObserve m \<notin> set (map rebalance_op rs)"
  "CRevoke ok t keys \<in> set (map rebalance_op rs) \<Longrightarrow> Revoked ok t keys \<in> set rs"
  by (auto dest: rebalance_op.elims [OF sym])

lemma simulates_idle:
  assumes "pool_inv D mp s" "processor_ok mp" "pl_thread s = Polling"
  shows "\<exists>ops. simulates D mp (Poll tk an) s ops
    (idle_poll lo tk an (s\<lparr>pl_kafka := consumer_run (map rebalance_op (tk_rebalances tk)) (pl_kafka s)\<rparr>))"
proof -
  obtain ok now now' where c: "tk_idle_flush tk = (ok, now, now')" by (metis prod_cases3)
  let ?xs = "map rebalance_op (tk_rebalances tk)"
  let ?ops = "?xs @ [CIdle ok now now']"
  obtain r k where f: "maybe_flush_idle ok now now' (consumer_run ?xs (pl_kafka s)) = (r, k)" by (rule prod.exhaust)
  have k: "k = consumer_run ?ops (pl_kafka s)"
    using f by (simp add: consumer_run_append consumer_run_one)
  have rev: "revokes key (Poll tk an)" if "CRevoke ok' t keys \<in> set ?ops" "key \<in> set keys" for ok' t keys key
    using that rebalance_ops_pure(3) [of ok' t keys "tk_rebalances tk"] by auto
  have com: "CCommit ok' t t' m \<notin> set ?ops" for ok' t t' m
    using rebalance_ops_pure(1) [of ok' t t' m "tk_rebalances tk"] by simp
  have obs: "observed ?ops = []" by simp
  show ?thesis
  proof (cases r)
    case (Inl x)
    have "simulates D mp (Poll tk an) s ?ops (s\<lparr>pl_kafka := k, pl_thread := Unwinding (Some x)\<rparr>)"
      by (rule simulatesI [OF assms(1,2)]) (use k rev com obs assms(3) in \<open>simp_all del: set_append set_map\<close>)
    with Inl f c show ?thesis by (auto simp: idle_poll_def)
  next
    case (Inr u)
    let ?s2 = "s\<lparr>pl_kafka := k\<rparr>"
    obtain r2 s3 where d: "drain_commits an ?s2 = (r2, s3)" by (rule prod.exhaust)
    have "\<exists>ops. simulates D mp (Poll tk an) s ops (s3\<lparr>pl_thread := pc, pl_errors := pl_errors s3\<rparr>)"
      if "\<And>m. pc \<noteq> Dispatching m" for pc
      by (rule simulates_drain [OF assms(1,2) d, where xs = ?ops])
        (use k rev com that obs in \<open>simp_all del: set_append set_map\<close>)
    then have "\<exists>ops. simulates D mp (Poll tk an) s ops (s3\<lparr>pl_thread := pc\<rparr>)" if "\<And>m. pc \<noteq> Dispatching m" for pc
      using that by simp
    moreover have "idle_poll lo tk an (s\<lparr>pl_kafka := consumer_run ?xs (pl_kafka s)\<rparr>) =
      s3\<lparr>pl_thread := case r2 of Inl x \<Rightarrow> Unwinding (Some x) | Inr _ \<Rightarrow> if idle_expired lo tk ?s2 then Joining else Polling\<rparr>"
      using Inr f c d by (simp add: idle_poll_def Let_def then_next_eq)
    moreover have "(case r2 of Inl x \<Rightarrow> Unwinding (Some x) | Inr _ \<Rightarrow> if idle_expired lo tk ?s2 then Joining else Polling) \<noteq> Dispatching m" for m
      by (simp split: sum.split)
    ultimately show ?thesis by metis
  qed
qed

lemma simulates_poll:
  assumes "pool_inv D mp s" "processor_ok mp" "pl_thread s = Polling"
  shows "\<exists>ops. simulates D mp (Poll tk an) s ops (poll_once lo tk an s)"
proof -
  let ?xs = "map rebalance_op (tk_rebalances tk)"
  have rev: "revokes key (Poll tk an)" if "CRevoke ok' t keys \<in> set ?xs" "key \<in> set keys" for ok' t keys key
    using that rebalance_ops_pure(3) [of ok' t keys "tk_rebalances tk"] by auto
  have join: "simulates D mp (Poll tk an) s [] (s\<lparr>pl_thread := Joining\<rparr>)"
    by (rule simulatesI [OF assms(1,2)]) (simp_all add: assms(3) consumer_run_def)
  have err: "simulates D mp (Poll tk an) s [] (s\<lparr>pl_errors := es, pl_thread := Unwinding (Some x)\<rparr>)" for es x
    by (rule simulatesI [OF assms(1,2)]) (simp_all add: assms(3) consumer_run_def)
  have bad: "simulates D mp (Poll tk an) s ?xs (s\<lparr>pl_kafka := consumer_run ?xs (pl_kafka s), pl_thread := Unwinding (Some x)\<rparr>)" for x
    by (rule simulatesI [OF assms(1,2)])
      (use rev rebalance_ops_pure(1) in \<open>simp_all add: assms(3) del: set_map\<close>)
  have one: "consumer_run (?xs @ [CObserve m]) k = (case consumer_run ?xs k of (c, calls) \<Rightarrow> (observe_dispatched m c, calls))" for m k
    by (simp add: consumer_run_append consumer_run_one split: prod.split)
  have rec: "simulates D mp (Poll tk an) s (?xs @ [CObserve m])
      (s\<lparr>pl_last_record_at := t, pl_kafka := consumer_run (?xs @ [CObserve m]) (pl_kafka s), pl_thread := Dispatching m\<rparr>)" for m t
    by (rule simulatesI [OF assms(1,2)])
      (use rev rebalance_ops_pure(1) in \<open>auto simp: assms(3) simp del: set_map\<close>)
  show ?thesis
    using join err bad rec [unfolded one] simulates_idle [OF assms, of tk an lo]
    by (simp add: poll_once_def check_errors_def rebalance_run Let_def split: list.split sum.split option.split) blast
qed

lemma simulates_put:
  assumes "pool_inv D mp s" "processor_ok mp" "pl_thread s = Dispatching m"
  shows "\<exists>ops. simulates D mp (Put an) s ops (put_work an m s)"
proof -
  let ?s1 = "s\<lparr>pl_work_queue := pl_work_queue s @ [m]\<rparr>"
  obtain r s2 where d: "drain_commits an ?s1 = (r, s2)" by (rule prod.exhaust)
  let ?pc = "case r of Inl x \<Rightarrow> Unwinding (Some x) | Inr _ \<Rightarrow> Polling"
  have "\<exists>ops. simulates D mp (Put an) s ops (s2\<lparr>pl_thread := ?pc, pl_errors := pl_errors s2\<rparr>)"
    by (rule simulates_drain [OF assms(1,2) d, where xs = "[]"])
      (simp_all add: assms(3) consumer_run_def split: sum.split)
  then show ?thesis by (simp add: put_work_def d then_next_eq)
qed

lemma simulates_join:
  assumes "pool_inv D mp s" "processor_ok mp" "pl_thread s = Joining"
  shows "\<exists>ops. simulates D mp (Join an) s ops (join_workers an s)"
proof -
  obtain r s2 where d: "drain_commits an s = (r, s2)" by (rule prod.exhaust)
  have step: "\<exists>ops. simulates D mp (Join an) s ops (s2\<lparr>pl_thread := pc, pl_errors := es\<rparr>)" if "\<And>m. pc \<noteq> Dispatching m" for pc es
    by (rule simulates_drain [OF assms(1,2) d, where xs = "[]"]) (use that in \<open>simp_all add: consumer_run_def\<close>)
  consider x where "r = Inl x" | u where "r = Inr u" "pl_errors s2 = []" | u x es where "r = Inr u" "pl_errors s2 = x # es"
    by (cases r; cases "pl_errors s2") auto
  then show ?thesis
  proof cases
    case 1
    with step [of "Unwinding (Some x)" "pl_errors s2"] show ?thesis by (simp add: join_workers_def d)
  next
    case 2
    then have "join_workers an s = s2\<lparr>pl_thread := Unwinding None, pl_errors := pl_errors s2\<rparr>"
      by (simp add: join_workers_def d check_errors_def then_next_eq)
    with step [of "Unwinding None" "pl_errors s2"] show ?thesis by (simp only: poll_thread.simps simp_thms)
  next
    case 3
    then have "join_workers an s = s2\<lparr>pl_thread := Unwinding (Some x), pl_errors := es\<rparr>"
      by (simp add: join_workers_def d check_errors_def then_next_eq)
    with step [of "Unwinding (Some x)" es] show ?thesis by (simp only: poll_thread.simps simp_thms)
  qed
qed

lemma simulates_finally:
  assumes "pool_inv D mp s" "processor_ok mp" "pl_thread s = Unwinding r"
  shows "simulates D mp (Finally ok now) s [CFlush ok now] (finally_stop ok now r s)"
  by (rule simulatesI [OF assms(1,2)]) (simp_all add: assms(3) finally_stop_def consumer_run_one)

lemma simulates_take:
  assumes "pool_inv D mp s" "processor_ok mp"
  shows "simulates D mp (Take i) s [] (take_work i s)"
proof (cases "pl_work_queue s")
  case (Cons m rest)
  show ?thesis
  proof (cases "i < length (pl_hands s) \<and> pl_hands s ! i = None")
    case True
    have "simulates D mp (Take i) s [] (s\<lparr>pl_work_queue := rest, pl_hands := (pl_hands s)[i := Some m]\<rparr>)"
      by (rule simulatesI [OF assms])
        (auto simp: Cons consumer_run_def split: poll_thread.split dest: set_update_subset_insert [THEN subsetD])
    with True Cons show ?thesis by (simp add: take_work_def)
  qed (use Cons simulates_stay [OF assms] in \<open>auto simp: take_work_def\<close>)
qed (simp add: take_work_def simulates_stay [OF assms])

lemma simulates_finish:
  assumes "pool_inv D mp s" "processor_ok mp" "meanwhile_ok mp we"
  shows "simulates D mp (Finish i we) s [] (finish_work mp i we s)"
proof (cases "i < length (pl_hands s) \<and> i < length (pl_summaries s) \<and> pl_hands s ! i \<noteq> None")
  case True
  then obtain m where m: "pl_hands s ! i = Some m" by auto
  then have mD: "m \<in> D" using assms(1) True by (auto simp: pool_inv_def in_set_conv_nth)
  obtain uc where uc: "mp_persistence mp = Some uc" and max: "0 < maximum_attempts (mp_retry mp)"
    using assms(2) by (auto simp: processor_ok_def)
  let ?w = "(pl_world s)\<lparr>w_summary := pl_summaries s ! i\<rparr>"
  obtain r w where p: "process mp we queued_committer m ?w = (r, w)" by (rule prod.exhaust)
  let ?s' = "finish_work mp i we s"
  have s': "?s' = s\<lparr>pl_world := w, pl_summaries := (pl_summaries s)[i := w_summary w], pl_hands := (pl_hands s)[i := None],
      pl_errors := pl_errors s @ (case r of Inl x \<Rightarrow> [x] | Inr _ \<Rightarrow> [])\<rparr>"
    using True m p by (simp add: finish_work_def)
  have pr: "progresses mp uc (pl_world s) w" using process_progresses [OF p uc assms(3)] by (simp add: progresses_def)
  have "set (w_kafka w) \<subseteq> insert m (set (pl_commit_queue s))" "m \<in> set (w_kafka w) \<Longrightarrow> m \<notin> set (pl_commit_queue s) \<Longrightarrow> durable mp m (w_db w) (w_dlq w)"
    using process_settled [OF p uc max] by (auto simp: settled_def queued_committer_def)
  moreover have "durable mp n (w_db w) (w_dlq w)" if "n \<in> set (pl_commit_queue s)" for n
    using assms(1) that progresses_durable [OF pr] by (simp add: pool_inv_def)
  ultimately have "\<forall>n \<in> set (w_kafka w). n \<in> D \<and> durable mp n (w_db w) (w_dlq w)"
    using assms(1) mD by (auto simp: pool_inv_def)
  moreover have "Some n \<in> set (pl_hands s)" if "Some n \<in> set ((pl_hands s)[i := None])" for n
    using that set_update_subset_insert [of "pl_hands s" i None] by auto
  ultimately have "pool_inv D mp ?s'" using assms(1) by (auto simp: pool_inv_def s')
  with pr uc show ?thesis
    by (auto simp: simulates_def pool_moves_def s' consumer_run_def split: poll_thread.split)
next
  case False
  then have "finish_work mp i we s = s" by (auto simp: finish_work_def)
  with simulates_stay [OF assms(1,2)] show ?thesis by simp
qed

lemma act_simulates:
  assumes "pool_inv D mp s" "processor_ok mp" "quiet mp a"
  shows "\<exists>ops. simulates D mp a s ops (act lo mp a s)"
proof -
  note stay = exI [of "\<lambda>ops. simulates D mp a s ops s", OF simulates_stay [OF assms(1,2)]]
  show ?thesis
  proof (cases a)
    case (Poll tk an)
    with simulates_poll [OF assms(1,2)] stay show ?thesis by simp
  next
    case (Put an)
    with simulates_put [OF assms(1,2)] stay show ?thesis by (cases "pl_thread s") auto
  next
    case (Take i)
    with simulates_take [OF assms(1,2)] show ?thesis by fastforce
  next
    case (Finish i we)
    with simulates_finish [OF assms(1,2)] assms(3) show ?thesis by fastforce
  next
    case (Join an)
    with simulates_join [OF assms(1,2)] stay show ?thesis by simp
  next
    case (Finally ok now)
    with simulates_finally [OF assms(1,2)] stay show ?thesis by (cases "pl_thread s") fastforce+
  qed
qed

section \<open>Runs of the pool\<close>

text \<open>Every commit comes after the announcement of its record.\<close>

definition announced_first :: "consumer_op list \<Rightarrow> bool" where
  "announced_first ops \<longleftrightarrow> (\<forall>xs ok t t' m ys. ops = xs @ CCommit ok t t' m # ys \<longrightarrow> CObserve m \<in> set xs)"

lemma announced_first_append:
  assumes "announced_first xs" "\<And>ok t t' m. CCommit ok t t' m \<in> set ys \<Longrightarrow> CObserve m \<in> set xs"
  shows "announced_first (xs @ ys)"
  unfolding announced_first_def
proof safe
  fix as ok t t' m bs
  assume "xs @ ys = as @ CCommit ok t t' m # bs"
  then consider us where "xs = as @ CCommit ok t t' m # us" | us where "as = xs @ us" "ys = us @ CCommit ok t t' m # bs"
    by (fastforce simp: append_eq_append_conv2 append_eq_Cons_conv)
  then show "CObserve m \<in> set as"
  proof cases
    case 1
    with assms(1) show ?thesis unfolding announced_first_def by blast
  next
    case 2
    with assms(2) [of ok t t' m] show ?thesis by simp
  qed
qed

definition traced :: "message_processor \<Rightarrow> action list \<Rightarrow> consumed_message list \<Rightarrow> pool \<Rightarrow> consumer_op list \<Rightarrow> pool \<Rightarrow> bool" where
  "traced mp as D s ops s' \<longleftrightarrow> pool.trace mp s ops s' \<and> observed ops = D \<and> announced_first ops \<and>
     (\<forall>ok t keys key. CRevoke ok t keys \<in> set ops \<longrightarrow> key \<in> set keys \<longrightarrow> list_ex (revokes key) as) \<and> pool_inv (set D) mp s'"

lemma pool_run_traced:
  assumes "pool_inv {} mp s" "processor_ok mp" "list_all (quiet mp) as"
  shows "\<exists>ops. traced mp as (dispatched lo mp as s) s ops (pool_run lo mp as s)"
  using assms(3)
proof (induction as rule: rev_induct)
  case Nil
  show ?case
    using assms(1) by (intro exI [of _ "[]"]) (simp add: traced_def announced_first_def pool.stay)
next
  case (snoc a as)
  let ?D = "dispatched lo mp as s" and ?s1 = "pool_run lo mp as s"
  let ?s2 = "act lo mp a ?s1"
  obtain xs where xs: "traced mp as ?D s xs ?s1" using snoc by auto
  obtain ys where ys: "simulates (set ?D) mp a ?s1 ys ?s2"
    using act_simulates [of "set ?D" mp ?s1 a lo] xs assms(2) snoc.prems by (auto simp: traced_def)
  have "pool.trace mp s (xs @ ys) ?s2"
    using xs ys by (auto simp: traced_def simulates_def intro: pool.go)
  moreover have "announced_first (xs @ ys)"
  proof (rule announced_first_append)
    show "announced_first xs" using xs by (simp add: traced_def)
    have "observed xs = ?D" using xs by (simp add: traced_def)
    then show "CObserve m \<in> set xs" if "CCommit ok t t' m \<in> set ys" for ok t t' m
      using that ys unfolding simulates_def by (metis observed_iff)
  qed
  moreover have "pool_inv (set (dispatched lo mp (as @ [a]) s)) mp ?s2"
    using ys by (simp add: simulates_def dispatched_append)
  moreover have "list_ex (revokes key) (as @ [a])" if "CRevoke ok t keys \<in> set (xs @ ys)" "key \<in> set keys" for ok t keys key
  proof -
    have "list_ex (revokes key) as" if "CRevoke ok t keys \<in> set xs" using that \<open>key \<in> set keys\<close> xs unfolding traced_def by blast
    moreover have "revokes key a" if "CRevoke ok t keys \<in> set ys" using that \<open>key \<in> set keys\<close> ys unfolding simulates_def by blast
    ultimately show ?thesis using that(1) by auto
  qed
  ultimately have "traced mp (as @ [a]) (dispatched lo mp (as @ [a]) s) s (xs @ ys) ?s2"
    using xs ys unfolding traced_def simulates_def by (simp add: dispatched_append del: dispatches.simps)
  then show ?case by auto
qed

lemma new_pool_inv: "pool_inv {} mp (new_pool n w k now)"
  by (auto simp: pool_inv_def new_pool_def)

text \<open>With announcements first and no revocation, a partition's history starts with the first record
  announced for it.\<close>

lemma history_starts:
  assumes "announced_first ops" "\<And>ok t keys. CRevoke ok t keys \<in> set ops \<Longrightarrow> key \<notin> set keys"
  shows "case filter (\<lambda>m. cm_pkey m = key) (observed ops) of
      [] \<Rightarrow> key_history key (tracker_trace k ops) = []
    | m # ms \<Rightarrow> \<exists>h. key_history key (tracker_trace k ops) = Observe (cm_offset m) # h"
  using assms
proof (induction ops rule: rev_induct)
  case Nil
  then show ?case by simp
next
  case (snoc x ops)
  let ?ms = "filter (\<lambda>m. cm_pkey m = key) (observed ops)" and ?h = "key_history key (tracker_trace k ops)"
  have "announced_first ops" using snoc.prems(1) unfolding announced_first_def by (metis append_Cons append_assoc)
  from snoc.IH [OF this] snoc.prems(2)
  have IH: "case ?ms of [] \<Rightarrow> ?h = [] | m # ms \<Rightarrow> \<exists>h. ?h = Observe (cm_offset m) # h" by (metis in_set_conv_decomp append_assoc append_Cons)
  have fold: "key_history key (ops' @ [y]) = history_step key y (key_history key ops')"
    "key_history key (ops' @ [y, z]) = history_step key z (history_step key y (key_history key ops'))" for ops' y z
    by (simp_all add: key_history_def)
  have drops: "fold (history_step key) (map OpDrop keys) h = h" if "key \<notin> set keys" for keys h
    using that by (induction keys) auto
  show ?case
  proof (cases x)
    case (CRevoke ok t keys)
    with snoc.prems(2) [of ok t keys] have "key \<notin> set keys" by simp
    with CRevoke drops have "key_history key (tracker_trace k (ops @ [x])) = ?h"
      by (simp add: tracker_trace_append key_history_def)
    with IH have "case ?ms of [] \<Rightarrow> key_history key (tracker_trace k (ops @ [x])) = []
      | m # ms \<Rightarrow> \<exists>h. key_history key (tracker_trace k (ops @ [x])) = Observe (cm_offset m) # h" by (simp only:)
    moreover have "observed (ops @ [x]) = observed ops" using CRevoke by simp
    ultimately show ?thesis by (simp only:)
  next
    case (CCommit ok t t' m)
    have "CObserve m \<in> set ops" using snoc.prems(1) CCommit unfolding announced_first_def by blast
    then have "cm_pkey m = key \<Longrightarrow> ?ms \<noteq> []" by (auto simp: filter_empty_conv observed_iff)
    with CCommit IH show ?thesis
      by (cases ?ms) (auto simp: tracker_trace_append fold)
  next
    case (CObserve m)
    with IH show ?thesis by (cases ?ms) (auto simp: tracker_trace_append fold)
  qed (use IH in \<open>auto simp: tracker_trace_append fold split: list.splits\<close>)
qed

lemma trace_keeps_key:
  assumes "\<And>ok t keys. CRevoke ok t keys \<in> set ops \<Longrightarrow> key \<notin> set keys"
  shows "\<forall>x \<in> set (tracker_trace k ops). x \<noteq> OpDrop key"
  using assms
proof (induction ops arbitrary: k)
  case (Cons x ops)
  have "\<forall>y \<in> set (tracker_ops (fst k) x). y \<noteq> OpDrop key"
    using Cons.prems by (cases x) auto
  moreover have "\<forall>y \<in> set (tracker_trace (snd (consumer_step x k)) ops). y \<noteq> OpDrop key"
    by (rule Cons.IH) (use Cons.prems in auto)
  ultimately show ?case by auto
qed simp

section \<open>Properties of the pool\<close>

text \<open>C20: the pool loses no record of a partition it keeps. Take any interleaving of the poll thread and
  the workers, with any faults, in which a partition is never revoked and its records are delivered
  in the order of their offsets. When an offset has been committed for the partition, every record
  that was dispatched from it with a smaller offset is in the ledger with its content or in the
  dead-letter topic, in whatever order the workers finished and whatever they failed to resolve.\<close>

theorem pooled_commits_durable:
  assumes "s = new_pool pool_size w (new_consumer b i t, []) now" and "s' = pool_run lo mp as s"
    and "processor_ok mp" and "list_all (quiet mp) as" and "\<not> list_ex (revokes key) as"
    and "sorted_wrt (<) (map cm_offset (filter (\<lambda>m. cm_pkey m = key) (dispatched lo mp as s)))"
    and "commits \<in> set (snd (pl_kafka s'))" and "(key, n) \<in> set commits"
    and "m \<in> set (dispatched lo mp as s)" and "cm_pkey m = key" and "cm_offset m < n"
  shows "durable mp m (w_db (pl_world s')) (w_dlq (pl_world s'))"
proof -
  let ?k = "(new_consumer b i t, [])" and ?D = "dispatched lo mp as s"
  have start: "pl_kafka s = ?k" by (simp add: assms(1) new_pool_def)
  obtain ops where tr: "pool.trace mp s ops s'" and obs: "observed ops = ?D" and first: "announced_first ops"
    and rev: "\<And>ok t keys. CRevoke ok t keys \<in> set ops \<Longrightarrow> key \<notin> set keys"
    using pool_run_traced [OF _ assms(3,4), of s lo] new_pool_inv assms(1,2,5) unfolding traced_def by metis
  obtain m0 ms where ms: "filter (\<lambda>m. cm_pkey m = key) ?D = m0 # ms"
    using assms(9,10) by (cases "filter (\<lambda>m. cm_pkey m = key) ?D") (auto simp: filter_empty_conv)
  have "case filter (\<lambda>m. cm_pkey m = key) (observed ops) of [] \<Rightarrow> key_history key (tracker_trace ?k ops) = []
    | m # ms \<Rightarrow> \<exists>h. key_history key (tracker_trace ?k ops) = Observe (cm_offset m) # h"
    using first rev by (rule history_starts)
  with ms obs obtain h where h: "key_history key (tracker_trace ?k ops) = Observe (cm_offset m0) # h" by auto
  obtain pre where pre: "prefix pre (tracker_trace ?k ops)" "key_history key pre \<noteq> []"
    "\<And>off. off \<in> {op_offset (hd (key_history key pre))..<n} \<Longrightarrow>
       \<exists>ok u u' m. CCommit ok u u' m \<in> set ops \<and> cm_pkey m = key \<and> cm_offset m = off \<and> pool_durable mp s' m"
    by (rule pool.committed_settled [OF tr start surjective_pairing assms(7,8)]) (rule that)
  have "prefix (key_history key pre) (Observe (cm_offset m0) # h)"
    using key_history_hd [OF pre(2,1) trace_keeps_key [OF rev]] h by simp
  then have "op_offset (hd (key_history key pre)) = cm_offset m0"
    using pre(2) by (cases "key_history key pre") auto
  moreover have "cm_offset m0 \<le> cm_offset m"
  proof -
    have "m \<in> set (m0 # ms)" using assms(9,10) unfolding ms [symmetric] by simp
    with assms(6) ms show ?thesis by auto
  qed
  ultimately obtain ok u u' m' where m': "CCommit ok u u' m' \<in> set ops" "cm_pkey m' = key" "cm_offset m' = cm_offset m"
    "pool_durable mp s' m'" using pre(3) [of "cm_offset m"] assms(11) by auto
  obtain as' bs' where "ops = as' @ CCommit ok u u' m' # bs'" using m'(1) by (meson split_list)
  with first have "CObserve m' \<in> set ops" unfolding announced_first_def by auto
  with obs have "m' \<in> set ?D" by (metis observed_iff)
  moreover have "inj_on cm_offset (set (filter (\<lambda>m. cm_pkey m = key) ?D))"
    using assms(6) strict_sorted_iff distinct_map by blast
  ultimately have "m' = m" using m'(2,3) assms(9,10) by (auto dest: inj_onD)
  with m'(4) show ?thesis by simp
qed

text \<open>A run for the witnesses: two workers, two records without a value at offsets 5 and 6 of one
  partition; the second record is finished first.\<close>

definition raw_at :: "int \<Rightarrow> raw_message" where
  "raw_at off = demo_raw\<lparr>rm_offset := off\<rparr>"

definition record_at :: "int \<Rightarrow> consumed_message" where
  "record_at off = demo_record\<lparr>cm_offset := off\<rparr>"

definition pool_tick :: "rebalance list \<Rightarrow> raw_message option \<Rightarrow> tick" where
  "pool_tick rs raw = (demo_tick False raw)\<lparr>tk_rebalances := rs\<rparr>"

definition yes :: answers where
  "yes _ = (True, 1, 1)"

abbreviation demo_partition :: pkey where
  "demo_partition \<equiv> (''commerce.events'', 0)"

definition demo_pool :: pool where
  "demo_pool = new_pool 2 \<lparr>w_redis = (\<lambda>_. None), w_db = empty_db, w_kafka = [], w_dlq = [],
     w_summary = new_run_summary, w_inflight = 0\<rparr> (new_consumer 1 1000 0, []) 0"

definition two_dispatched :: "action list" where
  "two_dispatched =
     [Poll (pool_tick [Assigned [demo_partition]] (Some (raw_at 5))) yes, Put yes,
      Poll (pool_tick [] (Some (raw_at 6))) yes, Put yes, Take 0, Take 1, Finish 1 demo_weather]"

definition demo_pool_run :: "action list" where
  "demo_pool_run = two_dispatched @
     [Poll (pool_tick [] None) yes, Finish 0 demo_weather, Poll (demo_tick True None) yes, Join yes, Finally True 9]"

lemma polls_record: "poll (Some (raw_at off)) = Inr (Some (record_at off))"
  by (simp add: poll_def raw_at_def record_at_def demo_raw_def demo_record_def)

lemma polls_nothing: "poll None = Inr None"
  by (simp add: poll_def)

lemma record_at_pkey [simp]: "cm_pkey (record_at off) = demo_partition" "cm_offset (record_at off) = off"
  by (simp_all add: record_at_def demo_record_def cm_pkey_def)

text \<open>A record without a value is dead-lettered.\<close>

definition null_letter :: "int \<Rightarrow> dlq_message" where
  "null_letter off = dlq_message_of ''dlq''
     (dead_letter_record demo_processor demo_weather (record_at off)
        (validation_error MISSING_VALUE ''Kafka value is required'' no_hints None) 1)"

definition null_world :: "int \<Rightarrow> consumed_message list world \<Rightarrow> consumed_message list world" where
  "null_world off w = snd (process demo_processor demo_weather queued_committer (record_at off) w)"

lemma null_process:
  "process demo_processor demo_weather queued_committer (record_at off) w = (Inr (outcome DLQ 1 None), null_world off w)"
  unfolding null_world_def
  by (simp add: process_def Let_def validate_message_def dead_letter_def publish_def record_at_def demo_record_def
      commit_def queued_committer_def demo_weather_def)

lemma null_world_simps [simp]:
  "w_kafka (null_world off w) = w_kafka w @ [record_at off]" "w_db (null_world off w) = w_db w"
  "w_dlq (null_world off w) = w_dlq w @ [null_letter off]" "unresolved (null_world off w) = unresolved w"
  unfolding null_world_def null_letter_def
  by (simp_all add: process_def Let_def validate_message_def dead_letter_def publish_def record_at_def demo_record_def
      commit_def queued_committer_def demo_weather_def demo_processor_def unresolved_def)

lemmas pool_eval = poll_once_def put_work_def drain_commits_def check_errors_def then_next_def take_work_def
  finish_work_def pool_bound_reached_def idle_poll_def idle_expired_def join_workers_def all_idle_def
  finally_stop_def yes_def pool_tick_def demo_pool_def new_pool_def demo_tick_def demo_loop_def polls_record
  polls_nothing null_process numeral_2_eq_2 Let_def

lemmas consumer_eval = new_consumer_def new_tracker_def on_assign_def observe_dispatched_def observe_def
  commit_terminal_def maybe_flush_idle_def maybe_flush_def mark_terminal_def partition_of_def
  new_partition_state_def ps_observe_def ps_mark_terminal_def flush_def flush_commits_def
  has_uncommitted_safe_offset_def scripted_commit_def commit_offsets_def confirm_commits_def confirm_commit_def
  reset_counters_def flush_answer_def flush_pending_def flush_all_def

lemma demo_pool_result:
  "snd (pl_kafka (pool_run demo_loop demo_processor demo_pool_run demo_pool)) = [[(demo_partition, 5)], [(demo_partition, 7)]]"
  "\<exists>c. pl_thread (pool_run demo_loop demo_processor demo_pool_run demo_pool) = Stopped (Inr c)"
  "dispatched demo_loop demo_processor demo_pool_run demo_pool = [record_at 5, record_at 6]"
  by (simp_all add: demo_pool_run_def two_dispatched_def pool_eval consumer_eval)

lemma demo_pool_quiet: "list_all (quiet demo_processor) demo_pool_run" "\<not> list_ex (revokes demo_partition) demo_pool_run"
  by (simp_all add: demo_pool_run_def two_dispatched_def meanwhile_ok_def demo_weather_def pool_tick_def demo_tick_def)

theorem pooled_commits_durable_witness:
  "(demo_partition, 7) \<in> set [(demo_partition, 7)] \<and>
   [(demo_partition, 7)] \<in> set (snd (pl_kafka (pool_run demo_loop demo_processor demo_pool_run demo_pool))) \<and>
   (let s' = pool_run demo_loop demo_processor demo_pool_run demo_pool
    in durable demo_processor (record_at 5) (w_db (pl_world s')) (w_dlq (pl_world s')))"
  using pooled_commits_durable [OF demo_pool_def refl demo_processor_ok demo_pool_quiet, of demo_loop "[(demo_partition, 7)]" 7 "record_at 5"]
  by (simp add: demo_pool_result Let_def)


section \<open>Exit code of the pool\<close>

definition held :: "pool \<Rightarrow> consumed_message \<Rightarrow> bool" where
  "held s m \<longleftrightarrow> pl_thread s = Dispatching m \<or> m \<in> set (pl_work_queue s) \<or> Some m \<in> set (pl_hands s)"

definition alarmed :: "pool \<Rightarrow> bool" where
  "alarmed s \<longleftrightarrow> pl_errors s \<noteq> [] \<or> (\<exists>x. pl_thread s = Unwinding (Some x) \<or> pl_thread s = Stopped (Inl x)) \<or>
     (\<exists>su \<in> set (pl_summaries s). su_count su Unresolved_records > 0)"

fun calm :: "poll_thread \<Rightarrow> bool" where
  "calm (Unwinding None) = True"
| "calm (Stopped (Inr c)) = True"
| "calm _ = False"

definition accounted :: "consumed_message set \<Rightarrow> message_processor \<Rightarrow> pool \<Rightarrow> bool" where
  "accounted D mp s \<longleftrightarrow> (\<forall>m \<in> D. held s m \<or> pool_durable mp s m \<or> alarmed s) \<and>
     length (pl_summaries s) = length (pl_hands s) \<and>
     (\<forall>su \<in> set (pl_summaries s). su_count su Unresolved_records \<ge> 0) \<and>
     (calm (pl_thread s) \<longrightarrow> all_idle s \<and> pl_errors s = []) \<and>
     (\<forall>c. pl_thread s = Stopped (Inr c) \<longrightarrow> c = exit_status (merge_summaries (pl_summaries s)))"

text \<open>An action of the poll thread keeps everything accounted for: no record is dropped and an error
  taken from the queue is raised.\<close>

lemma accountedI:
  assumes "accounted D mp s" "pl_summaries s' = pl_summaries s" "length (pl_hands s') = length (pl_hands s)"
    and "w_db (pl_world s') = w_db (pl_world s)" "w_dlq (pl_world s') = w_dlq (pl_world s)"
    and "\<And>m. held s m \<Longrightarrow> held s' m" "\<And>m. m \<in> D' \<Longrightarrow> m \<in> D \<or> held s' m"
    and "pl_errors s' = pl_errors s \<or> (\<exists>x. pl_thread s' = Unwinding (Some x))"
    and "\<And>x. pl_thread s = Unwinding (Some x) \<Longrightarrow> pl_thread s' = Unwinding (Some x) \<or> pl_thread s' = Stopped (Inl x)"
    and "\<And>x. pl_thread s = Stopped (Inl x) \<Longrightarrow> pl_thread s' = Stopped (Inl x)"
    and "calm (pl_thread s') \<Longrightarrow> all_idle s' \<and> pl_errors s' = []"
    and "\<And>c. pl_thread s' = Stopped (Inr c) \<Longrightarrow> c = exit_status (merge_summaries (pl_summaries s'))"
  shows "accounted D' mp s'"
proof -
  have "alarmed s \<Longrightarrow> alarmed s'" using assms(2,8-10) unfolding alarmed_def by metis
  with assms show ?thesis unfolding accounted_def by metis
qed

lemma drain_frame:
  assumes "drain_commits an s = (r, s')"
  shows "pl_summaries s' = pl_summaries s" "pl_hands s' = pl_hands s" "w_db (pl_world s') = w_db (pl_world s)"
    "w_dlq (pl_world s') = w_dlq (pl_world s)" "pl_work_queue s' = pl_work_queue s" "pl_errors s' = pl_errors s"
  by (rule drain_commits_ops [OF assms], simp)+

definition poll_next :: "pool \<Rightarrow> pool \<Rightarrow> bool" where
  "poll_next s s' \<longleftrightarrow> pl_summaries s' = pl_summaries s \<and> pl_hands s' = pl_hands s \<and>
     w_db (pl_world s') = w_db (pl_world s) \<and> w_dlq (pl_world s') = w_dlq (pl_world s) \<and>
     pl_work_queue s' = pl_work_queue s \<and> (pl_errors s' = pl_errors s \<or> (\<exists>x. pl_thread s' = Unwinding (Some x))) \<and>
     (pl_thread s' \<in> {Polling, Joining} \<or> (\<exists>m. pl_thread s' = Dispatching m) \<or> (\<exists>x. pl_thread s' = Unwinding (Some x)))"

lemma idle_poll_next:
  assumes "pl_thread s = Polling"
  shows "poll_next s (idle_poll lo tk an s)"
proof -
  obtain ok now now' where c: "tk_idle_flush tk = (ok, now, now')" by (metis prod_cases3)
  obtain r k where f: "maybe_flush_idle ok now now' (pl_kafka s) = (r, k)" by (rule prod.exhaust)
  obtain r2 s3 where d: "drain_commits an (s\<lparr>pl_kafka := k\<rparr>) = (r2, s3)" by (rule prod.exhaust)
  show ?thesis
    using c f d drain_frame [OF d] by (auto simp: idle_poll_def poll_next_def then_next_eq Let_def split: sum.split)
qed

lemma poll_once_next:
  assumes "pl_thread s = Polling"
  shows "poll_next s (poll_once lo tk an s)"
proof -
  let ?s2 = "s\<lparr>pl_kafka := fold on_rebalance (tk_rebalances tk) (pl_kafka s)\<rparr>"
  have idle: "poll_next s (idle_poll lo tk an ?s2)"
    using idle_poll_next [of ?s2 lo tk an] assms unfolding poll_next_def by simp
  have "poll_next s (s\<lparr>pl_thread := Joining\<rparr>)" "poll_next s (s\<lparr>pl_errors := es, pl_thread := Unwinding (Some x)\<rparr>)"
    "poll_next s (?s2\<lparr>pl_thread := Unwinding (Some x)\<rparr>)"
    "poll_next s (?s2\<lparr>pl_last_record_at := t, pl_kafka := k, pl_thread := Dispatching m\<rparr>)" for es x t k m
    by (simp_all add: poll_next_def)
  with idle show ?thesis
    by (simp add: poll_once_def check_errors_def Let_def split: list.split sum.split option.split)
qed

lemma accounted_poll:
  assumes "accounted D mp s" "pl_thread s = Polling"
  shows "accounted (D \<union> set (dispatches s (poll_once lo tk an s))) mp (poll_once lo tk an s)"
  using poll_once_next [OF assms(2), of lo tk an] assms(2)
  by (intro accountedI [OF assms(1)]) (auto simp: poll_next_def held_def split: poll_thread.splits)

lemma accounted_put:
  assumes "accounted D mp s" "pl_thread s = Dispatching m"
  shows "accounted D mp (put_work an m s)"
proof -
  obtain r s2 where d: "drain_commits an (s\<lparr>pl_work_queue := pl_work_queue s @ [m]\<rparr>) = (r, s2)" by (rule prod.exhaust)
  show ?thesis
    by (rule accountedI [OF assms(1)])
      (use drain_frame [OF d] assms(2) in \<open>auto simp: put_work_def d then_next_eq held_def split: sum.splits\<close>)
qed

lemma accounted_join:
  assumes "accounted D mp s" "pl_thread s = Joining" "all_idle s"
  shows "accounted D mp (join_workers an s)"
proof -
  obtain r s2 where d: "drain_commits an s = (r, s2)" by (rule prod.exhaust)
  note fr = drain_frame [OF d]
  have "all_idle s2" using assms(3) fr by (simp add: all_idle_def)
  then show ?thesis
    by (intro accountedI [OF assms(1)])
      (use fr assms(2) in \<open>auto simp: join_workers_def d check_errors_def then_next_eq held_def all_idle_def split: sum.splits list.splits\<close>)
qed

lemma accounted_finally:
  assumes "accounted D mp s" "pl_thread s = Unwinding r"
  shows "accounted D mp (finally_stop ok now r s)"
  using assms(2)
  by (intro accountedI [OF assms(1)])
    (use assms in \<open>auto simp: finally_stop_def held_def accounted_def all_idle_def split: option.splits\<close>)

lemma accounted_take:
  assumes "accounted D mp s"
  shows "accounted D mp (take_work i s)"
proof (cases "pl_work_queue s")
  case (Cons m rest)
  show ?thesis
  proof (cases "i < length (pl_hands s) \<and> pl_hands s ! i = None")
    case True
    have new: "Some m \<in> set ((pl_hands s)[i := Some m])" using True by (simp add: set_update_memI)
    have kept: "Some n \<in> set ((pl_hands s)[i := Some m])" if "Some n \<in> set (pl_hands s)" for n
      using that True by (metis in_set_conv_nth length_list_update nth_list_update_neq option.distinct(1))
    have "\<not> calm (pl_thread s)" using assms Cons by (auto simp: accounted_def all_idle_def)
    with assms have "accounted D mp (s\<lparr>pl_work_queue := rest, pl_hands := (pl_hands s)[i := Some m]\<rparr>)"
      by (intro accountedI [OF assms]) (use new kept Cons in \<open>auto simp: held_def\<close>)
    with True Cons show ?thesis by (simp add: take_work_def)
  qed (use assms Cons in \<open>auto simp: take_work_def\<close>)
qed (use assms in \<open>simp add: take_work_def\<close>)

lemma accounted_finish:
  assumes "accounted D mp s" "processor_ok mp" "meanwhile_ok mp we"
  shows "accounted D mp (finish_work mp i we s)"
proof (cases "i < length (pl_hands s) \<and> i < length (pl_summaries s) \<and> pl_hands s ! i \<noteq> None")
  case True
  then obtain m where m: "pl_hands s ! i = Some m" by auto
  have busy: "\<not> calm (pl_thread s)" using assms(1) True by (auto simp: accounted_def all_idle_def list_all_length)
  obtain uc where uc: "mp_persistence mp = Some uc" and max: "0 < maximum_attempts (mp_retry mp)"
    using assms(2) by (auto simp: processor_ok_def)
  let ?w = "(pl_world s)\<lparr>w_summary := pl_summaries s ! i\<rparr>" and ?s' = "finish_work mp i we s"
  obtain r w where p: "process mp we queued_committer m ?w = (r, w)" by (rule prod.exhaust)
  have s': "?s' = s\<lparr>pl_world := w, pl_summaries := (pl_summaries s)[i := w_summary w], pl_hands := (pl_hands s)[i := None],
      pl_errors := pl_errors s @ (case r of Inl x \<Rightarrow> [x] | Inr _ \<Rightarrow> [])\<rparr>"
    using True m p by (simp add: finish_work_def)
  have t: "unresolved ?w \<le> unresolved w" "\<And>out. r = Inr out \<Longrightarrow> \<not> terminal out \<Longrightarrow> unresolved ?w < unresolved w"
    using tells_process [of mp ?w we queued_committer m] uc p by (auto simp: tells_def)
  have old: "0 \<le> unresolved ?w" using assms(1) True by (simp add: accounted_def unresolved_def)
  have nonneg: "\<forall>su \<in> set (pl_summaries ?s'). su_count su Unresolved_records \<ge> 0"
    using assms(1) t(1) old set_update_subset_insert [of "pl_summaries s" i "w_summary w"]
    by (auto simp: s' accounted_def unresolved_def)
  have alarm: "alarmed ?s'" if "alarmed s"
  proof -
    have "\<exists>su \<in> set ((pl_summaries s)[i := w_summary w]). su_count su Unresolved_records > 0"
      if "su \<in> set (pl_summaries s)" "su_count su Unresolved_records > 0" for su
    proof -
      obtain j where j: "j < length (pl_summaries s)" "pl_summaries s ! j = su" using \<open>su \<in> _\<close> by (auto simp: in_set_conv_nth)
      show ?thesis
      proof (cases "j = i")
        case True
        then have "su_count (w_summary w) Unresolved_records > 0" using t(1) j that(2) by (simp add: unresolved_def)
        with j True show ?thesis by (metis set_update_memI)
      next
        case False
        with j that(2) show ?thesis by (metis length_list_update nth_list_update_neq nth_mem)
      qed
    qed
    with that show ?thesis by (auto simp: alarmed_def s')
  qed
  have fresh: "pool_durable mp ?s' m \<or> alarmed ?s'"
  proof (cases "\<exists>out. r = Inr out \<and> terminal out")
    case True
    with process_settled [OF p uc max] show ?thesis by (auto simp: settled_def s')
  next
    case False
    have "su_count (w_summary w) Unresolved_records > 0" if "r = Inr out" for out
      using t(2) [OF that] False that old by (simp add: unresolved_def)
    with False True show ?thesis
      by (cases r) (auto simp: alarmed_def s' intro: set_update_memI)
  qed
  have pr: "progresses mp uc (pl_world s) w" using process_progresses [OF p uc assms(3)] by (simp add: progresses_def)
  have hand: "held ?s' n" if "held s n" "n \<noteq> m" for n
  proof -
    have "Some n \<in> set ((pl_hands s)[i := None])" if "Some n \<in> set (pl_hands s)"
      using that m \<open>n \<noteq> m\<close> by (metis in_set_conv_nth length_list_update nth_list_update_neq option.inject)
    with that show ?thesis by (auto simp: held_def s')
  qed
  have "held ?s' n \<or> pool_durable mp ?s' n \<or> alarmed ?s'" if "n \<in> D" for n
    using assms(1) that hand fresh alarm progresses_durable [OF pr, of n] unfolding accounted_def by (auto simp: s')
  with nonneg assms(1) busy show ?thesis by (auto simp: accounted_def s')
next
  case False
  then have "finish_work mp i we s = s" by (auto simp: finish_work_def)
  with assms(1) show ?thesis by simp
qed

lemma act_accounted:
  assumes "accounted D mp s" "processor_ok mp" "quiet mp a"
  shows "accounted (D \<union> set (dispatches s (act lo mp a s))) mp (act lo mp a s)"
proof -
  have quiet_act: "dispatches s s' = []" if "pl_thread s' = pl_thread s \<or> pl_thread s \<noteq> Polling" for s'
    using that by (auto split: poll_thread.split)
  show ?thesis
  proof (cases a)
    case (Poll tk an)
    with assms(1) accounted_poll [OF assms(1)] quiet_act show ?thesis by (simp del: dispatches.simps)
  next
    case (Put an)
    with assms(1) accounted_put [OF assms(1)] show ?thesis by (cases "pl_thread s") auto
  next
    case (Take i)
    have "pl_thread (take_work i s) = pl_thread s" by (simp add: take_work_def split: list.split)
    with Take accounted_take [OF assms(1)] quiet_act show ?thesis by (simp del: dispatches.simps)
  next
    case (Finish i we)
    have "pl_thread (finish_work mp i we s) = pl_thread s" by (simp add: finish_work_def split: option.split prod.split)
    with Finish assms(3) accounted_finish [OF assms(1,2)] quiet_act show ?thesis by (simp del: dispatches.simps)
  next
    case (Join an)
    with assms(1) accounted_join [OF assms(1)] quiet_act show ?thesis by (auto split: poll_thread.split)
  next
    case (Finally ok now)
    with assms(1) accounted_finally [OF assms(1)] show ?thesis by (cases "pl_thread s") auto
  qed
qed

lemma pool_run_accounted:
  assumes "processor_ok mp" "list_all (quiet mp) as" "accounted D mp s"
  shows "accounted (D \<union> set (dispatched lo mp as s)) mp (pool_run lo mp as s)"
  using assms(2,3)
proof (induction as arbitrary: s D)
  case (Cons a as)
  from Cons.IH [OF _ act_accounted [OF Cons.prems(2) assms(1), of a lo]] Cons.prems(1)
  show ?case by (simp add: Un_assoc del: dispatches.simps)
qed simp

lemma new_pool_accounted: "accounted {} mp (new_pool n w k now)"
  by (auto simp: accounted_def new_pool_def new_run_summary_def)

text \<open>C22: the exit code of the pool tells the truth. If a run of the pool, in any interleaving, stops with
  exit code 0, then every record it dispatched is in the ledger with its content or in the
  dead-letter topic: a worker's exception or unresolved record always gives another code.\<close>

theorem pooled_clean_exit:
  assumes "s = new_pool pool_size w k now" and "s' = pool_run lo mp as s"
    and "processor_ok mp" and "list_all (quiet mp) as"
    and "pl_thread s' = Stopped r" and "main_code r = 0" and "m \<in> set (dispatched lo mp as s)"
  shows "durable mp m (w_db (pl_world s')) (w_dlq (pl_world s'))"
proof -
  have acc: "accounted (set (dispatched lo mp as s)) mp s'"
    using pool_run_accounted [OF assms(3,4) new_pool_accounted, of lo pool_size w k now] assms(1,2) by simp
  obtain c where r: "r = Inr c" "c = 0" using assms(6) by (auto simp: main_code_def split: sum.splits)
  have idle: "all_idle s'" "pl_errors s' = []" and code: "exit_status (merge_summaries (pl_summaries s')) = 0"
    using acc assms(5) r by (auto simp: accounted_def)
  have nonneg: "\<forall>su \<in> set (pl_summaries s'). su_count su Unresolved_records \<ge> 0" using acc by (simp add: accounted_def)
  have "(\<Sum>su\<leftarrow>pl_summaries s'. su_count su Unresolved_records) = 0"
    using code by (simp add: exit_status_def merge_count split: if_splits)
  with nonneg have "\<forall>su \<in> set (pl_summaries s'). su_count su Unresolved_records = 0"
    by (subst (asm) sum_list_nonneg_eq_0_iff) auto
  then have "\<not> alarmed s'" using idle assms(5) r by (auto simp: alarmed_def)
  moreover have "\<not> held s' m" using idle assms(5) by (auto simp: held_def all_idle_def list_all_iff)
  ultimately show ?thesis using acc assms(7) by (auto simp: accounted_def)
qed

theorem pooled_clean_exit_witness:
  "let s' = pool_run demo_loop demo_processor demo_pool_run demo_pool
   in pl_thread s' = Stopped (Inr 0) \<and> durable demo_processor (record_at 6) (w_db (pl_world s')) (w_dlq (pl_world s'))"
proof -
  let ?s = "pool_run demo_loop demo_processor demo_pool_run demo_pool"
  have "pl_thread ?s = Stopped (Inr 0)"
    using null_world_simps(4)
    by (simp add: demo_pool_run_def two_dispatched_def pool_eval consumer_eval exit_status_def merge_count unresolved_def
        new_run_summary_def)
  with pooled_clean_exit [OF demo_pool_def refl demo_processor_ok demo_pool_quiet(1), of demo_loop "Inr 0" "record_at 6"]
  show ?thesis by (simp add: demo_pool_result(3) main_code_def Let_def)
qed

text \<open>The merged summary does not depend on which worker did what. Summaries of the same workers in
  any order merge to the same summary, each counter is the sum over the workers, and the maximal
  latency is the largest one.\<close>

theorem merged_summary_sound:
  assumes "mset ss = mset ts"
  shows "merge_summaries ss = merge_summaries ts \<and>
    (\<forall>k. su_count (merge_summaries ss) k = (\<Sum>su\<leftarrow>ss. su_count su k)) \<and>
    su_latency_total_ms (merge_summaries ss) = (\<Sum>su\<leftarrow>ss. su_latency_total_ms su) \<and>
    su_latency_max_ms (merge_summaries ss) = Max (insert 0 (su_latency_max_ms ` set ss))"
proof (intro conjI allI)
  have "merge_summary a \<circ> merge_summary b = merge_summary b \<circ> merge_summary a" for a b
    by (auto simp: merge_summary_def ac_simps)
  with assms show "merge_summaries ss = merge_summaries ts"
    unfolding merge_summaries_def by (intro fold_multiset_equiv [THEN fun_cong]) auto
  have "su_latency_total_ms (fold merge_summary ss acc) = su_latency_total_ms acc + (\<Sum>su\<leftarrow>ss. su_latency_total_ms su)" for acc
    by (induction ss arbitrary: acc) (simp_all add: merge_summary_def)
  then show "su_latency_total_ms (merge_summaries ss) = (\<Sum>su\<leftarrow>ss. su_latency_total_ms su)"
    by (simp add: merge_summaries_def new_run_summary_def)
  have "su_latency_max_ms (fold merge_summary ss acc) = Max (insert (su_latency_max_ms acc) (su_latency_max_ms ` set ss))" for acc
  proof (induction ss arbitrary: acc)
    case (Cons a ss)
    then show ?case by (cases "ss = []") (simp_all add: merge_summary_def max.assoc max.left_commute)
  qed simp
  then show "su_latency_max_ms (merge_summaries ss) = Max (insert 0 (su_latency_max_ms ` set ss))"
    by (simp add: merge_summaries_def new_run_summary_def)
qed (rule merge_count)

theorem merged_summary_sound_witness:
  "mset [incr Retries new_run_summary, new_run_summary] = mset [new_run_summary, incr Retries new_run_summary] \<and>
   merge_summaries [incr Retries new_run_summary, new_run_summary] =
     merge_summaries [new_run_summary, incr Retries new_run_summary]"
  using merged_summary_sound [of "[incr Retries new_run_summary, new_run_summary]"
      "[new_run_summary, incr Retries new_run_summary]"] by simp

text \<open>The idle timeout of a finite run works only without the pool. In an iteration without a record
  after the idle timeout, while partitions are assigned and the message limit is not reached, the
  single-threaded loop stops; the pool never does, it goes on polling unless something raises.\<close>

theorem idle_timeout_differs:
  assumes "lo_max_messages lo \<noteq> None" and "\<not> tk_shutdown tk" and "tk_raw tk = None" and "tk_has_assignment tk"
    and "\<not> bound_reached lo s" and "tk_monotonic tk - ls_last_record_at s \<ge> lo_idle_timeout_seconds lo"
    and "\<not> pool_bound_reached lo q" and "pl_thread q = Polling"
  shows "(\<forall>s'. loop_iteration lo mp tk s \<noteq> Continue s') \<and>
    (pl_thread (poll_once lo tk an q) = Polling \<or> (\<exists>x. pl_thread (poll_once lo tk an q) = Unwinding (Some x)))"
proof
  show "\<forall>s'. loop_iteration lo mp tk s \<noteq> Continue s'"
    using assms by (auto simp: loop_iteration_def Let_def polls_nothing idle_iteration_def split: prod.splits sum.splits)
  let ?q = "q\<lparr>pl_kafka := fold on_rebalance (tk_rebalances tk) (pl_kafka q)\<rparr>"
  have "pl_thread (idle_poll lo tk an ?q) = Polling \<or> (\<exists>x. pl_thread (idle_poll lo tk an ?q) = Unwinding (Some x))"
    using assms(4) by (auto simp: idle_poll_def idle_expired_def then_next_def Let_def split: prod.splits sum.splits)
  then show "pl_thread (poll_once lo tk an q) = Polling \<or> (\<exists>x. pl_thread (poll_once lo tk an q) = Unwinding (Some x))"
    using assms by (simp add: poll_once_def check_errors_def polls_nothing Let_def split: list.split)
qed

theorem idle_timeout_differs_witness:
  "(\<forall>s'. loop_iteration (demo_loop\<lparr>lo_max_messages := Some 3\<rparr>) demo_processor
       ((demo_tick False None)\<lparr>tk_monotonic := 60\<rparr>) demo_start \<noteq> Continue s') \<and>
   (pl_thread (poll_once (demo_loop\<lparr>lo_max_messages := Some 3\<rparr>) ((demo_tick False None)\<lparr>tk_monotonic := 60\<rparr>) yes demo_pool) = Polling \<or>
    (\<exists>x. pl_thread (poll_once (demo_loop\<lparr>lo_max_messages := Some 3\<rparr>) ((demo_tick False None)\<lparr>tk_monotonic := 60\<rparr>) yes demo_pool) =
       Unwinding (Some x)))"
  by (rule idle_timeout_differs)
    (simp_all add: demo_loop_def demo_tick_def demo_start_def bound_reached_def pool_bound_reached_def demo_pool_def new_pool_def)

end
