(* ===== verification/Outbox.thy ===== *)
theory Outbox
  imports Fraud_Stage Dlq
begin

text \<open>
  The fraud outbox publisher (\<^verbatim>\<open>services/fraud_outbox_publisher\<close>): it claims pending rows of the outbox
  table for a limited time, publishes each as an alert event to Kafka and marks it published, or puts
  it back with a backoff. Several publishers work on the same table, and each may stop anywhere.

  The operations are those of the repository and of the alert publisher, over the rows of the table
  and the records of the alert topic; \<open>run_cycle\<close> is one turn of the service's loop. The clock, the
  fresh claim token, the rows other transactions have locked and the answers of the producer are
  arguments. The column \<open>created_at\<close>, which only its default writes, is a function of the row's key.
\<close>

section \<open>Claims\<close>

record outbox_record =
  oq_outbox_id :: uuid
  oq_event_id :: uuid
  oq_topic :: string
  oq_message_key :: string
  oq_headers :: "(string \<times> string) list"
  oq_payload_bytes :: string
  oq_attempts :: int
  oq_claim_token :: uuid

definition expired :: "fraud_config \<Rightarrow> instant \<Rightarrow> outbox_row \<Rightarrow> bool" where
  "expired c now r \<longleftrightarrow> ob_status r = PUBLISHING \<and>
     (case ob_claimed_at r of None \<Rightarrow> False | Some t \<Rightarrow> t < now - fraud_outbox_claim_ttl_seconds c * 1000000)"

definition unclaim :: "outbox_row \<Rightarrow> outbox_row" where
  "unclaim r = r\<lparr>ob_status := PENDING, ob_claim_token := None, ob_claimed_at := None\<rparr>"

definition claimable :: "instant \<Rightarrow> uuid set \<Rightarrow> outbox_row \<Rightarrow> bool" where
  "claimable now locked r \<longleftrightarrow> ob_status r = PENDING \<and> ob_available_at r \<le> now \<and> ob_outbox_id r \<notin> locked"

definition select_claim :: "fraud_config \<Rightarrow> (uuid \<Rightarrow> instant) \<Rightarrow> instant \<Rightarrow> uuid set \<Rightarrow> outbox_row list \<Rightarrow> outbox_row list" where
  "select_claim c created now locked rows =
     take (nat (fraud_outbox_batch_size c))
       (sort_key (\<lambda>r. created (ob_outbox_id r)) (sort_key ob_outbox_id (filter (claimable now locked) rows)))"

definition record_of :: "uuid \<Rightarrow> outbox_row \<Rightarrow> outbox_record" where
  "record_of token r =
     \<lparr>oq_outbox_id = ob_outbox_id r, oq_event_id = ob_event_id r, oq_topic = ob_topic r,
      oq_message_key = ob_message_key r, oq_headers = ob_headers r, oq_payload_bytes = ob_payload_bytes r,
      oq_attempts = ob_attempts r + 1, oq_claim_token = token\<rparr>"

definition claim ::
  "fraud_config \<Rightarrow> (uuid \<Rightarrow> instant) \<Rightarrow> instant \<Rightarrow> uuid \<Rightarrow> uuid set \<Rightarrow> outbox_row list \<Rightarrow>
   outbox_record list \<times> int \<times> outbox_row list" where
  "claim c created now token locked rows =
     (let recovered = update_where (expired c now) unclaim rows;
          chosen = select_claim c created now locked recovered;
          ids = map ob_outbox_id chosen
      in (map (record_of token) chosen, rowcount (expired c now) rows,
          update_where (\<lambda>r. ob_outbox_id r \<in> set ids)
            (\<lambda>r. r\<lparr>ob_status := PUBLISHING, ob_claim_token := Some token, ob_claimed_at := Some now,
                   ob_attempts := ob_attempts r + 1\<rparr>) recovered))"

section \<open>Outcomes\<close>

definition claimed_by :: "outbox_record \<Rightarrow> outbox_row \<Rightarrow> bool" where
  "claimed_by q r \<longleftrightarrow> ob_outbox_id r = oq_outbox_id q \<and> ob_claim_token r = Some (oq_claim_token q)"

definition published :: "instant \<Rightarrow> outbox_record \<Rightarrow> outbox_row list \<Rightarrow> (exn + unit) \<times> outbox_row list" where
  "published now q rows =
     (let P = (\<lambda>r. claimed_by q r \<and> ob_status r = PUBLISHING)
      in if rowcount P rows \<noteq> 1 then (Inl (Exn PyRuntimeError ''outbox publication claim was lost''), rows)
         else (Inr (), update_where P
                (\<lambda>r. r\<lparr>ob_status := PUBLISHED, ob_published_at := Some now, ob_claim_token := None,
                       ob_claimed_at := None, ob_last_error := None\<rparr>) rows))"

definition backoff_ms :: "fraud_config \<Rightarrow> int \<Rightarrow> int" where
  "backoff_ms c attempts =
     min (fraud_outbox_max_backoff_ms c) (fraud_outbox_initial_backoff_ms c * 2 ^ nat (max 0 (attempts - 1)))"

definition failed :: "fraud_config \<Rightarrow> instant \<Rightarrow> outbox_record \<Rightarrow> exn \<Rightarrow> outbox_row list \<Rightarrow> outbox_row list" where
  "failed c now q error rows =
     update_where (claimed_by q)
       (\<lambda>r. r\<lparr>ob_status := (if oq_attempts q \<ge> fraud_outbox_max_attempts c then FAILED else PENDING),
              ob_available_at := now + backoff_ms c (oq_attempts q) * 1000, ob_claim_token := None,
              ob_claimed_at := None, ob_last_error := Some (str_take 512 (exn_message error))\<rparr>) rows"

section \<open>Publication\<close>

record alert_message =
  ak_topic :: string
  ak_key :: string
  ak_value :: string
  ak_headers :: "(string \<times> string) list"

definition message_of :: "outbox_record \<Rightarrow> alert_message" where
  "message_of q = \<lparr>ak_topic = oq_topic q, ak_key = oq_message_key q, ak_value = oq_payload_bytes q, ak_headers = oq_headers q\<rparr>"

text \<open>The producer's answer is that of \<^verbatim>\<open>Dlq\<close>: an exception, or what \<open>flush\<close> returned with the delivery
  reports it called back with. A missing report counts as a delivery.\<close>

definition publish_alert ::
  "codec \<Rightarrow> dlq_call \<Rightarrow> outbox_record \<Rightarrow> alert_message list \<Rightarrow> (exn + unit) \<times> alert_message list" where
  "publish_alert cx call q topic =
     (case parse_event cx (oq_payload_bytes q) of
        Inl msg \<Rightarrow> (Inl (Exn PyValueError msg), topic)
      | Inr e \<Rightarrow>
          if ev_event_id e \<noteq> oq_event_id q
          then (Inl (Exn PyValueError ''stored outbox event identity mismatch''), topic)
          else
            let topic' = (if call_stores call then topic @ [message_of q] else topic)
            in case call of
                 Produce_raises x _ \<Rightarrow> (Inl x, topic')
               | Flush_returns remaining reports _ \<Rightarrow>
                   if remaining \<noteq> 0 \<or> (reports \<noteq> [] \<and> last reports \<noteq> None)
                   then (Inl (Exn FraudOutboxRetryableError ''fraud alert Kafka delivery failed''), topic')
                   else (Inr (), topic'))"

section \<open>Service loop\<close>

record outbox_summary =
  rows_claimed :: int
  alerts_published :: int
  publish_retries :: int
  permanent_failures :: int

record service =
  sc_rows :: "outbox_row list"
  sc_topic :: "alert_message list"
  sc_summary :: outbox_summary

record turn =
  tn_call :: dlq_call
  tn_published_at :: instant
  tn_failed_at :: instant

definition publish_record :: "fraud_config \<Rightarrow> codec \<Rightarrow> turn \<Rightarrow> outbox_record \<Rightarrow> service \<Rightarrow> service" where
  "publish_record c cx tn q s =
     (case publish_alert cx (tn_call tn) q (sc_topic s) of
        (r1, topic) \<Rightarrow>
          let s1 = s\<lparr>sc_topic := topic\<rparr>;
              s2 = (case r1 of
                      Inl x \<Rightarrow> (Inl x, s1)
                    | Inr _ \<Rightarrow> (case published (tn_published_at tn) q (sc_rows s1) of
                                  (r, rows) \<Rightarrow> (r, s1\<lparr>sc_rows := rows\<rparr>)))
          in case s2 of
               (Inr _, s3) \<Rightarrow> s3\<lparr>sc_summary := (sc_summary s3)\<lparr>alerts_published := alerts_published (sc_summary s3) + 1\<rparr>\<rparr>
             | (Inl x, s3) \<Rightarrow>
                 let s4 = s3\<lparr>sc_rows := failed c (tn_failed_at tn) q x (sc_rows s3)\<rparr>; su = sc_summary s4
                 in s4\<lparr>sc_summary :=
                         (if oq_attempts q \<ge> fraud_outbox_max_attempts c
                          then su\<lparr>permanent_failures := permanent_failures su + 1\<rparr>
                          else su\<lparr>publish_retries := publish_retries su + 1\<rparr>)\<rparr>)"

fun publish_records :: "fraud_config \<Rightarrow> codec \<Rightarrow> turn list \<Rightarrow> outbox_record list \<Rightarrow> service \<Rightarrow> service" where
  "publish_records c cx (tn # tns) (q # qs) s = publish_records c cx tns qs (publish_record c cx tn q s)"
| "publish_records c cx _ _ s = s"

text \<open>One turn of the loop; it may end early, after as many records as there are turns.\<close>

definition run_cycle ::
  "fraud_config \<Rightarrow> codec \<Rightarrow> (uuid \<Rightarrow> instant) \<Rightarrow> instant \<Rightarrow> uuid \<Rightarrow> uuid set \<Rightarrow> turn list \<Rightarrow> service \<Rightarrow> service" where
  "run_cycle c cx created now token locked tns s =
     (case claim c created now token locked (sc_rows s) of
        (records, _, rows) \<Rightarrow>
          publish_records c cx tns records
            (s\<lparr>sc_rows := rows,
               sc_summary := (sc_summary s)\<lparr>rows_claimed := rows_claimed (sc_summary s) + int (length records)\<rparr>\<rparr>))"

definition status_counts :: "outbox_row list \<Rightarrow> outbox_status \<Rightarrow> int" where
  "status_counts rows st = rowcount (\<lambda>r. ob_status r = st) rows"

definition oldest_pending_age :: "(uuid \<Rightarrow> instant) \<Rightarrow> instant \<Rightarrow> outbox_row list \<Rightarrow> int" where
  "oldest_pending_age created now rows =
     (case map (\<lambda>r. created (ob_outbox_id r)) (filter (\<lambda>r. ob_status r = PENDING) rows) of
        [] \<Rightarrow> 0
      | ts \<Rightarrow> now - Min (set ts))"

section \<open>Publishers at work\<close>

text \<open>
  Any number of publishers, and the processor that inserts rows. A publisher holds the records of its
  claims, each at a stage of the loop body; it may crash at any stage, and the database may fail it
  before or after the transaction of \<open>published\<close> commits.
\<close>

datatype stage = Claimed | Sent | Errored exn

record outbox_system =
  sy_rows :: "outbox_row list"
  sy_topic :: "alert_message list"
  sy_held :: "(outbox_record \<times> stage) set"

definition fresh_row :: "outbox_row \<Rightarrow> bool" where
  "fresh_row r \<longleftrightarrow> ob_status r = PENDING \<and> ob_attempts r = 0 \<and> ob_claim_token r = None \<and> ob_claimed_at r = None \<and>
     ob_published_at r = None"

definition fresh_token :: "uuid \<Rightarrow> outbox_system \<Rightarrow> bool" where
  "fresh_token token s \<longleftrightarrow> (\<forall>r \<in> set (sy_rows s). ob_claim_token r \<noteq> Some token) \<and>
     (\<forall>(q, st) \<in> sy_held s. oq_claim_token q \<noteq> token)"

text \<open>What \<open>flush\<close> promises: when it returns 0, the delivery callback of the message has run.\<close>

fun reports_delivery :: "dlq_call \<Rightarrow> bool" where
  "reports_delivery (Produce_raises x stored) \<longleftrightarrow> True"
| "reports_delivery (Flush_returns remaining reports stored) \<longleftrightarrow> remaining = 0 \<longrightarrow> reports \<noteq> []"

fun stage_after :: "exn + unit \<Rightarrow> stage" where
  "stage_after (Inl x) = Errored x"
| "stage_after (Inr _) = Sent"

inductive outbox_step :: "fraud_config \<Rightarrow> codec \<Rightarrow> (uuid \<Rightarrow> instant) \<Rightarrow> outbox_system \<Rightarrow> outbox_system \<Rightarrow> bool"
  for c cx created where
  insert: "fresh_row r \<Longrightarrow> \<not> exists_key ob_outbox_id (ob_outbox_id r) (sy_rows s) \<Longrightarrow>
    \<not> exists_key ob_event_id (ob_event_id r) (sy_rows s) \<Longrightarrow>
    outbox_step c cx created s (s\<lparr>sy_rows := sy_rows s @ [r]\<rparr>)"
| claims: "fresh_token token s \<Longrightarrow> claim c created now token locked (sy_rows s) = (qs, n, rows) \<Longrightarrow>
    outbox_step c cx created s (s\<lparr>sy_rows := rows, sy_held := sy_held s \<union> (\<lambda>q. (q, Claimed)) ` set qs\<rparr>)"
| sends: "(q, Claimed) \<in> sy_held s \<Longrightarrow> reports_delivery call \<Longrightarrow> publish_alert cx call q (sy_topic s) = (r, topic) \<Longrightarrow>
    outbox_step c cx created s
      (s\<lparr>sy_topic := topic, sy_held := sy_held s - {(q, Claimed)} \<union> {(q, stage_after r)}\<rparr>)"
| confirms: "(q, Sent) \<in> sy_held s \<Longrightarrow> published now q (sy_rows s) = (Inr (), rows) \<Longrightarrow>
    outbox_step c cx created s (s\<lparr>sy_rows := rows, sy_held := sy_held s - {(q, Sent)}\<rparr>)"
| unconfirmed: "(q, Sent) \<in> sy_held s \<Longrightarrow> rows = sy_rows s \<or> rows = snd (published now q (sy_rows s)) \<Longrightarrow>
    outbox_step c cx created s (s\<lparr>sy_rows := rows, sy_held := sy_held s - {(q, Sent)} \<union> {(q, Errored x)}\<rparr>)"
| gives_back: "(q, Errored x) \<in> sy_held s \<Longrightarrow>
    outbox_step c cx created s
      (s\<lparr>sy_rows := failed c now q x (sy_rows s), sy_held := sy_held s - {(q, Errored x)}\<rparr>)"
| crashes: "h \<in> sy_held s \<Longrightarrow> outbox_step c cx created s (s\<lparr>sy_held := sy_held s - {h}\<rparr>)"

definition empty_system :: outbox_system where
  "empty_system = \<lparr>sy_rows = [], sy_topic = [], sy_held = {}\<rparr>"

abbreviation outbox_reachable :: "fraud_config \<Rightarrow> codec \<Rightarrow> (uuid \<Rightarrow> instant) \<Rightarrow> outbox_system \<Rightarrow> bool" where
  "outbox_reachable c cx created s \<equiv> (outbox_step c cx created)\<^sup>*\<^sup>* empty_system s"

section \<open>Invariant\<close>

definition row_ok :: "outbox_row \<Rightarrow> bool" where
  "row_ok r \<longleftrightarrow> ob_attempts r \<ge> 0 \<and> (ob_status r = PUBLISHING \<longleftrightarrow> ob_claim_token r \<noteq> None) \<and>
     (ob_claim_token r = None \<longleftrightarrow> ob_claimed_at r = None) \<and> (ob_status r = PUBLISHED \<longleftrightarrow> ob_published_at r \<noteq> None) \<and>
     (ob_status r \<noteq> PENDING \<longrightarrow> ob_attempts r > 0)"

definition row_message :: "outbox_row \<Rightarrow> alert_message" where
  "row_message r = \<lparr>ak_topic = ob_topic r, ak_key = ob_message_key r, ak_value = ob_payload_bytes r, ak_headers = ob_headers r\<rparr>"

text \<open>The columns that identify a row and its content never change.\<close>

definition same_alert :: "outbox_row \<Rightarrow> outbox_row \<Rightarrow> bool" where
  "same_alert r r' \<longleftrightarrow> ob_outbox_id r' = ob_outbox_id r \<and> ob_event_id r' = ob_event_id r \<and> row_message r' = row_message r"

definition held_row :: "outbox_record \<Rightarrow> outbox_row \<Rightarrow> bool" where
  "held_row q r \<longleftrightarrow> ob_outbox_id r = oq_outbox_id q \<and> ob_event_id r = oq_event_id q \<and> row_message r = message_of q"

definition outbox_inv :: "outbox_system \<Rightarrow> bool" where
  "outbox_inv s \<longleftrightarrow> keys_unique ob_outbox_id (sy_rows s) \<and> (\<forall>r \<in> set (sy_rows s). row_ok r) \<and>
     (\<forall>(q, st) \<in> sy_held s. oq_attempts q > 0 \<and> (\<exists>r \<in> set (sy_rows s). held_row q r)) \<and>
     (\<forall>q. (q, Sent) \<in> sy_held s \<longrightarrow> message_of q \<in> set (sy_topic s)) \<and>
     (\<forall>r \<in> set (sy_rows s). ob_status r = PUBLISHED \<longrightarrow> row_message r \<in> set (sy_topic s))"

text \<open>Every change of the table rewrites rows one by one and leaves finished rows alone.\<close>

definition row_step :: "(outbox_row \<Rightarrow> outbox_row) \<Rightarrow> outbox_row list \<Rightarrow> bool" where
  "row_step g rows \<longleftrightarrow> (\<forall>r \<in> set rows. row_ok r \<longrightarrow> same_alert r (g r) \<and> row_ok (g r) \<and>
     (ob_status r \<in> {PUBLISHED, FAILED} \<longrightarrow> g r = r))"

lemma same_alert_refl [simp]: "same_alert r r"
  by (simp add: same_alert_def)

lemma same_alert_ob_id: "same_alert r r' \<Longrightarrow> ob_outbox_id r' = ob_outbox_id r"
  by (simp add: same_alert_def)

lemma row_step_keys:
  assumes "row_step g rows" "\<forall>r \<in> set rows. row_ok r"
  shows "keys_unique ob_outbox_id (map g rows) \<longleftrightarrow> keys_unique ob_outbox_id rows"
proof -
  have "map ob_outbox_id (map g rows) = map ob_outbox_id rows"
    using assms by (simp add: row_step_def same_alert_ob_id)
  then show ?thesis unfolding keys_unique_def by (simp only:)
qed

definition published_row :: "instant \<Rightarrow> outbox_record \<Rightarrow> outbox_row \<Rightarrow> outbox_row" where
  "published_row now q r =
     (if claimed_by q r \<and> ob_status r = PUBLISHING
      then r\<lparr>ob_status := PUBLISHED, ob_published_at := Some now, ob_claim_token := None, ob_claimed_at := None, ob_last_error := None\<rparr>
      else r)"

lemma published_rows: "snd (published now q rows) = (if fst (published now q rows) = Inr () then map (published_row now q) rows else rows)"
  by (auto simp: published_def Let_def update_where_def published_row_def)

lemma published_row_step: "row_step (published_row now q) rows"
proof -
  have "same_alert r (published_row now q r) \<and> row_ok (published_row now q r) \<and>
      (ob_status r \<in> {PUBLISHED, FAILED} \<longrightarrow> published_row now q r = r)" if "row_ok r" for r
  proof (cases "claimed_by q r \<and> ob_status r = PUBLISHING")
    case True
    with that show ?thesis by (simp add: published_row_def same_alert_def row_message_def row_ok_def)
  next
    case False
    then have "published_row now q r = r" unfolding published_row_def by (rule if_not_P)
    with that show ?thesis by simp
  qed
  then show ?thesis by (simp add: row_step_def)
qed

definition failed_row :: "fraud_config \<Rightarrow> instant \<Rightarrow> outbox_record \<Rightarrow> exn \<Rightarrow> outbox_row \<Rightarrow> outbox_row" where
  "failed_row c now q x r = hd (failed c now q x [r])"

lemma failed_rows: "failed c now q x rows = map (failed_row c now q x) rows"
  by (simp add: failed_row_def failed_def update_where_def)

lemma failed_row_step: "row_step (failed_row c now q x) rows"
proof -
  have "same_alert r (failed_row c now q x r) \<and> row_ok (failed_row c now q x r) \<and>
      (ob_status r \<in> {PUBLISHED, FAILED} \<longrightarrow> failed_row c now q x r = r)" if "row_ok r" for r
  proof (cases "claimed_by q r")
    case True
    then have "ob_status r = PUBLISHING" using that by (simp add: claimed_by_def row_ok_def)
    with True that show ?thesis
      by (simp add: failed_row_def failed_def update_where_def same_alert_def row_message_def row_ok_def)
  qed (use that in \<open>simp add: failed_row_def failed_def update_where_def\<close>)
  then show ?thesis by (simp add: row_step_def)
qed

definition claimed_row :: "instant \<Rightarrow> uuid \<Rightarrow> outbox_row \<Rightarrow> outbox_row" where
  "claimed_row now token r =
     r\<lparr>ob_status := PUBLISHING, ob_claim_token := Some token, ob_claimed_at := Some now, ob_attempts := ob_attempts r + 1\<rparr>"

definition recovered_row :: "fraud_config \<Rightarrow> instant \<Rightarrow> outbox_row \<Rightarrow> outbox_row" where
  "recovered_row c now r = (if expired c now r then unclaim r else r)"

lemma recovered_row_step: "row_step (recovered_row c now) rows"
proof -
  have "same_alert r (recovered_row c now r) \<and> row_ok (recovered_row c now r) \<and>
      (ob_status r \<in> {PUBLISHED, FAILED} \<longrightarrow> recovered_row c now r = r)" if "row_ok r" for r
  proof (cases "expired c now r")
    case True
    then have "ob_status r = PUBLISHING" by (simp add: expired_def)
    with True that show ?thesis
      by (simp add: recovered_row_def unclaim_def same_alert_def row_message_def row_ok_def)
  qed (use that in \<open>simp add: recovered_row_def\<close>)
  then show ?thesis by (simp add: row_step_def)
qed

lemma select_claim_set: "r \<in> set (select_claim c created now locked rows) \<Longrightarrow> r \<in> set rows \<and> claimable now locked r"
  by (auto simp: select_claim_def dest!: in_set_takeD)

lemma select_claim_distinct:
  "keys_unique ob_outbox_id rows \<Longrightarrow> distinct (map ob_outbox_id (select_claim c created now locked rows))"
proof -
  assume "keys_unique ob_outbox_id rows"
  then have "distinct (map ob_outbox_id (filter (claimable now locked) rows))"
    by (auto simp: keys_unique_def intro: distinct_map_filter)
  then have "distinct (map ob_outbox_id (sort_key f (sort_key g (filter (claimable now locked) rows))))"
    for f :: "outbox_row \<Rightarrow> int" and g :: "outbox_row \<Rightarrow> uuid"
    by (simp add: distinct_map)
  then show ?thesis unfolding select_claim_def by (metis distinct_take take_map)
qed

text \<open>A claim rewrites each row: it recovers an expired one and takes the chosen ones.\<close>

definition claim_row :: "fraud_config \<Rightarrow> instant \<Rightarrow> uuid \<Rightarrow> outbox_row list \<Rightarrow> outbox_row \<Rightarrow> outbox_row" where
  "claim_row c now token chosen r =
     (let r1 = recovered_row c now r in if ob_outbox_id r1 \<in> ob_outbox_id ` set chosen then claimed_row now token r1 else r1)"

lemma claim_eq:
  assumes "claim c created now token locked rows = (qs, n, rows')"
  obtains chosen where "chosen = select_claim c created now locked (map (recovered_row c now) rows)"
    "qs = map (record_of token) chosen" "rows' = map (claim_row c now token chosen) rows"
proof -
  have rec: "update_where (expired c now) unclaim rows = map (recovered_row c now) rows"
    by (simp add: update_where_def recovered_row_def)
  let ?ch = "select_claim c created now locked (map (recovered_row c now) rows)"
  have take: "update_where (\<lambda>r. ob_outbox_id r \<in> set (map ob_outbox_id ?ch))
      (\<lambda>r. r\<lparr>ob_status := PUBLISHING, ob_claim_token := Some token, ob_claimed_at := Some now, ob_attempts := ob_attempts r + 1\<rparr>)
      (map (recovered_row c now) rows) = map (claim_row c now token ?ch) rows"
    by (simp add: update_where_def claim_row_def claimed_row_def Let_def)
  have "(qs, n, rows') = (map (record_of token) ?ch, rowcount (expired c now) rows, map (claim_row c now token ?ch) rows)"
    using assms unfolding claim_def Let_def rec take by simp
  then show ?thesis using that by blast
qed

lemma row_unique: "keys_unique key rows \<Longrightarrow> r \<in> set rows \<Longrightarrow> r' \<in> set rows \<Longrightarrow> key r = key r' \<Longrightarrow> r = r'"
  unfolding keys_unique_def by (metis distinct_map inj_onD)

lemma filter_keyed:
  assumes "keys_unique key rows" "r \<in> set rows" "P r" "\<And>r'. r' \<in> set rows \<Longrightarrow> P r' \<Longrightarrow> key r' = key r"
  shows "filter P rows = [r]"
  using assms
proof (induction rows)
  case (Cons x rows)
  show ?case
  proof (cases "x = r")
    case True
    have "key r \<notin> key ` set rows" using Cons.prems(1) True by (simp add: keys_unique_def)
    then have "\<not> P y" if "y \<in> set rows" for y
      using Cons.prems(4) [of y] that by (metis image_eqI list.set_intros(2))
    with True Cons.prems(3) show ?thesis by (simp add: filter_empty_conv)
  next
    case False
    with Cons.prems(2) have r: "r \<in> set rows" by simp
    have x: "key x \<notin> key ` set rows" "keys_unique key rows" using Cons.prems(1) by (simp_all add: keys_unique_def)
    then have "\<not> P x" using r Cons.prems(4) [of x] by (metis image_eqI list.set_intros(1))
    moreover have "filter P rows = [r]" by (rule Cons.IH [OF x(2) r Cons.prems(3)]) (simp add: Cons.prems(4))
    ultimately show ?thesis by simp
  qed
qed simp

lemma chosen_row:
  assumes "keys_unique ob_outbox_id rows" "\<forall>r \<in> set rows. row_ok r" "r \<in> set rows"
    and "chosen = select_claim c created now locked (map (recovered_row c now) rows)"
    and "ob_outbox_id (recovered_row c now r) \<in> ob_outbox_id ` set chosen"
  shows "recovered_row c now r \<in> set chosen" "ob_status (recovered_row c now r) = PENDING"
proof -
  obtain r0 where r0: "r0 \<in> set chosen" "ob_outbox_id r0 = ob_outbox_id (recovered_row c now r)" using assms(5) by auto
  have "r0 \<in> set (map (recovered_row c now) rows)" "claimable now locked r0"
    using r0(1) assms(4) select_claim_set by metis+
  moreover have "keys_unique ob_outbox_id (map (recovered_row c now) rows)"
    using row_step_keys [OF recovered_row_step assms(2)] assms(1) by simp
  ultimately have "recovered_row c now r = r0" using row_unique r0(2) assms(3) by (metis imageI set_map)
  with r0(1) \<open>claimable now locked r0\<close>
  show "recovered_row c now r \<in> set chosen" "ob_status (recovered_row c now r) = PENDING" by (simp_all add: claimable_def)
qed

lemma claim_row_step:
  assumes "keys_unique ob_outbox_id rows" "\<forall>r \<in> set rows. row_ok r"
    and "chosen = select_claim c created now locked (map (recovered_row c now) rows)"
  shows "row_step (claim_row c now token chosen) rows"
  unfolding row_step_def
proof (intro ballI impI)
  fix r
  assume r: "r \<in> set rows" "row_ok r"
  let ?r1 = "recovered_row c now r"
  have r1: "same_alert r ?r1" "row_ok ?r1" "ob_status r \<in> {PUBLISHED, FAILED} \<Longrightarrow> ?r1 = r"
    using recovered_row_step [of c now rows] r by (auto simp: row_step_def)
  show "same_alert r (claim_row c now token chosen r) \<and> row_ok (claim_row c now token chosen r) \<and>
      (ob_status r \<in> {PUBLISHED, FAILED} \<longrightarrow> claim_row c now token chosen r = r)"
  proof (cases "ob_outbox_id ?r1 \<in> ob_outbox_id ` set chosen")
    case True
    from chosen_row(2) [OF assms(1,2) r(1) assms(3) True] r1 True show ?thesis
      by (auto simp: claim_row_def claimed_row_def Let_def same_alert_def row_message_def row_ok_def)
  next
    case False
    then have "claim_row c now token chosen r = ?r1" by (simp add: claim_row_def Let_def)
    with r1 show ?thesis by metis
  qed
qed

section \<open>Preservation\<close>

lemma held_same: "held_row q r \<Longrightarrow> same_alert r r' \<Longrightarrow> held_row q r'"
  by (simp add: held_row_def same_alert_def)

text \<open>A step that rewrites rows keeps the invariant if newly published rows are in the topic.\<close>

lemma outbox_inv_rewrite:
  assumes "outbox_inv s" "row_step g (sy_rows s)" "sy_rows s' = map g (sy_rows s)" "set (sy_topic s) \<subseteq> set (sy_topic s')"
    and "\<And>q st. (q, st) \<in> sy_held s' \<Longrightarrow> (\<exists>st'. (q, st') \<in> sy_held s) \<or>
      oq_attempts q > 0 \<and> (\<exists>r \<in> set (sy_rows s'). held_row q r)"
    and "\<And>q. (q, Sent) \<in> sy_held s' \<Longrightarrow> (q, Sent) \<in> sy_held s \<or> message_of q \<in> set (sy_topic s')"
    and "\<And>r. r \<in> set (sy_rows s) \<Longrightarrow> ob_status (g r) = PUBLISHED \<Longrightarrow> ob_status r = PUBLISHED \<or> row_message r \<in> set (sy_topic s')"
  shows "outbox_inv s'"
proof -
  have ok: "\<forall>r \<in> set (sy_rows s). row_ok r" using assms(1) by (simp add: outbox_inv_def)
  have step: "same_alert r (g r)" "row_ok (g r)" if "r \<in> set (sy_rows s)" for r
    using assms(2) that ok by (auto simp: row_step_def)
  have "oq_attempts q > 0 \<and> (\<exists>r \<in> set (sy_rows s'). held_row q r)" if h: "(q, st) \<in> sy_held s'" for q st
  proof (cases "\<exists>st'. (q, st') \<in> sy_held s")
    case True
    then obtain r where "oq_attempts q > 0" "r \<in> set (sy_rows s)" "held_row q r" using assms(1) by (auto simp: outbox_inv_def)
    with step(1) assms(3) show ?thesis by (auto intro: held_same)
  qed (use assms(5) [OF h] in blast)
  moreover have "row_message r' \<in> set (sy_topic s')" if r': "r' \<in> set (sy_rows s')" "ob_status r' = PUBLISHED" for r'
  proof -
    obtain r where r: "r \<in> set (sy_rows s)" "r' = g r" using r'(1) assms(3) by auto
    have "row_message r' = row_message r" using step(1) [OF r(1)] r(2) by (simp add: same_alert_def)
    moreover have "ob_status r = PUBLISHED \<Longrightarrow> row_message r \<in> set (sy_topic s)"
      using assms(1) r(1) by (simp add: outbox_inv_def)
    ultimately show ?thesis using assms(4) assms(7) [OF r(1)] r(2) r'(2) by auto
  qed
  moreover have "keys_unique ob_outbox_id (sy_rows s')"
    using row_step_keys [OF assms(2) ok] assms(1,3) by (simp add: outbox_inv_def)
  moreover have "\<forall>r \<in> set (sy_rows s'). row_ok r" using step(2) assms(3) by auto
  moreover have "\<forall>q. (q, Sent) \<in> sy_held s' \<longrightarrow> message_of q \<in> set (sy_topic s')"
    using assms(1,4,6) unfolding outbox_inv_def by blast
  ultimately show ?thesis unfolding outbox_inv_def by blast
qed

lemma row_step_id: "row_step (\<lambda>r. r) rows"
  by (simp add: row_step_def)

lemma publish_alert_topic:
  assumes "publish_alert cx call q topic = (r, topic')"
  shows "set topic \<subseteq> set topic'" "r = Inr () \<Longrightarrow> reports_delivery call \<Longrightarrow> message_of q \<in> set topic'"
proof -
  show "set topic \<subseteq> set topic'"
    using assms by (auto simp: publish_alert_def Let_def split: sum.splits if_splits dlq_call.splits)
  show "message_of q \<in> set topic'" if "r = Inr ()" "reports_delivery call"
    using assms that
    by (cases call) (auto simp: publish_alert_def Let_def split: sum.splits if_splits, metis last_in_set)
qed

lemma claimed_records:
  assumes "outbox_inv s" "claim c created now token locked (sy_rows s) = (qs, n, rows)" "q \<in> set qs"
  shows "oq_attempts q > 0 \<and> (\<exists>r \<in> set rows. held_row q r)"
proof -
  obtain chosen where ch: "chosen = select_claim c created now locked (map (recovered_row c now) (sy_rows s))"
    "qs = map (record_of token) chosen" "rows = map (claim_row c now token chosen) (sy_rows s)"
    by (rule claim_eq [OF assms(2)]) (rule that)
  obtain r0 where r0: "r0 \<in> set chosen" "q = record_of token r0" using assms(3) ch(2) by auto
  obtain r where r: "r \<in> set (sy_rows s)" "r0 = recovered_row c now r"
    using select_claim_set [of r0] r0(1) unfolding ch(1) by (metis imageE set_map)
  have ok: "row_ok r0" using recovered_row_step [of c now "sy_rows s"] assms(1) r by (auto simp: row_step_def outbox_inv_def)
  have g: "claim_row c now token chosen r = claimed_row now token r0"
    using r0(1) r(2) by (auto simp: claim_row_def Let_def)
  have "held_row q (claimed_row now token r0)"
    by (simp add: r0(2) held_row_def record_of_def claimed_row_def row_message_def message_of_def)
  moreover have "oq_attempts q > 0" using ok r0(2) by (simp add: record_of_def row_ok_def)
  ultimately show ?thesis using r(1) g ch(3) by (metis image_eqI set_map)
qed

lemma sent_message:
  assumes "outbox_inv s" "(q, Sent) \<in> sy_held s" "r \<in> set (sy_rows s)" "claimed_by q r"
  shows "row_message r \<in> set (sy_topic s)"
proof -
  obtain r0 where r0: "r0 \<in> set (sy_rows s)" "held_row q r0"
    using assms(1,2) by (auto simp: outbox_inv_def)
  moreover have "r0 = r"
    using row_unique [of ob_outbox_id "sy_rows s" r0 r] r0 assms by (auto simp: outbox_inv_def held_row_def claimed_by_def)
  ultimately show ?thesis using assms(1,2) by (auto simp: outbox_inv_def held_row_def)
qed

lemma outbox_inv_step:
  assumes "outbox_step c cx created s s'" "outbox_inv s"
  shows "outbox_inv s'"
  using assms
proof (induction rule: outbox_step.induct)
  case (insert r s)
  have "row_ok r" using insert.hyps(1) by (auto simp: fresh_row_def row_ok_def)
  moreover have "keys_unique ob_outbox_id (sy_rows s @ [r])"
    using insert by (simp add: keys_unique_append exists_key_def outbox_inv_def)
  moreover have "ob_status r \<noteq> PUBLISHED" using insert.hyps(1) by (simp add: fresh_row_def)
  ultimately show ?case using insert.prems unfolding outbox_inv_def by auto
next
  case (claims token s now locked qs n rows)
  obtain chosen where ch: "chosen = select_claim c created now locked (map (recovered_row c now) (sy_rows s))"
    "rows = map (claim_row c now token chosen) (sy_rows s)"
    by (rule claim_eq [OF claims.hyps(2)]) (rule that)
  have step: "row_step (claim_row c now token chosen) (sy_rows s)"
    using claims.prems ch(1) by (intro claim_row_step) (simp_all add: outbox_inv_def)
  have same: "ob_status r = PUBLISHED" if "ob_status (claim_row c now token chosen r) = PUBLISHED" for r
    using that by (auto simp: claim_row_def claimed_row_def recovered_row_def unclaim_def Let_def split: if_splits)
  show ?case
    by (rule outbox_inv_rewrite [OF claims.prems step])
      (use ch(2) same claimed_records [OF claims.prems claims.hyps(2)] in auto)
next
  case (sends q s call r topic)
  note t = publish_alert_topic [OF sends.hyps(3)]
  have sent: "stage_after r = Sent \<Longrightarrow> r = Inr ()" by (cases r) auto
  show ?case
    by (rule outbox_inv_rewrite [OF sends.prems row_step_id]) (use t sends.hyps(1,2) sent in auto)
next
  case (confirms q s now rows)
  have rows: "rows = map (published_row now q) (sy_rows s)"
    using published_rows [of now q "sy_rows s"] confirms.hyps(2) by simp
  show ?case
    using sent_message [OF confirms.prems confirms.hyps(1)]
    by (intro outbox_inv_rewrite [OF confirms.prems published_row_step [of now q]])
      (auto simp: rows published_row_def split: if_splits)
next
  case (unconfirmed q s rows now x)
  have pub: "outbox_inv (s\<lparr>sy_rows := map (published_row now q) (sy_rows s), sy_held := sy_held s - {(q, Sent)} \<union> {(q, Errored x)}\<rparr>)"
    using sent_message [OF unconfirmed.prems unconfirmed.hyps(1)]
    by (intro outbox_inv_rewrite [OF unconfirmed.prems published_row_step [of now q]])
      (use unconfirmed.hyps(1) in \<open>auto simp: published_row_def split: if_splits\<close>)
  have "outbox_inv (s\<lparr>sy_rows := sy_rows s, sy_held := sy_held s - {(q, Sent)} \<union> {(q, Errored x)}\<rparr>)"
    by (intro outbox_inv_rewrite [OF unconfirmed.prems row_step_id]) (use unconfirmed.hyps(1) in auto)
  moreover have "rows = sy_rows s \<or> rows = map (published_row now q) (sy_rows s)"
    using unconfirmed.hyps(2) published_rows [of now q "sy_rows s"] by (auto split: if_splits)
  ultimately show ?case using pub by (elim disjE) (simp_all only:)
next
  case (gives_back q x s now)
  have "ob_status r = PUBLISHED" if "ob_status (failed_row c now q x r) = PUBLISHED" for r
    using that by (auto simp: failed_row_def failed_def update_where_def split: if_splits)
  then show ?case
    by (intro outbox_inv_rewrite [OF gives_back.prems failed_row_step [of c now q x]]) (auto simp: failed_rows)
next
  case (crashes h s)
  show ?case by (intro outbox_inv_rewrite [OF crashes.prems row_step_id]) auto
qed

lemma outbox_reachable_inv: "outbox_reachable c cx created s \<Longrightarrow> outbox_inv s"
proof (induction rule: rtranclp_induct)
  case base
  show ?case by (simp add: outbox_inv_def empty_system_def keys_unique_def)
qed (rule outbox_inv_step)

text \<open>Finished rows stay.\<close>

lemma row_step_kept:
  assumes "row_step g rows" "row_ok r" "r \<in> set rows" "ob_status r \<in> {PUBLISHED, FAILED}"
  shows "r \<in> set (map g rows)"
proof -
  have "g r = r" using assms unfolding row_step_def by blast
  with assms(3) show ?thesis by (metis imageI set_map)
qed

lemma finished_kept:
  assumes "outbox_step c cx created s s'" "outbox_inv s" "r \<in> set (sy_rows s)" "ob_status r \<in> {PUBLISHED, FAILED}"
  shows "r \<in> set (sy_rows s')"
proof -
  have ok: "\<forall>r \<in> set (sy_rows s). row_ok r" "keys_unique ob_outbox_id (sy_rows s)" using assms(2) by (simp_all add: outbox_inv_def)
  note kept = row_step_kept [OF _ bspec [OF ok(1) assms(3)] assms(3,4)]
  have pub: "r \<in> set (snd (published now q (sy_rows s)))" for now q
    using kept [OF published_row_step, of now q] assms(3) published_rows [of now q "sy_rows s"] by presburger
  from assms(1) show ?thesis
  proof cases
    case (claims token now locked qs n rows)
    obtain chosen where ch: "chosen = select_claim c created now locked (map (recovered_row c now) (sy_rows s))"
      "rows = map (claim_row c now token chosen) (sy_rows s)"
      by (rule claim_eq [OF claims(3)]) (rule that)
    with kept [OF claim_row_step [OF ok(2,1) ch(1)]] claims(1) show ?thesis by simp
  next
    case (confirms q now rows)
    with pub [of now q] show ?thesis by simp
  next
    case (unconfirmed q rows now x)
    with pub [of now q] assms(3) show ?thesis by auto
  next
    case (gives_back q x now)
    with kept [OF failed_row_step, of c now q x] show ?thesis by (simp add: failed_rows)
  qed (use assms(3) in auto)
qed

section \<open>The service loop takes these steps\<close>

definition mirrors :: "outbox_system \<Rightarrow> service \<Rightarrow> bool" where
  "mirrors sys s \<longleftrightarrow> sy_rows sys = sc_rows s \<and> sy_topic sys = sc_topic s"

lemma gives_back_step:
  assumes "(q, Errored x) \<in> sy_held u"
  shows "\<exists>v. outbox_step c cx created u v \<and> sy_rows v = failed c now q x (sy_rows u) \<and> sy_topic v = sy_topic u \<and>
    sy_held v = sy_held u - {(q, Errored x)}"
  using outbox_step.gives_back [OF assms, of c cx created now] by force

lemma publish_record_steps:
  assumes "(q, Claimed) \<in> sy_held sys" "mirrors sys s" "reports_delivery (tn_call tn)"
  shows "\<exists>sys'. (outbox_step c cx created)\<^sup>*\<^sup>* sys sys' \<and> mirrors sys' (publish_record c cx tn q s) \<and>
    sy_held sys - {(q, Claimed)} \<subseteq> sy_held sys' \<union> {(q, Sent), (q, Claimed)} \<union> {(q, Errored x) |x. True}"
proof -
  let ?R = "outbox_step c cx created"
  obtain r1 topic where p: "publish_alert cx (tn_call tn) q (sc_topic s) = (r1, topic)" by (rule prod.exhaust)
  obtain s1 where s1: "?R sys s1" "sy_rows s1 = sc_rows s" "sy_topic s1 = topic"
    "sy_held s1 = sy_held sys - {(q, Claimed)} \<union> {(q, stage_after r1)}"
    using outbox_step.sends [OF assms(1,3), of cx r1 topic c created] p assms(2) by (auto simp: mirrors_def)
  show ?thesis
  proof (cases r1)
    case (Inl x)
    obtain s2 where s2: "?R s1 s2" "sy_rows s2 = failed c (tn_failed_at tn) q x (sc_rows s)" "sy_topic s2 = topic"
      "sy_held s2 = sy_held s1 - {(q, Errored x)}"
      using gives_back_step [of q x s1 c cx created "tn_failed_at tn"] s1 Inl by auto
    have "?R\<^sup>*\<^sup>* sys s2" using s1(1) s2(1) by (meson converse_rtranclp_into_rtranclp r_into_rtranclp)
    moreover have "mirrors s2 (publish_record c cx tn q s)"
      using Inl p s2(2,3) by (simp add: publish_record_def mirrors_def Let_def)
    ultimately show ?thesis using s1(4) s2(4) by blast
  next
    case (Inr u)
    obtain r2 rows where r2: "published (tn_published_at tn) q (sc_rows s) = (r2, rows)" by (rule prod.exhaust)
    have held: "(q, Sent) \<in> sy_held s1" using s1(4) Inr by simp
    show ?thesis
    proof (cases r2)
      case (Inr u')
      let ?s2 = "s1\<lparr>sy_rows := rows, sy_held := sy_held s1 - {(q, Sent)}\<rparr>"
      have "?R s1 ?s2" using outbox_step.confirms [OF held] r2 s1(2) Inr by simp
      then have "?R\<^sup>*\<^sup>* sys ?s2" using s1(1) by (meson converse_rtranclp_into_rtranclp r_into_rtranclp)
      moreover have "mirrors ?s2 (publish_record c cx tn q s)"
        using \<open>r1 = Inr u\<close> Inr p r2 s1(3) by (simp add: publish_record_def mirrors_def Let_def)
      ultimately show ?thesis using s1(4) by (intro exI [of _ ?s2]) auto
    next
      case (Inl x)
      have rows: "rows = sc_rows s" using r2 Inl by (auto simp: published_def Let_def split: if_splits)
      let ?s2 = "s1\<lparr>sy_rows := sy_rows s1, sy_held := sy_held s1 - {(q, Sent)} \<union> {(q, Errored x)}\<rparr>"
      have st2: "?R s1 ?s2" using outbox_step.unconfirmed [OF held] by blast
      obtain s3 where s3: "?R ?s2 s3" "sy_rows s3 = failed c (tn_failed_at tn) q x (sc_rows s)" "sy_topic s3 = topic"
        "sy_held s3 = sy_held ?s2 - {(q, Errored x)}"
        using gives_back_step [of q x ?s2 c cx created "tn_failed_at tn"] s1(2,3) by auto
      have "?R\<^sup>*\<^sup>* sys s3" using s1(1) st2 s3(1) by (meson converse_rtranclp_into_rtranclp r_into_rtranclp)
      moreover have "mirrors s3 (publish_record c cx tn q s)"
        using \<open>r1 = Inr u\<close> Inl p r2 rows s3(2,3) by (simp add: publish_record_def mirrors_def Let_def)
      ultimately show ?thesis using s1(4) s3(4) by (intro exI [of _ s3]) auto
    qed
  qed
qed

lemma publish_records_steps:
  assumes "\<forall>q \<in> set qs. (q, Claimed) \<in> sy_held sys" "mirrors sys s" "\<forall>tn \<in> set tns. reports_delivery (tn_call tn)" "distinct qs"
  shows "\<exists>sys'. (outbox_step c cx created)\<^sup>*\<^sup>* sys sys' \<and> mirrors sys' (publish_records c cx tns qs s)"
  using assms
proof (induction c cx tns qs s arbitrary: sys rule: publish_records.induct)
  case (1 c cx tn tns q qs s)
  have "(q, Claimed) \<in> sy_held sys" "reports_delivery (tn_call tn)" using "1.prems" by auto
  from publish_record_steps [OF this(1) "1.prems"(2) this(2), of c cx created]
  obtain mid where mid: "(outbox_step c cx created)\<^sup>*\<^sup>* sys mid" "mirrors mid (publish_record c cx tn q s)"
    "sy_held sys - {(q, Claimed)} \<subseteq> sy_held mid \<union> {(q, Sent), (q, Claimed)} \<union> {(q, Errored x) |x. True}" by blast
  have "\<forall>q' \<in> set qs. (q', Claimed) \<in> sy_held mid" using "1.prems"(1,4) mid(3) by auto
  from "1.IH" [OF this mid(2)] "1.prems"(3,4) obtain sys' where "(outbox_step c cx created)\<^sup>*\<^sup>* mid sys'"
    "mirrors sys' (publish_records c cx tns qs (publish_record c cx tn q s))" by auto
  with mid(1) show ?case by (auto intro: rtranclp_trans)
qed auto

lemma run_cycle_steps:
  assumes "mirrors sys s" "outbox_inv sys" "fresh_token token sys" "\<forall>tn \<in> set tns. reports_delivery (tn_call tn)"
  shows "\<exists>sys'. (outbox_step c cx created)\<^sup>*\<^sup>* sys sys' \<and> mirrors sys' (run_cycle c cx created now token locked tns s)"
proof -
  obtain qs n rows where cl: "claim c created now token locked (sc_rows s) = (qs, n, rows)" by (metis prod_cases3)
  let ?s1 = "sys\<lparr>sy_rows := rows, sy_held := sy_held sys \<union> (\<lambda>q. (q, Claimed)) ` set qs\<rparr>"
  let ?sv = "s\<lparr>sc_rows := rows, sc_summary := (sc_summary s)\<lparr>rows_claimed := rows_claimed (sc_summary s) + int (length qs)\<rparr>\<rparr>"
  have st: "outbox_step c cx created sys ?s1"
    using outbox_step.claims [OF assms(3)] cl assms(1) by (simp add: mirrors_def)
  obtain chosen where ch: "chosen = select_claim c created now locked (map (recovered_row c now) (sc_rows s))"
    "qs = map (record_of token) chosen"
    by (rule claim_eq [OF cl]) (rule that)
  have "keys_unique ob_outbox_id (map (recovered_row c now) (sc_rows s))"
    using row_step_keys [OF recovered_row_step] assms(1,2) by (simp add: outbox_inv_def mirrors_def)
  from select_claim_distinct [OF this, of c created now locked] have "distinct (map oq_outbox_id qs)"
    by (simp add: ch comp_def record_of_def)
  then have "distinct qs" by (simp add: distinct_map)
  with publish_records_steps [of qs ?s1 ?sv tns c cx created] assms(1,4)
  obtain sys' where "(outbox_step c cx created)\<^sup>*\<^sup>* ?s1 sys'" "mirrors sys' (publish_records c cx tns qs ?sv)"
    by (auto simp: mirrors_def)
  then have "(outbox_step c cx created)\<^sup>*\<^sup>* sys sys'" "mirrors sys' (run_cycle c cx created now token locked tns s)"
    using st cl by (auto simp: run_cycle_def intro: converse_rtranclp_into_rtranclp)
  then show ?thesis by blast
qed

section \<open>Properties\<close>

text \<open>C23: an alert marked published is in the topic. With a producer that reports every delivery before
  \<open>flush\<close> returns 0, for any number of publishers that claim, crash, lose claims and fail in any
  order: in every reachable state each published row's message, with its key, value and headers,
  is in the alert topic; and every turn of the service's loop is such a sequence of steps, so the
  same holds after it.\<close>

theorem published_alerts_delivered:
  assumes "outbox_reachable c cx created sys" and "sy_rows sys = sc_rows s" and "sy_topic sys = sc_topic s"
    and "fresh_token token sys" and "\<forall>tn \<in> set tns. reports_delivery (tn_call tn)"
    and "s' = run_cycle c cx created now token locked tns s"
  shows "(\<forall>r \<in> set (sc_rows s). ob_status r = PUBLISHED \<longrightarrow> row_message r \<in> set (sc_topic s)) \<and>
    (\<forall>r \<in> set (sc_rows s'). ob_status r = PUBLISHED \<longrightarrow> row_message r \<in> set (sc_topic s'))"
proof -
  have inv: "outbox_inv sys" using assms(1) by (rule outbox_reachable_inv)
  obtain sys' where sys': "(outbox_step c cx created)\<^sup>*\<^sup>* sys sys'" "mirrors sys' s'"
    using run_cycle_steps [OF _ inv assms(4,5)] assms(2,3,6) by (metis mirrors_def)
  then have "outbox_inv sys'" using assms(1) outbox_reachable_inv by (meson rtranclp_trans)
  with inv assms(2,3) sys'(2) show ?thesis by (auto simp: outbox_inv_def mirrors_def)
qed

text \<open>C24: the outbox table stays well-typed, and finished rows are final. In every reachable state the
  keys are unique and each row's columns agree: a claim token and a claim time exactly while it is
  being published, a publication time exactly when it is published, at least one attempt unless it
  is pending; and no step changes a row that is published or has failed.\<close>

theorem outbox_rows_typed:
  assumes "outbox_reachable c cx created s"
  shows "keys_unique ob_outbox_id (sy_rows s) \<and>
    (\<forall>r \<in> set (sy_rows s). ob_attempts r \<ge> 0 \<and> (ob_status r = PUBLISHING \<longleftrightarrow> ob_claim_token r \<noteq> None) \<and>
       (ob_claim_token r = None \<longleftrightarrow> ob_claimed_at r = None) \<and> (ob_status r = PUBLISHED \<longleftrightarrow> ob_published_at r \<noteq> None) \<and>
       (ob_status r \<noteq> PENDING \<longrightarrow> ob_attempts r > 0) \<and>
       (ob_status r \<in> {PUBLISHED, FAILED} \<longrightarrow> (\<forall>s'. outbox_step c cx created s s' \<longrightarrow> r \<in> set (sy_rows s'))))"
  using outbox_reachable_inv [OF assms] finished_kept [of c cx created s]
  unfolding outbox_inv_def row_ok_def by blast

text \<open>C25: a claim is a lease. While a row was claimed at most the claim's time to live ago, a claim by any
  publisher with any token leaves the row alone and does not return it, and the holder of the claim
  can still mark it published; a claim never returns more rows than the batch size, nor a locked one.\<close>

theorem claim_is_a_lease:
  assumes "outbox_reachable c cx created s" and "r \<in> set (sy_rows s)" and "claimed_by q r" and "ob_claimed_at r = Some t"
    and "now \<le> t + fraud_outbox_claim_ttl_seconds c * 1000000"
    and "claim c created now token locked (sy_rows s) = (qs, n, rows)"
  shows "r \<in> set rows \<and> ob_outbox_id r \<notin> oq_outbox_id ` set qs \<and> fst (published later q rows) = Inr () \<and>
    int (length qs) \<le> max 0 (fraud_outbox_batch_size c) \<and> oq_outbox_id ` set qs \<inter> locked = {}"
proof -
  have inv: "keys_unique ob_outbox_id (sy_rows s)" "\<forall>r \<in> set (sy_rows s). row_ok r"
    using outbox_reachable_inv [OF assms(1)] by (simp_all add: outbox_inv_def)
  have pub: "ob_status r = PUBLISHING" using inv(2) assms(2,3) by (auto simp: row_ok_def claimed_by_def)
  obtain chosen where ch: "chosen = select_claim c created now locked (map (recovered_row c now) (sy_rows s))"
    "qs = map (record_of token) chosen" "rows = map (claim_row c now token chosen) (sy_rows s)"
    by (rule claim_eq [OF assms(6)]) (rule that)
  have keep: "recovered_row c now r = r" using assms(4,5) by (simp add: recovered_row_def expired_def)
  have notin: "ob_outbox_id r \<notin> ob_outbox_id ` set chosen"
    using chosen_row(2) [OF inv assms(2) ch(1)] keep pub by auto
  then have row: "claim_row c now token chosen r = r" by (simp add: claim_row_def keep)
  then have r: "r \<in> set rows" using assms(2) ch(3) by (metis imageI set_map)
  have ids: "oq_outbox_id ` set qs = ob_outbox_id ` set chosen" by (auto simp: ch(2) record_of_def image_image)
  have uniq: "keys_unique ob_outbox_id rows"
    using row_step_keys [OF claim_row_step [OF inv ch(1)] inv(2), of token] inv(1) ch(3) by simp
  have "filter (\<lambda>r. claimed_by q r \<and> ob_status r = PUBLISHING) rows = [r]"
    by (rule filter_keyed [OF uniq r]) (use assms(3) pub in \<open>auto simp: claimed_by_def\<close>)
  then have "fst (published later q rows) = Inr ()" by (simp add: published_def rowcount_def Let_def)
  moreover have "length qs \<le> nat (fraud_outbox_batch_size c)" by (simp add: ch(1,2) select_claim_def)
  then have "int (length qs) \<le> max 0 (fraud_outbox_batch_size c)" by linarith
  moreover have "oq_outbox_id ` set qs \<inter> locked = {}"
    unfolding ids using select_claim_set [of _ c created now locked "map (recovered_row c now) (sy_rows s)"]
    by (auto simp: ch(1) claimable_def)
  ultimately show ?thesis using r notin ids by simp
qed

text \<open>A row, a system that has claimed it, and a turn of the loop for the witnesses.\<close>

definition demo_row :: outbox_row where
  "demo_row =
     \<lparr>ob_outbox_id = 7, ob_aggregate_id = 8, ob_event_id = ev_event_id demo_event, ob_event_type = FRAUD_ALERT_CREATED,
      ob_event_version = 1, ob_topic = ''fraud.alerts'', ob_message_key = ''k'', ob_headers = [], ob_payload_json = ''body'',
      ob_payload_bytes = ''body'', ob_status = PENDING, ob_attempts = 0, ob_available_at = 0, ob_claimed_at = None,
      ob_claim_token = None, ob_published_at = None, ob_last_error = None\<rparr>"

definition demo_outbox :: outbox_system where
  "demo_outbox = empty_system\<lparr>sy_rows := [demo_row]\<rparr>"

lemma demo_outbox_reachable: "outbox_reachable c cx created demo_outbox"
  using outbox_step.insert [of demo_row empty_system c cx created]
  by (auto simp: demo_outbox_def fresh_row_def demo_row_def empty_system_def exists_key_def select_key_def)

lemma demo_fresh_token: "fresh_token 1 demo_outbox"
  by (simp add: fresh_token_def demo_outbox_def empty_system_def demo_row_def)

definition demo_service :: service where
  "demo_service = \<lparr>sc_rows = [demo_row], sc_topic = [], sc_summary = \<lparr>rows_claimed = 0, alerts_published = 0, publish_retries = 0, permanent_failures = 0\<rparr>\<rparr>"

definition demo_turn :: turn where
  "demo_turn = \<lparr>tn_call = Flush_returns 0 [None] True, tn_published_at = 11, tn_failed_at = 11\<rparr>"

lemma demo_claim:
  "claim default_fraud_config (\<lambda>_. 0) now token {} [demo_row] =
     (if 0 \<le> now then ([record_of token demo_row], 0, [claimed_row now token demo_row]) else ([], 0, [demo_row]))"
  by (simp add: claim_def Let_def update_where_def expired_def demo_row_def select_claim_def claimable_def
      default_fraud_config_def rowcount_def claimed_row_def)

lemma demo_cycle:
  "\<exists>r. sc_rows (run_cycle default_fraud_config demo_codec (\<lambda>_. 0) 10 1 {} [demo_turn] demo_service) = [r] \<and> ob_status r = PUBLISHED"
proof -
  have "run_cycle default_fraud_config demo_codec (\<lambda>_. 0) 10 1 {} [demo_turn] demo_service =
      publish_record default_fraud_config demo_codec demo_turn (record_of 1 demo_row)
        (demo_service\<lparr>sc_rows := [claimed_row 10 1 demo_row], sc_summary := (sc_summary demo_service)\<lparr>rows_claimed := 1\<rparr>\<rparr>)"
    by (simp add: run_cycle_def demo_claim demo_service_def)
  then show ?thesis
    by (simp add: demo_service_def publish_record_def publish_alert_def demo_parses record_of_def
      demo_row_def demo_turn_def published_def rowcount_def claimed_by_def claimed_row_def update_where_def Let_def)
qed

theorem published_alerts_delivered_witness:
  "\<exists>r. r \<in> set (sc_rows (run_cycle default_fraud_config demo_codec (\<lambda>_. 0) 10 1 {} [demo_turn] demo_service)) \<and>
     ob_status r = PUBLISHED \<and>
     row_message r \<in> set (sc_topic (run_cycle default_fraud_config demo_codec (\<lambda>_. 0) 10 1 {} [demo_turn] demo_service))"
proof -
  have "\<forall>tn \<in> set [demo_turn]. reports_delivery (tn_call tn)" by (simp add: demo_turn_def)
  from published_alerts_delivered [OF demo_outbox_reachable _ _ demo_fresh_token this refl, of demo_service] demo_cycle
  show ?thesis by (fastforce simp: demo_outbox_def demo_service_def empty_system_def)
qed

theorem outbox_rows_typed_witness:
  "keys_unique ob_outbox_id (sy_rows demo_outbox) \<and> ob_attempts demo_row \<ge> 0 \<and>
   (ob_status demo_row = PUBLISHING \<longleftrightarrow> ob_claim_token demo_row \<noteq> None)"
  using outbox_rows_typed [OF demo_outbox_reachable [of default_fraud_config demo_codec "\<lambda>_. 0"]] by (auto simp: demo_outbox_def)

definition demo_claimed :: outbox_system where
  "demo_claimed = demo_outbox\<lparr>sy_rows := [claimed_row 10 1 demo_row], sy_held := {(record_of 1 demo_row, Claimed)}\<rparr>"

lemma demo_claimed_reachable: "outbox_reachable default_fraud_config cx (\<lambda>_. 0) demo_claimed"
proof -
  have "outbox_step default_fraud_config cx (\<lambda>_. 0) demo_outbox demo_claimed"
    using outbox_step.claims [OF demo_fresh_token, of default_fraud_config "\<lambda>_. 0" 10 "{}" "[record_of 1 demo_row]" 0 "[claimed_row 10 1 demo_row]" cx]
    by (simp add: demo_outbox_def demo_claim demo_claimed_def empty_system_def)
  with demo_outbox_reachable show ?thesis by (metis rtranclp.rtrancl_into_rtrancl)
qed

theorem claim_is_a_lease_witness:
  "claimed_by (record_of 1 demo_row) (claimed_row 10 1 demo_row) \<and>
   (let (qs, n, rows) = claim default_fraud_config (\<lambda>_. 0) 1000 2 {} (sy_rows demo_claimed)
    in claimed_row 10 1 demo_row \<in> set rows \<and> ob_outbox_id (claimed_row 10 1 demo_row) \<notin> oq_outbox_id ` set qs \<and>
       fst (published 1001 (record_of 1 demo_row) rows) = Inr ())"
proof -
  obtain qs n rows where cl: "claim default_fraud_config (\<lambda>_. 0) 1000 2 {} (sy_rows demo_claimed) = (qs, n, rows)"
    by (metis prod_cases3)
  have own: "claimed_by (record_of 1 demo_row) (claimed_row 10 1 demo_row)" by (simp add: claimed_by_def record_of_def claimed_row_def)
  have "claimed_row 10 1 demo_row \<in> set rows \<and> ob_outbox_id (claimed_row 10 1 demo_row) \<notin> oq_outbox_id ` set qs \<and>
      fst (published 1001 (record_of 1 demo_row) rows) = Inr ()"
    using claim_is_a_lease [OF demo_claimed_reachable _ own, of 10 1000 2 "{}" qs n rows 1001] cl
    by (simp add: demo_claimed_def claimed_row_def default_fraud_config_def)
  with own cl show ?thesis by simp
qed

definition row_at :: "int \<Rightarrow> uuid \<Rightarrow> instant \<Rightarrow> outbox_row" where
  "row_at k token t = demo_row\<lparr>ob_status := PUBLISHING, ob_claim_token := Some token, ob_claimed_at := Some t, ob_attempts := k\<rparr>"

lemma take_one: "0 < n \<Longrightarrow> take (nat n) [x] = [x]"
  by (cases "nat n") auto

lemma first_claim:
  assumes "0 < fraud_outbox_batch_size c"
  shows "claim c (\<lambda>_. 0) 0 1 {} [demo_row] = ([record_of 1 demo_row], 0, [row_at 1 1 0])"
  using assms by (simp add: claim_def Let_def update_where_def expired_def demo_row_def select_claim_def claimable_def
      rowcount_def take_one row_at_def)

lemma expired_claim:
  assumes "0 < fraud_outbox_batch_size c" "0 \<le> fraud_outbox_claim_ttl_seconds c" "0 \<le> t"
    and "now = t + fraud_outbox_claim_ttl_seconds c * 1000000 + 1"
  shows "claim c (\<lambda>_. 0) now token {} [row_at k old t] = ([record_of token (unclaim (row_at k old t))], 1, [row_at (k + 1) token now])"
proof -
  have "0 \<le> now" using assms by simp
  then show ?thesis
    using assms by (simp add: claim_def Let_def update_where_def expired_def demo_row_def select_claim_def claimable_def
        rowcount_def take_one row_at_def unclaim_def)
qed

text \<open>A claim whose publisher stops at once.\<close>

lemma abandoned_claim:
  assumes "outbox_reachable c cx created s" "sy_held s = {}" "fresh_token token s"
    and "claim c created now token {} (sy_rows s) = ([q], n, rows)"
  shows "outbox_reachable c cx created (s\<lparr>sy_rows := rows\<rparr>)"
proof -
  let ?s1 = "s\<lparr>sy_rows := rows, sy_held := sy_held s \<union> (\<lambda>q. (q, Claimed)) ` set [q]\<rparr>"
  have "outbox_step c cx created s ?s1" by (rule outbox_step.claims [OF assms(3,4)])
  moreover have "outbox_step c cx created ?s1 (?s1\<lparr>sy_held := sy_held ?s1 - {(q, Claimed)}\<rparr>)"
    by (rule outbox_step.crashes) simp
  moreover have "?s1\<lparr>sy_held := sy_held ?s1 - {(q, Claimed)}\<rparr> = s\<lparr>sy_rows := rows\<rparr>" using assms(2) by simp
  ultimately show ?thesis using assms(1) by (metis rtranclp.rtrancl_into_rtrancl)
qed

text \<open>Recovered claims are not bounded by the attempt limit. Only a failed publication is checked
  against \<open>fraud_outbox_max_attempts\<close>; a claim whose publisher stops is recovered and claimed again,
  so for every number \<open>n\<close>, whatever the limit, a row can be claimed for the \<open>n\<close>-th time.\<close>

theorem recovered_claims_unbounded:
  assumes "0 < fraud_outbox_batch_size c" and "0 \<le> fraud_outbox_claim_ttl_seconds c" and "0 < n"
  shows "\<exists>s. \<exists>r \<in> set (sy_rows s). outbox_reachable c cx (\<lambda>_. 0) s \<and> ob_status r = PUBLISHING \<and> ob_attempts r = int n"
proof -
  have "\<exists>s tok t. outbox_reachable c cx (\<lambda>_. 0) s \<and> sy_held s = {} \<and> sy_rows s = [row_at (int (Suc k)) tok t] \<and> 0 \<le> t" for k
  proof (induction k)
    case 0
    have "outbox_reachable c cx (\<lambda>_. 0) (demo_outbox\<lparr>sy_rows := [row_at 1 1 0]\<rparr>)"
      using abandoned_claim [OF demo_outbox_reachable _ demo_fresh_token, where created = "\<lambda>_. 0", of c 0] first_claim [OF assms(1)]
      by (simp add: demo_outbox_def empty_system_def)
    then show ?case by (force simp: demo_outbox_def empty_system_def)
  next
    case (Suc k)
    then obtain s tok t where s: "outbox_reachable c cx (\<lambda>_. 0) s" "sy_held s = {}" "sy_rows s = [row_at (int (Suc k)) tok t]" "0 \<le> t"
      by blast
    let ?now = "t + fraud_outbox_claim_ttl_seconds c * 1000000 + 1"
    have "fresh_token (tok + 1) s" using s(2,3) by (simp add: fresh_token_def row_at_def)
    from abandoned_claim [OF s(1,2) this] s(3) expired_claim [OF assms(1,2) s(4) refl]
    have "outbox_reachable c cx (\<lambda>_. 0) (s\<lparr>sy_rows := [row_at (int (Suc k) + 1) (tok + 1) ?now]\<rparr>)" by metis
    moreover have "0 \<le> ?now" using assms(2) s(4) by simp
    ultimately show ?case using s(2)
      by (intro exI [of _ "s\<lparr>sy_rows := [row_at (int (Suc k) + 1) (tok + 1) ?now]\<rparr>"] exI [of _ "tok + 1"] exI [of _ ?now]) (simp add: algebra_simps)
  qed
  from this [of "n - 1"] assms(3) obtain s tok t where "outbox_reachable c cx (\<lambda>_. 0) s" "sy_rows s = [row_at (int n) tok t]" by auto
  then show ?thesis by (intro exI [of _ s]) (simp add: row_at_def)
qed

theorem recovered_claims_unbounded_witness:
  "fraud_outbox_max_attempts default_fraud_config = 10 \<and>
   (\<exists>s. \<exists>r \<in> set (sy_rows s). outbox_reachable default_fraud_config demo_codec (\<lambda>_. 0) s \<and> ob_status r = PUBLISHING \<and>
      ob_attempts r = int 11)"
proof
  show "fraud_outbox_max_attempts default_fraud_config = 10" by (simp add: default_fraud_config_def)
  show "\<exists>s. \<exists>r \<in> set (sy_rows s). outbox_reachable default_fraud_config demo_codec (\<lambda>_. 0) s \<and> ob_status r = PUBLISHING \<and>
      ob_attempts r = int 11"
    by (rule recovered_claims_unbounded) (simp_all add: default_fraud_config_def)
qed


text \<open>A codec that reads one event from any text.\<close>

definition codec_of :: "envelope \<Rightarrow> codec" where
  "codec_of e =
     \<lparr>cx_loads = (\<lambda>_. Some (JObj [(''event_type'', JStr (event_type_value (ev_event_type e)))])),
      cx_envelope = (\<lambda>_. Some
        \<lparr>ei_event_id = ev_event_id e, ei_event_type = ev_event_type e, ei_event_version = ev_event_version e,
         ei_event_time = ev_event_time e, ei_produced_at = ev_produced_at e, ei_source = ev_source e,
         ei_correlation_id = ev_correlation_id e, ei_payload = []\<rparr>),
      cx_payload = (\<lambda>_ _. Some (ev_payload e)), cx_uuid = (\<lambda>_. None), cx_header_order = []\<rparr>"

lemma codec_of_parses: "event_wf e \<Longrightarrow> parse_event (codec_of e) body = Inr e"
  using event_type_of_value [of "ev_event_type e"]
  by (cases e) (simp add: parse_event_def codec_of_def dict_get_def envelope_input_valid_def envelope_of_def event_wf_def)

definition demo_evaluation :: fraud_evaluation where
  "demo_evaluation =
     \<lparr>fv_evaluation_id = 1, fv_source_event_id = 2, fv_customer_id = 7, fv_order_id = None, fv_payment_id = None,
      fv_total_score = 80, fv_decision = BLOCK, fv_severity = HIGH, fv_rule_results = [], fv_evaluated_at = 0,
      fv_engine_version = ''1'', fv_ruleset_version = ''1''\<rparr>"

lemma demo_alert_wf: "event_wf (alert_event demo_env demo_evaluation demo_event)"
  by (simp add: event_wf_def alert_event_def demo_evaluation_def Let_def reason_codes_def matched_rules_def
      validate_contract_consistency_def non_empty_string_def CURRENT_EVENT_VERSION_def MAX_PRODUCER_CLOCK_SKEW_def)


end
