(* ===== verification/Demo_Runs.thy ===== *)
theory Demo_Runs
  imports Database
begin

text \<open>
  The demo control API (\<^verbatim>\<open>services/demo_control_api\<close>): runs of traffic scenarios with a status machine in
  the table \<open>demo_runs\<close> (\<^verbatim>\<open>models/runs.py\<close>, \<^verbatim>\<open>repositories/demo_runs.py\<close>), the runner that executes
  them as asyncio tasks (\<^verbatim>\<open>services/scenario_runner.py\<close>) and the handlers that create, stop, retry
  and clean up runs (\<^verbatim>\<open>main.py\<close>). What a task generates is left out: only how generation ends
  matters to the control state. A task runs between its awaits without interruption, so each step
  of the control state is one such stretch.
\<close>

section \<open>Requests\<close>

datatype scenario_type = NORMAL_CUSTOMER | SUSPICIOUS_PAYMENT | TAKEOVER | BOT_CHECKOUT | REFUND_ABUSE | DUPLICATE_DELIVERY | MALFORMED_EVENT | MIXED_TRAFFIC

record run_create =
  rc_scenario_type :: scenario_type
  rc_event_count :: int
  rc_duration_seconds :: "int option"
  rc_events_per_second :: int
  rc_seed :: int
  rc_anomaly_rate :: rat
  rc_duplicate_rate :: rat
  rc_malformed_rate :: rat
  rc_persona_distribution :: "(string \<times> int) list option"
  rc_transaction_enabled :: bool
  rc_cleanup_after_completion :: bool
  rc_notes :: "string option"
  rc_malformed_case :: string

definition malformed_cases :: "string list" where
  "malformed_cases = [''malformed_json'', ''missing_field'', ''unknown_event_type'', ''payload_mismatch'']"

definition allowed_personas :: "string list" where
  "allowed_personas = [''normal'', ''suspicious'', ''bot'', ''account_takeover'', ''discount_hunter'', ''indecisive'']"

definition rate_valid :: "rat \<Rightarrow> bool" where
  "rate_valid x \<longleftrightarrow> 0 \<le> x \<and> x \<le> 1 / 4"

definition fields_valid :: "run_create \<Rightarrow> bool" where
  "fields_valid q \<longleftrightarrow> 1 \<le> rc_event_count q \<and> rc_event_count q \<le> 100000 \<and>
     (case rc_duration_seconds q of None \<Rightarrow> True | Some d \<Rightarrow> 1 \<le> d \<and> d \<le> 3600) \<and>
     1 \<le> rc_events_per_second q \<and> rc_events_per_second q \<le> 1000 \<and>
     rate_valid (rc_anomaly_rate q) \<and> rate_valid (rc_duplicate_rate q) \<and> rate_valid (rc_malformed_rate q) \<and>
     (case rc_notes q of None \<Rightarrow> True | Some s \<Rightarrow> str_len s \<le> 500) \<and> rc_malformed_case q \<in> set malformed_cases"

definition mixed_valid :: "(string \<times> int) list option \<Rightarrow> bool" where
  "mixed_valid ps \<longleftrightarrow>
     (case ps of
        None \<Rightarrow> False
      | Some d \<Rightarrow> d \<noteq> [] \<and> sum_list (map snd d) = 100 \<and>
          (\<forall>(name, v) \<in> set d. name \<in> set allowed_personas \<and> 0 \<le> v \<and> v \<le> 100))"

definition run_create_valid :: "run_create \<Rightarrow> bool" where
  "run_create_valid q \<longleftrightarrow> fields_valid q \<and>
     (case rc_duration_seconds q of None \<Rightarrow> True | Some d \<Rightarrow> rc_event_count q \<le> d * rc_events_per_second q) \<and>
     (if rc_scenario_type q = MIXED_TRAFFIC then mixed_valid (rc_persona_distribution q)
      else rc_persona_distribution q = None)"

section \<open>Runs\<close>

datatype run_status = PENDING | STARTING | RUNNING | STOP_REQUESTED | STOPPED | COMPLETED | FAILED

definition TERMINAL_STATUSES :: "run_status list" where
  "TERMINAL_STATUSES = [STOPPED, COMPLETED, FAILED]"

fun TRANSITIONS :: "run_status \<Rightarrow> run_status list" where
  "TRANSITIONS PENDING = [STARTING]"
| "TRANSITIONS STARTING = [RUNNING, FAILED]"
| "TRANSITIONS RUNNING = [COMPLETED, STOP_REQUESTED, FAILED]"
| "TRANSITIONS STOP_REQUESTED = [STOPPED, FAILED]"
| "TRANSITIONS _ = []"

definition transition_allowed :: "run_status \<Rightarrow> run_status \<Rightarrow> bool" where
  "transition_allowed current target \<longleftrightarrow> target \<in> set (TRANSITIONS current)"

record demo_run =
  dr_run_id :: uuid
  dr_scenario_type :: scenario_type
  dr_status :: run_status
  dr_requested_event_count :: int
  dr_requested_duration_seconds :: "int option"
  dr_requested_events_per_second :: int
  dr_seed :: int
  dr_parameters :: run_create
  dr_test_scope :: string
  dr_generated_event_count :: int
  dr_processed_event_count :: int
  dr_duplicate_count :: int
  dr_dlq_count :: int
  dr_approve_count :: int
  dr_review_count :: int
  dr_block_count :: int
  dr_fraud_alert_count :: int
  dr_outbox_published_count :: int
  dr_status_message :: "string option"
  dr_error_category :: "string option"
  dr_created_at :: instant
  dr_started_at :: "instant option"
  dr_completed_at :: "instant option"
  dr_stopped_at :: "instant option"
  dr_updated_at :: instant

section \<open>Repository\<close>

datatype control_error =
    Key_error uuid
  | Invalid_transition run_status run_status
  | Cleanup_requires_terminal
  | Concurrency_limit
  | Not_found
  | Server_limit
  | Not_retryable
  | Duplicate_key

definition new_run :: "uuid \<Rightarrow> instant \<Rightarrow> string \<Rightarrow> run_create \<Rightarrow> demo_run" where
  "new_run run_id now scope q =
     \<lparr>dr_run_id = run_id, dr_scenario_type = rc_scenario_type q, dr_status = PENDING,
      dr_requested_event_count = rc_event_count q, dr_requested_duration_seconds = rc_duration_seconds q,
      dr_requested_events_per_second = rc_events_per_second q, dr_seed = rc_seed q, dr_parameters = q,
      dr_test_scope = scope, dr_generated_event_count = 0, dr_processed_event_count = 0,
      dr_duplicate_count = 0, dr_dlq_count = 0, dr_approve_count = 0, dr_review_count = 0, dr_block_count = 0,
      dr_fraud_alert_count = 0, dr_outbox_published_count = 0, dr_status_message = None,
      dr_error_category = None, dr_created_at = now, dr_started_at = None, dr_completed_at = None,
      dr_stopped_at = None, dr_updated_at = now\<rparr>"

definition create :: "uuid \<Rightarrow> instant \<Rightarrow> run_create \<Rightarrow> demo_run list \<Rightarrow> (control_error + demo_run) \<times> demo_run list" where
  "create run_id now q runs =
     (let r = new_run run_id now (''demo:'' @ uuid_str run_id) q
      in if exists_key dr_run_id run_id runs then (Inl Duplicate_key, runs) else (Inr r, runs @ [r]))"

definition get_run :: "uuid \<Rightarrow> demo_run list \<Rightarrow> demo_run option" where
  "get_run run_id runs = select_key dr_run_id run_id runs"

definition list_runs :: "int \<Rightarrow> int \<Rightarrow> demo_run list \<Rightarrow> demo_run list \<times> int" where
  "list_runs page page_size runs =
     (take (nat page_size) (drop (nat ((page - 1) * page_size))
        (sort_key (\<lambda>r. - dr_created_at r) (sort_key dr_run_id runs))), int (length runs))"

definition is_active :: "demo_run \<Rightarrow> bool" where
  "is_active r \<longleftrightarrow> dr_status r \<in> {PENDING, STARTING, RUNNING, STOP_REQUESTED}"

definition overview_order :: "demo_run list \<Rightarrow> demo_run list" where
  "overview_order runs =
     sort_key (\<lambda>r. if is_active r then (0::int) else 1)
       (sort_key (\<lambda>r. - dr_created_at r) (sort_key dr_run_id
          (filter (\<lambda>r. is_active r \<or> dr_status r = COMPLETED) runs)))"

definition set_status :: "run_status \<Rightarrow> instant \<Rightarrow> string option \<Rightarrow> string option \<Rightarrow> demo_run \<Rightarrow> demo_run" where
  "set_status target now message category r =
     r\<lparr>dr_status := target, dr_updated_at := now, dr_status_message := message, dr_error_category := category,
       dr_started_at := (if target = RUNNING then Some now else dr_started_at r),
       dr_completed_at := (if target = COMPLETED then Some now else dr_completed_at r),
       dr_stopped_at := (if target = STOPPED then Some now else dr_stopped_at r)\<rparr>"

definition transition ::
  "uuid \<Rightarrow> run_status \<Rightarrow> instant \<Rightarrow> string option \<Rightarrow> string option \<Rightarrow> demo_run list \<Rightarrow>
   (control_error + demo_run) \<times> demo_run list" where
  "transition run_id target now message category runs =
     (case get_run run_id runs of
        None \<Rightarrow> (Inl (Key_error run_id), runs)
      | Some r \<Rightarrow>
          if dr_status r = target then (Inr r, runs)
          else if \<not> transition_allowed (dr_status r) target
          then (Inl (Invalid_transition (dr_status r) target), runs)
          else (Inr (set_status target now message category r),
                update_where (\<lambda>x. dr_run_id x = run_id) (set_status target now message category) runs))"

type_synonym manifest = "(uuid \<times> uuid \<times> string) list"

definition add_manifest :: "uuid \<Rightarrow> (uuid \<times> string) list \<Rightarrow> manifest \<Rightarrow> manifest" where
  "add_manifest run_id events m =
     fold (\<lambda>(event_id, t) m. if \<exists>t'. (run_id, event_id, t') \<in> set m then m else m @ [(run_id, event_id, t)]) events m"

text \<open>\<open>LEFT JOIN\<close>: the matching rows, or one NULL row.\<close>

definition left_join :: "('r \<Rightarrow> bool) \<Rightarrow> 'r list \<Rightarrow> 'r option list" where
  "left_join P rows = (case filter P rows of [] \<Rightarrow> [None] | rs \<Rightarrow> map Some rs)"

record joined =
  jn_processed :: "processed_event_row option"
  jn_evaluation :: "fraud_evaluation_row option"
  jn_alert :: "fraud_alert_row option"
  jn_outbox :: "outbox_row option"

definition join_event :: "db \<Rightarrow> uuid \<Rightarrow> joined list" where
  "join_event d event_id =
     concat (map (\<lambda>pe. concat (map (\<lambda>fe. concat (map (\<lambda>fa.
         map (\<lambda>fo. \<lparr>jn_processed = pe, jn_evaluation = fe, jn_alert = fa, jn_outbox = fo\<rparr>)
           (left_join (\<lambda>r. case fa of None \<Rightarrow> False | Some a \<Rightarrow> ob_aggregate_id r = al_alert_id a) (t_fraud_outbox d)))
         (left_join (\<lambda>r. al_source_event_id r = event_id) (t_fraud_alerts d))))
         (left_join (\<lambda>r. fe_source_event_id r = event_id) (t_fraud_evaluations d))))
         (left_join (\<lambda>r. pe_event_id r = event_id) (t_processed_events d)))"

definition join_run :: "db \<Rightarrow> manifest \<Rightarrow> uuid \<Rightarrow> joined list" where
  "join_run d m run_id = concat (map (\<lambda>(_, event_id, _). join_event d event_id) (filter (\<lambda>x. fst x = run_id) m))"

definition decisions :: "fraud_decision \<Rightarrow> joined list \<Rightarrow> int" where
  "decisions dec js = rowcount (\<lambda>j. case jn_evaluation j of None \<Rightarrow> False | Some r \<Rightarrow> fe_decision r = dec) js"

definition outbox_in :: "outbox_status \<Rightarrow> joined list \<Rightarrow> int" where
  "outbox_in st js = rowcount (\<lambda>j. case jn_outbox j of None \<Rightarrow> False | Some r \<Rightarrow> ob_status r = st) js"

definition refreshed :: "db \<Rightarrow> manifest \<Rightarrow> instant \<Rightarrow> int option \<Rightarrow> demo_run \<Rightarrow> demo_run" where
  "refreshed d m now generated r =
     (let js = join_run d m (dr_run_id r)
      in r\<lparr>dr_generated_event_count := (case generated of None \<Rightarrow> dr_generated_event_count r | Some n \<Rightarrow> n),
           dr_processed_event_count := rowcount (\<lambda>j. jn_processed j \<noteq> None) js,
           dr_approve_count := decisions APPROVE js, dr_review_count := decisions REVIEW js,
           dr_block_count := decisions BLOCK js, dr_fraud_alert_count := rowcount (\<lambda>j. jn_alert j \<noteq> None) js,
           dr_outbox_published_count := outbox_in PUBLISHED js, dr_updated_at := now\<rparr>)"

definition refresh ::
  "db \<Rightarrow> manifest \<Rightarrow> instant \<Rightarrow> uuid \<Rightarrow> int option \<Rightarrow> demo_run list \<Rightarrow> (control_error + demo_run) \<times> demo_run list" where
  "refresh d m now run_id generated runs =
     (case get_run run_id runs of
        None \<Rightarrow> (Inl (Key_error run_id), runs)
      | Some r \<Rightarrow> (Inr (refreshed d m now generated r),
                   update_where (\<lambda>x. dr_run_id x = run_id) (refreshed d m now generated) runs))"

definition reconciled :: "instant \<Rightarrow> demo_run \<Rightarrow> demo_run" where
  "reconciled now r =
     r\<lparr>dr_status := (if dr_status r = STOP_REQUESTED then STOPPED else FAILED),
       dr_status_message := Some ''API restarted; in-memory scenario task was abandoned'',
       dr_error_category := Some ''api_restart'', dr_updated_at := now,
       dr_stopped_at := (if dr_status r = STOP_REQUESTED then Some now else dr_stopped_at r)\<rparr>"

definition reconcile :: "instant \<Rightarrow> demo_run list \<Rightarrow> int \<times> demo_run list" where
  "reconcile now runs =
     (let P = (\<lambda>r. dr_status r \<in> {STARTING, RUNNING, STOP_REQUESTED})
      in (rowcount P runs, update_where P (reconciled now) runs))"

definition cleanup :: "uuid \<Rightarrow> demo_run list \<times> manifest \<Rightarrow> (control_error + int \<times> int) \<times> demo_run list \<times> manifest" where
  "cleanup run_id = (\<lambda>(runs, m).
     case get_run run_id runs of
       None \<Rightarrow> (Inl (Key_error run_id), runs, m)
     | Some r \<Rightarrow>
         if dr_status r \<notin> set TERMINAL_STATUSES then (Inl Cleanup_requires_terminal, runs, m)
         else (Inr (rowcount (\<lambda>x. fst x = run_id) m, rowcount (\<lambda>x. dr_run_id x = run_id) runs),
               filter (\<lambda>x. dr_run_id x \<noteq> run_id) runs, filter (\<lambda>x. fst x \<noteq> run_id) m))"

section \<open>Runner\<close>

text \<open>A task is scheduled, generating, waiting for processing, or done; the flag says that it was
  cancelled, which it learns when it next runs. A task that is cancelled before its first step, or
  whose run is gone, never reaches the \<open>finally\<close> that removes it from the dictionary.\<close>

datatype task = Scheduled bool | Generating bool | Waiting bool | Finished

record control_config =
  demo_max_concurrent_runs :: int
  demo_max_event_count :: int
  demo_max_events_per_second :: int

record control =
  ct_runs :: "demo_run list"
  ct_manifest :: manifest
  ct_tasks :: "uuid \<Rightarrow> task option"
  ct_known :: "uuid list"

text \<open>\<open>ct_known\<close> lists the keys the dictionary of tasks was given, so that its live tasks can be counted.\<close>

definition is_live :: "task option \<Rightarrow> bool" where
  "is_live t \<longleftrightarrow> t \<noteq> None \<and> t \<noteq> Some Finished"

definition active_tasks :: "control \<Rightarrow> int" where
  "active_tasks s = rowcount (\<lambda>i. is_live (ct_tasks s i)) (ct_known s)"

definition set_task :: "uuid \<Rightarrow> task option \<Rightarrow> control \<Rightarrow> control" where
  "set_task i t s = s\<lparr>ct_tasks := (ct_tasks s)(i := t), ct_known := List.insert i (ct_known s)\<rparr>"

definition start :: "control_config \<Rightarrow> instant \<Rightarrow> demo_run \<Rightarrow> control \<Rightarrow> (control_error + unit) \<times> control" where
  "start c now run s =
     (if ct_tasks s (dr_run_id run) \<noteq> None then (Inr (), s)
      else if dr_status run \<noteq> PENDING then (Inr (), s)
      else if active_tasks s \<ge> demo_max_concurrent_runs c then (Inl Concurrency_limit, s)
      else case transition (dr_run_id run) STARTING now None None (ct_runs s) of
             (Inl e, _) \<Rightarrow> (Inl e, s)
           | (Inr _, runs) \<Rightarrow> (Inr (), set_task (dr_run_id run) (Some (Scheduled False)) (s\<lparr>ct_runs := runs\<rparr>)))"

fun cancelled_task :: "task \<Rightarrow> task" where
  "cancelled_task (Scheduled _) = Scheduled True"
| "cancelled_task (Generating _) = Generating True"
| "cancelled_task (Waiting _) = Waiting True"
| "cancelled_task Finished = Finished"

definition stop :: "instant \<Rightarrow> demo_run \<Rightarrow> control \<Rightarrow> (control_error + unit) \<times> control" where
  "stop now run s =
     (if dr_status run \<in> set TERMINAL_STATUSES then (Inr (), s)
      else case (if dr_status run = RUNNING
                 then transition (dr_run_id run) STOP_REQUESTED now None None (ct_runs s) else (Inr run, ct_runs s)) of
             (Inl e, _) \<Rightarrow> (Inl e, s)
           | (Inr _, runs) \<Rightarrow>
               (case ct_tasks s (dr_run_id run) of
                  None \<Rightarrow> (Inr (), s\<lparr>ct_runs := runs\<rparr>)
                | Some t \<Rightarrow> (Inr (), set_task (dr_run_id run) (Some (cancelled_task t)) (s\<lparr>ct_runs := runs\<rparr>))))"

text \<open>The endings of \<open>_execute\<close>: after each, the task leaves the dictionary.\<close>

definition on_cancelled :: "instant \<Rightarrow> uuid \<Rightarrow> control \<Rightarrow> control" where
  "on_cancelled now i s =
     set_task i None
       (case get_run i (ct_runs s) of
          Some r \<Rightarrow>
            if dr_status r = STOP_REQUESTED
            then s\<lparr>ct_runs := snd (transition i STOPPED now (Some ''Stopped by user'') None (ct_runs s))\<rparr> else s
        | None \<Rightarrow> s)"

definition on_timeout :: "instant \<Rightarrow> uuid \<Rightarrow> control \<Rightarrow> control" where
  "on_timeout now i s =
     set_task i None (s\<lparr>ct_runs := snd (transition i FAILED now (Some ''Run timed out'') (Some ''timeout'') (ct_runs s))\<rparr>)"

definition on_failure :: "instant \<Rightarrow> uuid \<Rightarrow> control \<Rightarrow> control" where
  "on_failure now i s =
     set_task i None
       (case get_run i (ct_runs s) of
          Some r \<Rightarrow>
            if dr_status r \<notin> set TERMINAL_STATUSES
            then s\<lparr>ct_runs := snd (transition i FAILED now (Some ''Scenario execution failed'') (Some ''scenario_execution'') (ct_runs s))\<rparr>
            else s
        | None \<Rightarrow> s)"

definition on_complete :: "instant \<Rightarrow> db \<Rightarrow> uuid \<Rightarrow> control \<Rightarrow> control" where
  "on_complete now d i s =
     set_task i None
       (case get_run i (ct_runs s) of
          Some r \<Rightarrow>
            if dr_status r = RUNNING
            then let runs = snd (refresh d (ct_manifest s) now i None (ct_runs s))
                 in s\<lparr>ct_runs := snd (transition i COMPLETED now (Some ''Scenario generation completed'') None runs)\<rparr>
            else s
        | None \<Rightarrow> s)"

definition begin_task :: "instant \<Rightarrow> uuid \<Rightarrow> control \<Rightarrow> control" where
  "begin_task now i s =
     (case get_run i (ct_runs s) of
        None \<Rightarrow> set_task i (Some Finished) s
      | Some r \<Rightarrow>
          (case transition i RUNNING now None None (ct_runs s) of
             (Inl e, _) \<Rightarrow> on_failure now i s
           | (Inr _, runs) \<Rightarrow> set_task i (Some (Generating False)) (s\<lparr>ct_runs := runs\<rparr>)))"

text \<open>How an await of the task ends, unless it was cancelled.\<close>

datatype awaited = Returned | Timed_out | Raised_error

definition run_task :: "instant \<Rightarrow> db \<Rightarrow> awaited \<Rightarrow> uuid \<Rightarrow> control \<Rightarrow> control" where
  "run_task now d ending i s =
     (case ct_tasks s i of
        Some (Scheduled True) \<Rightarrow> set_task i (Some Finished) s
      | Some (Scheduled False) \<Rightarrow> begin_task now i s
      | Some (Generating True) \<Rightarrow> on_cancelled now i s
      | Some (Waiting True) \<Rightarrow> on_cancelled now i s
      | Some (Generating False) \<Rightarrow>
          (case ending of
             Timed_out \<Rightarrow> on_timeout now i s
           | Raised_error \<Rightarrow> on_failure now i s
           | Returned \<Rightarrow>
               (case get_run i (ct_runs s) of
                  Some r \<Rightarrow> if dr_scenario_type r \<in> {MALFORMED_EVENT, DUPLICATE_DELIVERY} then on_complete now d i s
                            else set_task i (Some (Waiting False)) s
                | None \<Rightarrow> set_task i (Some (Waiting False)) s))
      | Some (Waiting False) \<Rightarrow>
          (case ending of
             Returned \<Rightarrow> on_complete now d i s
           | Timed_out \<Rightarrow> on_timeout now i s
           | Raised_error \<Rightarrow> on_failure now i s)
      | _ \<Rightarrow> s)"

section \<open>Handlers\<close>

definition create_run :: "control_config \<Rightarrow> uuid \<Rightarrow> instant \<Rightarrow> run_create \<Rightarrow> control \<Rightarrow> (control_error + unit) \<times> control" where
  "create_run c run_id now q s =
     (if rc_event_count q > demo_max_event_count c \<or> rc_events_per_second q > demo_max_events_per_second c
      then (Inl Server_limit, s)
      else case create run_id now q (ct_runs s) of
             (Inl e, _) \<Rightarrow> (Inl e, s)
           | (Inr run, runs) \<Rightarrow> start c now run (s\<lparr>ct_runs := runs\<rparr>))"

definition stop_run :: "uuid \<Rightarrow> instant \<Rightarrow> control \<Rightarrow> (control_error + unit) \<times> control" where
  "stop_run run_id now s = (case get_run run_id (ct_runs s) of None \<Rightarrow> (Inl Not_found, s) | Some r \<Rightarrow> stop now r s)"

definition retry_run :: "control_config \<Rightarrow> uuid \<Rightarrow> uuid \<Rightarrow> instant \<Rightarrow> control \<Rightarrow> (control_error + unit) \<times> control" where
  "retry_run c old_id new_id now s =
     (case get_run old_id (ct_runs s) of
        None \<Rightarrow> (Inl Not_found, s)
      | Some old \<Rightarrow>
          if dr_status old \<notin> {FAILED, STOPPED} then (Inl Not_retryable, s)
          else case create new_id now (dr_parameters old) (ct_runs s) of
                 (Inl e, _) \<Rightarrow> (Inl e, s)
               | (Inr run, runs) \<Rightarrow> start c now run (s\<lparr>ct_runs := runs\<rparr>))"

definition cleanup_run :: "uuid \<Rightarrow> control \<Rightarrow> (control_error + int \<times> int) \<times> control" where
  "cleanup_run run_id s =
     (case cleanup run_id (ct_runs s, ct_manifest s) of
        (r, runs, m) \<Rightarrow> (r, s\<lparr>ct_runs := runs, ct_manifest := m\<rparr>))"

definition restart :: "instant \<Rightarrow> control \<Rightarrow> control" where
  "restart now s = s\<lparr>ct_runs := snd (reconcile now (ct_runs s)), ct_tasks := (\<lambda>_. None)\<rparr>"

section \<open>The control plane as a machine\<close>

inductive control_step :: "control_config \<Rightarrow> control \<Rightarrow> control \<Rightarrow> bool" for c where
  creates: "control_step c s (snd (create_run c run_id now q s))"
| stops: "control_step c s (snd (stop_run run_id now s))"
| retries: "control_step c s (snd (retry_run c old_id new_id now s))"
| works: "control_step c s (run_task now d ending i s)"
| refreshes: "control_step c s (s\<lparr>ct_runs := snd (refresh d (ct_manifest s) now run_id generated (ct_runs s))\<rparr>)"
| registers: "control_step c s (s\<lparr>ct_manifest := add_manifest run_id events (ct_manifest s)\<rparr>)"
| cleans: "control_step c s (snd (cleanup_run run_id s))"
| restarts: "control_step c s (restart now s)"

definition empty_control :: control where
  "empty_control = \<lparr>ct_runs = [], ct_manifest = [], ct_tasks = (\<lambda>_. None), ct_known = []\<rparr>"

abbreviation control_reachable :: "control_config \<Rightarrow> control \<Rightarrow> bool" where
  "control_reachable c s \<equiv> (control_step c)\<^sup>*\<^sup>* empty_control s"

section \<open>Invariant\<close>

definition run_typed :: "demo_run \<Rightarrow> bool" where
  "run_typed r \<longleftrightarrow> (dr_status r \<in> {PENDING, STARTING} \<longrightarrow> dr_started_at r = None) \<and>
     (dr_status r \<in> {RUNNING, STOP_REQUESTED, STOPPED, COMPLETED} \<longrightarrow> dr_started_at r \<noteq> None) \<and>
     (dr_completed_at r \<noteq> None \<longleftrightarrow> dr_status r = COMPLETED) \<and> (dr_stopped_at r \<noteq> None \<longleftrightarrow> dr_status r = STOPPED)"

text \<open>The statuses a run can have, given its task.\<close>

fun task_status :: "task option \<Rightarrow> run_status set" where
  "task_status None = {PENDING, STOPPED, COMPLETED, FAILED}"
| "task_status (Some Finished) = {PENDING, STARTING, STOPPED, COMPLETED, FAILED}"
| "task_status (Some (Scheduled b)) = {STARTING}"
| "task_status (Some (Generating b)) = (if b then {STOP_REQUESTED} else {RUNNING})"
| "task_status (Some (Waiting b)) = (if b then {STOP_REQUESTED} else {RUNNING})"

definition live_set :: "control \<Rightarrow> uuid set" where
  "live_set s = {i. is_live (ct_tasks s i)}"

definition control_inv :: "control_config \<Rightarrow> control \<Rightarrow> bool" where
  "control_inv c s \<longleftrightarrow> keys_unique dr_run_id (ct_runs s) \<and> (\<forall>r \<in> set (ct_runs s). run_typed r) \<and>
     (\<forall>r \<in> set (ct_runs s). dr_status r \<in> task_status (ct_tasks s (dr_run_id r))) \<and>
     live_set s \<subseteq> dr_run_id ` set (ct_runs s) \<and> distinct (ct_known s) \<and> (\<forall>i. ct_tasks s i \<noteq> None \<longrightarrow> i \<in> set (ct_known s)) \<and>
     int (card (live_set s)) \<le> demo_max_concurrent_runs c"

lemma active_live: "control_inv c s \<Longrightarrow> active_tasks s = int (card (live_set s))"
proof -
  assume inv: "control_inv c s"
  have "set (filter (\<lambda>i. is_live (ct_tasks s i)) (ct_known s)) = live_set s"
    using inv by (auto simp: control_inv_def live_set_def is_live_def)
  moreover have "distinct (filter (\<lambda>i. is_live (ct_tasks s i)) (ct_known s))" using inv by (simp add: control_inv_def)
  ultimately show ?thesis unfolding active_tasks_def rowcount_def by (metis distinct_card)
qed

lemma live_finite: "control_inv c s \<Longrightarrow> finite (live_set s)"
  unfolding control_inv_def by (meson finite_imageI finite_set finite_subset)

text \<open>What a step may do to the run with one identifier and its task.\<close>

definition run_step :: "demo_run \<Rightarrow> demo_run \<Rightarrow> bool" where
  "run_step r r' \<longleftrightarrow> dr_run_id r' = dr_run_id r \<and> dr_parameters r' = dr_parameters r \<and> dr_created_at r' = dr_created_at r \<and>
     run_typed r' \<and> (dr_status r' = dr_status r \<or> transition_allowed (dr_status r) (dr_status r'))"

definition at_run :: "uuid \<Rightarrow> (demo_run \<Rightarrow> demo_run) \<Rightarrow> demo_run \<Rightarrow> demo_run" where
  "at_run i g r = (if dr_run_id r = i then g r else r)"

definition follows :: "control \<Rightarrow> control \<Rightarrow> bool" where
  "follows s s' \<longleftrightarrow> (\<forall>r \<in> set (ct_runs s).
     if dr_run_id r \<in> dr_run_id ` set (ct_runs s') then \<exists>r' \<in> set (ct_runs s'). run_step r r'
     else dr_status r \<in> set TERMINAL_STATUSES)"

lemma run_step_refl: "run_typed r \<Longrightarrow> run_step r r"
  by (simp add: run_step_def)

lemma control_update:
  assumes "control_inv c s" "ct_runs s' = map (at_run i g) (ct_runs s)" "ct_tasks s' = (ct_tasks s)(i := t)"
    and "ct_known s' = List.insert i (ct_known s) \<or> ct_known s' = ct_known s \<and> t = ct_tasks s i"
    and "\<And>r. r \<in> set (ct_runs s) \<Longrightarrow> dr_run_id r = i \<Longrightarrow> run_step r (g r) \<and> dr_status (g r) \<in> task_status t"
    and "is_live t \<Longrightarrow> i \<in> dr_run_id ` set (ct_runs s) \<and> (is_live (ct_tasks s i) \<or> int (card (live_set s)) < demo_max_concurrent_runs c)"
  shows "control_inv c s' \<and> follows s s'"
proof -
  have typed: "\<And>r. r \<in> set (ct_runs s) \<Longrightarrow> run_typed r" using assms(1) by (simp add: control_inv_def)
  have step: "run_step r (at_run i g r)" if "r \<in> set (ct_runs s)" for r
    using assms(5) [OF that] run_step_refl [OF typed [OF that]] by (simp add: at_run_def)
  have ids: "map dr_run_id (ct_runs s') = map dr_run_id (ct_runs s)"
    using step by (simp add: assms(2) run_step_def)
  have idset: "dr_run_id ` set (ct_runs s') = dr_run_id ` set (ct_runs s)" using ids by (metis set_map)
  have live: "live_set s' = (if is_live t then insert i (live_set s) else live_set s - {i})"
    by (auto simp: live_set_def assms(3))
  have "int (card (live_set s')) \<le> demo_max_concurrent_runs c"
  proof (cases "is_live t")
    case True
    with assms(6) have "i \<in> live_set s \<or> int (card (live_set s)) < demo_max_concurrent_runs c" by (simp add: live_set_def)
    then show ?thesis
      using live_finite [OF assms(1)] True assms(1) by (auto simp: live insert_absorb card_insert_if control_inv_def)
  next
    case False
    have "card (live_set s - {i}) \<le> card (live_set s)" using live_finite [OF assms(1)] by (simp add: card_mono)
    with False assms(1) show ?thesis by (simp add: live control_inv_def)
  qed
  moreover have "live_set s' \<subseteq> dr_run_id ` set (ct_runs s')"
    using assms(1,6) unfolding live idset control_inv_def by (auto split: if_splits)
  moreover have "dr_status r' \<in> task_status (ct_tasks s' (dr_run_id r'))" if r': "r' \<in> set (ct_runs s')" for r'
  proof -
    obtain r where r: "r \<in> set (ct_runs s)" "r' = at_run i g r" using r' assms(2) by auto
    have id: "dr_run_id r' = dr_run_id r" using step [OF r(1)] r(2) by (simp add: run_step_def)
    show ?thesis
    proof (cases "dr_run_id r = i")
      case True
      with assms(5) [OF r(1)] r(2) id show ?thesis by (simp add: at_run_def assms(3))
    next
      case False
      with assms(1) r id show ?thesis by (simp add: at_run_def assms(3) control_inv_def)
    qed
  qed
  moreover have "keys_unique dr_run_id (ct_runs s')" using assms(1) ids by (simp only: keys_unique_def control_inv_def)
  moreover have "\<forall>r' \<in> set (ct_runs s'). run_typed r'" using step by (auto simp: assms(2) run_step_def)
  moreover have "distinct (ct_known s')" "\<forall>j. ct_tasks s' j \<noteq> None \<longrightarrow> j \<in> set (ct_known s')"
    using assms(1,4) by (auto simp: assms(3) control_inv_def)
  moreover have "follows s s'" using step unfolding follows_def idset by (auto simp: assms(2))
  ultimately show ?thesis by (simp add: control_inv_def)
qed

lemma set_status_step: "run_typed r \<Longrightarrow> transition_allowed (dr_status r) target \<Longrightarrow> run_step r (set_status target now m cat r)"
  by (cases "dr_status r"; cases target) (simp_all add: run_step_def run_typed_def set_status_def transition_allowed_def)

lemma refreshed_step: "run_typed r \<Longrightarrow> run_step r (refreshed d m now n r)"
  by (simp add: run_step_def run_typed_def refreshed_def Let_def)

lemma get_run_unique: "control_inv c s \<Longrightarrow> r \<in> set (ct_runs s) \<Longrightarrow> get_run (dr_run_id r) (ct_runs s) = Some r"
  unfolding get_run_def control_inv_def by (simp add: select_key_unique)

lemma get_run_Some: "get_run i runs = Some r \<Longrightarrow> r \<in> set runs \<and> dr_run_id r = i"
  unfolding get_run_def by (rule select_key_Some)

lemma transition_rows:
  assumes "get_run i runs = Some r" "transition_allowed (dr_status r) target"
  shows "snd (transition i target now m cat runs) = map (at_run i (set_status target now m cat)) runs"
    "\<exists>x. fst (transition i target now m cat runs) = Inr x"
proof -
  have "dr_status r \<noteq> target" using assms(2) by (cases "dr_status r"; cases target) (simp_all add: transition_allowed_def)
  with assms show "snd (transition i target now m cat runs) = map (at_run i (set_status target now m cat)) runs"
    "\<exists>x. fst (transition i target now m cat runs) = Inr x"
    by (simp_all add: transition_def update_where_def at_run_def)
qed

lemma transition_update:
  assumes "control_inv c s" "get_run i (ct_runs s) = Some r" "transition_allowed (dr_status r) target" "target \<in> task_status t"
    and "is_live t \<Longrightarrow> is_live (ct_tasks s i) \<or> int (card (live_set s)) < demo_max_concurrent_runs c"
  shows "control_inv c (set_task i t (s\<lparr>ct_runs := snd (transition i target now m cat (ct_runs s))\<rparr>)) \<and>
    follows s (set_task i t (s\<lparr>ct_runs := snd (transition i target now m cat (ct_runs s))\<rparr>))"
proof (rule control_update [OF assms(1), where i = i and g = "set_status target now m cat" and t = t])
  note r = get_run_Some [OF assms(2)]
  show "run_step x (set_status target now m cat x) \<and> dr_status (set_status target now m cat x) \<in> task_status t"
    if "x \<in> set (ct_runs s)" "dr_run_id x = i" for x
  proof -
    have "x = r" using get_run_unique [OF assms(1) that(1)] assms(2) that(2) by simp
    then show ?thesis using set_status_step assms(1,3,4) r by (auto simp: control_inv_def set_status_def)
  qed
  show "is_live t \<Longrightarrow> i \<in> dr_run_id ` set (ct_runs s) \<and> (is_live (ct_tasks s i) \<or> int (card (live_set s)) < demo_max_concurrent_runs c)"
    using assms(5) r by auto
qed (simp_all add: set_task_def transition_rows(1) [OF assms(2,3)])

lemma task_update:
  assumes "control_inv c s" "\<And>r. r \<in> set (ct_runs s) \<Longrightarrow> dr_run_id r = i \<Longrightarrow> dr_status r \<in> task_status t"
    and "is_live t \<Longrightarrow> is_live (ct_tasks s i)"
  shows "control_inv c (set_task i t s) \<and> follows s (set_task i t s)"
proof (rule control_update [OF assms(1), where i = i and g = "\<lambda>r. r" and t = t])
  have id: "at_run i (\<lambda>r. r) = (\<lambda>r. r)" by (auto simp: at_run_def)
  show "ct_runs (set_task i t s) = map (at_run i (\<lambda>r. r)) (ct_runs s)" by (simp add: set_task_def id)
  show "run_step r r \<and> dr_status r \<in> task_status t" if "r \<in> set (ct_runs s)" "dr_run_id r = i" for r
    using that assms(1,2) by (auto simp: control_inv_def intro: run_step_refl)
  show "i \<in> dr_run_id ` set (ct_runs s) \<and> (is_live (ct_tasks s i) \<or> int (card (live_set s)) < demo_max_concurrent_runs c)" if "is_live t"
    using assms(1) assms(3) [OF that] by (auto simp: control_inv_def live_set_def)
qed (simp_all add: set_task_def)

lemma follows_refl: "control_inv c s \<Longrightarrow> follows s s"
  by (auto simp: follows_def control_inv_def intro: run_step_refl)

lemma refresh_update:
  assumes "control_inv c s"
  shows "control_inv c (s\<lparr>ct_runs := snd (refresh d m now i n (ct_runs s))\<rparr>) \<and>
    follows s (s\<lparr>ct_runs := snd (refresh d m now i n (ct_runs s))\<rparr>)"
proof (cases "get_run i (ct_runs s)")
  case None
  then show ?thesis using assms follows_refl by (simp add: refresh_def)
next
  case (Some r)
  show ?thesis
  proof (rule control_update [OF assms, where i = i and g = "refreshed d m now n" and t = "ct_tasks s i"])
    show "run_step x (refreshed d m now n x) \<and> dr_status (refreshed d m now n x) \<in> task_status (ct_tasks s i)"
      if "x \<in> set (ct_runs s)" "dr_run_id x = i" for x
      using that assms refreshed_step [of x d m now n] by (auto simp: control_inv_def refreshed_def Let_def)
    show "i \<in> dr_run_id ` set (ct_runs s) \<and> (is_live (ct_tasks s i) \<or> int (card (live_set s)) < demo_max_concurrent_runs c)"
      if "is_live (ct_tasks s i)" using that assms by (auto simp: control_inv_def live_set_def)
  qed (use Some in \<open>simp_all add: refresh_def update_where_def at_run_def\<close>)
qed

lemma complete_update:
  assumes "control_inv c s" "get_run i (ct_runs s) = Some r" "dr_status r = RUNNING"
  shows "control_inv c (on_complete now d i s) \<and> follows s (on_complete now d i s)"
proof -
  let ?g = "\<lambda>x. set_status COMPLETED now (Some ''Scenario generation completed'') None (refreshed d (ct_manifest s) now None x)"
  let ?runs = "snd (refresh d (ct_manifest s) now i None (ct_runs s))"
  have keep: "dr_run_id (refreshed d m now n x) = dr_run_id x" "dr_status (refreshed d m now n x) = dr_status x" for m n x
    by (simp_all add: refreshed_def Let_def)
  have rows: "?runs = map (at_run i (refreshed d (ct_manifest s) now None)) (ct_runs s)"
    using assms(2) by (simp add: refresh_def update_where_def at_run_def)
  have "get_run i ?runs = Some (refreshed d (ct_manifest s) now None r)"
    using assms(2) get_run_Some [OF assms(2)] unfolding get_run_def refresh_def
    by (simp add: select_key_update keep)
  then have "snd (transition i COMPLETED now (Some ''Scenario generation completed'') None ?runs) =
      map (at_run i (set_status COMPLETED now (Some ''Scenario generation completed'') None)) ?runs"
    by (rule transition_rows(1)) (simp add: keep assms(3) transition_allowed_def)
  also have "\<dots> = map (at_run i ?g) (ct_runs s)" by (simp add: rows at_run_def keep)
  finally have out: "on_complete now d i s = set_task i None (s\<lparr>ct_runs := map (at_run i ?g) (ct_runs s)\<rparr>)"
    using assms(2,3) by (simp add: on_complete_def Let_def)
  show ?thesis
    unfolding out
  proof (rule control_update [OF assms(1), where i = i and g = ?g and t = None])
    show "run_step x (?g x) \<and> dr_status (?g x) \<in> task_status None" if "x \<in> set (ct_runs s)" "dr_run_id x = i" for x
    proof -
      have "x = r" using get_run_unique [OF assms(1) that(1)] assms(2) that(2) by simp
      with assms(1,3) get_run_Some [OF assms(2)] have "run_typed x" "dr_status x = RUNNING" by (auto simp: control_inv_def)
      then show ?thesis by (simp add: run_step_def run_typed_def set_status_def refreshed_def Let_def transition_allowed_def)
    qed
  qed (simp_all add: set_task_def is_live_def)
qed

lemma live_run:
  assumes "control_inv c s" "is_live (ct_tasks s i)"
  obtains r where "get_run i (ct_runs s) = Some r" "dr_status r \<in> task_status (ct_tasks s i)"
proof -
  have "i \<in> dr_run_id ` set (ct_runs s)" using assms by (auto simp: control_inv_def live_set_def)
  then obtain r where "r \<in> set (ct_runs s)" "dr_run_id r = i" by blast
  with get_run_unique [OF assms(1)] assms(1) that show ?thesis by (auto simp: control_inv_def)
qed

lemma failed_update:
  assumes "control_inv c s" "get_run i (ct_runs s) = Some r" "dr_status r = RUNNING"
  shows "control_inv c (on_failure now i s) \<and> follows s (on_failure now i s)"
    "control_inv c (on_timeout now i s) \<and> follows s (on_timeout now i s)"
  using transition_update [OF assms(1,2), of FAILED None] assms(2,3)
  by (simp_all add: on_failure_def on_timeout_def transition_allowed_def is_live_def TERMINAL_STATUSES_def)

lemma cancelled_update:
  assumes "control_inv c s" "get_run i (ct_runs s) = Some r" "dr_status r = STOP_REQUESTED"
  shows "control_inv c (on_cancelled now i s) \<and> follows s (on_cancelled now i s)"
  using transition_update [OF assms(1,2), of STOPPED None] assms(2,3)
  by (simp add: on_cancelled_def transition_allowed_def is_live_def)

lemma begin_update:
  assumes "control_inv c s" "ct_tasks s i = Some (Scheduled b)"
  shows "control_inv c (begin_task now i s) \<and> follows s (begin_task now i s)"
proof -
  have live: "is_live (ct_tasks s i)" using assms(2) by (simp add: is_live_def)
  obtain r where r: "get_run i (ct_runs s) = Some r" "dr_status r = STARTING"
    using live_run [OF assms(1) live] assms(2) by (metis singletonD task_status.simps(3))
  have ok: "transition_allowed (dr_status r) RUNNING" by (simp add: r(2) transition_allowed_def)
  obtain x runs where "transition i RUNNING now None None (ct_runs s) = (Inr x, runs)"
    using transition_rows(2) [OF r(1) ok, of now None None] by (metis prod.collapse)
  then have "begin_task now i s = set_task i (Some (Generating False)) (s\<lparr>ct_runs := snd (transition i RUNNING now None None (ct_runs s))\<rparr>)"
    unfolding begin_task_def r(1) by simp
  with transition_update [OF assms(1) r(1) ok, of "Some (Generating False)" now None None] live show ?thesis by simp
qed

lemma run_task_update:
  assumes "control_inv c s"
  shows "control_inv c (run_task now d ending i s) \<and> follows s (run_task now d ending i s)"
proof (cases "ct_tasks s i")
  case None
  then show ?thesis using assms follows_refl by (simp add: run_task_def)
next
  case (Some t)
  have run: "\<exists>r. get_run i (ct_runs s) = Some r \<and> dr_status r \<in> task_status (Some t)" if "t \<noteq> Finished"
    using live_run [OF assms, of i] Some that by (metis is_live_def option.distinct(1) option.inject)
  have task: "control_inv c (set_task i (Some t') s) \<and> follows s (set_task i (Some t') s)"
    if "t \<noteq> Finished" "task_status (Some t) \<subseteq> task_status (Some t')" for t'
  proof (rule task_update [OF assms])
    show "dr_status r \<in> task_status (Some t')" if "r \<in> set (ct_runs s)" "dr_run_id r = i" for r
      using assms that Some \<open>task_status (Some t) \<subseteq> _\<close> unfolding control_inv_def by (metis subsetD)
  qed (use Some that(1) in \<open>simp add: is_live_def\<close>)
  show ?thesis
  proof (cases t)
    case (Scheduled b)
    then show ?thesis using Some task [of Finished] begin_update [OF assms] by (cases b) (simp_all add: run_task_def)
  next
    case (Generating b)
    with run obtain r where r: "get_run i (ct_runs s) = Some r" "dr_status r = (if b then STOP_REQUESTED else RUNNING)"
      by (auto split: if_splits)
    then show ?thesis
      using Some Generating cancelled_update [OF assms r(1)] failed_update [OF assms r(1)] complete_update [OF assms r(1)]
        task [of "Waiting False"] by (cases b; cases ending) (simp_all add: run_task_def)
  next
    case (Waiting b)
    with run obtain r where r: "get_run i (ct_runs s) = Some r" "dr_status r = (if b then STOP_REQUESTED else RUNNING)"
      by (auto split: if_splits)
    then show ?thesis
      using Some Waiting cancelled_update [OF assms r(1)] failed_update [OF assms r(1)] complete_update [OF assms r(1)]
      by (cases b; cases ending) (simp_all add: run_task_def)
  next
    case Finished
    then show ?thesis using Some assms follows_refl by (simp add: run_task_def)
  qed
qed

section \<open>Handlers and restarts\<close>

lemma start_update:
  assumes "control_inv c s" "run \<in> set (ct_runs s)"
  shows "control_inv c (snd (start c now run s)) \<and> follows s (snd (start c now run s))"
proof (cases "ct_tasks s (dr_run_id run) = None \<and> dr_status run = PENDING \<and> active_tasks s < demo_max_concurrent_runs c")
  case True
  let ?i = "dr_run_id run"
  have r: "get_run ?i (ct_runs s) = Some run" by (rule get_run_unique [OF assms])
  have ok: "transition_allowed (dr_status run) STARTING" using True by (simp add: transition_allowed_def)
  obtain x runs where t: "transition ?i STARTING now None None (ct_runs s) = (Inr x, runs)"
    using transition_rows(2) [OF r ok, of now None None] by (metis prod.collapse)
  then have "snd (start c now run s) = set_task ?i (Some (Scheduled False)) (s\<lparr>ct_runs := snd (transition ?i STARTING now None None (ct_runs s))\<rparr>)"
    using True by (simp add: start_def)
  with transition_update [OF assms(1) r ok, of "Some (Scheduled False)" now None None] active_live [OF assms(1)] True
  show ?thesis by simp
next
  case False
  then have "snd (start c now run s) = s" by (auto simp: start_def)
  with assms(1) follows_refl show ?thesis by simp
qed

lemma created_update:
  assumes "control_inv c s" "create run_id now q (ct_runs s) = (Inr run, runs)"
  shows "control_inv c (s\<lparr>ct_runs := runs\<rparr>)" "runs = ct_runs s @ [run]" "dr_status run = PENDING"
proof -
  have new: "run_id \<notin> dr_run_id ` set (ct_runs s)" "run = new_run run_id now (''demo:'' @ uuid_str run_id) q" "runs = ct_runs s @ [run]"
    using assms(2) by (auto simp: create_def Let_def exists_key_def select_key_None split: if_splits)
  then show "runs = ct_runs s @ [run]" "dr_status run = PENDING" by (simp_all add: new_run_def)
  have "\<not> is_live (ct_tasks s run_id)" using assms(1) new(1) by (auto simp: control_inv_def live_set_def)
  then have "PENDING \<in> task_status (ct_tasks s run_id)" by (cases "ct_tasks s run_id"; cases "the (ct_tasks s run_id)") (auto simp: is_live_def)
  then show "control_inv c (s\<lparr>ct_runs := runs\<rparr>)"
    using assms(1) new by (auto simp: control_inv_def new_run_def run_typed_def keys_unique_append select_key_None live_set_def)
qed

lemma follows_sub: "follows s1 s2 \<Longrightarrow> set (ct_runs s) \<subseteq> set (ct_runs s1) \<Longrightarrow> follows s s2"
  unfolding follows_def by blast

lemma create_start_update:
  assumes "control_inv c s" "create run_id now q (ct_runs s) = (Inr run, runs)"
  shows "control_inv c (snd (start c now run (s\<lparr>ct_runs := runs\<rparr>))) \<and> follows s (snd (start c now run (s\<lparr>ct_runs := runs\<rparr>)))"
  using start_update [OF created_update(1) [OF assms], of run now] created_update(2) [OF assms]
  by (auto intro: follows_sub)

lemma stop_update:
  assumes "control_inv c s" "run \<in> set (ct_runs s)"
  shows "control_inv c (snd (stop now run s)) \<and> follows s (snd (stop now run s))"
proof (cases "dr_status run = RUNNING")
  case True
  let ?i = "dr_run_id run"
  have r: "get_run ?i (ct_runs s) = Some run" by (rule get_run_unique [OF assms])
  have ok: "transition_allowed (dr_status run) STOP_REQUESTED" using True by (simp add: transition_allowed_def)
  have "RUNNING \<in> task_status (ct_tasks s ?i)" using assms True by (auto simp: control_inv_def)
  then obtain t where t: "ct_tasks s ?i = Some t" "t = Generating False \<or> t = Waiting False"
    by (cases "ct_tasks s ?i"; cases "the (ct_tasks s ?i)") (auto split: if_splits)
  obtain x runs where tr: "transition ?i STOP_REQUESTED now None None (ct_runs s) = (Inr x, runs)"
    using transition_rows(2) [OF r ok, of now None None] by (metis prod.collapse)
  then have "snd (stop now run s) =
      set_task ?i (Some (cancelled_task t)) (s\<lparr>ct_runs := snd (transition ?i STOP_REQUESTED now None None (ct_runs s))\<rparr>)"
    using True t(1) by (simp add: stop_def TERMINAL_STATUSES_def)
  with transition_update [OF assms(1) r ok, of "Some (cancelled_task t)" now None None] t show ?thesis
    by (auto simp: is_live_def)
next
  case False
  show ?thesis
  proof (cases "dr_status run \<in> set TERMINAL_STATUSES \<or> ct_tasks s (dr_run_id run) = None")
    case True
    with False have "snd (stop now run s) = s" by (auto simp: stop_def)
    with assms(1) follows_refl show ?thesis by simp
  next
    case other: False
    then obtain t where t: "ct_tasks s (dr_run_id run) = Some t" by auto
    have "snd (stop now run s) = set_task (dr_run_id run) (Some (cancelled_task t)) s"
      using other False t by (simp add: stop_def)
    moreover have "dr_status r \<in> task_status (Some (cancelled_task t))" if "r \<in> set (ct_runs s)" "dr_run_id r = dr_run_id run" for r
    proof -
      have "r = run" using get_run_unique [OF assms(1)] that assms(2) by (metis option.inject)
      then have "dr_status r \<in> task_status (Some t)" "dr_status r \<noteq> RUNNING"
        using assms t False by (auto simp: control_inv_def)
      then show ?thesis by (cases t) (auto split: if_splits)
    qed
    moreover have "is_live (Some (cancelled_task t)) \<Longrightarrow> is_live (ct_tasks s (dr_run_id run))"
      using t by (cases t) (auto simp: is_live_def)
    ultimately show ?thesis using task_update [OF assms(1), of "dr_run_id run" "Some (cancelled_task t)"] by simp
  qed
qed

lemma cleanup_update:
  assumes "control_inv c s"
  shows "control_inv c (snd (cleanup_run i s)) \<and> follows s (snd (cleanup_run i s))"
proof (cases "\<exists>r. get_run i (ct_runs s) = Some r \<and> dr_status r \<in> set TERMINAL_STATUSES")
  case True
  then obtain r where r: "get_run i (ct_runs s) = Some r" "dr_status r \<in> set TERMINAL_STATUSES" by blast
  let ?s' = "s\<lparr>ct_runs := filter (\<lambda>x. dr_run_id x \<noteq> i) (ct_runs s), ct_manifest := filter (\<lambda>x. fst x \<noteq> i) (ct_manifest s)\<rparr>"
  have s': "snd (cleanup_run i s) = ?s'" using r by (simp add: cleanup_run_def cleanup_def)
  have dead: "\<not> is_live (ct_tasks s i)"
    using assms r get_run_Some [OF r(1)] live_run [OF assms, of i]
    by (cases "ct_tasks s i"; cases "the (ct_tasks s i)") (force simp: is_live_def TERMINAL_STATUSES_def split: if_splits)+
  have "control_inv c ?s'"
    using assms dead by (auto simp: control_inv_def keys_unique_def distinct_map_filter live_set_def)
  moreover have "follows s ?s'"
  proof -
    have same: "x = r" if "x \<in> set (ct_runs s)" "dr_run_id x = i" for x
      using get_run_unique [OF assms that(1)] r(1) that(2) by simp
    have "if dr_run_id x \<in> dr_run_id ` set (ct_runs ?s') then \<exists>x' \<in> set (ct_runs ?s'). run_step x x'
      else dr_status x \<in> set TERMINAL_STATUSES" if x: "x \<in> set (ct_runs s)" for x
    proof (cases "dr_run_id x = i")
      case True
      then have "dr_run_id x \<notin> dr_run_id ` set (ct_runs ?s')" by auto
      moreover have "dr_status x \<in> set TERMINAL_STATUSES" using same [OF x True] r(2) by simp
      ultimately show ?thesis by (simp only: if_False)
    next
      case False
      then have "x \<in> set (ct_runs ?s')" using x by simp
      moreover have "run_step x x" using assms x by (simp add: control_inv_def run_step_refl)
      ultimately show ?thesis by (simp only: imageI if_True) (rule bexI)
    qed
    then show ?thesis unfolding follows_def by (rule ballI)
  qed
  ultimately show ?thesis unfolding s' by blast
next
  case False
  then have "snd (cleanup_run i s) = s" by (auto simp: cleanup_run_def cleanup_def split: option.splits)
  with assms follows_refl show ?thesis by simp
qed

lemma restart_update:
  assumes "control_inv c s" "0 \<le> demo_max_concurrent_runs c"
  shows "control_inv c (restart now s) \<and> follows s (restart now s)"
proof -
  let ?g = "\<lambda>r. if dr_status r \<in> {STARTING, RUNNING, STOP_REQUESTED} then reconciled now r else r"
  have rows: "ct_runs (restart now s) = map ?g (ct_runs s)" by (simp add: restart_def reconcile_def Let_def update_where_def)
  have step: "run_step r (?g r) \<and> dr_status (?g r) \<in> task_status None" if "run_typed r" for r
    using that by (cases "dr_status r") (simp_all add: run_step_def run_typed_def reconciled_def transition_allowed_def)
  have ids: "map dr_run_id (map ?g (ct_runs s)) = map dr_run_id (ct_runs s)" by (simp add: reconciled_def)
  have typed: "\<forall>r \<in> set (ct_runs s). run_typed r" "keys_unique dr_run_id (ct_runs s)" using assms(1) by (simp_all add: control_inv_def)
  have "keys_unique dr_run_id (map ?g (ct_runs s))" using typed(2) ids by (simp only: keys_unique_def)
  then have unique: "keys_unique dr_run_id (ct_runs (restart now s))" by (simp only: rows)
  have idle: "run_typed r' \<and> dr_status r' \<in> task_status None" if r': "r' \<in> set (ct_runs (restart now s))" for r'
  proof -
    obtain r where r: "r' = ?g r" "r \<in> set (ct_runs s)" using r' unfolding rows set_map by (rule imageE)
    have "run_step r (?g r) \<and> dr_status (?g r) \<in> task_status None" using step typed(1) r(2) by blast
    then show ?thesis unfolding r(1) run_step_def by blast
  qed
  have tasks: "ct_tasks (restart now s) = (\<lambda>_. None)" "ct_known (restart now s) = ct_known s" by (simp_all add: restart_def)
  have none: "live_set (restart now s) = {}" by (simp add: live_set_def tasks is_live_def)
  have "distinct (ct_known s)" using assms(1) by (simp add: control_inv_def)
  with unique idle assms(2) have "control_inv c (restart now s)" unfolding control_inv_def tasks none by simp
  moreover have "follows s (restart now s)"
  proof -
    have "\<exists>r' \<in> set (ct_runs (restart now s)). run_step r r'" if "r \<in> set (ct_runs s)" for r
    proof
      show "run_step r (?g r)" using step typed(1) that by blast
      show "?g r \<in> set (ct_runs (restart now s))" unfolding rows set_map by (rule imageI) (rule that)
    qed
    moreover from this have "dr_run_id r \<in> dr_run_id ` set (ct_runs (restart now s))" if "r \<in> set (ct_runs s)" for r
      using that unfolding run_step_def by (metis imageI)
    ultimately show ?thesis unfolding follows_def by simp
  qed
  ultimately show ?thesis ..
qed

lemma control_step_update:
  assumes "control_step c s s'" "control_inv c s" "0 \<le> demo_max_concurrent_runs c"
  shows "control_inv c s' \<and> follows s s'"
  using assms(1)
proof cases
  case (creates run_id now q)
  show ?thesis
  proof (cases "create run_id now q (ct_runs s)")
    case (Pair r runs)
    with creates assms(2) follows_refl [OF assms(2)] create_start_update [OF assms(2)] show ?thesis
      by (cases r) (auto simp: create_run_def)
  qed
next
  case (stops run_id now)
  show ?thesis
  proof (cases "get_run run_id (ct_runs s)")
    case None
    with stops assms(2) follows_refl [OF assms(2)] show ?thesis by (simp add: stop_run_def)
  next
    case (Some r)
    with stops stop_update [OF assms(2)] get_run_Some [OF Some] show ?thesis by (simp add: stop_run_def)
  qed
next
  case (retries old_id new_id now)
  show ?thesis
  proof (cases "get_run old_id (ct_runs s)")
    case None
    with retries assms(2) follows_refl [OF assms(2)] show ?thesis by (simp add: retry_run_def)
  next
    case (Some old)
    obtain r runs where cr: "create new_id now (dr_parameters old) (ct_runs s) = (r, runs)" by (rule prod.exhaust)
    with Some retries assms(2) follows_refl [OF assms(2)] create_start_update [OF assms(2)] show ?thesis
      by (cases r) (auto simp: retry_run_def)
  qed
next
  case (works now d ending i)
  with run_task_update [OF assms(2)] show ?thesis by simp
next
  case (refreshes d now run_id generated)
  with refresh_update [OF assms(2)] show ?thesis by simp
next
  case (registers run_id events)
  have "control_inv c s'" using assms(2) registers by (simp add: control_inv_def live_set_def)
  moreover have "follows s s'" using follows_refl [OF assms(2)] registers by (simp add: follows_def)
  ultimately show ?thesis ..
next
  case (cleans run_id)
  with cleanup_update [OF assms(2)] show ?thesis by simp
next
  case (restarts now)
  with restart_update [OF assms(2,3)] show ?thesis by simp
qed

lemma control_reachable_inv:
  assumes "control_reachable c s" "0 \<le> demo_max_concurrent_runs c"
  shows "control_inv c s"
  using assms(1)
proof (induction rule: rtranclp_induct)
  case base
  show ?case using assms(2) by (simp add: control_inv_def empty_control_def keys_unique_def live_set_def is_live_def)
next
  case (step s s')
  show ?case using control_step_update [OF step.hyps(2) step.IH assms(2)] ..
qed

section \<open>Runs without a task\<close>

text \<open>A step for one run leaves the rows of the others as they are.\<close>

lemma get_run_update:
  assumes "\<And>x. dr_run_id (f x) = dr_run_id x"
  shows "get_run j (update_where P f runs) = map_option (\<lambda>r. if P r then f r else r) (get_run j runs)"
  unfolding get_run_def by (rule select_key_update) (rule assms)

lemma get_run_other:
  assumes "j \<noteq> i" and "\<And>x. dr_run_id (f x) = dr_run_id x"
  shows "get_run j (update_where (\<lambda>x. dr_run_id x = i) f runs) = get_run j runs"
proof -
  have "map_option (\<lambda>r. if dr_run_id r = i then f r else r) (get_run j runs) = get_run j runs"
    using assms(1) get_run_Some [of j runs] by (cases "get_run j runs") auto
  with get_run_update [where f = f, OF assms(2)] show ?thesis by simp
qed

lemma set_status_id [simp]: "dr_run_id (set_status target now m cat r) = dr_run_id r"
  by (simp add: set_status_def)

lemma refreshed_id [simp]: "dr_run_id (refreshed d m now n r) = dr_run_id r" "dr_status (refreshed d m now n r) = dr_status r"
  by (simp_all add: refreshed_def Let_def)

lemma reconciled_id [simp]: "dr_run_id (reconciled now r) = dr_run_id r"
  by (simp add: reconciled_def)

lemma transition_other: "j \<noteq> i \<Longrightarrow> get_run j (snd (transition i target now m cat runs)) = get_run j runs"
  by (cases "get_run i runs") (simp_all add: transition_def get_run_other)

lemma refresh_other: "j \<noteq> i \<Longrightarrow> get_run j (snd (refresh d m now i n runs)) = get_run j runs"
  by (cases "get_run i runs") (simp_all add: refresh_def get_run_other)

lemma ct_runs_set_task [simp]: "ct_runs (set_task i t s) = ct_runs s"
  by (simp add: set_task_def)

lemma ending_other:
  assumes "j \<noteq> i"
  shows "get_run j (ct_runs (on_cancelled now i s)) = get_run j (ct_runs s)"
    and "get_run j (ct_runs (on_timeout now i s)) = get_run j (ct_runs s)"
    and "get_run j (ct_runs (on_failure now i s)) = get_run j (ct_runs s)"
    and "get_run j (ct_runs (on_complete now d i s)) = get_run j (ct_runs s)"
  using transition_other [OF assms] refresh_other [OF assms]
  by (simp_all add: on_cancelled_def on_timeout_def on_failure_def on_complete_def Let_def split: option.split)

lemma transition_result_other:
  "j \<noteq> i \<Longrightarrow> transition i target now m cat runs = (x, runs') \<Longrightarrow> get_run j runs' = get_run j runs"
  using transition_other by (metis snd_conv)

lemma begin_other: "j \<noteq> i \<Longrightarrow> get_run j (ct_runs (begin_task now i s)) = get_run j (ct_runs s)"
  by (cases "transition i RUNNING now None None (ct_runs s)")
    (simp add: begin_task_def ending_other transition_result_other split: option.split sum.split)

lemma run_task_other:
  assumes "j \<noteq> i"
  shows "get_run j (ct_runs (run_task now d ending i s)) = get_run j (ct_runs s)"
  by (simp add: run_task_def begin_other [OF assms] ending_other [OF assms]
      split: option.split task.split awaited.split bool.split)

lemma start_other:
  "j \<noteq> dr_run_id run \<Longrightarrow> get_run j (ct_runs (snd (start c now run s))) = get_run j (ct_runs s)"
  by (cases "transition (dr_run_id run) STARTING now None None (ct_runs s)")
    (simp add: start_def transition_result_other split: sum.split)

lemma create_start_other:
  assumes "create i now q (ct_runs s) = (Inr run, runs)" and "get_run j (ct_runs s) = Some r"
  shows "get_run j (ct_runs (snd (start c now run (s\<lparr>ct_runs := runs\<rparr>)))) = Some r"
proof -
  have run: "run = new_run i now (''demo:'' @ uuid_str i) q" "runs = ct_runs s @ [run]" "get_run i (ct_runs s) = None"
    using assms(1) by (auto simp: create_def Let_def exists_key_def get_run_def split: if_splits)
  then have "j \<noteq> dr_run_id run" using assms(2) by (auto simp: new_run_def)
  moreover have "get_run j runs = Some r" using assms(2) by (simp add: run(2) get_run_def select_key_append)
  ultimately show ?thesis by (simp add: start_other)
qed

definition stranded :: "uuid \<Rightarrow> control \<Rightarrow> bool" where
  "stranded i s \<longleftrightarrow> (\<exists>r. get_run i (ct_runs s) = Some r \<and> dr_status r = PENDING)"

lemma stranded_run_task:
  assumes "control_inv c s" "stranded j s"
  shows "stranded j (run_task now d ending i s)"
proof (cases "j = i")
  case True
  obtain r where r: "get_run i (ct_runs s) = Some r" "dr_status r = PENDING" using assms(2) True by (auto simp: stranded_def)
  have "PENDING \<in> task_status (ct_tasks s i)" using assms(1) get_run_Some [OF r(1)] r(2) by (auto simp: control_inv_def)
  then have "ct_tasks s i = None \<or> ct_tasks s i = Some Finished"
    by (cases "ct_tasks s i"; cases "the (ct_tasks s i)") (auto split: if_splits)
  then show ?thesis using assms(2) by (auto simp: run_task_def)
next
  case False
  with assms(2) show ?thesis by (simp add: stranded_def run_task_other)
qed

lemma stranded_stop:
  assumes "control_inv c s" "stranded j s" "get_run i (ct_runs s) = Some r"
  shows "stranded j (snd (stop now r s))"
proof (cases "j = i")
  case True
  then have "dr_status r = PENDING" using assms(2,3) by (auto simp: stranded_def)
  then show ?thesis using assms(2) by (auto simp: stop_def TERMINAL_STATUSES_def stranded_def split: option.split)
next
  case False
  then have "j \<noteq> dr_run_id r" using get_run_Some [OF assms(3)] by simp
  with assms(2) transition_other [OF this, of STOP_REQUESTED now None None "ct_runs s"] show ?thesis
    by (auto simp: stop_def stranded_def split: option.split prod.split sum.split if_splits)
qed

lemma stranded_step:
  assumes "control_step c s s'" "control_inv c s" "stranded j s"
  shows "stranded j s'"
  using assms(1)
proof cases
  case (creates run_id now q)
  with assms(3) create_start_other show ?thesis
    by (fastforce simp: create_run_def stranded_def split: prod.split sum.split)
next
  case (stops run_id now)
  with assms stranded_stop [OF assms(2,3)] show ?thesis by (simp add: stop_run_def split: option.split)
next
  case (retries old_id new_id now)
  with assms(3) create_start_other show ?thesis
    by (fastforce simp: retry_run_def stranded_def split: option.split prod.split sum.split)
next
  case (works now d ending i)
  with stranded_run_task [OF assms(2,3)] show ?thesis by simp
next
  case (refreshes d now run_id generated)
  with assms(3) show ?thesis
    by (cases "get_run run_id (ct_runs s)") (auto simp: refresh_def stranded_def get_run_update simp del: map_option_eq_Some)
next
  case (registers run_id events)
  with assms(3) show ?thesis by (simp add: stranded_def)
next
  case (cleans run_id)
  obtain r where r: "get_run j (ct_runs s) = Some r" "dr_status r = PENDING" using assms(3) by (auto simp: stranded_def)
  have "get_run j (filter (\<lambda>x. dr_run_id x \<noteq> run_id) runs) = get_run j runs" if "j \<noteq> run_id" for runs
    using that by (induction runs) (auto simp: get_run_def select_key_def)
  with r cleans show ?thesis
    by (cases "j = run_id") (auto simp: cleanup_run_def cleanup_def stranded_def TERMINAL_STATUSES_def split: option.split)
next
  case (restarts now)
  with assms(3) show ?thesis by (auto simp: restart_def reconcile_def Let_def stranded_def get_run_update simp del: map_option_eq_Some)
qed

lemma stranded_steps:
  assumes "(control_step c)\<^sup>*\<^sup>* s s'" "control_inv c s" "0 \<le> demo_max_concurrent_runs c" "stranded j s"
  shows "stranded j s'"
proof -
  from assms(1) have "control_inv c s' \<and> stranded j s'"
  proof (induction rule: rtranclp_induct)
    case base
    with assms show ?case by simp
  next
    case (step s' s'')
    with control_step_update [OF step.hyps(2) _ assms(3)] stranded_step [OF step.hyps(2)] show ?case by simp
  qed
  then show ?thesis ..
qed

section \<open>Properties\<close>

text \<open>C31: runs follow their state machine. In every state the control API can reach: run identifiers are
  unique; each run's timestamps agree with its status (started exactly once it has run, completed
  and stopped exactly in those statuses); never more tasks are alive than the concurrency limit; and
  any further step, whether a request, a task, a refresh or a restart, either keeps a run's status
  or moves it along the transition table, and removes only finished runs.\<close>

theorem runs_follow_transitions:
  assumes "control_reachable c s" and "0 \<le> demo_max_concurrent_runs c"
  shows "keys_unique dr_run_id (ct_runs s) \<and> active_tasks s \<le> demo_max_concurrent_runs c \<and>
    (\<forall>r \<in> set (ct_runs s).
       (dr_status r \<in> {PENDING, STARTING} \<longrightarrow> dr_started_at r = None) \<and>
       (dr_status r \<in> {RUNNING, STOP_REQUESTED, STOPPED, COMPLETED} \<longrightarrow> dr_started_at r \<noteq> None) \<and>
       (dr_completed_at r \<noteq> None \<longleftrightarrow> dr_status r = COMPLETED) \<and> (dr_stopped_at r \<noteq> None \<longleftrightarrow> dr_status r = STOPPED) \<and>
       (\<forall>s'. control_step c s s' \<longrightarrow>
          (case get_run (dr_run_id r) (ct_runs s') of
             None \<Rightarrow> dr_status r \<in> set TERMINAL_STATUSES
           | Some r' \<Rightarrow> dr_status r' = dr_status r \<or> transition_allowed (dr_status r) (dr_status r'))))"
proof -
  have inv: "control_inv c s" by (rule control_reachable_inv [OF assms])
  have "case get_run (dr_run_id r) (ct_runs s') of None \<Rightarrow> dr_status r \<in> set TERMINAL_STATUSES
      | Some r' \<Rightarrow> dr_status r' = dr_status r \<or> transition_allowed (dr_status r) (dr_status r')"
    if st: "control_step c s s'" and r: "r \<in> set (ct_runs s)" for s' r
  proof -
    have inv': "control_inv c s'" and f: "follows s s'" using control_step_update [OF st inv assms(2)] by blast+
    show ?thesis
    proof (cases "dr_run_id r \<in> dr_run_id ` set (ct_runs s')")
      case True
      with f r obtain r' where r': "r' \<in> set (ct_runs s')" "run_step r r'" unfolding follows_def by metis
      have "dr_run_id r' = dr_run_id r" using r'(2) by (simp add: run_step_def)
      with get_run_unique [OF inv' r'(1)] r'(2) show ?thesis by (simp add: run_step_def)
    next
      case False
      then have "get_run (dr_run_id r) (ct_runs s') = None" by (auto simp: get_run_def select_key_None)
      with False f r show ?thesis unfolding follows_def by auto
    qed
  qed
  with inv active_live [OF inv] show ?thesis unfolding control_inv_def run_typed_def by auto
qed

definition demo_request :: run_create where
  "demo_request = \<lparr>rc_scenario_type = NORMAL_CUSTOMER, rc_event_count = 10, rc_duration_seconds = None,
     rc_events_per_second = 5, rc_seed = 42, rc_anomaly_rate = 0, rc_duplicate_rate = 0, rc_malformed_rate = 0,
     rc_persona_distribution = None, rc_transaction_enabled = True, rc_cleanup_after_completion = False,
     rc_notes = None, rc_malformed_case = ''malformed_json''\<rparr>"

definition demo_config :: control_config where
  "demo_config = \<lparr>demo_max_concurrent_runs = 1, demo_max_event_count = 100, demo_max_events_per_second = 50\<rparr>"

definition created_state :: control where
  "created_state = snd (create_run demo_config 7 0 demo_request empty_control)"

lemmas control_eval = demo_request_def demo_config_def created_state_def empty_control_def create_run_def
  create_def new_run_def exists_key_def select_key_def start_def transition_def get_run_def set_status_def
  update_where_def transition_allowed_def active_tasks_def rowcount_def set_task_def is_live_def Let_def

lemma created_reachable: "control_reachable demo_config created_state"
  unfolding created_state_def by (rule r_into_rtranclp) (rule creates)

lemma created_state_rows:
  "map dr_status (ct_runs created_state) = [STARTING]" "map dr_run_id (ct_runs created_state) = [7]"
  "ct_tasks created_state 7 = Some (Scheduled False)" "active_tasks created_state = 1"
  "demo_max_concurrent_runs demo_config = 1" "ct_known created_state = [7]"
  by (simp_all add: control_eval)

definition running_state :: control where
  "running_state = run_task 3 empty_db Returned 7 created_state"

theorem runs_follow_transitions_witness:
  "control_reachable demo_config created_state \<and> active_tasks created_state \<le> 1 \<and>
   control_step demo_config created_state running_state \<and>
   (\<exists>r r'. ct_runs created_state = [r] \<and> dr_status r = STARTING \<and> dr_started_at r = None \<and>
      get_run (dr_run_id r) (ct_runs running_state) = Some r' \<and> dr_status r' = RUNNING \<and> transition_allowed STARTING RUNNING)"
proof -
  have lim: "0 \<le> demo_max_concurrent_runs demo_config" by (simp add: demo_config_def)
  obtain r where r: "ct_runs created_state = [r]" "dr_status r = STARTING" "dr_run_id r = 7"
    using created_state_rows(1) by (auto simp: control_eval)
  have run: "map_option dr_status (get_run 7 (ct_runs running_state)) = Some RUNNING"
    by (simp add: running_state_def run_task_def begin_task_def control_eval)
  have step: "control_step demo_config created_state running_state" unfolding running_state_def by (rule works)
  show ?thesis
    using runs_follow_transitions [OF created_reachable lim] created_reachable r run step created_state_rows(5)
    by (auto split: option.splits)
qed

text \<open>C34: a run refused by the concurrency limit can never be disposed of. When as many tasks are alive
  as the limit allows, creating a run answers with the limit error but leaves the new row behind in
  status PENDING, and in every later state, whatever requests, tasks and restarts happen, that row
  is still there and still PENDING: cleaning it up is refused, so is retrying it, and stopping it
  changes nothing.\<close>

theorem limited_run_stranded:
  assumes "control_reachable c s" and "0 \<le> demo_max_concurrent_runs c"
    and "demo_max_concurrent_runs c \<le> active_tasks s"
    and "rc_event_count q \<le> demo_max_event_count c" and "rc_events_per_second q \<le> demo_max_events_per_second c"
    and "get_run i (ct_runs s) = None" and "ct_tasks s i = None"
    and "(control_step c)\<^sup>*\<^sup>* (snd (create_run c i now q s)) s'"
  shows "fst (create_run c i now q s) = Inl Concurrency_limit \<and>
    (\<exists>r. get_run i (ct_runs s') = Some r \<and> dr_status r = PENDING) \<and>
    fst (cleanup_run i s') = Inl Cleanup_requires_terminal \<and> fst (retry_run c i j now' s') = Inl Not_retryable \<and>
    ct_runs (snd (stop_run i now' s')) = ct_runs s'"
proof -
  let ?s1 = "snd (create_run c i now q s)"
  let ?run = "new_run i now (''demo:'' @ uuid_str i) q"
  have new: "create i now q (ct_runs s) = (Inr ?run, ct_runs s @ [?run])"
    using assms(6) by (simp add: create_def Let_def exists_key_def get_run_def)
  have run: "dr_run_id (new_run i now x q) = i" "dr_status (new_run i now x q) = PENDING" for x by (simp_all add: new_run_def)
  have made: "create_run c i now q s = (Inl Concurrency_limit, s\<lparr>ct_runs := ct_runs s @ [?run]\<rparr>)"
    using assms(3,4,5,7) by (simp add: create_run_def new start_def run active_tasks_def)
  have "control_reachable c ?s1" using assms(1) creates [of c s i now q] by (rule rtranclp.rtrancl_into_rtrancl)
  then have inv: "control_inv c ?s1" using assms(2) by (rule control_reachable_inv)
  have "get_run i (ct_runs s @ [?run]) = Some ?run"
    using assms(6) run(1) by (simp add: get_run_def select_key_append)
  then have "stranded i ?s1" using run by (simp add: stranded_def made)
  then have "stranded i s'" by (rule stranded_steps [OF assms(8) inv assms(2)])
  then obtain r where r: "get_run i (ct_runs s') = Some r" "dr_status r = PENDING" by (auto simp: stranded_def)
  have "fst (cleanup_run i s') = Inl Cleanup_requires_terminal"
    using r by (simp add: cleanup_run_def cleanup_def TERMINAL_STATUSES_def)
  moreover have "fst (retry_run c i j now' s') = Inl Not_retryable" using r by (simp add: retry_run_def)
  moreover have "ct_runs (snd (stop_run i now' s')) = ct_runs s'"
    using r by (simp add: stop_run_def stop_def TERMINAL_STATUSES_def split: option.split)
  ultimately show ?thesis using made r by simp
qed

theorem limited_run_stranded_witness:
  "fst (create_run demo_config 8 5 demo_request created_state) = Inl Concurrency_limit \<and>
   (\<exists>r. get_run 8 (ct_runs (restart 9 (snd (create_run demo_config 8 5 demo_request created_state)))) = Some r \<and>
        dr_status r = PENDING)"
proof -
  have "control_step demo_config (snd (create_run demo_config 8 5 demo_request created_state))
      (restart 9 (snd (create_run demo_config 8 5 demo_request created_state)))" by (rule restarts)
  then have steps: "(control_step demo_config)\<^sup>*\<^sup>* (snd (create_run demo_config 8 5 demo_request created_state))
      (restart 9 (snd (create_run demo_config 8 5 demo_request created_state)))" by (rule r_into_rtranclp)
  have "get_run 8 (ct_runs created_state) = None" "ct_tasks created_state 8 = None" by (simp_all add: control_eval)
  then show ?thesis
    using limited_run_stranded [OF created_reachable _ _ _ _ _ _ steps] created_state_rows
    by (simp add: demo_config_def demo_request_def)
qed

text \<open>Stopping a run takes effect. In every reachable state, stopping a run that is running (or whose
  stop was requested before) succeeds and records the request; the next time the run's task is
  scheduled, however its current await would have ended, the run becomes STOPPED and its task leaves
  the runner.\<close>

theorem stop_takes_effect:
  assumes "control_reachable c s" and "0 \<le> demo_max_concurrent_runs c"
    and "get_run i (ct_runs s) = Some r" and "dr_status r \<in> {RUNNING, STOP_REQUESTED}"
  shows "fst (stop_run i now s) = Inr () \<and>
    map_option dr_status (get_run i (ct_runs (snd (stop_run i now s)))) = Some STOP_REQUESTED \<and>
    map_option dr_status (get_run i (ct_runs (run_task now' d ending i (snd (stop_run i now s))))) = Some STOPPED \<and>
    ct_tasks (run_task now' d ending i (snd (stop_run i now s))) i = None"
proof -
  have inv: "control_inv c s" by (rule control_reachable_inv [OF assms(1,2)])
  note id = get_run_Some [OF assms(3)]
  have "dr_status r \<in> task_status (ct_tasks s i)" using inv id by (auto simp: control_inv_def)
  then obtain t where t: "ct_tasks s i = Some t" "cancelled_task t \<in> {Generating True, Waiting True}"
    using assms(4) by (cases "ct_tasks s i"; cases "the (ct_tasks s i)") (auto split: if_splits)
  define runs where "runs = (if dr_status r = RUNNING then snd (transition i STOP_REQUESTED now None None (ct_runs s)) else ct_runs s)"
  have stop: "stop_run i now s = (Inr (), set_task i (Some (cancelled_task t)) (s\<lparr>ct_runs := runs\<rparr>))"
    using assms(3,4) id t(1)
    by (auto simp: stop_run_def stop_def TERMINAL_STATUSES_def runs_def transition_def transition_allowed_def)
  obtain r' where r': "get_run i runs = Some r'" "dr_status r' = STOP_REQUESTED"
    using assms(3,4) id
    by (auto simp: runs_def transition_def transition_allowed_def get_run_update set_status_def simp del: map_option_eq_Some)
  have "get_run i (snd (transition i STOPPED now' m cat runs)) = Some (set_status STOPPED now' m cat r')" for m cat
    using r' get_run_Some [OF r'(1)] by (simp add: transition_def transition_allowed_def get_run_update)
  with t(2) r' show ?thesis
    by (auto simp: stop run_task_def set_task_def on_cancelled_def set_status_def)
qed

theorem stop_takes_effect_witness:
  "map_option dr_status (get_run 7 (ct_runs running_state)) = Some RUNNING \<and>
   map_option dr_status (get_run 7 (ct_runs (run_task 5 empty_db Returned 7 (snd (stop_run 7 4 running_state))))) = Some STOPPED"
proof -
  have reach: "control_reachable demo_config running_state"
    unfolding running_state_def using created_reachable works by (rule rtranclp.rtrancl_into_rtrancl)
  have lim: "0 \<le> demo_max_concurrent_runs demo_config" by (simp add: demo_config_def)
  have run: "map_option dr_status (get_run 7 (ct_runs running_state)) = Some RUNNING"
    by (simp add: running_state_def run_task_def begin_task_def control_eval)
  then obtain r where r: "get_run 7 (ct_runs running_state) = Some r" "dr_status r \<in> {RUNNING, STOP_REQUESTED}" by auto
  show ?thesis using run stop_takes_effect [OF reach lim r] by simp
qed

end
