(* ===== verification/Generator.thy ===== *)
theory Generator
  imports Contracts
begin

text \<open>
  The primitives of the event generator (\<^verbatim>\<open>services/event_generator\<close>): the seeded source of values
  and the product catalogue (\<^verbatim>\<open>generator.py\<close>), the behaviour profiles (\<^verbatim>\<open>personas/\<close>), the validated
  configuration (\<^verbatim>\<open>config.py\<close>) and the bounded pool of customers (\<^verbatim>\<open>state.py\<close>).

  Python's \<open>random.Random\<close> is a tape of naturals. \<open>random()\<close> is \<open>k / 2 ^ 53\<close> for the next entry \<open>k\<close>
  taken modulo \<open>2 ^ 53\<close>, and \<open>choice\<close> and \<open>randint\<close> reduce the next entry to their range, so a
  statement about all tapes covers every sequence of draws a generator can make. A second tape holds
  the 128 random bits of each new UUID, a third the readings of the clock (None for a reading
  without time zone). A probability written as a float literal is the rational it denotes.
\<close>

section \<open>Catalogue\<close>

record product =
  pr_product_id :: uuid
  pr_category :: string
  pr_price :: money
  pr_currency :: currency
  pr_available_quantity :: int

definition catalogue_entry :: "uuid \<Rightarrow> string \<Rightarrow> money \<Rightarrow> int \<Rightarrow> product" where
  "catalogue_entry i cat price n =
     \<lparr>pr_product_id = 0x10000000000040008000000000000000 + i, pr_category = cat, pr_price = price,
      pr_currency = TRY, pr_available_quantity = n\<rparr>"

definition PRODUCT_CATALOGUE :: "product list" where
  "PRODUCT_CATALOGUE =
     [catalogue_entry 1 ''electronics'' (129990 / 100) 20, catalogue_entry 2 ''books'' (24950 / 100) 50,
      catalogue_entry 3 ''home'' (79900 / 100) 12, catalogue_entry 4 ''apparel'' (44990 / 100) 35]"

section \<open>The source of values\<close>

record synthetic =
  sy_draws :: "nat \<Rightarrow> nat"
  sy_pos :: nat
  sy_bits :: "nat \<Rightarrow> 128 word"
  sy_uuid_pos :: nat
  sy_clock :: "nat \<Rightarrow> instant option"
  sy_clock_pos :: nat

definition draw :: "synthetic \<Rightarrow> nat \<times> synthetic" where
  "draw g = (sy_draws g (sy_pos g), g\<lparr>sy_pos := sy_pos g + 1\<rparr>)"

definition random_unit :: "synthetic \<Rightarrow> rat \<times> synthetic" where
  "random_unit g = (case draw g of (k, g') \<Rightarrow> (of_nat (k mod 2 ^ 53) / 2 ^ 53, g'))"

definition randint :: "int \<Rightarrow> int \<Rightarrow> synthetic \<Rightarrow> int \<times> synthetic" where
  "randint a b g = (case draw g of (k, g') \<Rightarrow> (a + int k mod (b - a + 1), g'))"

definition choice :: "'a list \<Rightarrow> synthetic \<Rightarrow> 'a \<times> synthetic" where
  "choice xs g = (case draw g of (k, g') \<Rightarrow> (xs ! (k mod length xs), g'))"

text \<open>\<open>choices(population, weights, k=1)\<close>: the first entry whose cumulative weight exceeds the draw.\<close>

fun cumulative :: "rat \<Rightarrow> rat list \<Rightarrow> rat list" where
  "cumulative s [] = []"
| "cumulative s (w # ws) = (s + w) # cumulative (s + w) ws"

definition choices :: "'a list \<Rightarrow> rat list \<Rightarrow> synthetic \<Rightarrow> 'a \<times> synthetic" where
  "choices xs ws g =
     (let cum = cumulative 0 ws
      in case random_unit g of
           (u, g') \<Rightarrow> (xs ! length (takeWhile (\<lambda>s. s \<le> u * last cum) (butlast cum)), g'))"

definition chance :: "rat \<Rightarrow> synthetic \<Rightarrow> bool \<times> synthetic" where
  "chance probability g = (case random_unit g of (u, g') \<Rightarrow> (u < probability, g'))"

text \<open>Both UUID factories: 128 bits with the version nibble 4 and the variant bits 10.\<close>

unbundle bit_operations_syntax

definition uuid4 :: "128 word \<Rightarrow> uuid" where
  "uuid4 value0 =
     (let v1 = (value0 AND NOT (push_bit 76 0xF)) OR push_bit 76 4
      in (v1 AND NOT (push_bit 62 0x3)) OR push_bit 62 0x2)"

definition new_uuid :: "synthetic \<Rightarrow> uuid \<times> synthetic" where
  "new_uuid g = (uuid4 (sy_bits g (sy_uuid_pos g)), g\<lparr>sy_uuid_pos := sy_uuid_pos g + 1\<rparr>)"

definition quantity :: "product \<Rightarrow> synthetic \<Rightarrow> int \<times> synthetic" where
  "quantity p = randint 1 (min (pr_available_quantity p) 3)"

definition choose_payment_method :: "synthetic \<Rightarrow> payment_method \<times> synthetic" where
  "choose_payment_method = choice [CREDIT_CARD, DEBIT_CARD, BANK_TRANSFER, DIGITAL_WALLET]"

definition choose_failure_reason :: "synthetic \<Rightarrow> payment_failure_reason \<times> synthetic" where
  "choose_failure_reason =
     choice [INSUFFICIENT_FUNDS, DECLINED, EXPIRED_CARD, INVALID_DETAILS, PROCESSOR_ERROR, FRAUD_SUSPECTED]"

definition choose_device_type :: "synthetic \<Rightarrow> device_type \<times> synthetic" where
  "choose_device_type = choice [DESKTOP, MOBILE, TABLET]"

definition ip_address :: "synthetic \<Rightarrow> string \<times> synthetic" where
  "ip_address g = (case randint 1 254 g of (n, g') \<Rightarrow> (''198.51.100.'' @ int_str n, g'))"

definition email_hash :: "(string \<Rightarrow> string) \<Rightarrow> uuid \<Rightarrow> string" where
  "email_hash sha256 customer_id = sha256 (uuid_str customer_id)"

text \<open>\<open>Decimal.quantize(Decimal("0.01"))\<close> rounds to cents, halves to the even cent.\<close>

definition round_half_even :: "rat \<Rightarrow> int" where
  "round_half_even x =
     (let n = \<lfloor>x\<rfloor>; r = x - of_int n
      in if r < 1 / 2 then n else if r > 1 / 2 then n + 1 else if even n then n else n + 1)"

definition quantize_cents :: "rat \<Rightarrow> money" where
  "quantize_cents x = of_int (round_half_even (x * 100)) / 100"

section \<open>Personas\<close>

record persona_profile =
  pp_persona :: customer_persona
  pp_min_views :: int
  pp_max_views :: int
  pp_add_probability :: rat
  pp_checkout_probability :: rat
  pp_payment_success_probability :: rat
  pp_refund_probability :: rat
  pp_discount_probability :: rat
  pp_discount_rate :: rat
  pp_action_delay :: int
  pp_return_delay :: int
  pp_device_change_probability :: rat
  pp_country_change_probability :: rat
  pp_retry_probability :: rat
  pp_high_value :: bool
  pp_repeat_views :: bool
  pp_reuse_abandoned_cart :: bool

definition milliseconds :: "int \<Rightarrow> int" where
  "milliseconds n = n * 1000"

definition seconds :: "int \<Rightarrow> int" where
  "seconds n = n * 1000000"

definition normal_profile :: persona_profile where
  "normal_profile =
     \<lparr>pp_persona = NORMAL, pp_min_views = 1, pp_max_views = 3, pp_add_probability = 60 / 100,
      pp_checkout_probability = 78 / 100, pp_payment_success_probability = 92 / 100,
      pp_refund_probability = 3 / 100, pp_discount_probability = 25 / 100, pp_discount_rate = 5 / 100,
      pp_action_delay = seconds 30, pp_return_delay = seconds (6 * 3600), pp_device_change_probability = 0,
      pp_country_change_probability = 0, pp_retry_probability = 0, pp_high_value = False,
      pp_repeat_views = False, pp_reuse_abandoned_cart = False\<rparr>"

definition indecisive_profile :: persona_profile where
  "indecisive_profile =
     \<lparr>pp_persona = INDECISIVE, pp_min_views = 4, pp_max_views = 8, pp_add_probability = 62 / 100,
      pp_checkout_probability = 32 / 100, pp_payment_success_probability = 88 / 100,
      pp_refund_probability = 6 / 100, pp_discount_probability = 25 / 100, pp_discount_rate = 8 / 100,
      pp_action_delay = seconds (12 * 60), pp_return_delay = seconds 86400, pp_device_change_probability = 0,
      pp_country_change_probability = 0, pp_retry_probability = 0, pp_high_value = False,
      pp_repeat_views = True, pp_reuse_abandoned_cart = True\<rparr>"

definition discount_hunter_profile :: persona_profile where
  "discount_hunter_profile =
     \<lparr>pp_persona = DISCOUNT_HUNTER, pp_min_views = 2, pp_max_views = 5, pp_add_probability = 82 / 100,
      pp_checkout_probability = 72 / 100, pp_payment_success_probability = 90 / 100,
      pp_refund_probability = 10 / 100, pp_discount_probability = 75 / 100, pp_discount_rate = 20 / 100,
      pp_action_delay = seconds (3 * 60), pp_return_delay = seconds (18 * 3600), pp_device_change_probability = 0,
      pp_country_change_probability = 0, pp_retry_probability = 0, pp_high_value = False,
      pp_repeat_views = False, pp_reuse_abandoned_cart = True\<rparr>"

definition suspicious_profile :: persona_profile where
  "suspicious_profile =
     \<lparr>pp_persona = SUSPICIOUS, pp_min_views = 1, pp_max_views = 3, pp_add_probability = 92 / 100,
      pp_checkout_probability = 94 / 100, pp_payment_success_probability = 45 / 100,
      pp_refund_probability = 28 / 100, pp_discount_probability = 10 / 100, pp_discount_rate = 5 / 100,
      pp_action_delay = seconds 2, pp_return_delay = seconds (5 * 60), pp_device_change_probability = 75 / 100,
      pp_country_change_probability = 45 / 100, pp_retry_probability = 80 / 100, pp_high_value = True,
      pp_repeat_views = False, pp_reuse_abandoned_cart = False\<rparr>"

definition bot_profile :: persona_profile where
  "bot_profile =
     \<lparr>pp_persona = BOT, pp_min_views = 8, pp_max_views = 20, pp_add_probability = 3 / 100,
      pp_checkout_probability = 5 / 100, pp_payment_success_probability = 50 / 100,
      pp_refund_probability = 0, pp_discount_probability = 0, pp_discount_rate = 0,
      pp_action_delay = milliseconds 50, pp_return_delay = seconds 5, pp_device_change_probability = 0,
      pp_country_change_probability = 0, pp_retry_probability = 0, pp_high_value = False,
      pp_repeat_views = True, pp_reuse_abandoned_cart = False\<rparr>"

definition account_takeover_profile :: persona_profile where
  "account_takeover_profile =
     \<lparr>pp_persona = ACCOUNT_TAKEOVER, pp_min_views = 1, pp_max_views = 2, pp_add_probability = 1,
      pp_checkout_probability = 1, pp_payment_success_probability = 55 / 100,
      pp_refund_probability = 20 / 100, pp_discount_probability = 0, pp_discount_rate = 0,
      pp_action_delay = milliseconds 500, pp_return_delay = seconds 60, pp_device_change_probability = 1,
      pp_country_change_probability = 1, pp_retry_probability = 90 / 100, pp_high_value = True,
      pp_repeat_views = False, pp_reuse_abandoned_cart = False\<rparr>"

text \<open>\<open>strategy_for(persona)\<close>: its profile, and its ranking of the catalogue. \<open>sorted(..., reverse=True)\<close>
  keeps equal elements in their order.\<close>

fun profile_for :: "customer_persona \<Rightarrow> persona_profile" where
  "profile_for NORMAL = normal_profile"
| "profile_for INDECISIVE = indecisive_profile"
| "profile_for DISCOUNT_HUNTER = discount_hunter_profile"
| "profile_for SUSPICIOUS = suspicious_profile"
| "profile_for BOT = bot_profile"
| "profile_for ACCOUNT_TAKEOVER = account_takeover_profile"

fun rank_products :: "customer_persona \<Rightarrow> product list \<Rightarrow> product list" where
  "rank_products DISCOUNT_HUNTER ps = sort_key pr_price ps"
| "rank_products SUSPICIOUS ps = sort_key (\<lambda>p. - pr_price p) ps"
| "rank_products ACCOUNT_TAKEOVER ps = sort_key (\<lambda>p. - pr_price p) ps"
| "rank_products _ ps = ps"

section \<open>Configuration\<close>

record generator_config =
  generator_max_product_views :: int
  generator_add_to_cart_probability :: rat
  generator_checkout_probability :: rat
  generator_payment_success_probability :: rat
  generator_refund_probability :: rat
  generator_journeys :: "int option"
  generator_customer_pool_size :: int
  generator_new_customer_probability :: rat
  generator_persona_weights :: string
  generator_persona :: "customer_persona option"
  generator_stateful_mode :: bool
  generator_max_payment_attempts :: int
  generator_payment_retry_probability :: rat
  generator_anomalies_enabled :: bool
  generator_duplicate_event_probability :: rat
  generator_malformed_json_probability :: rat
  generator_missing_field_probability :: rat
  generator_unknown_event_type_probability :: rat
  generator_late_event_probability :: rat
  generator_out_of_order_probability :: rat
  generator_payload_mismatch_probability :: rat
  generator_max_late_event_seconds :: int
  generator_max_anomalies_per_journey :: int

fun persona_value :: "customer_persona \<Rightarrow> string" where
  "persona_value NORMAL = ''normal''"
| "persona_value INDECISIVE = ''indecisive''"
| "persona_value DISCOUNT_HUNTER = ''discount_hunter''"
| "persona_value SUSPICIOUS = ''suspicious''"
| "persona_value BOT = ''bot''"
| "persona_value ACCOUNT_TAKEOVER = ''account_takeover''"

definition customer_personas :: "customer_persona list" where
  "customer_personas = [NORMAL, INDECISIVE, DISCOUNT_HUNTER, SUSPICIOUS, BOT, ACCOUNT_TAKEOVER]"

definition persona_of :: "string \<Rightarrow> customer_persona option" where
  "persona_of s = find (\<lambda>p. persona_value p = s) customer_personas"

text \<open>One entry \<open>name=weight\<close>; \<open>float\<close> is the reading of a number, None for a \<open>ValueError\<close>. An entry
  without an equals sign does not unpack, which is a \<open>ValueError\<close> as well.\<close>

definition split_once :: "char \<Rightarrow> string \<Rightarrow> (string \<times> string) option" where
  "split_once sep s =
     (case dropWhile (\<lambda>ch. ch \<noteq> sep) s of [] \<Rightarrow> None | _ # r \<Rightarrow> Some (takeWhile (\<lambda>ch. ch \<noteq> sep) s, r))"

definition parse_entry ::
  "(string \<Rightarrow> rat option) \<Rightarrow> string \<Rightarrow> (customer_persona \<times> rat) list \<Rightarrow> (customer_persona \<times> rat) list option" where
  "parse_entry float entry weights =
     (case split_once (CHR ''='') entry of
        None \<Rightarrow> None
      | Some (name, raw_weight) \<Rightarrow>
          (case persona_of (strip name) of
             None \<Rightarrow> None
           | Some persona \<Rightarrow>
               if map_of weights persona \<noteq> None then None
               else case float (strip raw_weight) of
                      None \<Rightarrow> None
                    | Some weight \<Rightarrow> if weight < 0 then None else Some (weights @ [(persona, weight)])))"

fun parse_entries ::
  "(string \<Rightarrow> rat option) \<Rightarrow> string list \<Rightarrow> (customer_persona \<times> rat) list \<Rightarrow> (customer_persona \<times> rat) list option" where
  "parse_entries float [] weights = Some weights"
| "parse_entries float (entry # entries) weights =
     (case parse_entry float entry weights of None \<Rightarrow> None | Some ws \<Rightarrow> parse_entries float entries ws)"

definition parse_persona_weights :: "(string \<Rightarrow> rat option) \<Rightarrow> string \<Rightarrow> (customer_persona \<times> rat) list option" where
  "parse_persona_weights float text0 =
     (case parse_entries float (filter (\<lambda>e. e \<noteq> []) (map strip (split_on (CHR '','') text0))) [] of
        None \<Rightarrow> None
      | Some weights \<Rightarrow>
          if set (map fst weights) \<noteq> set customer_personas then None
          else let total0 = sum_list (map snd weights)
               in if total0 \<le> 0 then None else Some (map (\<lambda>(p, w). (p, w / total0)) weights))"

definition unit_interval :: "rat \<Rightarrow> bool" where
  "unit_interval x \<longleftrightarrow> 0 \<le> x \<and> x \<le> 1"

definition generator_config_valid :: "(string \<Rightarrow> rat option) \<Rightarrow> generator_config \<Rightarrow> bool" where
  "generator_config_valid float c \<longleftrightarrow>
     0 < generator_max_product_views c \<and> generator_max_product_views c \<le> 100 \<and>
     unit_interval (generator_add_to_cart_probability c) \<and> unit_interval (generator_checkout_probability c) \<and>
     unit_interval (generator_payment_success_probability c) \<and> unit_interval (generator_refund_probability c) \<and>
     (case generator_journeys c of None \<Rightarrow> True | Some n \<Rightarrow> 0 < n) \<and>
     0 < generator_customer_pool_size c \<and> generator_customer_pool_size c \<le> 100000 \<and>
     unit_interval (generator_new_customer_probability c) \<and>
     parse_persona_weights float (generator_persona_weights c) \<noteq> None \<and>
     1 \<le> generator_max_payment_attempts c \<and> generator_max_payment_attempts c \<le> 10 \<and>
     unit_interval (generator_payment_retry_probability c) \<and>
     unit_interval (generator_duplicate_event_probability c) \<and> unit_interval (generator_malformed_json_probability c) \<and>
     unit_interval (generator_missing_field_probability c) \<and> unit_interval (generator_unknown_event_type_probability c) \<and>
     unit_interval (generator_late_event_probability c) \<and> unit_interval (generator_out_of_order_probability c) \<and>
     unit_interval (generator_payload_mismatch_probability c) \<and>
     0 < generator_max_late_event_seconds c \<and> generator_max_late_event_seconds c \<le> 2592000 \<and>
     0 \<le> generator_max_anomalies_per_journey c \<and> generator_max_anomalies_per_journey c \<le> 20"

definition DEFAULT_PERSONA_WEIGHTS :: string where
  "DEFAULT_PERSONA_WEIGHTS =
     ''normal=0.50,indecisive=0.15,discount_hunter=0.15,'' @ ''suspicious=0.10,bot=0.05,account_takeover=0.05''"

definition default_generator_config :: generator_config where
  "default_generator_config =
     \<lparr>generator_max_product_views = 20, generator_add_to_cart_probability = 55 / 100,
      generator_checkout_probability = 70 / 100, generator_payment_success_probability = 85 / 100,
      generator_refund_probability = 5 / 100, generator_journeys = None, generator_customer_pool_size = 100,
      generator_new_customer_probability = 35 / 100, generator_persona_weights = DEFAULT_PERSONA_WEIGHTS,
      generator_persona = None, generator_stateful_mode = True, generator_max_payment_attempts = 3,
      generator_payment_retry_probability = 65 / 100, generator_anomalies_enabled = False,
      generator_duplicate_event_probability = 0, generator_malformed_json_probability = 0,
      generator_missing_field_probability = 0, generator_unknown_event_type_probability = 0,
      generator_late_event_probability = 0, generator_out_of_order_probability = 0,
      generator_payload_mismatch_probability = 0, generator_max_late_event_seconds = 86400,
      generator_max_anomalies_per_journey = 2\<rparr>"

section \<open>Customers\<close>

record customer_state =
  gcu_id :: uuid
  gcu_persona :: customer_persona
  gcu_registration_timestamp :: instant
  gcu_known_device_ids :: "uuid list"
  gcu_known_ip_addresses :: "string list"
  gcu_home_country :: string
  gcu_preferred_currency :: currency
  gcu_previous_session_ids :: "uuid list"
  gcu_previous_order_ids :: "uuid list"
  gcu_previous_payment_ids :: "uuid list"
  gcu_total_journeys :: int
  gcu_total_product_views :: int
  gcu_total_cart_additions :: int
  gcu_total_checkouts :: int
  gcu_successful_payments :: int
  gcu_failed_payments :: int
  gcu_refunds :: int
  gcu_accumulated_spend :: money
  gcu_last_activity :: "instant option"
  gcu_last_viewed_products :: "uuid list"
  gcu_abandoned_cart :: "(uuid \<times> uuid) option"
  gcu_prior_normal_history :: bool

text \<open>The dictionary of customers, in the order of insertion. The model has no aliasing, so \<open>clone\<close> is
  the identity.\<close>

type_synonym store = "(uuid \<times> customer_state) list"

datatype generator_error =
    Pool_full
  | Activity_moves_backwards
  | Naive_clock

definition new_customer :: "uuid \<Rightarrow> customer_persona \<Rightarrow> instant \<Rightarrow> uuid \<Rightarrow> string \<Rightarrow> customer_state" where
  "new_customer customer_id persona timestamp device ip =
     \<lparr>gcu_id = customer_id, gcu_persona = persona, gcu_registration_timestamp = timestamp,
      gcu_known_device_ids = [device], gcu_known_ip_addresses = [ip], gcu_home_country = ''TR'',
      gcu_preferred_currency = TRY, gcu_previous_session_ids = [], gcu_previous_order_ids = [],
      gcu_previous_payment_ids = [], gcu_total_journeys = 0, gcu_total_product_views = 0,
      gcu_total_cart_additions = 0, gcu_total_checkouts = 0, gcu_successful_payments = 0,
      gcu_failed_payments = 0, gcu_refunds = 0, gcu_accumulated_spend = 0, gcu_last_activity = None,
      gcu_last_viewed_products = [], gcu_abandoned_cart = None, gcu_prior_normal_history = False\<rparr>"

definition create_customer ::
  "generator_config \<Rightarrow> store \<Rightarrow> customer_persona \<Rightarrow> instant \<Rightarrow> synthetic \<Rightarrow> (generator_error + customer_state) \<times> synthetic" where
  "create_customer c st persona timestamp g =
     (if int (length st) \<ge> generator_customer_pool_size c then (Inl Pool_full, g)
      else case new_uuid g of
             (customer_id, g1) \<Rightarrow>
               (case new_uuid g1 of
                  (device, g2) \<Rightarrow>
                    (case ip_address g2 of
                       (ip, g3) \<Rightarrow> (Inr (new_customer customer_id persona timestamp device ip), g3))))"

definition pick :: "(customer_state \<Rightarrow> bool) \<Rightarrow> store \<Rightarrow> synthetic \<Rightarrow> customer_state option \<times> synthetic" where
  "pick P st g =
     (case filter P (map snd st) of
        [] \<Rightarrow> (None, g)
      | candidates \<Rightarrow> (case choice candidates g of (x, g') \<Rightarrow> (Some x, g')))"

definition returning :: "customer_persona option \<Rightarrow> store \<Rightarrow> synthetic \<Rightarrow> customer_state option \<times> synthetic" where
  "returning persona = pick (\<lambda>x. case persona of None \<Rightarrow> True | Some p \<Rightarrow> gcu_persona x = p)"

definition takeover_candidate :: "store \<Rightarrow> synthetic \<Rightarrow> customer_state option \<times> synthetic" where
  "takeover_candidate st g =
     (case pick gcu_prior_normal_history st g of
        (x, g') \<Rightarrow> (map_option (\<lambda>x. x\<lparr>gcu_persona := ACCOUNT_TAKEOVER\<rparr>) x, g'))"

definition commit_customer :: "generator_config \<Rightarrow> customer_state \<Rightarrow> store \<Rightarrow> generator_error + store" where
  "commit_customer c x st =
     (if map_of st (gcu_id x) = None \<and> int (length st) \<ge> generator_customer_pool_size c then Inl Pool_full
      else if (case map_of st (gcu_id x) of
                 Some old \<Rightarrow>
                   (case (gcu_last_activity old, gcu_last_activity x) of
                      (Some t, Some t') \<Rightarrow> t' < t
                    | _ \<Rightarrow> False)
               | None \<Rightarrow> False)
           then Inl Activity_moves_backwards
      else Inr (AList.update (gcu_id x) x st))"

section \<open>Ranges\<close>

lemma random_unit_range: "0 \<le> fst (random_unit g)" "fst (random_unit g) < 1"
proof -
  have "of_nat (k mod 2 ^ 53) < (2 ^ 53 :: rat)" for k :: nat
    using of_nat_less_iff [where 'a = rat, of "k mod 2 ^ 53" "2 ^ 53"] by simp
  then show "0 \<le> fst (random_unit g)" "fst (random_unit g) < 1"
    by (simp_all add: random_unit_def draw_def)
qed

lemma chance_never: "p \<le> 0 \<Longrightarrow> \<not> fst (chance p g)"
  using random_unit_range(1) [of g] by (cases "random_unit g") (simp add: chance_def)

lemma chance_always: "1 \<le> p \<Longrightarrow> fst (chance p g)"
  using random_unit_range(2) [of g] by (cases "random_unit g") (simp add: chance_def)

lemma randint_range: "a \<le> b \<Longrightarrow> a \<le> fst (randint a b g) \<and> fst (randint a b g) \<le> b"
  using pos_mod_bound [of "b - a + 1" "int (sy_draws g (sy_pos g))"] pos_mod_sign [of "b - a + 1" "int (sy_draws g (sy_pos g))"]
  by (auto simp: randint_def draw_def)

lemma choice_in: "xs \<noteq> [] \<Longrightarrow> fst (choice xs g) \<in> set xs"
  by (simp add: choice_def draw_def)

lemma quantity_range: "p \<in> set PRODUCT_CATALOGUE \<Longrightarrow> 1 \<le> fst (quantity p g) \<and> fst (quantity p g) \<le> 3"
  using randint_range [of 1 3 g] by (auto simp: quantity_def PRODUCT_CATALOGUE_def catalogue_entry_def)

lemma round_half_even_floor: "of_int n \<le> x \<Longrightarrow> n \<le> round_half_even x"
proof -
  assume "of_int n \<le> x"
  then have "n \<le> \<lfloor>x\<rfloor>" by (simp add: le_floor_iff)
  then show ?thesis by (simp add: round_half_even_def Let_def)
qed

lemma round_half_even_ceiling: "x \<le> of_int n \<Longrightarrow> round_half_even x \<le> n"
proof -
  assume x: "x \<le> of_int n"
  show ?thesis
  proof (cases "x = of_int n")
    case True
    then show ?thesis by (simp add: round_half_even_def Let_def)
  next
    case False
    then have "\<lfloor>x\<rfloor> < n" using x by (simp add: floor_less_iff)
    then show ?thesis by (simp add: round_half_even_def Let_def)
  qed
qed

lemma quantize_cents_le: "x \<le> of_int n / 100 \<Longrightarrow> quantize_cents x \<le> of_int n / 100"
  using round_half_even_ceiling [of "x * 100" n] by (simp add: quantize_cents_def field_simps)

lemma quantize_cents_ge: "of_int n / 100 \<le> x \<Longrightarrow> of_int n / 100 \<le> quantize_cents x"
  using round_half_even_floor [of n "x * 100"] by (simp add: quantize_cents_def field_simps)

lemma quantize_cents_near: "quantize_cents x \<le> x + 1 / 200"
proof -
  have "of_int (round_half_even (x * 100)) \<le> x * 100 + 1 / 2"
    using of_int_floor_le [of "x * 100"] by (simp add: round_half_even_def Let_def; linarith)
  then show ?thesis by (simp add: quantize_cents_def field_simps)
qed

lemma quantize_cents_nonneg: "0 \<le> x \<Longrightarrow> 0 \<le> quantize_cents x"
  using quantize_cents_ge [of 0 x] by simp

lemma profile_facts:
  "0 \<le> pp_action_delay (profile_for p)" "0 \<le> pp_return_delay (profile_for p)"
  "0 \<le> pp_discount_rate (profile_for p)" "pp_discount_rate (profile_for p) \<le> 1 / 5"
  "pp_persona (profile_for p) = p" "1 \<le> pp_min_views (profile_for p)" "1 \<le> pp_max_views (profile_for p)"
  by (cases p; simp add: normal_profile_def indecisive_profile_def discount_hunter_profile_def suspicious_profile_def
      bot_profile_def account_takeover_profile_def seconds_def milliseconds_def)+

lemma rank_products_set [simp]: "set (rank_products p xs) = set xs"
  by (cases p) simp_all

lemma catalogue_facts:
  assumes "p \<in> set PRODUCT_CATALOGUE"
  shows "pr_category p \<noteq> []" "249 < pr_price p" "0 \<le> pr_available_quantity p" "\<exists>n. pr_price p = of_int n / 100"
proof -
  have "\<exists>n. x = of_int n / 100" if "x \<in> {129990 / 100, 24950 / 100, 79900 / 100, 44990 / (100 :: rat)}" for x
    using that by (elim insertE; clarify) (metis of_int_numeral)+
  then show "pr_category p \<noteq> []" "249 < pr_price p" "0 \<le> pr_available_quantity p" "\<exists>n. pr_price p = of_int n / 100"
    using assms by (auto simp: PRODUCT_CATALOGUE_def catalogue_entry_def)
qed

section \<open>Persona weights\<close>

lemma persona_of_value [simp]: "persona_of (persona_value p) = Some p"
  by (cases p) (simp_all add: persona_of_def customer_personas_def)

lemma parse_entry_Some:
  assumes "parse_entry float entry weights = Some ws"
  obtains p w where "ws = weights @ [(p, w)]" "map_of weights p = None" "0 \<le> w"
    "\<exists>name raw. split_once (CHR ''='') entry = Some (name, raw) \<and> persona_of (strip name) = Some p"
  using assms by (auto simp: parse_entry_def not_less split: option.splits if_splits prod.splits)

lemma parse_entries_inv:
  assumes "parse_entries float entries weights = Some ws"
    and "distinct (map fst weights)" "\<forall>(p, w) \<in> set weights. 0 \<le> w"
  shows "distinct (map fst ws) \<and> (\<forall>(p, w) \<in> set ws. 0 \<le> w)"
  using assms
proof (induction entries arbitrary: weights)
  case (Cons e es)
  then obtain ws1 where ws1: "parse_entry float e weights = Some ws1" "parse_entries float es ws1 = Some ws"
    by (auto split: option.splits)
  obtain p w where "ws1 = weights @ [(p, w)]" "map_of weights p = None" "0 \<le> w" by (rule parse_entry_Some [OF ws1(1)])
  then have "distinct (map fst ws1)" "\<forall>(p, w) \<in> set ws1. 0 \<le> w" using Cons.prems by (auto simp: map_of_eq_None_iff)
  with Cons.IH [OF ws1(2)] show ?case by blast
qed simp

end
