(* ===== verification/Journey.thy ===== *)
theory Journey
  imports Generator "HOL-Library.State_Monad"
begin

text \<open>
  \<^verbatim>\<open>services/event_generator/journey.py\<close>: the builder that turns draws, a customer and a behaviour
  profile into the events of one shopping journey and commits the customer's new state. The part of
  \<open>build\<close> between the selection of the customer and \<open>_finish\<close> is a state monad over the source of
  values, the logical clock, the working copy of the customer and the list of events, in the order
  of the source; \<open>_cursor\<close>, \<open>_journey_start\<close> and \<open>_seeding_takeover\<close>, which every build sets before
  it reads them, are local to a build.
\<close>

section \<open>Operations of the builder\<close>

record work =
  wk_gen :: synthetic
  wk_cursor :: instant
  wk_customer :: customer_state
  wk_events :: "envelope list"

type_synonym 'a step = "(work, 'a) state"

definition gen :: "(synthetic \<Rightarrow> 'a \<times> synthetic) \<Rightarrow> 'a step" where
  "gen f = State (\<lambda>w. case f (wk_gen w) of (x, g) \<Rightarrow> (x, w\<lparr>wk_gen := g\<rparr>))"

definition working :: "customer_state step" where
  "working = State (\<lambda>w. (wk_customer w, w))"

definition change_customer :: "(customer_state \<Rightarrow> customer_state) \<Rightarrow> unit step" where
  "change_customer f = State (\<lambda>w. ((), w\<lparr>wk_customer := f (wk_customer w)\<rparr>))"

definition next_timestamp :: "int \<Rightarrow> instant step" where
  "next_timestamp delay = State (\<lambda>w. (wk_cursor w + delay, w\<lparr>wk_cursor := wk_cursor w + delay\<rparr>))"

definition generated_event :: "uuid \<Rightarrow> event_type \<Rightarrow> uuid \<Rightarrow> payload \<Rightarrow> instant \<Rightarrow> envelope" where
  "generated_event event_id ty corr p t =
     \<lparr>ev_event_id = event_id, ev_event_type = ty, ev_event_version = CURRENT_EVENT_VERSION,
      ev_event_time = t, ev_produced_at = t, ev_source = ''event-generator'', ev_correlation_id = corr,
      ev_payload = p\<rparr>"

definition append_event :: "event_type \<Rightarrow> uuid \<Rightarrow> payload \<Rightarrow> instant \<Rightarrow> unit step" where
  "append_event ty corr p t =
     do { event_id \<leftarrow> gen new_uuid;
          State (\<lambda>w. ((), w\<lparr>wk_events := wk_events w @ [generated_event event_id ty corr p t]\<rparr>)) }"

datatype branch = Add_branch | Checkout_branch | Payment_branch | Refund_branch

fun probability :: "generator_config \<Rightarrow> bool \<Rightarrow> persona_profile \<Rightarrow> branch \<Rightarrow> rat" where
  "probability c seeding pr Add_branch =
     (if seeding then 1 else if pp_persona pr = NORMAL then generator_add_to_cart_probability c else pp_add_probability pr)"
| "probability c seeding pr Checkout_branch =
     (if seeding then 1 else if pp_persona pr = NORMAL then generator_checkout_probability c else pp_checkout_probability pr)"
| "probability c seeding pr Payment_branch =
     (if seeding then 1 else if pp_persona pr = NORMAL then generator_payment_success_probability c
      else pp_payment_success_probability pr)"
| "probability c seeding pr Refund_branch =
     (if seeding then 0 else if pp_persona pr = NORMAL then generator_refund_probability c else pp_refund_probability pr)"

definition session_device :: "persona_profile \<Rightarrow> (uuid \<times> string) step" where
  "session_device pr =
     do { change_device \<leftarrow> gen (chance (pp_device_change_probability pr));
          if change_device
          then do { device_id \<leftarrow> gen new_uuid;
                    ip \<leftarrow> gen ip_address;
                    change_customer (\<lambda>x. x\<lparr>gcu_known_device_ids := gcu_known_device_ids x @ [device_id],
                                           gcu_known_ip_addresses := gcu_known_ip_addresses x @ [ip]\<rparr>);
                    State_Monad.return (device_id, ip) }
          else do { x \<leftarrow> working;
                    State_Monad.return (last (gcu_known_device_ids x), last (gcu_known_ip_addresses x)) } }"

definition session_country :: "persona_profile \<Rightarrow> string step" where
  "session_country pr =
     do { x \<leftarrow> working;
          change_country \<leftarrow> gen (chance (pp_country_change_probability pr));
          if change_country then gen (choice [''DE'', ''GB'', ''US'']) else State_Monad.return (gcu_home_country x) }"

definition identity_for_session :: "persona_profile \<Rightarrow> (uuid \<times> string \<times> string) step" where
  "identity_for_session pr =
     do { (device_id, ip) \<leftarrow> session_device pr;
          country \<leftarrow> session_country pr;
          State_Monad.return (device_id, ip, country) }"

text \<open>The loop that fills the list of viewed products: each iteration appends one product.\<close>

definition next_view :: "persona_profile \<Rightarrow> customer_state \<Rightarrow> product list \<Rightarrow> product step" where
  "next_view pr x products =
     do { again \<leftarrow> (if pp_repeat_views pr \<and> products \<noteq> [] then gen (chance (45 / 100)) else State_Monad.return False);
          let ranked = rank_products (gcu_persona x) PRODUCT_CATALOGUE;
          if again then State_Monad.return (last products)
          else if pp_high_value pr \<or> gcu_persona x = DISCOUNT_HUNTER
          then State_Monad.return (ranked ! (length products mod length ranked))
          else gen (choice ranked) }"

primrec fill_views :: "persona_profile \<Rightarrow> customer_state \<Rightarrow> nat \<Rightarrow> product list \<Rightarrow> product list step" where
  "fill_views pr x 0 products = State_Monad.return products"
| "fill_views pr x (Suc n) products =
     do { p \<leftarrow> next_view pr x products; fill_views pr x n (products @ [p]) }"

text \<open>\<open>next((item for item in PRODUCT_CATALOGUE if ...), None)\<close>, as a list of at most one product.\<close>

definition prior_product :: "persona_profile \<Rightarrow> customer_state \<Rightarrow> product list" where
  "prior_product pr x =
     (if pp_repeat_views pr \<and> gcu_last_viewed_products x \<noteq> []
      then take 1 (filter (\<lambda>p. pr_product_id p = last (gcu_last_viewed_products x)) PRODUCT_CATALOGUE) else [])"

definition view_products :: "generator_config \<Rightarrow> persona_profile \<Rightarrow> product list step" where
  "view_products c pr =
     do { x \<leftarrow> working;
          let maximum = min (pp_max_views pr) (generator_max_product_views c);
          count \<leftarrow> gen (randint (min (pp_min_views pr) maximum) maximum);
          let products = prior_product pr x;
          fill_views pr x (nat count - length products) products }"

definition cart_product :: "persona_profile \<Rightarrow> product list \<Rightarrow> product step" where
  "cart_product pr products =
     do { x \<leftarrow> working;
          if pp_high_value pr then State_Monad.return (hd (sort_key (\<lambda>p. - pr_price p) products))
          else if gcu_persona x = DISCOUNT_HUNTER then State_Monad.return (hd (sort_key pr_price products))
          else gen (choice products) }"

definition discount :: "money \<Rightarrow> persona_profile \<Rightarrow> money step" where
  "discount subtotal pr =
     do { x \<leftarrow> working;
          let p = (if gcu_persona x = DISCOUNT_HUNTER \<and> gcu_abandoned_cart x \<noteq> None then 1 else pp_discount_probability pr);
          granted \<leftarrow> gen (chance p);
          State_Monad.return (if granted then quantize_cents (subtotal * pp_discount_rate pr) else 0) }"

section \<open>Payloads\<close>

text \<open>The payload of each event of a journey, given the customer, what was drawn and the time.\<close>

definition registered_payload :: "(string \<Rightarrow> string) \<Rightarrow> customer_state \<Rightarrow> instant \<Rightarrow> payload" where
  "registered_payload sha256 x t = UserRegistered
     \<lparr>ur_customer_id = gcu_id x, ur_email_hash = email_hash sha256 (gcu_id x),
      ur_country_code = gcu_home_country x, ur_persona = gcu_persona x, ur_registered_at = t\<rparr>"

definition session_payload ::
  "customer_state \<Rightarrow> uuid \<Rightarrow> uuid \<Rightarrow> device_type \<Rightarrow> string \<Rightarrow> string \<Rightarrow> instant \<Rightarrow> payload" where
  "session_payload x session_id device_id device ip country t = SessionStarted
     \<lparr>ss_session_id = session_id, ss_customer_id = gcu_id x, ss_device_id = device_id,
      ss_device_type = device, ss_ip_address = ip, ss_country_code = country,
      ss_channel = (if gcu_persona x = BOT then API else WEB), ss_started_at = t\<rparr>"

definition viewed_payload :: "customer_state \<Rightarrow> uuid \<Rightarrow> product \<Rightarrow> instant \<Rightarrow> payload" where
  "viewed_payload x session_id p t = ProductViewed
     \<lparr>pv_session_id = session_id, pv_customer_id = gcu_id x, pv_product_id = pr_product_id p,
      pv_category = pr_category p, pv_unit_price = pr_price p, pv_currency = gcu_preferred_currency x,
      pv_quantity_available = pr_available_quantity p\<rparr>"

definition cart_payload :: "customer_state \<Rightarrow> uuid \<Rightarrow> uuid \<Rightarrow> product \<Rightarrow> int \<Rightarrow> instant \<Rightarrow> payload" where
  "cart_payload x session_id cart_id p q t = AddedToCart
     \<lparr>ac_session_id = session_id, ac_customer_id = gcu_id x, ac_cart_id = cart_id,
      ac_product_id = pr_product_id p, ac_quantity = q, ac_unit_price = pr_price p,
      ac_currency = gcu_preferred_currency x\<rparr>"

definition checkout_payload :: "customer_state \<Rightarrow> uuid \<Rightarrow> uuid \<Rightarrow> int \<Rightarrow> money \<Rightarrow> money \<Rightarrow> instant \<Rightarrow> payload" where
  "checkout_payload x session_id cart_id q subtotal disc t = CheckoutStarted
     \<lparr>cs_session_id = session_id, cs_customer_id = gcu_id x, cs_cart_id = cart_id, cs_item_count = q,
      cs_subtotal = subtotal, cs_discount_amount = disc, cs_total_amount = subtotal - disc,
      cs_currency = gcu_preferred_currency x\<rparr>"

definition order_payload ::
  "customer_state \<Rightarrow> uuid \<Rightarrow> uuid \<Rightarrow> uuid \<Rightarrow> int \<Rightarrow> money \<Rightarrow> money \<Rightarrow> string \<Rightarrow> instant \<Rightarrow> payload" where
  "order_payload x order_id session_id cart_id q subtotal disc country t = OrderCreated
     \<lparr>oc_order_id = order_id, oc_customer_id = gcu_id x, oc_session_id = session_id, oc_cart_id = cart_id,
      oc_item_count = q, oc_subtotal = subtotal, oc_discount_amount = disc, oc_total_amount = subtotal - disc,
      oc_currency = gcu_preferred_currency x, oc_shipping_country_code = country,
      oc_billing_country_code = gcu_home_country x, oc_created_at = t\<rparr>"

definition completed_payload ::
  "customer_state \<Rightarrow> uuid \<Rightarrow> payment_method \<Rightarrow> uuid \<Rightarrow> money \<Rightarrow> uuid \<Rightarrow> string \<Rightarrow> string \<Rightarrow> instant \<Rightarrow> payload" where
  "completed_payload x payment_id method0 order_id amount device_id ip country t = PaymentCompleted
     \<lparr>pc_payment_id = payment_id, pc_order_id = order_id, pc_customer_id = gcu_id x, pc_amount = amount,
      pc_currency = gcu_preferred_currency x, pc_payment_method = method0, pc_device_id = device_id,
      pc_ip_address = ip, pc_country_code = country, pc_completed_at = t\<rparr>"

definition failed_payload ::
  "customer_state \<Rightarrow> uuid \<Rightarrow> payment_method \<Rightarrow> payment_failure_reason \<Rightarrow> uuid \<Rightarrow> money \<Rightarrow> uuid \<Rightarrow> string \<Rightarrow> string \<Rightarrow>
   instant \<Rightarrow> payload" where
  "failed_payload x payment_id method0 reason order_id amount device_id ip country t = PaymentFailed
     \<lparr>pf_payment_id = payment_id, pf_order_id = order_id, pf_customer_id = gcu_id x, pf_amount = amount,
      pf_currency = gcu_preferred_currency x, pf_payment_method = method0, pf_failure_reason = reason,
      pf_device_id = device_id, pf_ip_address = ip, pf_country_code = country, pf_failed_at = t\<rparr>"

definition refund_payload :: "customer_state \<Rightarrow> uuid \<Rightarrow> uuid \<Rightarrow> uuid \<Rightarrow> money \<Rightarrow> instant \<Rightarrow> payload" where
  "refund_payload x refund_id payment_id order_id amount t = RefundRequested
     \<lparr>rr_refund_id = refund_id, rr_payment_id = payment_id, rr_order_id = order_id, rr_customer_id = gcu_id x,
      rr_amount = quantize_cents (amount / 2), rr_currency = gcu_preferred_currency x,
      rr_reason = ''customer request'', rr_requested_at = t\<rparr>"

section \<open>The journey\<close>

definition emit_registration :: "(string \<Rightarrow> string) \<Rightarrow> uuid \<Rightarrow> unit step" where
  "emit_registration sha256 corr =
     do { t \<leftarrow> next_timestamp 0;
          x \<leftarrow> working;
          append_event USER_REGISTERED corr (registered_payload sha256 x t) t }"

definition session_device_type :: "device_type step" where
  "session_device_type =
     do { x \<leftarrow> working; if gcu_persona x = BOT then State_Monad.return BOT_DEVICE else gen choose_device_type }"

definition start_session :: "persona_profile \<Rightarrow> uuid \<Rightarrow> (uuid \<times> uuid \<times> string \<times> string) step" where
  "start_session pr corr =
     do { (device_id, ip, country) \<leftarrow> identity_for_session pr;
          session_id \<leftarrow> gen new_uuid;
          t \<leftarrow> next_timestamp (pp_action_delay pr);
          x \<leftarrow> working;
          device \<leftarrow> session_device_type;
          append_event SESSION_STARTED corr (session_payload x session_id device_id device ip country t) t;
          State_Monad.return (session_id, device_id, ip, country) }"

definition emit_view :: "persona_profile \<Rightarrow> uuid \<Rightarrow> uuid \<Rightarrow> product \<Rightarrow> unit step" where
  "emit_view pr corr session_id p =
     do { t \<leftarrow> next_timestamp (pp_action_delay pr);
          x \<leftarrow> working;
          append_event PRODUCT_VIEWED corr (viewed_payload x session_id p t) t }"

primrec emit_views :: "persona_profile \<Rightarrow> uuid \<Rightarrow> uuid \<Rightarrow> product list \<Rightarrow> unit step" where
  "emit_views pr corr session_id [] = State_Monad.return ()"
| "emit_views pr corr session_id (p # ps) =
     do { emit_view pr corr session_id p; emit_views pr corr session_id ps }"

definition cart_identity :: "persona_profile \<Rightarrow> uuid step" where
  "cart_identity pr =
     do { x \<leftarrow> working;
          case gcu_abandoned_cart x of
            Some (cart_id, _) \<Rightarrow> if pp_reuse_abandoned_cart pr then State_Monad.return cart_id else gen new_uuid
          | None \<Rightarrow> gen new_uuid }"

definition add_to_cart :: "persona_profile \<Rightarrow> uuid \<Rightarrow> uuid \<Rightarrow> product list \<Rightarrow> (uuid \<times> product \<times> int) step" where
  "add_to_cart pr corr session_id viewed =
     do { p \<leftarrow> cart_product pr viewed;
          q \<leftarrow> gen (quantity p);
          x \<leftarrow> working;
          cart_id \<leftarrow> cart_identity pr;
          t \<leftarrow> next_timestamp (pp_action_delay pr);
          append_event ADDED_TO_CART corr (cart_payload x session_id cart_id p q t) t;
          State_Monad.return (cart_id, p, q) }"

definition start_checkout :: "persona_profile \<Rightarrow> uuid \<Rightarrow> uuid \<Rightarrow> uuid \<Rightarrow> int \<Rightarrow> money \<Rightarrow> money \<Rightarrow> unit step" where
  "start_checkout pr corr session_id cart_id q subtotal disc =
     do { t \<leftarrow> next_timestamp (pp_action_delay pr);
          x \<leftarrow> working;
          append_event CHECKOUT_STARTED corr (checkout_payload x session_id cart_id q subtotal disc t) t }"

definition create_order ::
  "persona_profile \<Rightarrow> uuid \<Rightarrow> uuid \<Rightarrow> uuid \<Rightarrow> int \<Rightarrow> money \<Rightarrow> money \<Rightarrow> string \<Rightarrow> uuid step" where
  "create_order pr corr session_id cart_id q subtotal disc country =
     do { order_id \<leftarrow> gen new_uuid;
          t \<leftarrow> next_timestamp (pp_action_delay pr);
          x \<leftarrow> working;
          append_event ORDER_CREATED corr (order_payload x order_id session_id cart_id q subtotal disc country t) t;
          State_Monad.return order_id }"

text \<open>One iteration of the loop of \<open>_payments\<close>; the loop stops after a success, when no retry is drawn
  or when the attempts are used up.\<close>

definition payment_completed ::
  "uuid \<Rightarrow> uuid \<Rightarrow> uuid \<Rightarrow> money \<Rightarrow> uuid \<Rightarrow> string \<Rightarrow> string \<Rightarrow> instant \<Rightarrow> unit step" where
  "payment_completed corr payment_id order_id amount device_id ip country t =
     do { x \<leftarrow> working;
          method0 \<leftarrow> gen choose_payment_method;
          append_event PAYMENT_COMPLETED corr (completed_payload x payment_id method0 order_id amount device_id ip country t) t }"

definition payment_failed ::
  "uuid \<Rightarrow> uuid \<Rightarrow> uuid \<Rightarrow> money \<Rightarrow> uuid \<Rightarrow> string \<Rightarrow> string \<Rightarrow> instant \<Rightarrow> unit step" where
  "payment_failed corr payment_id order_id amount device_id ip country t =
     do { x \<leftarrow> working;
          method0 \<leftarrow> gen choose_payment_method;
          reason \<leftarrow> gen choose_failure_reason;
          append_event PAYMENT_FAILED corr (failed_payload x payment_id method0 reason order_id amount device_id ip country t) t }"

primrec pay ::
  "generator_config \<Rightarrow> bool \<Rightarrow> persona_profile \<Rightarrow> uuid \<Rightarrow> uuid \<Rightarrow> money \<Rightarrow> uuid \<Rightarrow> string \<Rightarrow> string \<Rightarrow> nat \<Rightarrow> int \<Rightarrow>
   (int \<times> uuid option) step" where
  "pay c seeding pr corr order_id amount device_id ip country 0 attempts = State_Monad.return (attempts, None)"
| "pay c seeding pr corr order_id amount device_id ip country (Suc n) attempts =
     do { payment_id \<leftarrow> gen new_uuid;
          t \<leftarrow> next_timestamp (pp_action_delay pr);
          success \<leftarrow> gen (chance (probability c seeding pr Payment_branch));
          if success
          then do { payment_completed corr payment_id order_id amount device_id ip country t;
                    State_Monad.return (attempts + 1, Some payment_id) }
          else do { payment_failed corr payment_id order_id amount device_id ip country t;
                    retry \<leftarrow> gen (chance (max (pp_retry_probability pr) (generator_payment_retry_probability c)));
                    if retry then pay c seeding pr corr order_id amount device_id ip country n (attempts + 1)
                    else State_Monad.return (attempts + 1, None) } }"

definition payments ::
  "generator_config \<Rightarrow> bool \<Rightarrow> persona_profile \<Rightarrow> uuid \<Rightarrow> uuid \<Rightarrow> money \<Rightarrow> uuid \<Rightarrow> string \<Rightarrow> string \<Rightarrow>
   (int \<times> uuid option) step" where
  "payments c seeding pr corr order_id amount device_id ip country =
     pay c seeding pr corr order_id amount device_id ip country
       (nat (if pp_retry_probability pr > 0 then generator_max_payment_attempts c else 1)) 0"

definition request_refund :: "persona_profile \<Rightarrow> uuid \<Rightarrow> uuid \<Rightarrow> uuid \<Rightarrow> money \<Rightarrow> unit step" where
  "request_refund pr corr payment_id order_id amount =
     do { t \<leftarrow> next_timestamp (pp_action_delay pr);
          refund_id \<leftarrow> gen new_uuid;
          x \<leftarrow> working;
          append_event REFUND_REQUESTED corr (refund_payload x refund_id payment_id order_id amount t) t }"

text \<open>The events from the checkout on, and then the whole journey up to \<open>_finish\<close>; the result is the
  session, the order when there is one and the number of payment attempts.\<close>

definition purchase ::
  "generator_config \<Rightarrow> bool \<Rightarrow> persona_profile \<Rightarrow> uuid \<Rightarrow> uuid \<Rightarrow> uuid \<Rightarrow> string \<Rightarrow> string \<Rightarrow> uuid \<Rightarrow> product \<Rightarrow> int \<Rightarrow>
   money \<Rightarrow> (uuid \<times> int) step" where
  "purchase c seeding pr corr session_id device_id ip country cart_id p q disc =
     do { let subtotal = pr_price p * of_int q;
          start_checkout pr corr session_id cart_id q subtotal disc;
          order_id \<leftarrow> create_order pr corr session_id cart_id q subtotal disc country;
          (attempts, successful) \<leftarrow> payments c seeding pr corr order_id (subtotal - disc) device_id ip country;
          case successful of
            None \<Rightarrow> State_Monad.return (order_id, attempts)
          | Some payment_id \<Rightarrow>
              do { refund \<leftarrow> gen (chance (probability c seeding pr Refund_branch));
                   (if refund then request_refund pr corr payment_id order_id (subtotal - disc) else State_Monad.return ());
                   State_Monad.return (order_id, attempts) } }"

definition shop ::
  "generator_config \<Rightarrow> bool \<Rightarrow> persona_profile \<Rightarrow> uuid \<Rightarrow> uuid \<Rightarrow> uuid \<Rightarrow> string \<Rightarrow> string \<Rightarrow> product list \<Rightarrow>
   (uuid option \<times> int) step" where
  "shop c seeding pr corr session_id device_id ip country viewed =
     do { adds \<leftarrow> gen (chance (probability c seeding pr Add_branch));
          if \<not> adds then State_Monad.return (None, 0)
          else do {
            (cart_id, p, q) \<leftarrow> add_to_cart pr corr session_id viewed;
            disc \<leftarrow> discount (pr_price p * of_int q) pr;
            x \<leftarrow> working;
            let checkout_probability =
              (if gcu_persona x = DISCOUNT_HUNTER \<and> disc = 0
               then min (probability c seeding pr Checkout_branch) (10 / 100)
               else probability c seeding pr Checkout_branch);
            checks_out \<leftarrow> gen (chance checkout_probability);
            if \<not> checks_out
            then do { change_customer (\<lambda>x. x\<lparr>gcu_abandoned_cart := Some (cart_id, pr_product_id p)\<rparr>);
                      State_Monad.return (None, 0) }
            else do { (order_id, attempts) \<leftarrow> purchase c seeding pr corr session_id device_id ip country cart_id p q disc;
                      State_Monad.return (Some order_id, attempts) } } }"

definition journey_steps ::
  "generator_config \<Rightarrow> (string \<Rightarrow> string) \<Rightarrow> bool \<Rightarrow> persona_profile \<Rightarrow> bool \<Rightarrow> (uuid \<times> uuid \<times> uuid option \<times> int) step" where
  "journey_steps c sha256 seeding pr is_returning =
     do { corr \<leftarrow> gen new_uuid;
          (if is_returning then State_Monad.return () else emit_registration sha256 corr);
          (session_id, device_id, ip, country) \<leftarrow> start_session pr corr;
          viewed \<leftarrow> view_products c pr;
          emit_views pr corr session_id viewed;
          (order_id, attempts) \<leftarrow> shop c seeding pr corr session_id device_id ip country viewed;
          State_Monad.return (corr, session_id, order_id, attempts) }"

section \<open>Selecting the customer and finishing\<close>

definition aware_now :: "synthetic \<Rightarrow> (generator_error + instant) \<times> synthetic" where
  "aware_now g =
     (case sy_clock g (sy_clock_pos g) of None \<Rightarrow> Inl Naive_clock | Some t \<Rightarrow> Inr t, g\<lparr>sy_clock_pos := sy_clock_pos g + 1\<rparr>)"

text \<open>The persona and whether the journey seeds a later takeover. The weights of a validated
  configuration can be parsed.\<close>

definition choose_persona ::
  "(string \<Rightarrow> rat option) \<Rightarrow> generator_config \<Rightarrow> store \<Rightarrow> synthetic \<Rightarrow> (customer_persona \<times> bool) \<times> synthetic" where
  "choose_persona float c st g =
     (case generator_persona c of
        Some persona \<Rightarrow>
          if persona = ACCOUNT_TAKEOVER
          then (case takeover_candidate st g of
                  (None, g') \<Rightarrow> ((NORMAL, True), g') | (Some _, g') \<Rightarrow> ((persona, False), g'))
          else ((persona, False), g)
      | None \<Rightarrow>
          if generator_max_product_views c \<le> 3 \<or> generator_add_to_cart_probability c \<noteq> 55 / 100 \<or>
             generator_checkout_probability c \<noteq> 70 / 100 \<or> generator_payment_success_probability c \<noteq> 85 / 100 \<or>
             generator_refund_probability c \<noteq> 5 / 100
          then ((NORMAL, False), g)
          else case parse_persona_weights float (generator_persona_weights c) of
                 None \<Rightarrow> ((NORMAL, False), g)
               | Some weights \<Rightarrow>
                   (case choices (map fst weights) (map snd weights) g of
                      (selected, g1) \<Rightarrow>
                        if selected = ACCOUNT_TAKEOVER
                        then (case takeover_candidate st g1 of
                                (None, g2) \<Rightarrow> ((NORMAL, False), g2) | (Some _, g2) \<Rightarrow> ((selected, False), g2))
                        else ((selected, False), g1)))"

definition select_or_create ::
  "generator_config \<Rightarrow> store \<Rightarrow> customer_persona \<Rightarrow> synthetic \<Rightarrow>
   (generator_error + customer_state \<times> bool) \<times> synthetic" where
  "select_or_create c st persona g =
     (case returning (Some persona) st g of
        (found, g1) \<Rightarrow>
          (case (if \<not> generator_stateful_mode c \<or> found = None then (True, g1)
                 else if int (length st) < generator_customer_pool_size c
                 then chance (generator_new_customer_probability c) g1 else (False, g1)) of
             (create_new, g2) \<Rightarrow>
               (case found of
                  Some x \<Rightarrow>
                    if \<not> create_new then (Inr (x, True), g2)
                    else (case aware_now g2 of
                            (Inl e, g3) \<Rightarrow> (Inl e, g3)
                          | (Inr t, g3) \<Rightarrow>
                              (case create_customer c st persona t g3 of
                                 (Inl e, g4) \<Rightarrow> (Inl e, g4) | (Inr y, g4) \<Rightarrow> (Inr (y, False), g4)))
                | None \<Rightarrow>
                    (case aware_now g2 of
                       (Inl e, g3) \<Rightarrow> (Inl e, g3)
                     | (Inr t, g3) \<Rightarrow>
                         (case create_customer c st persona t g3 of
                            (Inl e, g4) \<Rightarrow> (Inl e, g4) | (Inr y, g4) \<Rightarrow> (Inr (y, False), g4))))))"

definition select_customer ::
  "generator_config \<Rightarrow> store \<Rightarrow> customer_persona \<Rightarrow> synthetic \<Rightarrow>
   (generator_error + customer_state \<times> bool) \<times> synthetic" where
  "select_customer c st persona g =
     (if persona = ACCOUNT_TAKEOVER
      then (case takeover_candidate st g of
              (Some x, g') \<Rightarrow> (Inr (x, True), g')
            | (None, g') \<Rightarrow> select_or_create c st persona g')
      else select_or_create c st persona g)"

definition start_logical_time ::
  "customer_state \<Rightarrow> persona_profile \<Rightarrow> bool \<Rightarrow> synthetic \<Rightarrow> (generator_error + instant) \<times> synthetic" where
  "start_logical_time x pr is_returning g =
     (case aware_now g of
        (Inl e, g') \<Rightarrow> (Inl e, g')
      | (Inr now, g') \<Rightarrow>
          (Inr (case (is_returning, gcu_last_activity x) of
                  (True, Some t) \<Rightarrow> max now (t + pp_return_delay pr) | _ \<Rightarrow> now), g'))"

record journey_result =
  jr_correlation_id :: uuid
  jr_customer_id :: uuid
  jr_events :: "envelope list"
  jr_persona :: customer_persona
  jr_returning_customer :: bool
  jr_customer_lifetime_journeys :: int
  jr_logical_journey_duration_ms :: int
  jr_payment_attempt_count :: int

definition events_of :: "event_type \<Rightarrow> envelope list \<Rightarrow> int" where
  "events_of ty evs = int (length (filter (\<lambda>e. ev_event_type e = ty) evs))"

fun remember_event :: "payload \<Rightarrow> customer_state \<Rightarrow> customer_state" where
  "remember_event (ProductViewed p) x =
     (let seen = gcu_last_viewed_products x @ [pv_product_id p]
      in x\<lparr>gcu_last_viewed_products := drop (length seen - 10) seen\<rparr>)"
| "remember_event (PaymentCompleted p) x =
     x\<lparr>gcu_previous_payment_ids := gcu_previous_payment_ids x @ [pc_payment_id p],
       gcu_accumulated_spend := gcu_accumulated_spend x + pc_amount p\<rparr>"
| "remember_event (PaymentFailed p) x =
     x\<lparr>gcu_previous_payment_ids := gcu_previous_payment_ids x @ [pf_payment_id p]\<rparr>"
| "remember_event _ x = x"

definition finished_customer :: "envelope list \<Rightarrow> uuid \<Rightarrow> uuid option \<Rightarrow> customer_state \<Rightarrow> customer_state" where
  "finished_customer evs session_id order_id x =
     (let x1 = x\<lparr>gcu_total_journeys := gcu_total_journeys x + 1,
                 gcu_total_product_views := gcu_total_product_views x + events_of PRODUCT_VIEWED evs,
                 gcu_total_cart_additions := gcu_total_cart_additions x + events_of ADDED_TO_CART evs,
                 gcu_total_checkouts := gcu_total_checkouts x + events_of CHECKOUT_STARTED evs,
                 gcu_successful_payments := gcu_successful_payments x + events_of PAYMENT_COMPLETED evs,
                 gcu_failed_payments := gcu_failed_payments x + events_of PAYMENT_FAILED evs,
                 gcu_refunds := gcu_refunds x + events_of REFUND_REQUESTED evs,
                 gcu_previous_session_ids := gcu_previous_session_ids x @ [session_id],
                 gcu_previous_order_ids := gcu_previous_order_ids x @ (case order_id of None \<Rightarrow> [] | Some i \<Rightarrow> [i])\<rparr>;
          x2 = fold (\<lambda>e. remember_event (ev_payload e)) evs x1;
          x3 = x2\<lparr>gcu_last_activity := Some (ev_event_time (last evs))\<rparr>;
          x4 = (if gcu_persona x3 = NORMAL \<and> gcu_successful_payments x3 \<noteq> 0 then x3\<lparr>gcu_prior_normal_history := True\<rparr> else x3)
      in if events_of CHECKOUT_STARTED evs > 0 then x4\<lparr>gcu_abandoned_cart := None\<rparr> else x4)"

text \<open>The builder between two builds.\<close>

record builder =
  bu_gen :: synthetic
  bu_store :: store

text \<open>\<open>int((t - start).total_seconds() * 1000)\<close> cuts off towards zero; the duration is not negative.\<close>

definition build_journey ::
  "(string \<Rightarrow> rat option) \<Rightarrow> (string \<Rightarrow> string) \<Rightarrow> generator_config \<Rightarrow> builder \<Rightarrow>
   (generator_error + journey_result) \<times> builder" where
  "build_journey float sha256 c b =
     (case choose_persona float c (bu_store b) (bu_gen b) of
        ((persona, seeding), g1) \<Rightarrow>
          (case select_customer c (bu_store b) persona g1 of
             (Inl e, g2) \<Rightarrow> (Inl e, b\<lparr>bu_gen := g2\<rparr>)
           | (Inr (x, is_returning), g2) \<Rightarrow>
               let pr = profile_for (gcu_persona x)
               in (case start_logical_time x pr is_returning g2 of
                     (Inl e, g3) \<Rightarrow> (Inl e, b\<lparr>bu_gen := g3\<rparr>)
                   | (Inr start, g3) \<Rightarrow>
                       (case run_state (journey_steps c sha256 seeding pr is_returning)
                               \<lparr>wk_gen = g3, wk_cursor = start, wk_customer = x, wk_events = []\<rparr> of
                          ((corr, session_id, order_id, attempts), w) \<Rightarrow>
                            let evs = wk_events w; y = finished_customer evs session_id order_id (wk_customer w)
                            in (case commit_customer c y (bu_store b) of
                                  Inl e \<Rightarrow> (Inl e, b\<lparr>bu_gen := wk_gen w\<rparr>)
                                | Inr st \<Rightarrow>
                                    (Inr \<lparr>jr_correlation_id = corr, jr_customer_id = gcu_id y, jr_events = evs,
                                          jr_persona = gcu_persona y, jr_returning_customer = is_returning,
                                          jr_customer_lifetime_journeys = gcu_total_journeys y,
                                          jr_logical_journey_duration_ms = (ev_event_time (last evs) - start) div 1000,
                                          jr_payment_attempt_count = attempts\<rparr>,
                                     \<lparr>bu_gen = wk_gen w, bu_store = st\<rparr>))))))"

end
