(* ===== verification/Journey_Spec.thy ===== *)
theory Journey_Spec
  imports Journey
begin

text \<open>
  What the journey builder produces. A journey is specified by a plan: who shops, in which session,
  which products are viewed and how far the purchase gets, with the payments and the refund at the
  end. The events of every journey are the events of some plan, in order, with non-decreasing times
  (\<open>build_follows_plan\<close>). The proofs go through a small logic of pre- and postconditions for the state monad.
\<close>

section \<open>Pre- and postconditions\<close>

definition triple :: "('s \<Rightarrow> bool) \<Rightarrow> ('s, 'a) state \<Rightarrow> ('a \<Rightarrow> 's \<Rightarrow> bool) \<Rightarrow> bool" where
  "triple P m Q \<longleftrightarrow> (\<forall>s. P s \<longrightarrow> (case run_state m s of (x, s') \<Rightarrow> Q x s'))"

lemma triple_bind:
  "triple P m R \<Longrightarrow> (\<And>x. triple (R x) (f x) Q) \<Longrightarrow> triple P (State_Monad.bind m f) Q"
  by (fastforce simp: triple_def split: prod.splits)

lemma triple_return: "(\<And>s. P s \<Longrightarrow> Q x s) \<Longrightarrow> triple P (State_Monad.return x) Q"
  by (simp add: triple_def)

lemma triple_post: "triple P m R \<Longrightarrow> (\<And>x s. R x s \<Longrightarrow> Q x s) \<Longrightarrow> triple P m Q"
  by (fastforce simp: triple_def)

lemma triple_ex: "triple (\<lambda>s. \<exists>a. P a s) m Q \<longleftrightarrow> (\<forall>a. triple (P a) m Q)"
proof -
  have "(\<forall>s. (\<exists>a. P a s) \<longrightarrow> X s) \<longleftrightarrow> (\<forall>a s. P a s \<longrightarrow> X s)" for X by blast
  then show ?thesis by (simp only: triple_def)
qed

lemma triple_conj: "triple (\<lambda>s. A \<and> P s) m Q \<longleftrightarrow> (A \<longrightarrow> triple P m Q)"
  by (auto simp: triple_def)

lemma triple_False: "triple (\<lambda>s. False) m Q"
  by (simp add: triple_def)

lemma triple_if: "(b \<Longrightarrow> triple P m Q) \<Longrightarrow> (\<not> b \<Longrightarrow> triple P n Q) \<Longrightarrow> triple P (if b then m else n) Q"
  by simp

section \<open>Plans\<close>

datatype purchase_plan =
    Browse
  | Cart (pl_cart: uuid) (pl_product: product) (pl_quantity: int)
  | Buy uuid product int money uuid "(uuid \<times> payment_method \<times> payment_failure_reason) list"
      "(uuid \<times> payment_method \<times> uuid option) option"

record journey_plan =
  jp_registers :: bool
  jp_session :: uuid
  jp_device :: uuid
  jp_device_type :: device_type
  jp_ip :: string
  jp_country :: string
  jp_views :: "product list"
  jp_purchase :: purchase_plan

definition pays ::
  "customer_state \<Rightarrow> uuid \<Rightarrow> money \<Rightarrow> uuid \<Rightarrow> string \<Rightarrow> string \<Rightarrow>
   (uuid \<times> payment_method \<times> payment_failure_reason) list \<Rightarrow> (instant \<Rightarrow> payload) list" where
  "pays x order_id amount device ip country fails =
     map (\<lambda>(i, m, r). failed_payload x i m r order_id amount device ip country) fails"

fun settled_by ::
  "customer_state \<Rightarrow> uuid \<Rightarrow> money \<Rightarrow> uuid \<Rightarrow> string \<Rightarrow> string \<Rightarrow>
   (uuid \<times> payment_method \<times> uuid option) option \<Rightarrow> (instant \<Rightarrow> payload) list" where
  "settled_by x order_id amount device ip country None = []"
| "settled_by x order_id amount device ip country (Some (i, m, refund)) =
     completed_payload x i m order_id amount device ip country #
     (case refund of None \<Rightarrow> [] | Some r \<Rightarrow> [refund_payload x r i order_id amount])"

fun purchase_steps ::
  "customer_state \<Rightarrow> uuid \<Rightarrow> uuid \<Rightarrow> string \<Rightarrow> string \<Rightarrow> purchase_plan \<Rightarrow> (instant \<Rightarrow> payload) list" where
  "purchase_steps x session device ip country Browse = []"
| "purchase_steps x session device ip country (Cart cart p q) = [cart_payload x session cart p q]"
| "purchase_steps x session device ip country (Buy cart p q disc order_id fails success) =
     cart_payload x session cart p q #
     checkout_payload x session cart q (pr_price p * of_int q) disc #
     order_payload x order_id session cart q (pr_price p * of_int q) disc country #
     pays x order_id (pr_price p * of_int q - disc) device ip country fails @
     settled_by x order_id (pr_price p * of_int q - disc) device ip country success"

definition plan_steps :: "(string \<Rightarrow> string) \<Rightarrow> customer_state \<Rightarrow> journey_plan \<Rightarrow> (instant \<Rightarrow> payload) list" where
  "plan_steps sha256 x pl =
     (if jp_registers pl then [registered_payload sha256 x] else []) @
     session_payload x (jp_session pl) (jp_device pl) (jp_device_type pl) (jp_ip pl) (jp_country pl) #
     map (viewed_payload x (jp_session pl)) (jp_views pl) @
     purchase_steps x (jp_session pl) (jp_device pl) (jp_ip pl) (jp_country pl) (jp_purchase pl)"

definition cart_script_ok :: "product list \<Rightarrow> product \<Rightarrow> int \<Rightarrow> bool" where
  "cart_script_ok views p q \<longleftrightarrow> p \<in> set views \<and> 1 \<le> q \<and> q \<le> 3"

fun purchase_ok :: "nat \<Rightarrow> product list \<Rightarrow> purchase_plan \<Rightarrow> bool" where
  "purchase_ok attempts views Browse \<longleftrightarrow> True"
| "purchase_ok attempts views (Cart cart p q) \<longleftrightarrow> cart_script_ok views p q"
| "purchase_ok attempts views (Buy cart p q disc order_id fails success) \<longleftrightarrow>
     cart_script_ok views p q \<and> 0 \<le> disc \<and> disc \<le> pr_price p * of_int q / 4 \<and>
     1 \<le> length fails + (if success = None then 0 else 1) \<and>
     length fails + (if success = None then 0 else 1) \<le> attempts"

definition plan_ok :: "nat \<Rightarrow> nat \<Rightarrow> journey_plan \<Rightarrow> bool" where
  "plan_ok max_views attempts pl \<longleftrightarrow> jp_views pl \<noteq> [] \<and> length (jp_views pl) \<le> max_views \<and>
     set (jp_views pl) \<subseteq> set PRODUCT_CATALOGUE \<and> country_code (jp_country pl) \<and>
     purchase_ok attempts (jp_views pl) (jp_purchase pl)"

section \<open>The journal\<close>

definition same_customer :: "customer_state \<Rightarrow> customer_state \<Rightarrow> bool" where
  "same_customer x y \<longleftrightarrow> gcu_id y = gcu_id x \<and> gcu_persona y = gcu_persona x \<and>
     gcu_home_country y = gcu_home_country x \<and> gcu_preferred_currency y = gcu_preferred_currency x \<and>
     gcu_last_activity y = gcu_last_activity x"

definition customer_ok :: "customer_state \<Rightarrow> bool" where
  "customer_ok x \<longleftrightarrow> gcu_home_country x = ''TR'' \<and> gcu_known_device_ids x \<noteq> [] \<and> gcu_known_ip_addresses x \<noteq> []"

definition realises :: "uuid \<Rightarrow> (instant \<Rightarrow> payload) list \<Rightarrow> envelope list \<Rightarrow> bool" where
  "realises corr fs evs \<longleftrightarrow>
     list_all2 (\<lambda>f e. \<exists>i. e = generated_event i (payload_type (f (ev_event_time e))) corr (f (ev_event_time e)) (ev_event_time e)) fs evs"

lemma realises_length: "realises corr fs evs \<Longrightarrow> length evs = length fs"
  unfolding realises_def by (rule list_all2_lengthD [symmetric])

definition journal :: "customer_state \<Rightarrow> uuid \<Rightarrow> instant \<Rightarrow> (instant \<Rightarrow> payload) list \<Rightarrow> instant \<Rightarrow> work \<Rightarrow> bool" where
  "journal x corr start fs t w \<longleftrightarrow> same_customer x (wk_customer w) \<and> customer_ok (wk_customer w) \<and>
     wk_cursor w = t \<and> realises corr fs (wk_events w) \<and> start \<le> t \<and>
     sorted (map ev_event_time (wk_events w)) \<and> (\<forall>e \<in> set (wk_events w). start \<le> ev_event_time e \<and> ev_event_time e \<le> t)"

text \<open>One rule per operation of the builder; what follows an operation is its continuation \<open>k\<close>.\<close>

lemma gen_rule:
  assumes "\<And>g. R (fst (f g))" and "\<And>y. R y \<Longrightarrow> triple (journal x corr start fs t) (k y) Q"
  shows "triple (journal x corr start fs t) (State_Monad.bind (gen f) k) Q"
  unfolding triple_def
proof (intro allI impI)
  fix w assume w: "journal x corr start fs t w"
  obtain y g where yg: "f (wk_gen w) = (y, g)" by (rule prod.exhaust)
  have "R y" using assms(1) [of "wk_gen w"] yg by simp
  moreover have "journal x corr start fs t (w\<lparr>wk_gen := g\<rparr>)" using w by (simp add: journal_def)
  ultimately show "case run_state (State_Monad.bind (gen f) k) w of (x, s') \<Rightarrow> Q x s'"
    using assms(2) [of y] yg by (simp add: triple_def gen_def)
qed

lemma draw_rule:
  "(\<And>y. triple (journal x corr start fs t) (k y) Q) \<Longrightarrow>
   triple (journal x corr start fs t) (State_Monad.bind (gen f) k) Q"
  by (rule gen_rule [where R = "\<lambda>_. True"]) simp_all

lemma working_rule:
  assumes "\<And>y. same_customer x y \<Longrightarrow> customer_ok y \<Longrightarrow> triple (journal x corr start fs t) (k y) Q"
  shows "triple (journal x corr start fs t) (State_Monad.bind working k) Q"
  using assms by (fastforce simp: triple_def working_def journal_def)

lemma change_rule:
  assumes "\<And>y. same_customer x y \<Longrightarrow> customer_ok y \<Longrightarrow> same_customer x (h y) \<and> customer_ok (h y)"
    and "triple (journal x corr start fs t) (k ()) Q"
  shows "triple (journal x corr start fs t) (State_Monad.bind (change_customer h) k) Q"
  using assms by (simp add: triple_def change_customer_def journal_def)

lemma next_rule:
  assumes "0 \<le> d" and "triple (journal x corr start fs (t + d)) (k (t + d)) Q"
  shows "triple (journal x corr start fs t) (State_Monad.bind (next_timestamp d) k) Q"
  unfolding triple_def
proof (intro allI impI)
  fix w assume "journal x corr start fs t w"
  then have "journal x corr start fs (t + d) (w\<lparr>wk_cursor := t + d\<rparr>)" "wk_cursor w = t"
    using assms(1) by (auto simp: journal_def)
  with assms(2) show "case run_state (State_Monad.bind (next_timestamp d) k) w of (x, s') \<Rightarrow> Q x s'"
    by (simp add: triple_def next_timestamp_def)
qed

lemma append_rule:
  assumes "p = f t" and "payload_type (f t) = ty"
    and "triple (journal x corr start (fs @ [f]) t) (k ()) Q"
  shows "triple (journal x corr start fs t) (State_Monad.bind (append_event ty corr p t) k) Q"
  unfolding append_event_def State_Monad.bind_assoc
proof (rule draw_rule)
  fix i
  have "journal x corr start (fs @ [f]) t (w\<lparr>wk_events := wk_events w @ [generated_event i ty corr p t]\<rparr>)"
    if w: "journal x corr start fs t w" for w
  proof -
    have "realises corr (fs @ [f]) (wk_events w @ [generated_event i ty corr p t])"
      using w assms(1,2) unfolding journal_def realises_def by (auto simp: generated_event_def intro!: list_all2_appendI)
    with w show ?thesis by (auto simp: journal_def sorted_append generated_event_def)
  qed
  with assms(3) show "triple (journal x corr start fs t)
     (State_Monad.bind (State (\<lambda>w. ((), w\<lparr>wk_events := wk_events w @ [generated_event i ty corr p t]\<rparr>))) k) Q"
    by (simp add: triple_def)
qed

section \<open>The operations\<close>

text \<open>The form of the postconditions: the journal was extended by these steps.\<close>

definition extended ::
  "customer_state \<Rightarrow> uuid \<Rightarrow> instant \<Rightarrow> (instant \<Rightarrow> payload) list \<Rightarrow> ('a \<Rightarrow> (instant \<Rightarrow> payload) list \<Rightarrow> bool) \<Rightarrow> 'a \<Rightarrow> work \<Rightarrow> bool" where
  "extended x corr start fs R y w \<longleftrightarrow> (\<exists>fs' t. R y fs' \<and> journal x corr start (fs @ fs') t w)"

lemma extended_bind:
  assumes "triple (journal x corr start fs t) m (extended x corr start fs R)"
    and "\<And>y fs' t. R y fs' \<Longrightarrow> triple (journal x corr start (fs @ fs') t) (k y) Q"
  shows "triple (journal x corr start fs t) (State_Monad.bind m k) Q"
proof (rule triple_bind [OF assms(1)])
  fix y
  show "triple (extended x corr start fs R y) (k y) Q"
    unfolding extended_def triple_ex triple_conj using assms(2) by blast
qed

lemma extended_return:
  "R y fs' \<Longrightarrow> triple (journal x corr start (fs @ fs') t) (State_Monad.return y) (extended x corr start fs R)"
  by (rule triple_return) (auto simp: extended_def)

lemma extended_return_same:
  "R y [] \<Longrightarrow> triple (journal x corr start fs t) (State_Monad.return y) (extended x corr start fs R)"
  using extended_return [of R y "[]" x corr start fs t] by simp

lemma extended_more:
  assumes "triple (journal x corr start (fs @ fs1) t) m (extended x corr start (fs @ fs1) R1)"
    and "\<And>y fs2. R1 y fs2 \<Longrightarrow> R y (fs1 @ fs2)"
  shows "triple (journal x corr start (fs @ fs1) t) m (extended x corr start fs R)"
proof (rule triple_post [OF assms(1)])
  fix y w assume "extended x corr start (fs @ fs1) R1 y w"
  then show "extended x corr start fs R y w" unfolding extended_def using assms(2) by (metis append.assoc)
qed

lemma extended_keep:
  assumes "triple (journal x corr start fs t) m (extended x corr start fs R1)" and "\<And>y fs2. R1 y fs2 \<Longrightarrow> R y fs2"
  shows "triple (journal x corr start fs t) m (extended x corr start fs R)"
  using extended_more [of x corr start fs "[]" t m R1 R] assms by simp

lemma emit_last:
  assumes "p = f t" "payload_type (f t) = ty" "R () [f]"
  shows "triple (journal x corr start fs t) (append_event ty corr p t) (extended x corr start fs R)"
proof -
  have "triple (journal x corr start fs t) (State_Monad.bind (append_event ty corr p t) State_Monad.return) (extended x corr start fs R)"
    by (rule append_rule [where f = f, OF assms(1,2)]) (rule extended_return, rule assms(3))
  then show ?thesis by simp
qed

text \<open>The payloads only depend on what every copy of the customer has in common.\<close>

lemma payload_same:
  assumes "same_customer x y"
  shows "registered_payload sha256 y = registered_payload sha256 x"
    "session_payload y = session_payload x" "viewed_payload y = viewed_payload x" "cart_payload y = cart_payload x"
    "checkout_payload y = checkout_payload x" "order_payload y = order_payload x"
    "completed_payload y = completed_payload x" "failed_payload y = failed_payload x" "refund_payload y = refund_payload x"
  using assms
  by (simp_all add: same_customer_def fun_eq_iff registered_payload_def session_payload_def viewed_payload_def cart_payload_def
      checkout_payload_def order_payload_def completed_payload_def failed_payload_def refund_payload_def)

lemma payload_types:
  "payload_type (registered_payload sha256 x t) = USER_REGISTERED"
  "payload_type (session_payload x s dv dt ip cn t) = SESSION_STARTED"
  "payload_type (viewed_payload x s p t) = PRODUCT_VIEWED"
  "payload_type (cart_payload x s ca p q t) = ADDED_TO_CART"
  "payload_type (checkout_payload x s ca q st dc t) = CHECKOUT_STARTED"
  "payload_type (order_payload x oi s ca q st dc cn t) = ORDER_CREATED"
  "payload_type (completed_payload x pid m oi am dv ip cn t) = PAYMENT_COMPLETED"
  "payload_type (failed_payload x pid m rs oi am dv ip cn t) = PAYMENT_FAILED"
  "payload_type (refund_payload x ri pid oi am t) = REFUND_REQUESTED"
  by (simp_all add: registered_payload_def session_payload_def viewed_payload_def cart_payload_def
      checkout_payload_def order_payload_def completed_payload_def failed_payload_def refund_payload_def)

lemma emit_registration_rule:
  "triple (journal x corr start fs t) (emit_registration sha256 corr)
     (extended x corr start fs (\<lambda>_ fs'. fs' = [registered_payload sha256 x]))"
  unfolding emit_registration_def
  by (rule next_rule, simp, rule working_rule, rule emit_last [where f = "registered_payload sha256 x"])
    (simp_all add: payload_same payload_types)

lemma emit_view_rule:
  assumes "0 \<le> pp_action_delay pr"
  shows "triple (journal x corr start fs t) (emit_view pr corr session_id p)
     (extended x corr start fs (\<lambda>_ fs'. fs' = [viewed_payload x session_id p]))"
  unfolding emit_view_def
  by (rule next_rule, rule assms, rule working_rule, rule emit_last [where f = "viewed_payload x session_id p"])
    (simp_all add: payload_same payload_types)

lemma emit_views_rule:
  assumes "0 \<le> pp_action_delay pr"
  shows "triple (journal x corr start fs t) (emit_views pr corr session_id ps)
     (extended x corr start fs (\<lambda>_ fs'. fs' = map (viewed_payload x session_id) ps))"
proof (induction ps arbitrary: fs t)
  case Nil
  show ?case by (simp add: extended_return_same)
next
  case (Cons p ps)
  show ?case unfolding emit_views.simps
  proof (rule extended_bind [OF emit_view_rule [OF assms]])
    fix y fs' t assume fs': "fs' = [viewed_payload x session_id p]"
    show "triple (journal x corr start (fs @ fs') t) (emit_views pr corr session_id ps)
       (extended x corr start fs (\<lambda>_ fs'. fs' = map (viewed_payload x session_id) (p # ps)))"
      by (rule extended_more [OF Cons.IH]) (simp add: fs')
  qed
qed

text \<open>An operation that draws or reads and leaves the journal alone.\<close>

definition quietly ::
  "customer_state \<Rightarrow> uuid \<Rightarrow> instant \<Rightarrow> (instant \<Rightarrow> payload) list \<Rightarrow> instant \<Rightarrow> ('a \<Rightarrow> bool) \<Rightarrow> 'a \<Rightarrow> work \<Rightarrow> bool" where
  "quietly x corr start fs t R y w \<longleftrightarrow> R y \<and> journal x corr start fs t w"

lemma quietly_bind:
  assumes "triple (journal x corr start fs t) m (quietly x corr start fs t R)"
    and "\<And>y. R y \<Longrightarrow> triple (journal x corr start fs t) (k y) Q"
  shows "triple (journal x corr start fs t) (State_Monad.bind m k) Q"
proof (rule triple_bind [OF assms(1)])
  fix y
  show "triple (quietly x corr start fs t R y) (k y) Q" unfolding quietly_def triple_conj using assms(2) by blast
qed

lemma return_quietly: "R y \<Longrightarrow> triple (journal x corr start fs t) (State_Monad.return y) (quietly x corr start fs t R)"
  by (rule triple_return) (simp add: quietly_def)

lemma gen_quietly:
  assumes "\<And>g. R (fst (f g))"
  shows "triple (journal x corr start fs t) (gen f) (quietly x corr start fs t R)"
proof -
  have "triple (journal x corr start fs t) (State_Monad.bind (gen f) State_Monad.return) (quietly x corr start fs t R)"
    by (rule gen_rule [where R = R, OF assms]) (rule return_quietly)
  then show ?thesis by simp
qed

lemma session_device_rule:
  "triple (journal x corr start fs t) (session_device pr) (quietly x corr start fs t (\<lambda>_. True))"
  unfolding session_device_def
proof (rule draw_rule, rule triple_if)
  show "triple (journal x corr start fs t)
    (do { device_id \<leftarrow> gen new_uuid; ip \<leftarrow> gen ip_address;
          change_customer (\<lambda>x. x\<lparr>gcu_known_device_ids := gcu_known_device_ids x @ [device_id],
                                 gcu_known_ip_addresses := gcu_known_ip_addresses x @ [ip]\<rparr>);
          State_Monad.return (device_id, ip) }) (quietly x corr start fs t (\<lambda>_. True))"
    by (intro draw_rule change_rule return_quietly) (simp_all add: same_customer_def customer_ok_def)
qed (intro working_rule return_quietly, rule TrueI)

lemma session_country_rule:
  "triple (journal x corr start fs t) (session_country pr) (quietly x corr start fs t country_code)"
  unfolding session_country_def
proof (rule working_rule, rule draw_rule, rule triple_if)
  have "country_code (fst (choice [''DE'', ''GB'', ''US''] g))" for g
    using choice_in [of "[''DE'', ''GB'', ''US'']" g] by (auto simp: country_code_def)
  then show "triple (journal x corr start fs t) (gen (choice [''DE'', ''GB'', ''US''])) (quietly x corr start fs t country_code)"
    by (rule gen_quietly)
qed (rule return_quietly, simp add: customer_ok_def country_code_def)

lemma identity_rule:
  "triple (journal x corr start fs t) (identity_for_session pr) (quietly x corr start fs t (\<lambda>(dv, ip, cn). country_code cn))"
  unfolding identity_for_session_def
  by (rule quietly_bind [OF session_device_rule], clarify, rule quietly_bind [OF session_country_rule])
    (rule return_quietly, simp)

lemma device_type_rule:
  "triple (journal x corr start fs t) session_device_type (quietly x corr start fs t (\<lambda>_. True))"
  unfolding session_device_type_def
  by (rule working_rule, rule triple_if, rule return_quietly, rule TrueI) (rule gen_quietly, rule TrueI)

lemma start_session_rule:
  assumes "0 \<le> pp_action_delay pr"
  shows "triple (journal x corr start fs t) (start_session pr corr)
     (extended x corr start fs (\<lambda>(s, dv, ip, cn) fs'. country_code cn \<and> (\<exists>dt. fs' = [session_payload x s dv dt ip cn])))"
  unfolding start_session_def
proof (rule quietly_bind [OF identity_rule], clarify, rule draw_rule, rule next_rule [OF assms], rule working_rule,
    rule quietly_bind [OF device_type_rule])
  fix dv ip cn s y dt
  assume cn: "country_code cn" and y: "same_customer x y"
  let ?t = "t + pp_action_delay pr"
  show "triple (journal x corr start fs ?t)
     (do { append_event SESSION_STARTED corr (session_payload y s dv dt ip cn ?t) ?t; State_Monad.return (s, dv, ip, cn) })
     (extended x corr start fs (\<lambda>(s, dv, ip, cn) fs'. country_code cn \<and> (\<exists>dt. fs' = [session_payload x s dv dt ip cn])))"
    by (rule append_rule [where f = "session_payload x s dv dt ip cn"], simp add: payload_same [OF y], rule payload_types)
      (rule extended_return, use cn in blast)
qed

lemma next_view_rule:
  assumes "set products \<subseteq> set PRODUCT_CATALOGUE"
  shows "triple (journal x corr start fs t) (next_view pr y products)
     (quietly x corr start fs t (\<lambda>p. p \<in> set PRODUCT_CATALOGUE))"
proof -
  let ?ranked = "rank_products (gcu_persona y) PRODUCT_CATALOGUE"
  have "set ?ranked \<noteq> {}" unfolding rank_products_set by (simp add: PRODUCT_CATALOGUE_def)
  then have ranked: "?ranked \<noteq> []" by (metis set_empty)
  have rand: "fst (choice ?ranked g) \<in> set PRODUCT_CATALOGUE" for g using choice_in [OF ranked, of g] by simp
  have cyc: "?ranked ! (length products mod length ?ranked) \<in> set PRODUCT_CATALOGUE"
    using ranked nth_mem [of "length products mod length ?ranked" ?ranked] by simp
  have rest: "triple (journal x corr start fs t)
     (if again then State_Monad.return (last products)
      else if pp_high_value pr \<or> gcu_persona y = DISCOUNT_HUNTER
      then State_Monad.return (?ranked ! (length products mod length ?ranked)) else gen (choice ?ranked))
     (quietly x corr start fs t (\<lambda>p. p \<in> set PRODUCT_CATALOGUE))" if "again \<Longrightarrow> products \<noteq> []" for again
    by (rule triple_if, rule return_quietly, use that assms last_in_set in blast, rule triple_if, rule return_quietly, rule cyc)
      (rule gen_quietly, rule rand)
  show ?thesis
  proof (cases "pp_repeat_views pr \<and> products \<noteq> []")
    case True
    show ?thesis unfolding next_view_def Let_def if_P [OF True] by (rule draw_rule) (rule rest, use True in blast)
  next
    case False
    show ?thesis unfolding next_view_def Let_def if_not_P [OF False] State_Monad.bind_left_identity by (rule rest) simp
  qed
qed

lemma fill_views_rule:
  assumes "set products \<subseteq> set PRODUCT_CATALOGUE"
  shows "triple (journal x corr start fs t) (fill_views pr y n products)
     (quietly x corr start fs t (\<lambda>v. set v \<subseteq> set PRODUCT_CATALOGUE \<and> length v = length products + n))"
  using assms
proof (induction n arbitrary: products)
  case 0
  then show ?case by (simp add: return_quietly)
next
  case (Suc n)
  show ?case unfolding fill_views.simps
  proof (rule quietly_bind [OF next_view_rule [OF Suc.prems]])
    fix p assume "p \<in> set PRODUCT_CATALOGUE"
    with Suc.IH [of "products @ [p]"] Suc.prems
    show "triple (journal x corr start fs t) (fill_views pr y n (products @ [p]))
       (quietly x corr start fs t (\<lambda>v. set v \<subseteq> set PRODUCT_CATALOGUE \<and> length v = length products + Suc n))" by simp
  qed
qed

lemma prior_product_in: "set (prior_product pr y) \<subseteq> set PRODUCT_CATALOGUE" "length (prior_product pr y) \<le> 1"
proof -
  let ?seen = "filter (\<lambda>p. pr_product_id p = last (gcu_last_viewed_products y)) PRODUCT_CATALOGUE"
  have sub: "set (take 1 ?seen) \<subseteq> set PRODUCT_CATALOGUE"
    using set_take_subset filter_is_subset by (rule subset_trans)
  show "set (prior_product pr y) \<subseteq> set PRODUCT_CATALOGUE"
  proof (cases "pp_repeat_views pr \<and> gcu_last_viewed_products y \<noteq> []")
    case True
    show ?thesis unfolding prior_product_def if_P [OF True] by (rule sub)
  next
    case False
    show ?thesis unfolding prior_product_def if_not_P [OF False] by simp
  qed
  show "length (prior_product pr y) \<le> 1" by (simp add: prior_product_def)
qed

lemma view_products_rule:
  assumes "1 \<le> pp_min_views pr" "1 \<le> pp_max_views pr" "1 \<le> generator_max_product_views c"
  shows "triple (journal x corr start fs t) (view_products c pr)
     (quietly x corr start fs t (\<lambda>v. v \<noteq> [] \<and> set v \<subseteq> set PRODUCT_CATALOGUE \<and> length v \<le> nat (generator_max_product_views c)))"
  unfolding view_products_def Let_def
proof (rule working_rule)
  fix y
  let ?max = "min (pp_max_views pr) (generator_max_product_views c)"
  let ?R = "\<lambda>n. 1 \<le> n \<and> n \<le> generator_max_product_views c"
  have "?R (fst (randint (min (pp_min_views pr) ?max) ?max g))" for g
    using randint_range [of "min (pp_min_views pr) ?max" ?max g] assms by (auto simp: min_def split: if_splits)
  then show "triple (journal x corr start fs t)
     (do { n \<leftarrow> gen (randint (min (pp_min_views pr) ?max) ?max);
           fill_views pr y (nat n - length (prior_product pr y)) (prior_product pr y) })
     (quietly x corr start fs t (\<lambda>v. v \<noteq> [] \<and> set v \<subseteq> set PRODUCT_CATALOGUE \<and> length v \<le> nat (generator_max_product_views c)))"
  proof (rule gen_rule [where R = ?R])
    fix n assume n: "?R n"
    show "triple (journal x corr start fs t) (fill_views pr y (nat n - length (prior_product pr y)) (prior_product pr y))
     (quietly x corr start fs t (\<lambda>v. v \<noteq> [] \<and> set v \<subseteq> set PRODUCT_CATALOGUE \<and> length v \<le> nat (generator_max_product_views c)))"
      by (rule triple_post [OF fill_views_rule [OF prior_product_in(1)]])
        (use n prior_product_in(2) [of pr y] in \<open>auto simp: quietly_def\<close>)
  qed
qed

section \<open>The purchase\<close>

lemma sort_key_hd: "xs \<noteq> [] \<Longrightarrow> hd (sort_key f xs) \<in> set xs"
  by (metis hd_in_set set_empty set_sort)

lemma cart_product_rule:
  assumes "viewed \<noteq> []"
  shows "triple (journal x corr start fs t) (cart_product pr viewed) (quietly x corr start fs t (\<lambda>p. p \<in> set viewed))"
  unfolding cart_product_def
  by (rule working_rule, rule triple_if, rule return_quietly, rule sort_key_hd, rule assms, rule triple_if, rule return_quietly,
      rule sort_key_hd, rule assms) (rule gen_quietly, rule choice_in, rule assms)

lemma cart_identity_rule:
  "triple (journal x corr start fs t) (cart_identity pr) (quietly x corr start fs t (\<lambda>_. True))"
  unfolding cart_identity_def
proof (rule working_rule)
  fix y
  have "triple (journal x corr start fs t) (gen new_uuid) (quietly x corr start fs t (\<lambda>_. True))"
    by (rule gen_quietly) (rule TrueI)
  moreover have "triple (journal x corr start fs t) (State_Monad.return i) (quietly x corr start fs t (\<lambda>_. True))" for i :: uuid
    by (rule return_quietly) (rule TrueI)
  ultimately show "triple (journal x corr start fs t)
     (case gcu_abandoned_cart y of
        None \<Rightarrow> gen new_uuid
      | Some (cart_id, _) \<Rightarrow> if pp_reuse_abandoned_cart pr then State_Monad.return cart_id else gen new_uuid)
     (quietly x corr start fs t (\<lambda>_. True))" by (simp split: option.split)
qed

lemma add_to_cart_rule:
  assumes "0 \<le> pp_action_delay pr" "viewed \<noteq> []" "set viewed \<subseteq> set PRODUCT_CATALOGUE"
  shows "triple (journal x corr start fs t) (add_to_cart pr corr session_id viewed)
     (extended x corr start fs (\<lambda>(cart, p, q) fs'. cart_script_ok viewed p q \<and> fs' = [cart_payload x session_id cart p q]))"
  unfolding add_to_cart_def
proof (rule quietly_bind [OF cart_product_rule [OF assms(2)]])
  fix p assume p: "p \<in> set viewed"
  show "triple (journal x corr start fs t)
     (do { q \<leftarrow> gen (quantity p); y \<leftarrow> working; cart_id \<leftarrow> cart_identity pr; t \<leftarrow> next_timestamp (pp_action_delay pr);
           append_event ADDED_TO_CART corr (cart_payload y session_id cart_id p q t) t; State_Monad.return (cart_id, p, q) })
     (extended x corr start fs (\<lambda>(cart, p, q) fs'. cart_script_ok viewed p q \<and> fs' = [cart_payload x session_id cart p q]))"
  proof (rule gen_rule [where R = "\<lambda>q. 1 \<le> q \<and> q \<le> 3"], rule quantity_range, use p assms(3) in blast,
      rule working_rule, rule quietly_bind [OF cart_identity_rule], rule next_rule [OF assms(1)])
    fix q y cart
    assume q: "1 \<le> q \<and> q \<le> (3 :: int)" and y: "same_customer x y"
    let ?t = "t + pp_action_delay pr"
    show "triple (journal x corr start fs ?t)
       (do { append_event ADDED_TO_CART corr (cart_payload y session_id cart p q ?t) ?t; State_Monad.return (cart, p, q) })
       (extended x corr start fs (\<lambda>(cart, p, q) fs'. cart_script_ok viewed p q \<and> fs' = [cart_payload x session_id cart p q]))"
      by (rule append_rule [where f = "cart_payload x session_id cart p q"], simp add: payload_same [OF y], rule payload_types)
        (rule extended_return, use q p in \<open>simp add: cart_script_ok_def\<close>)
  qed
qed

lemma discount_rule:
  assumes "0 \<le> pp_discount_rate pr" "pp_discount_rate pr \<le> 1 / 5" "249 \<le> subtotal"
  shows "triple (journal x corr start fs t) (discount subtotal pr) (quietly x corr start fs t (\<lambda>d. 0 \<le> d \<and> d \<le> subtotal / 4))"
  unfolding discount_def Let_def
proof (rule working_rule, rule draw_rule, rule return_quietly)
  fix y :: customer_state and granted :: bool
  have "subtotal * pp_discount_rate pr \<le> subtotal * (1 / 5)" using assms by (intro mult_left_mono) simp_all
  then have "quantize_cents (subtotal * pp_discount_rate pr) \<le> subtotal / 4"
    using quantize_cents_near [of "subtotal * pp_discount_rate pr"] assms(3) by linarith
  moreover have "0 \<le> quantize_cents (subtotal * pp_discount_rate pr)"
    using assms by (intro quantize_cents_nonneg) simp
  ultimately show "0 \<le> (if granted then quantize_cents (subtotal * pp_discount_rate pr) else 0) \<and>
      (if granted then quantize_cents (subtotal * pp_discount_rate pr) else 0) \<le> subtotal / 4"
    using assms(3) by simp
qed

lemma checkout_rule:
  assumes "0 \<le> pp_action_delay pr"
  shows "triple (journal x corr start fs t) (start_checkout pr corr s cart q sub disc)
     (extended x corr start fs (\<lambda>_ fs'. fs' = [checkout_payload x s cart q sub disc]))"
  unfolding start_checkout_def
  by (rule next_rule, rule assms, rule working_rule, rule emit_last [where f = "checkout_payload x s cart q sub disc"])
    (simp_all add: payload_same payload_types)

lemma create_order_rule:
  assumes "0 \<le> pp_action_delay pr"
  shows "triple (journal x corr start fs t) (create_order pr corr s cart q sub disc cn)
     (extended x corr start fs (\<lambda>oid fs'. fs' = [order_payload x oid s cart q sub disc cn]))"
  unfolding create_order_def
proof (rule draw_rule, rule next_rule [OF assms], rule working_rule)
  fix oid y assume y: "same_customer x y"
  let ?t = "t + pp_action_delay pr"
  show "triple (journal x corr start fs ?t)
     (do { append_event ORDER_CREATED corr (order_payload y oid s cart q sub disc cn ?t) ?t; State_Monad.return oid })
     (extended x corr start fs (\<lambda>oid fs'. fs' = [order_payload x oid s cart q sub disc cn]))"
    by (rule append_rule [where f = "order_payload x oid s cart q sub disc cn"], simp add: payload_same [OF y], rule payload_types)
      (rule extended_return, rule refl)
qed

lemma payment_completed_rule:
  "triple (journal x corr start fs t) (payment_completed corr pid oid am dv ip cn t)
     (extended x corr start fs (\<lambda>_ fs'. \<exists>m. fs' = [completed_payload x pid m oid am dv ip cn]))"
  unfolding payment_completed_def
proof (rule working_rule, rule draw_rule)
  fix y m assume y: "same_customer x y"
  show "triple (journal x corr start fs t) (append_event PAYMENT_COMPLETED corr (completed_payload y pid m oid am dv ip cn t) t)
     (extended x corr start fs (\<lambda>_ fs'. \<exists>m. fs' = [completed_payload x pid m oid am dv ip cn]))"
    by (rule emit_last [where f = "completed_payload x pid m oid am dv ip cn"]) (auto simp: payload_same [OF y] payload_types)
qed

lemma payment_failed_rule:
  "triple (journal x corr start fs t) (payment_failed corr pid oid am dv ip cn t)
     (extended x corr start fs (\<lambda>_ fs'. \<exists>m r. fs' = [failed_payload x pid m r oid am dv ip cn]))"
  unfolding payment_failed_def
proof (rule working_rule, rule draw_rule, rule draw_rule)
  fix y m r assume y: "same_customer x y"
  show "triple (journal x corr start fs t) (append_event PAYMENT_FAILED corr (failed_payload y pid m r oid am dv ip cn t) t)
     (extended x corr start fs (\<lambda>_ fs'. \<exists>m r. fs' = [failed_payload x pid m r oid am dv ip cn]))"
    by (rule emit_last [where f = "failed_payload x pid m r oid am dv ip cn"]) (auto simp: payload_same [OF y] payload_types)
qed

definition paid ::
  "customer_state \<Rightarrow> uuid \<Rightarrow> money \<Rightarrow> uuid \<Rightarrow> string \<Rightarrow> string \<Rightarrow> nat \<Rightarrow> int \<times> uuid option \<Rightarrow> (instant \<Rightarrow> payload) list \<Rightarrow> bool" where
  "paid x oid am dv ip cn n y fs' \<longleftrightarrow> (\<exists>fails ok. snd y = map_option fst ok \<and>
     fs' = pays x oid am dv ip cn fails @ settled_by x oid am dv ip cn (map_option (\<lambda>(i, m). (i, m, None)) ok) \<and>
     length fails + (if ok = None then 0 else 1) \<le> n \<and> (0 < n \<longrightarrow> 1 \<le> length fails + (if ok = None then 0 else 1)))"

lemma paidI:
  "snd y = map_option fst ok \<Longrightarrow>
   fs' = pays x oid am dv ip cn fails @ settled_by x oid am dv ip cn (map_option (\<lambda>(i, m). (i, m, None)) ok) \<Longrightarrow>
   length fails + (if ok = None then 0 else 1) \<le> n \<Longrightarrow> 0 < n \<longrightarrow> 1 \<le> length fails + (if ok = None then 0 else 1) \<Longrightarrow>
   paid x oid am dv ip cn n y fs'"
  unfolding paid_def by blast

lemma pay_rule:
  assumes "0 \<le> pp_action_delay pr"
  shows "triple (journal x corr start fs t) (pay c seeding pr corr oid am dv ip cn n attempts)
     (extended x corr start fs (paid x oid am dv ip cn n))"
proof (induction n arbitrary: fs t attempts)
  case 0
  have "paid x oid am dv ip cn 0 (attempts, None) []"
    by (rule paidI [where fails = "[]" and ok = None]) (simp_all add: pays_def)
  then show ?case by (simp only: pay.simps) (rule extended_return_same)
next
  case (Suc n)
  show ?case unfolding pay.simps
  proof (rule draw_rule, rule next_rule [OF assms], rule draw_rule, rule triple_if)
    fix pid
    let ?t = "t + pp_action_delay pr"
    show "triple (journal x corr start fs ?t)
       (do { payment_completed corr pid oid am dv ip cn ?t; State_Monad.return (attempts + 1, Some pid) })
       (extended x corr start fs (paid x oid am dv ip cn (Suc n)))"
    proof (rule extended_bind [OF payment_completed_rule], rule extended_return)
      fix fs' :: "(instant \<Rightarrow> payload) list" assume "\<exists>m. fs' = [completed_payload x pid m oid am dv ip cn]"
      then obtain m where "fs' = [completed_payload x pid m oid am dv ip cn]" ..
      then show "paid x oid am dv ip cn (Suc n) (attempts + 1, Some pid) fs'"
        by (intro paidI [where fails = "[]" and ok = "Some (pid, m)"]) (simp_all add: pays_def)
    qed
    show "triple (journal x corr start fs ?t)
       (do { payment_failed corr pid oid am dv ip cn ?t;
             retry \<leftarrow> gen (chance (max (pp_retry_probability pr) (generator_payment_retry_probability c)));
             if retry then pay c seeding pr corr oid am dv ip cn n (attempts + 1) else State_Monad.return (attempts + 1, None) })
       (extended x corr start fs (paid x oid am dv ip cn (Suc n)))"
    proof (rule extended_bind [OF payment_failed_rule], rule draw_rule, rule triple_if)
      fix fs' :: "(instant \<Rightarrow> payload) list" and t'
      assume "\<exists>m r. fs' = [failed_payload x pid m r oid am dv ip cn]"
      then obtain m r where fs': "fs' = [failed_payload x pid m r oid am dv ip cn]" by blast
      show "triple (journal x corr start (fs @ fs') t') (pay c seeding pr corr oid am dv ip cn n (attempts + 1))
         (extended x corr start fs (paid x oid am dv ip cn (Suc n)))"
      proof (rule extended_more [OF Suc.IH])
        fix y fs2 assume "paid x oid am dv ip cn n y fs2"
        then obtain fails ok where "snd y = map_option fst ok"
          "fs2 = pays x oid am dv ip cn fails @ settled_by x oid am dv ip cn (map_option (\<lambda>(i, m). (i, m, None)) ok)"
          "length fails + (if ok = None then 0 else 1) \<le> n" unfolding paid_def by blast
        then show "paid x oid am dv ip cn (Suc n) y (fs' @ fs2)"
          by (intro paidI [where fails = "(pid, m, r) # fails" and ok = ok]) (simp_all add: fs' pays_def)
      qed
      have "paid x oid am dv ip cn (Suc n) (attempts + 1, None) fs'"
        by (rule paidI [where fails = "[(pid, m, r)]" and ok = None]) (simp_all add: fs' pays_def)
      then show "triple (journal x corr start (fs @ fs') t') (State_Monad.return (attempts + 1, None))
         (extended x corr start fs (paid x oid am dv ip cn (Suc n)))" by (rule extended_return)
    qed
  qed
qed

definition attempts_limit :: "generator_config \<Rightarrow> persona_profile \<Rightarrow> nat" where
  "attempts_limit c pr = nat (if pp_retry_probability pr > 0 then generator_max_payment_attempts c else 1)"

lemma refund_rule:
  assumes "0 \<le> pp_action_delay pr"
  shows "triple (journal x corr start fs t) (request_refund pr corr pid oid am)
     (extended x corr start fs (\<lambda>_ fs'. \<exists>ri. fs' = [refund_payload x ri pid oid am]))"
  unfolding request_refund_def
proof (rule next_rule [OF assms], rule draw_rule, rule working_rule)
  fix ri y assume y: "same_customer x y"
  let ?t = "t + pp_action_delay pr"
  show "triple (journal x corr start fs ?t) (append_event REFUND_REQUESTED corr (refund_payload y ri pid oid am ?t) ?t)
     (extended x corr start fs (\<lambda>_ fs'. \<exists>ri. fs' = [refund_payload x ri pid oid am]))"
    by (rule emit_last [where f = "refund_payload x ri pid oid am"]) (auto simp: payload_same [OF y] payload_types)
qed

definition bought ::
  "customer_state \<Rightarrow> uuid \<Rightarrow> uuid \<Rightarrow> string \<Rightarrow> string \<Rightarrow> uuid \<Rightarrow> product \<Rightarrow> int \<Rightarrow> money \<Rightarrow> nat \<Rightarrow> (instant \<Rightarrow> payload) list \<Rightarrow> bool" where
  "bought x s dv ip cn cart p q disc n fs' \<longleftrightarrow> (\<exists>oid fails success.
     cart_payload x s cart p q # fs' = purchase_steps x s dv ip cn (Buy cart p q disc oid fails success) \<and>
     1 \<le> length fails + (if success = None then 0 else 1) \<and> length fails + (if success = None then 0 else 1) \<le> n)"

lemma boughtI:
  "cart_payload x s cart p q # fs' = purchase_steps x s dv ip cn (Buy cart p q disc oid fails success) \<Longrightarrow>
   1 \<le> length fails + (if success = None then 0 else 1) \<Longrightarrow> length fails + (if success = None then 0 else 1) \<le> n \<Longrightarrow>
   bought x s dv ip cn cart p q disc n fs'"
  unfolding bought_def by blast

lemma purchase_rule:
  assumes "0 \<le> pp_action_delay pr" "1 \<le> generator_max_payment_attempts c"
  shows "triple (journal x corr start fs t) (purchase c seeding pr corr s dv ip cn cart p q disc)
     (extended x corr start fs (\<lambda>_. bought x s dv ip cn cart p q disc (attempts_limit c pr)))"
  unfolding purchase_def Let_def
proof (rule extended_bind [OF checkout_rule [OF assms(1)]], rule extended_bind [OF create_order_rule [OF assms(1)]])
  fix fs1 fs2 :: "(instant \<Rightarrow> payload) list" and oid t1
  let ?sub = "pr_price p * of_int q"
  let ?post = "\<lambda>_. bought x s dv ip cn cart p q disc (attempts_limit c pr)"
  assume fs12: "fs1 = [checkout_payload x s cart q ?sub disc]" "fs2 = [order_payload x oid s cart q ?sub disc cn]"
  have limit: "0 < attempts_limit c pr" using assms(2) by (simp add: attempts_limit_def)
  show "triple (journal x corr start ((fs @ fs1) @ fs2) t1)
     (do { (attempts, successful) \<leftarrow> payments c seeding pr corr oid (?sub - disc) dv ip cn;
           case successful of
             None \<Rightarrow> State_Monad.return (oid, attempts)
           | Some pid \<Rightarrow>
               do { refund \<leftarrow> gen (chance (probability c seeding pr Refund_branch));
                    (if refund then request_refund pr corr pid oid (?sub - disc) else State_Monad.return ());
                    State_Monad.return (oid, attempts) } }) (extended x corr start fs ?post)"
    unfolding payments_def attempts_limit_def [symmetric]
  proof (rule extended_bind [OF pay_rule [OF assms(1)]], clarify)
    fix a success fs3 t3 assume "paid x oid (?sub - disc) dv ip cn (attempts_limit c pr) (a, success) fs3"
    then obtain fails ok where ok: "success = map_option fst ok"
      "fs3 = pays x oid (?sub - disc) dv ip cn fails @
         settled_by x oid (?sub - disc) dv ip cn (map_option (\<lambda>(i, m). (i, m, None)) ok)"
      "length fails + (if ok = None then 0 else 1) \<le> attempts_limit c pr" "1 \<le> length fails + (if ok = None then 0 else 1)"
      using limit unfolding paid_def by auto
    have all: "?post (oid, a) (fs1 @ fs2 @ fs3)"
      by (rule boughtI [where oid = oid and fails = fails and success = "map_option (\<lambda>(i, m). (i, m, None)) ok"])
        (use ok in \<open>simp_all add: fs12\<close>)
    have finish: "triple (journal x corr start (((fs @ fs1) @ fs2) @ fs3) t) (State_Monad.return (oid, a)) (extended x corr start fs ?post)" for t
      using all by (simp only: append_assoc) (rule extended_return)
    show "triple (journal x corr start (((fs @ fs1) @ fs2) @ fs3) t3)
       (case success of
          None \<Rightarrow> State_Monad.return (oid, a)
        | Some pid \<Rightarrow>
            do { refund \<leftarrow> gen (chance (probability c seeding pr Refund_branch));
                 (if refund then request_refund pr corr pid oid (?sub - disc) else State_Monad.return ());
                 State_Monad.return (oid, a) }) (extended x corr start fs ?post)"
    proof (cases ok)
      case None
      then show ?thesis using finish ok(1) by simp
    next
      case (Some im)
      obtain i m where im: "im = (i, m)" by (rule prod.exhaust)
      have "triple (journal x corr start (((fs @ fs1) @ fs2) @ fs3) t3)
         (do { request_refund pr corr i oid (?sub - disc); State_Monad.return (oid, a) }) (extended x corr start fs ?post)"
      proof (rule extended_bind [OF refund_rule [OF assms(1)]])
        fix fs4 t4 assume "\<exists>ri. fs4 = [refund_payload x ri i oid (?sub - disc)]"
        then obtain ri where fs4: "fs4 = [refund_payload x ri i oid (?sub - disc)]" ..
        have "?post (oid, a) (fs1 @ fs2 @ fs3 @ fs4)"
          by (rule boughtI [where oid = oid and fails = fails and success = "Some (i, m, Some ri)"])
            (use ok Some im in \<open>simp_all add: fs12 fs4\<close>)
        then show "triple (journal x corr start ((((fs @ fs1) @ fs2) @ fs3) @ fs4) t4) (State_Monad.return (oid, a)) (extended x corr start fs ?post)"
          by (simp only: append_assoc) (rule extended_return)
      qed
      then show ?thesis using finish ok(1) Some im by (auto intro!: draw_rule)
    qed
  qed
qed

section \<open>The journey\<close>

lemma shop_rule:
  assumes "0 \<le> pp_action_delay pr" "0 \<le> pp_discount_rate pr" "pp_discount_rate pr \<le> 1 / 5"
    and "1 \<le> generator_max_payment_attempts c" "viewed \<noteq> []" "set viewed \<subseteq> set PRODUCT_CATALOGUE"
  shows "triple (journal x corr start fs t) (shop c seeding pr corr s dv ip cn viewed)
     (extended x corr start fs (\<lambda>_ fs'. \<exists>pp. purchase_ok (attempts_limit c pr) viewed pp \<and> fs' = purchase_steps x s dv ip cn pp))"
    (is "triple _ _ (extended x corr start fs ?post)")
  unfolding shop_def Let_def
proof (rule draw_rule, rule triple_if)
  have "?post (None, 0) []" by (intro exI [of _ Browse]) simp
  then show "triple (journal x corr start fs t) (State_Monad.return (None, 0)) (extended x corr start fs ?post)"
    by (rule extended_return_same)
next
  show "triple (journal x corr start fs t)
     (do { (cart_id, p, q) \<leftarrow> add_to_cart pr corr s viewed;
           disc \<leftarrow> discount (pr_price p * of_int q) pr;
           x \<leftarrow> working;
           checks_out \<leftarrow> gen (chance (if gcu_persona x = DISCOUNT_HUNTER \<and> disc = 0
               then min (probability c seeding pr Checkout_branch) (10 / 100) else probability c seeding pr Checkout_branch));
           if \<not> checks_out
           then do { change_customer (\<lambda>x. x\<lparr>gcu_abandoned_cart := Some (cart_id, pr_product_id p)\<rparr>); State_Monad.return (None, 0) }
           else do { (order_id, attempts) \<leftarrow> purchase c seeding pr corr s dv ip cn cart_id p q disc;
                     State_Monad.return (Some order_id, attempts) } }) (extended x corr start fs ?post)"
  proof (rule extended_bind [OF add_to_cart_rule [OF assms(1,5,6)]], clarify)
    fix cart p q and t1
    assume ok: "cart_script_ok viewed p q"
    have price: "249 \<le> pr_price p" using ok assms(6) catalogue_facts(2) [of p] by (auto simp: cart_script_ok_def)
    have "pr_price p * 1 \<le> pr_price p * of_int q" using ok price by (intro mult_left_mono) (auto simp: cart_script_ok_def)
    then have sub: "249 \<le> pr_price p * of_int q" using price by linarith
    show "triple (journal x corr start (fs @ [cart_payload x s cart p q]) t1)
     (do { disc \<leftarrow> discount (pr_price p * of_int q) pr;
           x \<leftarrow> working;
           checks_out \<leftarrow> gen (chance (if gcu_persona x = DISCOUNT_HUNTER \<and> disc = 0
               then min (probability c seeding pr Checkout_branch) (10 / 100) else probability c seeding pr Checkout_branch));
           if \<not> checks_out
           then do { change_customer (\<lambda>x. x\<lparr>gcu_abandoned_cart := Some (cart, pr_product_id p)\<rparr>); State_Monad.return (None, 0) }
           else do { (order_id, attempts) \<leftarrow> purchase c seeding pr corr s dv ip cn cart p q disc;
                     State_Monad.return (Some order_id, attempts) } }) (extended x corr start fs ?post)"
    proof (rule quietly_bind [OF discount_rule [OF assms(2,3) sub]], rule working_rule, rule draw_rule, rule triple_if)
      fix disc assume disc: "0 \<le> disc \<and> disc \<le> pr_price p * of_int q / 4"
      have "?post (None, 0) [cart_payload x s cart p q]" by (intro exI [of _ "Cart cart p q"]) (simp add: ok)
      then show "triple (journal x corr start (fs @ [cart_payload x s cart p q]) t1)
        (do { change_customer (\<lambda>x. x\<lparr>gcu_abandoned_cart := Some (cart, pr_product_id p)\<rparr>); State_Monad.return (None, 0) })
        (extended x corr start fs ?post)"
        by (intro change_rule extended_return) (simp_all add: same_customer_def customer_ok_def)
      show "triple (journal x corr start (fs @ [cart_payload x s cart p q]) t1)
        (do { (order_id, attempts) \<leftarrow> purchase c seeding pr corr s dv ip cn cart p q disc; State_Monad.return (Some order_id, attempts) })
        (extended x corr start fs ?post)"
      proof (rule extended_bind [OF purchase_rule [OF assms(1,4)]], clarify)
        fix oid a fs2 t2 assume "bought x s dv ip cn cart p q disc (attempts_limit c pr) fs2"
        then obtain oid' fails success where b:
          "[cart_payload x s cart p q] @ fs2 = purchase_steps x s dv ip cn (Buy cart p q disc oid' fails success)"
          "1 \<le> length fails + (if success = None then 0 else 1)" "length fails + (if success = None then 0 else 1) \<le> attempts_limit c pr"
          unfolding bought_def by auto
        have "?post (Some oid, a) ([cart_payload x s cart p q] @ fs2)"
          unfolding b(1) by (intro exI [of _ "Buy cart p q disc oid' fails success"]) (use b ok disc in simp)
        then show "triple (journal x corr start ((fs @ [cart_payload x s cart p q]) @ fs2) t2) (State_Monad.return (Some oid, a))
           (extended x corr start fs ?post)" unfolding append_assoc by (rule extended_return)
      qed
    qed
  qed
qed

definition planned ::
  "generator_config \<Rightarrow> (string \<Rightarrow> string) \<Rightarrow> persona_profile \<Rightarrow> bool \<Rightarrow> customer_state \<Rightarrow> (instant \<Rightarrow> payload) list \<Rightarrow> bool" where
  "planned c sha256 pr is_returning x fs \<longleftrightarrow> (\<exists>pl. jp_registers pl = (\<not> is_returning) \<and>
     plan_ok (nat (generator_max_product_views c)) (attempts_limit c pr) pl \<and> fs = plan_steps sha256 x pl)"

lemma journey_rule:
  assumes "0 \<le> pp_action_delay pr" "0 \<le> pp_discount_rate pr" "pp_discount_rate pr \<le> 1 / 5" "1 \<le> pp_min_views pr" "1 \<le> pp_max_views pr"
    and "1 \<le> generator_max_payment_attempts c" "1 \<le> generator_max_product_views c"
    and "run_state (journey_steps c sha256 seeding pr is_returning) w = ((corr, s, oid, a), w')"
    and "wk_events w = []" "wk_customer w = x" "wk_cursor w = start" "customer_ok x"
  shows "\<exists>fs t. planned c sha256 pr is_returning x fs \<and> journal x corr start fs t w'"
proof -
  obtain corr0 g where cg: "new_uuid (wk_gen w) = (corr0, g)" by (rule prod.exhaust)
  let ?w = "w\<lparr>wk_gen := g\<rparr>"
  let ?rest = "do { (if is_returning then State_Monad.return () else emit_registration sha256 corr0);
      (session_id, device_id, ip, country) \<leftarrow> start_session pr corr0;
      viewed \<leftarrow> view_products c pr;
      emit_views pr corr0 session_id viewed;
      (order_id, attempts) \<leftarrow> shop c seeding pr corr0 session_id device_id ip country viewed;
      State_Monad.return (corr0, session_id, order_id, attempts) }"
  let ?post = "\<lambda>y fs. fst y = corr0 \<and> planned c sha256 pr is_returning x fs"
  have run: "run_state ?rest ?w = ((corr, s, oid, a), w')"
    using assms(8) unfolding journey_steps_def by (simp add: gen_def cg)
  have J: "journal x corr0 start [] start ?w"
    using assms(9-12) by (simp add: journal_def same_customer_def realises_def)
  have "triple (journal x corr0 start [] start) ?rest (extended x corr0 start [] ?post)"
  proof (rule extended_bind [where R = "\<lambda>_ fs'. fs' = (if is_returning then [] else [registered_payload sha256 x])"])
    show "triple (journal x corr0 start [] start) (if is_returning then State_Monad.return () else emit_registration sha256 corr0)
      (extended x corr0 start [] (\<lambda>_ fs'. fs' = (if is_returning then [] else [registered_payload sha256 x])))"
      using extended_return_same [of "\<lambda>_ fs'. fs' = []" "()" x corr0 start "[]" start] emit_registration_rule by (cases is_returning) simp_all
    fix y :: unit and fs1 t1 assume fs1: "fs1 = (if is_returning then [] else [registered_payload sha256 x])"
    show "triple (journal x corr0 start ([] @ fs1) t1)
      (do { (session_id, device_id, ip, country) \<leftarrow> start_session pr corr0;
            viewed \<leftarrow> view_products c pr;
            emit_views pr corr0 session_id viewed;
            (order_id, attempts) \<leftarrow> shop c seeding pr corr0 session_id device_id ip country viewed;
            State_Monad.return (corr0, session_id, order_id, attempts) }) (extended x corr0 start [] ?post)"
    proof (rule extended_bind [OF start_session_rule [OF assms(1)]], clarify)
      fix s dv ip cn and t2 dt assume cn: "country_code cn"
      show "triple (journal x corr0 start (([] @ fs1) @ [session_payload x s dv dt ip cn]) t2)
        (do { viewed \<leftarrow> view_products c pr; emit_views pr corr0 s viewed;
              (order_id, attempts) \<leftarrow> shop c seeding pr corr0 s dv ip cn viewed;
              State_Monad.return (corr0, s, order_id, attempts) }) (extended x corr0 start [] ?post)"
      proof (rule quietly_bind [OF view_products_rule [OF assms(4,5,7)]], rule extended_bind [OF emit_views_rule [OF assms(1)]])
        fix v :: "product list" and u :: unit and fs3 t3
        assume v: "v \<noteq> [] \<and> set v \<subseteq> set PRODUCT_CATALOGUE \<and> length v \<le> nat (generator_max_product_views c)"
          and fs3: "fs3 = map (viewed_payload x s) v"
        show "triple (journal x corr0 start ((([] @ fs1) @ [session_payload x s dv dt ip cn]) @ fs3) t3)
          (do { (order_id, attempts) \<leftarrow> shop c seeding pr corr0 s dv ip cn v; State_Monad.return (corr0, s, order_id, attempts) })
          (extended x corr0 start [] ?post)"
        proof (rule extended_bind [OF shop_rule [OF assms(1-3,6)]])
          fix y :: "uuid option \<times> int" and fs4 t4
          assume "\<exists>pp. purchase_ok (attempts_limit c pr) v pp \<and> fs4 = purchase_steps x s dv ip cn pp"
          then obtain pp where pp: "purchase_ok (attempts_limit c pr) v pp" "fs4 = purchase_steps x s dv ip cn pp" by blast
          let ?pl = "\<lparr>jp_registers = \<not> is_returning, jp_session = s, jp_device = dv, jp_device_type = dt, jp_ip = ip,
            jp_country = cn, jp_views = v, jp_purchase = pp\<rparr>"
          have "planned c sha256 pr is_returning x (((fs1 @ [session_payload x s dv dt ip cn]) @ fs3) @ fs4)"
            unfolding planned_def
            by (rule exI [of _ ?pl]) (use v cn pp fs1 fs3 in \<open>simp add: plan_ok_def plan_steps_def\<close>)
          then have "?post (corr0, s, y) (((fs1 @ [session_payload x s dv dt ip cn]) @ fs3) @ fs4)" by simp
          then have "triple (journal x corr0 start ([] @ (((fs1 @ [session_payload x s dv dt ip cn]) @ fs3) @ fs4)) t4)
            (State_Monad.return (corr0, s, y)) (extended x corr0 start [] ?post)" by (rule extended_return)
          then show "triple (journal x corr0 start (((([] @ fs1) @ [session_payload x s dv dt ip cn]) @ fs3) @ fs4) t4)
            (case y of (order_id, attempts) \<Rightarrow> State_Monad.return (corr0, s, order_id, attempts)) (extended x corr0 start [] ?post)"
            by (cases y) simp
        qed (use v in simp_all)
      qed
    qed
  qed
  with J run have "extended x corr0 start [] ?post (corr, s, oid, a) w'" by (auto simp: triple_def)
  then show ?thesis by (auto simp: extended_def)
qed

section \<open>Validity of the events of a plan\<close>

lemma plan_payload_valid:
  assumes "plan_ok n m pl" "customer_ok x" "\<And>u. sha256 u \<noteq> []" "f \<in> set (plan_steps sha256 x pl)"
  shows "payload_valid (f t) \<and> payload_customer (f t) = Some (gcu_id x)"
proof -
  have home: "country_code (gcu_home_country x)" using assms(2) by (simp add: customer_ok_def country_code_def)
  have cn: "country_code (jp_country pl)" and views: "set (jp_views pl) \<subseteq> set PRODUCT_CATALOGUE"
    and buy: "purchase_ok m (jp_views pl) (jp_purchase pl)" using assms(1) by (simp_all add: plan_ok_def)
  have view: "payload_valid (viewed_payload x s p t)" if "p \<in> set (jp_views pl)" for s p
    using catalogue_facts(1-3) [of p] that views by (auto simp: viewed_payload_def non_empty_string_def Suc_le_eq)
  have cart: "payload_valid (cart_payload x s ca p q t)" "186 < pr_price p * of_int q - d" "0 \<le> pr_price p * of_int q"
    if ok: "cart_script_ok (jp_views pl) p q" and d: "d \<le> pr_price p * of_int q / 4" for s ca p q d
  proof -
    have price: "249 < pr_price p" using ok views catalogue_facts(2) [of p] by (auto simp: cart_script_ok_def)
    have "pr_price p * 1 \<le> pr_price p * of_int q" using ok price by (intro mult_left_mono) (auto simp: cart_script_ok_def)
    then show "186 < pr_price p * of_int q - d" "0 \<le> pr_price p * of_int q" using price d by linarith+
    show "payload_valid (cart_payload x s ca p q t)" using price ok by (auto simp: cart_payload_def cart_script_ok_def)
  qed
  have refund: "0 < quantize_cents (am / 2)" if "186 < am" for am :: rat
    using quantize_cents_ge [of 100 "am / 2"] that by simp
  consider "f = registered_payload sha256 x"
    | "f = session_payload x (jp_session pl) (jp_device pl) (jp_device_type pl) (jp_ip pl) (jp_country pl)"
    | p where "p \<in> set (jp_views pl)" "f = viewed_payload x (jp_session pl) p"
    | "f \<in> set (purchase_steps x (jp_session pl) (jp_device pl) (jp_ip pl) (jp_country pl) (jp_purchase pl))"
    using assms(4) by (auto simp: plan_steps_def split: if_splits)
  then show ?thesis
  proof cases
    case 1
    with assms(3) home show ?thesis by (simp add: registered_payload_def email_hash_def non_empty_string_def Suc_le_eq)
  next
    case 2
    with cn show ?thesis by (simp add: session_payload_def)
  next
    case 3
    with view show ?thesis by (simp add: viewed_payload_def)
  next
    case 4
    show ?thesis
    proof (cases "jp_purchase pl")
      case Browse
      with 4 show ?thesis by simp
    next
      case (Cart ca p q)
      have "0 \<le> pr_price p * of_int q / 4" using cart(3) [of p q 0] buy Cart catalogue_facts(2) [of p] views
        by (auto simp: cart_script_ok_def)
      with 4 buy Cart cart(1) [of p q 0] show ?thesis by (simp add: cart_payload_def)
    next
      case (Buy ca p q d oid fails success)
      then have ok: "cart_script_ok (jp_views pl) p q" "0 \<le> d" "d \<le> pr_price p * of_int q / 4" using buy by simp_all
      note am = cart [OF ok(1,3)]
      show ?thesis using 4 Buy ok am cn home refund [OF am(2)]
        by (cases success) (auto simp: pays_def cart_payload_def checkout_payload_def order_payload_def failed_payload_def
            completed_payload_def refund_payload_def validate_totals_def cart_script_ok_def non_empty_string_def split: option.splits)
    qed
  qed
qed

lemma realises_wf:
  assumes "realises corr fs evs" "\<And>f t. f \<in> set fs \<Longrightarrow> payload_valid (f t) \<and> payload_customer (f t) = Some i" "e \<in> set evs"
  shows "event_wf e \<and> ev_event_version e = CURRENT_EVENT_VERSION \<and> ev_source e = ''event-generator'' \<and>
    ev_correlation_id e = corr \<and> payload_customer (ev_payload e) = Some i \<and> ev_produced_at e = ev_event_time e"
proof -
  obtain n where n: "n < length evs" "e = evs ! n" using assms(3) by (metis in_set_conv_nth)
  have "\<exists>j. e = generated_event j (payload_type ((fs ! n) (ev_event_time e))) corr ((fs ! n) (ev_event_time e)) (ev_event_time e)"
    using assms(1) n(1) unfolding realises_def list_all2_conv_all_nth n(2) by metis
  then obtain j p where e: "e = generated_event j (payload_type p) corr p (ev_event_time e)" "p = (fs ! n) (ev_event_time e)" by blast
  have "fs ! n \<in> set fs" using assms(1) n unfolding realises_def list_all2_conv_all_nth by simp
  then have "payload_valid p" "payload_customer p = Some i" using assms(2) e(2) by blast+
  then have "event_wf (generated_event j (payload_type p) corr p t) \<and> payload_customer (ev_payload (generated_event j (payload_type p) corr p t)) = Some i" for t
    by (simp add: generated_event_def event_wf_def validate_contract_consistency_def MAX_PRODUCER_CLOCK_SKEW_def
        CURRENT_EVENT_VERSION_def non_empty_string_def)
  moreover have "ev_event_version (generated_event j ty corr p t) = CURRENT_EVENT_VERSION \<and> ev_source (generated_event j ty corr p t) = ''event-generator'' \<and>
    ev_correlation_id (generated_event j ty corr p t) = corr \<and> ev_produced_at (generated_event j ty corr p t) = t" for ty t
    by (simp add: generated_event_def)
  ultimately show ?thesis using e(1) by metis
qed

section \<open>The pool of customers\<close>

definition store_ok :: "generator_config \<Rightarrow> store \<Rightarrow> bool" where
  "store_ok c st \<longleftrightarrow> distinct (map fst st) \<and> (\<forall>(k, x) \<in> set st. k = gcu_id x \<and> customer_ok x) \<and>
     int (length st) \<le> generator_customer_pool_size c"

lemma pick_Some:
  assumes "pick P st g = (Some x, g')"
  shows "x \<in> snd ` set st \<and> P x"
proof -
  have ne: "filter P (map snd st) \<noteq> []" using assms by (auto simp: pick_def)
  have "x = fst (choice (filter P (map snd st)) g)"
    using assms ne by (auto simp: pick_def split: list.splits prod.splits)
  then have "x \<in> set (filter P (map snd st))" using choice_in [OF ne, of g] by simp
  then show ?thesis by simp
qed

lemma pick_None: "fst (pick P st g) = None \<longleftrightarrow> (\<forall>x \<in> snd ` set st. \<not> P x)"
proof -
  have "fst (pick P st g) = None \<longleftrightarrow> filter P (map snd st) = []" by (auto simp: pick_def split: list.split prod.split)
  then show ?thesis by (auto simp: filter_empty_conv)
qed

text \<open>What the selection of a customer guarantees.\<close>

definition selected :: "store \<Rightarrow> customer_state \<Rightarrow> bool \<Rightarrow> bool" where
  "selected st x is_returning \<longleftrightarrow> customer_ok x \<and>
     (if is_returning then \<exists>y. map_of st (gcu_id x) = Some y \<and> gcu_last_activity y = gcu_last_activity x
      else gcu_last_activity x = None \<and> gcu_abandoned_cart x = None)"

lemma stored_selected:
  assumes "store_ok c st" "x \<in> snd ` set st"
  shows "selected st x True" "selected st (x\<lparr>gcu_persona := p\<rparr>) True"
proof -
  have "(gcu_id x, x) \<in> set st" "customer_ok x" using assms by (auto simp: store_ok_def)
  moreover from this have "map_of st (gcu_id x) = Some x" using assms(1) by (simp add: store_ok_def)
  ultimately show "selected st x True" "selected st (x\<lparr>gcu_persona := p\<rparr>) True"
    by (simp_all add: selected_def customer_ok_def)
qed

lemma create_customer_cases:
  "create_customer c st persona t g = (Inr x, g') \<Longrightarrow> int (length st) < generator_customer_pool_size c \<and> selected st x False \<and>
     gcu_persona x = persona \<and> gcu_id x = uuid4 (sy_bits g (sy_uuid_pos g))"
  "create_customer c st persona t g = (Inl e, g') \<Longrightarrow> int (length st) \<ge> generator_customer_pool_size c \<and> e = Pool_full"
  by (auto simp: create_customer_def new_customer_def selected_def customer_ok_def new_uuid_def split: if_splits prod.splits)

lemma select_or_create_ok:
  assumes "store_ok c st" "select_or_create c st persona g = (Inr (x, ret), g')"
  shows "selected st x ret \<and> gcu_persona x = persona"
  using assms stored_selected(1) [OF assms(1)] create_customer_cases(1)
  by (auto simp: select_or_create_def returning_def split: prod.splits option.splits if_splits sum.splits dest!: pick_Some)

lemma select_customer_ok:
  assumes "store_ok c st" "select_customer c st persona g = (Inr (x, ret), g')"
  shows "selected st x ret"
proof (cases "persona = ACCOUNT_TAKEOVER")
  case False
  with assms select_or_create_ok show ?thesis by (auto simp: select_customer_def)
next
  case True
  obtain found g1 where tc: "pick gcu_prior_normal_history st g = (found, g1)" by (rule prod.exhaust)
  show ?thesis
  proof (cases found)
    case None
    with True tc assms select_or_create_ok show ?thesis by (auto simp: select_customer_def takeover_candidate_def)
  next
    case (Some y)
    with True tc assms(2) have "x = y\<lparr>gcu_persona := ACCOUNT_TAKEOVER\<rparr>" "ret"
      by (auto simp: select_customer_def takeover_candidate_def)
    with stored_selected(2) [OF assms(1)] pick_Some tc Some show ?thesis by metis
  qed
qed

lemma finished_facts:
  "gcu_id (finished_customer evs s oid x) = gcu_id x" "customer_ok (finished_customer evs s oid x) = customer_ok x"
  "gcu_last_activity (finished_customer evs s oid x) = Some (ev_event_time (last evs))"
proof -
  have step: "gcu_id (remember_event p y) = gcu_id y" "customer_ok (remember_event p y) = customer_ok y" for p y
    by (cases p; simp add: Let_def customer_ok_def)+
  have "gcu_id (fold (\<lambda>e. remember_event (ev_payload e)) evs y) = gcu_id y \<and>
    customer_ok (fold (\<lambda>e. remember_event (ev_payload e)) evs y) = customer_ok y" for y
    by (induction evs arbitrary: y) (simp_all add: step)
  then show "gcu_id (finished_customer evs s oid x) = gcu_id x" "customer_ok (finished_customer evs s oid x) = customer_ok x"
    "gcu_last_activity (finished_customer evs s oid x) = Some (ev_event_time (last evs))"
    by (simp_all add: finished_customer_def Let_def customer_ok_def)
qed

lemma length_alist_update:
  "length (AList.update k v xs) = (if k \<in> fst ` set xs then length xs else Suc (length xs))"
  by (induction xs) auto

lemma commit_ok:
  assumes "store_ok c st" "customer_ok y" "commit_customer c y st = Inr st'"
  shows "store_ok c st'"
proof -
  have st': "st' = AList.update (gcu_id y) y st" and room: "map_of st (gcu_id y) = None \<Longrightarrow> int (length st) < generator_customer_pool_size c"
    using assms(3) by (auto simp: commit_customer_def split: if_splits)
  have "distinct (map fst st')" using assms(1) by (simp add: st' store_ok_def distinct_update)
  moreover have "\<forall>(k, x) \<in> set st'. k = gcu_id x \<and> customer_ok x"
  proof clarify
    fix k x assume "(k, x) \<in> set st'"
    then have "map_of st' k = Some x" using \<open>distinct (map fst st')\<close> by simp
    then have "(k = gcu_id y \<and> x = y) \<or> map_of st k = Some x" by (auto simp: st' split: if_splits)
    then show "k = gcu_id x \<and> customer_ok x" using assms(1,2) by (auto simp: store_ok_def dest: map_of_SomeD)
  qed
  moreover have "int (length st') \<le> generator_customer_pool_size c"
  proof (cases "map_of st (gcu_id y)")
    case None
    then have "length st' = Suc (length st)" unfolding st' by (simp add: length_alist_update map_of_eq_None_iff)
    with room [OF None] show ?thesis by simp
  next
    case (Some z)
    then have "gcu_id y \<in> fst ` set st" by (rule map_of_in_keys)
    then have "length st' = length st" unfolding st' by (simp add: length_alist_update)
    with assms(1) show ?thesis by (simp add: store_ok_def)
  qed
  ultimately show ?thesis by (simp add: store_ok_def)
qed

section \<open>Building\<close>

text \<open>A build that selects its customer and reads the clock runs the journey; its journal is planned and
  its last event is not earlier than the customer's last activity plus the return delay.\<close>

lemma config_facts:
  assumes "generator_config_valid float c"
  shows "1 \<le> generator_max_payment_attempts c" "1 \<le> generator_max_product_views c"
  using assms by (simp_all add: generator_config_valid_def)

lemma start_logical_time_ge:
  assumes "start_logical_time x (profile_for p) ret g = (Inr start, g')" "ret" "gcu_last_activity x = Some t"
  shows "t \<le> start"
  using assms profile_facts(2) [of p] by (auto simp: start_logical_time_def split: prod.splits sum.splits)

lemma plan_steps_nonempty: "plan_steps sha256 x pl \<noteq> []"
  by (simp add: plan_steps_def)

lemma journal_last:
  assumes "journal x corr start fs t w" "fs \<noteq> []"
  shows "wk_events w \<noteq> []" "start \<le> ev_event_time (last (wk_events w))"
proof -
  show "wk_events w \<noteq> []" using assms by (auto simp: journal_def realises_def)
  then have "last (wk_events w) \<in> set (wk_events w)" by simp
  then show "start \<le> ev_event_time (last (wk_events w))" using assms(1) by (simp add: journal_def)
qed

definition journey_wf ::
  "generator_config \<Rightarrow> (string \<Rightarrow> string) \<Rightarrow> customer_state \<Rightarrow> journey_plan \<Rightarrow> journey_result \<Rightarrow> bool" where
  "journey_wf c sha256 x pl r \<longleftrightarrow>
     plan_ok (nat (generator_max_product_views c)) (attempts_limit c (profile_for (gcu_persona x))) pl \<and>
     customer_ok x \<and> gcu_id x = jr_customer_id r \<and> jp_registers pl = (\<not> jr_returning_customer r) \<and>
     realises (jr_correlation_id r) (plan_steps sha256 x pl) (jr_events r) \<and> sorted (map ev_event_time (jr_events r))"

definition built ::
  "generator_config \<Rightarrow> (string \<Rightarrow> string) \<Rightarrow> store \<Rightarrow> customer_state \<Rightarrow> customer_state \<Rightarrow> journey_result \<Rightarrow> bool" where
  "built c sha256 st x y r \<longleftrightarrow> selected st x (jr_returning_customer r) \<and> gcu_id y = gcu_id x \<and> customer_ok y \<and>
     gcu_last_activity y = Some (ev_event_time (last (jr_events r))) \<and>
     (\<forall>t. jr_returning_customer r \<longrightarrow> gcu_last_activity x = Some t \<longrightarrow> t \<le> ev_event_time (last (jr_events r))) \<and>
     (\<exists>pl. journey_wf c sha256 x pl r)"

lemma build_cases:
  assumes "generator_config_valid float c" "store_ok c (bu_store b)"
    and "choose_persona float c (bu_store b) (bu_gen b) = ((persona, seeding), g1)"
    and "select_customer c (bu_store b) persona g1 = (Inr (x, ret), g2)"
    and "start_logical_time x (profile_for (gcu_persona x)) ret g2 = (Inr start, g3)"
  shows "\<exists>y r. built c sha256 (bu_store b) x y r \<and> jr_returning_customer r = ret \<and>
    (case commit_customer c y (bu_store b) of
       Inl e \<Rightarrow> fst (build_journey float sha256 c b) = Inl e \<and> bu_store (snd (build_journey float sha256 c b)) = bu_store b
     | Inr st \<Rightarrow> fst (build_journey float sha256 c b) = Inr r \<and> bu_store (snd (build_journey float sha256 c b)) = st)"
proof -
  let ?pr = "profile_for (gcu_persona x)" and ?w = "\<lparr>wk_gen = g3, wk_cursor = start, wk_customer = x, wk_events = []\<rparr>"
  obtain corr s oid a w where run: "run_state (journey_steps c sha256 seeding ?pr ret) ?w = ((corr, s, oid, a), w)"
    by (metis prod.exhaust)
  have sel: "selected (bu_store b) x ret" by (rule select_customer_ok [OF assms(2,4)])
  have ok: "customer_ok x" using sel by (simp add: selected_def)
  obtain fs t where fs: "planned c sha256 ?pr ret x fs" and J: "journal x corr start fs t w"
    using journey_rule [OF profile_facts(1,3,4,6,7) config_facts [OF assms(1)] run _ _ _ ok] by auto
  obtain pl where pl: "jp_registers pl = (\<not> ret)" "plan_ok (nat (generator_max_product_views c)) (attempts_limit c ?pr) pl"
    "fs = plan_steps sha256 x pl" using fs by (auto simp: planned_def)
  have "fs \<noteq> []" using pl(3) plan_steps_nonempty by simp
  note last = journal_last [OF J this]
  define y where "y = finished_customer (wk_events w) s oid (wk_customer w)"
  have same: "same_customer x (wk_customer w)" "customer_ok (wk_customer w)" using J by (simp_all add: journal_def)
  have y: "gcu_id y = gcu_id x" "customer_ok y" "gcu_last_activity y = Some (ev_event_time (last (wk_events w)))"
    using same by (simp_all add: y_def finished_facts same_customer_def)
  define r where "r = \<lparr>jr_correlation_id = corr, jr_customer_id = gcu_id y, jr_events = wk_events w, jr_persona = gcu_persona y,
    jr_returning_customer = ret, jr_customer_lifetime_journeys = gcu_total_journeys y,
    jr_logical_journey_duration_ms = (ev_event_time (last (wk_events w)) - start) div 1000, jr_payment_attempt_count = a\<rparr>"
  have "journey_wf c sha256 x pl r" using pl J ok y(1) by (simp add: journey_wf_def r_def journal_def)
  moreover have "t' \<le> ev_event_time (last (wk_events w))" if "ret" "gcu_last_activity x = Some t'" for t'
    using start_logical_time_ge [OF assms(5) that] last(2) by simp
  ultimately have "built c sha256 (bu_store b) x y r" using sel y by (auto simp: built_def r_def)
  moreover have "build_journey float sha256 c b =
     (case commit_customer c y (bu_store b) of
        Inl e \<Rightarrow> (Inl e, b\<lparr>bu_gen := wk_gen w\<rparr>) | Inr st \<Rightarrow> (Inr r, \<lparr>bu_gen = wk_gen w, bu_store = st\<rparr>))"
    unfolding y_def r_def by (simp add: build_journey_def assms(3-5) Let_def run)
  moreover have "jr_returning_customer r = ret" by (simp add: r_def)
  ultimately show ?thesis by (intro exI [of _ y] exI [of _ r]) (simp split: sum.split)
qed

text \<open>Draws leave the tapes of identifiers and of the clock where they are.\<close>

definition same_tapes :: "synthetic \<Rightarrow> synthetic \<Rightarrow> bool" where
  "same_tapes g g' \<longleftrightarrow> sy_bits g' = sy_bits g \<and> sy_uuid_pos g' = sy_uuid_pos g \<and> sy_clock g' = sy_clock g"

lemma same_tapes_refl [simp]: "same_tapes g g"
  by (simp add: same_tapes_def)

lemma draw_tapes:
  "random_unit g = (u, g') \<Longrightarrow> same_tapes g g'" "choice xs g = (x, g') \<Longrightarrow> same_tapes g g'"
  "chance p g = (d, g') \<Longrightarrow> same_tapes g g'" "choices xs ws g = (x, g') \<Longrightarrow> same_tapes g g'"
  by (auto simp: same_tapes_def random_unit_def choice_def chance_def choices_def draw_def Let_def)

lemma pick_tapes: "pick P st g = (x, g') \<Longrightarrow> same_tapes g g'" "takeover_candidate st g = (y, g') \<Longrightarrow> same_tapes g g'"
proof -
  show *: "pick P st g = (x, g') \<Longrightarrow> same_tapes g g'" for P st g x g'
    by (cases "filter P (map snd st)") (auto simp: pick_def split: prod.splits dest: draw_tapes(2))
  show "takeover_candidate st g = (y, g') \<Longrightarrow> same_tapes g g'"
    by (auto simp: takeover_candidate_def split: prod.splits dest: *)
qed

lemma same_tapes_trans: "same_tapes g g1 \<Longrightarrow> same_tapes g1 g2 \<Longrightarrow> same_tapes g g2"
  by (simp add: same_tapes_def)

lemma choose_persona_tapes: "choose_persona float c st g = (ps, g') \<Longrightarrow> same_tapes g g'"
  by (auto simp: choose_persona_def split: option.splits if_splits prod.splits
      dest!: pick_tapes(2) draw_tapes(4) dest: same_tapes_trans)

lemma aware_now_Inr:
  assumes "\<forall>n. sy_clock g n \<noteq> None"
  obtains t g' where "aware_now g = (Inr t, g')" "same_tapes g g'"
proof -
  obtain t where "sy_clock g (sy_clock_pos g) = Some t" using assms by blast
  then show thesis using that by (simp add: aware_now_def same_tapes_def)
qed

lemma start_logical_time_Inr:
  assumes "\<forall>n. sy_clock g n \<noteq> None"
  obtains start g' where "start_logical_time x pr ret g = (Inr start, g')"
proof -
  obtain t g' where "aware_now g = (Inr t, g')" by (rule aware_now_Inr [OF assms])
  then show thesis using that by (simp add: start_logical_time_def)
qed

text \<open>The selection for a persona other than a takeover, with a clock that has a time zone.\<close>

lemma select_or_create_outcome:
  assumes "\<forall>n. sy_clock g n \<noteq> None"
  shows "(int (length st) < generator_customer_pool_size c \<or> generator_stateful_mode c \<and> (\<exists>x \<in> snd ` set st. gcu_persona x = persona)) \<and>
      (\<exists>x ret g'. select_or_create c st persona g = (Inr (x, ret), g') \<and> sy_clock g' = sy_clock g \<and>
         (\<not> ret \<longrightarrow> int (length st) < generator_customer_pool_size c \<and> gcu_id x = uuid4 (sy_bits g (sy_uuid_pos g)))) \<or>
    \<not> (int (length st) < generator_customer_pool_size c \<or> generator_stateful_mode c \<and> (\<exists>x \<in> snd ` set st. gcu_persona x = persona)) \<and>
      (\<exists>g'. select_or_create c st persona g = (Inl Pool_full, g'))"
proof -
  obtain found g1 where f: "returning (Some persona) st g = (found, g1)" by (rule prod.exhaust)
  have g1: "same_tapes g g1" using f pick_tapes(1) by (simp add: returning_def)
  have found: "found = None \<longleftrightarrow> \<not> (\<exists>x \<in> snd ` set st. gcu_persona x = persona)"
    using pick_None [of "\<lambda>x. gcu_persona x = persona" st g] f by (simp add: returning_def)
  obtain new g2 where n: "(if \<not> generator_stateful_mode c \<or> found = None then (True, g1)
      else if int (length st) < generator_customer_pool_size c then chance (generator_new_customer_probability c) g1 else (False, g1)) = (new, g2)"
    by (rule prod.exhaust)
  have g2: "same_tapes g g2" using n g1 draw_tapes(3) same_tapes_trans by (auto split: if_splits)
  then have "\<forall>n. sy_clock g2 n \<noteq> None" using assms by (simp add: same_tapes_def)
  then obtain t g3 where t: "aware_now g2 = (Inr t, g3)" "same_tapes g2 g3" by (rule aware_now_Inr)
  have g3: "sy_bits g3 = sy_bits g" "sy_uuid_pos g3 = sy_uuid_pos g" "sy_clock g3 = sy_clock g" "sy_clock g2 = sy_clock g"
    using g2 t(2) by (simp_all add: same_tapes_def)
  show ?thesis
  proof (cases "found \<noteq> None \<and> \<not> new")
    case True
    then obtain x where "found = Some x" by blast
    with True n f g3 found show ?thesis by (auto simp: select_or_create_def split: if_splits)
  next
    case False
    then have made: "select_or_create c st persona g =
       (case create_customer c st persona t g3 of (Inl e, g4) \<Rightarrow> (Inl e, g4) | (Inr y, g4) \<Rightarrow> (Inr (y, False), g4))"
      using f n t(1) by (auto simp: select_or_create_def split: option.splits)
    show ?thesis
    proof (cases "int (length st) < generator_customer_pool_size c")
      case room: True
      obtain y g4 where y: "create_customer c st persona t g3 = (Inr y, g4)" "sy_clock g4 = sy_clock g3"
        using room by (auto simp: create_customer_def new_uuid_def ip_address_def randint_def draw_def split: prod.splits)
      with create_customer_cases(1) [OF y(1)] made g3 room show ?thesis by auto
    next
      case full: False
      have "\<not> generator_stateful_mode c \<or> found = None" using False n full by (auto split: if_splits)
      with full made found show ?thesis by (auto simp: create_customer_def)
    qed
  qed
qed

lemma commit_built:
  assumes "store_ok c st" "built c sha256 st x y r"
    and "\<not> jr_returning_customer r \<Longrightarrow> int (length st) < generator_customer_pool_size c \<and> map_of st (gcu_id x) = None"
  shows "\<exists>st'. commit_customer c y st = Inr st'"
proof (cases "jr_returning_customer r")
  case True
  then obtain z where "map_of st (gcu_id y) = Some z" "gcu_last_activity z = gcu_last_activity x"
    using assms(2) by (auto simp: built_def selected_def)
  with True assms(2) show ?thesis by (auto simp: commit_customer_def built_def split: option.splits)
next
  case False
  with assms(3) assms(2) show ?thesis by (auto simp: commit_customer_def built_def)
qed

lemma build_committed:
  assumes "generator_config_valid float c" "store_ok c (bu_store b)" "build_journey float sha256 c b = (Inr r, b')"
  shows "\<exists>x y. built c sha256 (bu_store b) x y r \<and> commit_customer c y (bu_store b) = Inr (bu_store b')"
proof -
  obtain persona seeding g1 where ch: "choose_persona float c (bu_store b) (bu_gen b) = ((persona, seeding), g1)"
    by (metis prod.exhaust)
  obtain x ret g2 where sel: "select_customer c (bu_store b) persona g1 = (Inr (x, ret), g2)"
    using assms(3) ch by (auto simp: build_journey_def split: prod.splits sum.splits)
  obtain q g3 where q: "start_logical_time x (profile_for (gcu_persona x)) ret g2 = (q, g3)" by (rule prod.exhaust)
  obtain start where "q = Inr start" using assms(3) ch sel q by (cases q) (auto simp: build_journey_def)
  with q have st: "start_logical_time x (profile_for (gcu_persona x)) ret g2 = (Inr start, g3)" by simp
  obtain y r' where "built c sha256 (bu_store b) x y r'" "case commit_customer c y (bu_store b) of
       Inl e \<Rightarrow> fst (build_journey float sha256 c b) = Inl e \<and> bu_store (snd (build_journey float sha256 c b)) = bu_store b
     | Inr st \<Rightarrow> fst (build_journey float sha256 c b) = Inr r' \<and> bu_store (snd (build_journey float sha256 c b)) = st"
    using build_cases [OF assms(1,2) ch sel st] by blast
  with assms(3) show ?thesis by (auto split: sum.splits)
qed

lemma built_events:
  assumes "built c sha256 st x y r" "\<And>u. sha256 u \<noteq> []"
  shows "\<exists>pl. journey_wf c sha256 x pl r" "e \<in> set (jr_events r) \<Longrightarrow>
    event_wf e \<and> ev_event_version e = CURRENT_EVENT_VERSION \<and> ev_source e = ''event-generator'' \<and>
    ev_correlation_id e = jr_correlation_id r \<and> payload_customer (ev_payload e) = Some (jr_customer_id r) \<and>
    ev_produced_at e = ev_event_time e"
proof -
  show wf: "\<exists>pl. journey_wf c sha256 x pl r" using assms(1) by (simp add: built_def)
  then obtain pl where pl: "plan_ok (nat (generator_max_product_views c)) (attempts_limit c (profile_for (gcu_persona x))) pl"
    "customer_ok x" "gcu_id x = jr_customer_id r" "realises (jr_correlation_id r) (plan_steps sha256 x pl) (jr_events r)"
    by (auto simp: journey_wf_def)
  show "e \<in> set (jr_events r) \<Longrightarrow>
    event_wf e \<and> ev_event_version e = CURRENT_EVENT_VERSION \<and> ev_source e = ''event-generator'' \<and>
    ev_correlation_id e = jr_correlation_id r \<and> payload_customer (ev_payload e) = Some (jr_customer_id r) \<and>
    ev_produced_at e = ev_event_time e"
    using realises_wf [OF pl(4)] plan_payload_valid [OF pl(1,2) assms(2)] pl(3) by simp
qed

lemma settled_by_length: "length (settled_by x oid am dv ip cn success) \<le> (if success = None then 0 else 2)"
  by (cases success) (auto split: option.split)

lemma plan_length:
  assumes "plan_ok n m pl"
  shows "length (plan_steps sha256 x pl) \<le> n + m + 6"
proof (cases "jp_purchase pl")
  case (Buy ca p q d oid fails success)
  have m: "length fails + (if success = None then 0 else 1) \<le> m" using assms Buy by (simp add: plan_ok_def)
  have pay: "length fails + length (settled_by x oid am dv ip cn success) \<le> m + 1" for am dv ip cn
    using settled_by_length [of x oid am dv ip cn success] m by (cases "success = None") simp_all
  have "length (jp_views pl) \<le> n" using assms by (simp add: plan_ok_def)
  with pay [of "pr_price p * of_int q - d" "jp_device pl" "jp_ip pl" "jp_country pl"] show ?thesis
    by (simp add: plan_steps_def Buy pays_def)
qed (use assms in \<open>auto simp: plan_ok_def plan_steps_def\<close>)

lemma attempts_limit_le: "generator_config_valid float c \<Longrightarrow> attempts_limit c pr \<le> nat (generator_max_payment_attempts c)"
  by (simp add: attempts_limit_def generator_config_valid_def nat_mono)

text \<open>What a build for a given persona comes to.\<close>

lemma build_outcome:
  assumes "generator_config_valid float c" "store_ok c (bu_store b)"
    and "\<forall>n. sy_clock (bu_gen b) n \<noteq> None" "uuid4 (sy_bits (bu_gen b) (sy_uuid_pos (bu_gen b))) \<notin> fst ` set (bu_store b)"
    and "choose_persona float c (bu_store b) (bu_gen b) = ((persona, seeding), g)" "persona \<noteq> ACCOUNT_TAKEOVER"
  shows "if int (length (bu_store b)) < generator_customer_pool_size c \<or>
            generator_stateful_mode c \<and> (\<exists>x \<in> snd ` set (bu_store b). gcu_persona x = persona)
         then \<exists>r. fst (build_journey float sha256 c b) = Inr r
         else fst (build_journey float sha256 c b) = Inl Pool_full \<and> bu_store (snd (build_journey float sha256 c b)) = bu_store b"
proof -
  let ?st = "bu_store b"
  have tapes: "same_tapes (bu_gen b) g" by (rule choose_persona_tapes [OF assms(5)])
  then have clk: "\<forall>n. sy_clock g n \<noteq> None" using assms(3) by (simp add: same_tapes_def)
  have sel: "select_customer c ?st persona g = select_or_create c ?st persona g" using assms(6) by (simp add: select_customer_def)
  show ?thesis
  proof (cases "int (length ?st) < generator_customer_pool_size c \<or> generator_stateful_mode c \<and> (\<exists>x \<in> snd ` set ?st. gcu_persona x = persona)")
    case True
    then obtain x ret g' where x: "select_or_create c ?st persona g = (Inr (x, ret), g')" "sy_clock g' = sy_clock g"
      "\<not> ret \<longrightarrow> int (length ?st) < generator_customer_pool_size c \<and> gcu_id x = uuid4 (sy_bits g (sy_uuid_pos g))"
      using select_or_create_outcome [OF clk, of ?st c persona] by blast
    obtain start g3 where start: "start_logical_time x (profile_for (gcu_persona x)) ret g' = (Inr start, g3)"
      by (rule start_logical_time_Inr [of g' x "profile_for (gcu_persona x)" ret]) (use clk x(2) in simp)
    have new: "\<not> ret \<Longrightarrow> map_of ?st (gcu_id x) = None"
      using x(3) assms(4) tapes by (simp add: same_tapes_def map_of_eq_None_iff)
    obtain y r where yr: "built c sha256 ?st x y r" and ret: "jr_returning_customer r = ret" and res: "case commit_customer c y ?st of
       Inl e \<Rightarrow> fst (build_journey float sha256 c b) = Inl e \<and> bu_store (snd (build_journey float sha256 c b)) = ?st
     | Inr st \<Rightarrow> fst (build_journey float sha256 c b) = Inr r \<and> bu_store (snd (build_journey float sha256 c b)) = st"
      using build_cases [OF assms(1,2,5) _ start, of sha256] sel x(1) by auto
    obtain st' where "commit_customer c y ?st = Inr st'"
      using commit_built [OF assms(2) yr] x(3) new ret by auto
    with res True show ?thesis by auto
  next
    case False
    then obtain g' where "select_customer c ?st persona g = (Inl Pool_full, g')"
      using select_or_create_outcome [OF clk, of ?st c persona] sel by auto
    with False assms(5) show ?thesis by (auto simp: build_journey_def)
  qed
qed

section \<open>Properties\<close>

text \<open>C27: every journey follows the shopping script and every event is valid. Whatever is drawn, a build
  that returns a journey keeps the pool of customers well-formed, and the events are those of a plan:
  a registration exactly for a new customer, one session, between one and the configured number of
  product views, and then nothing, an abandoned cart, or a cart, a checkout, an order, up to the allowed
  number of payments of which only the last succeeds, and at most one refund after a success, all with
  the same customer, session, cart, order, quantity and amounts. Times do not decrease, every event
  satisfies the contracts, and there are at most six events more than views and payments allow.\<close>

theorem journeys_follow_script:
  assumes "generator_config_valid float c" and "store_ok c (bu_store b)" and "\<forall>u. sha256 u \<noteq> []"
    and "build_journey float sha256 c b = (Inr r, b')"
  shows "store_ok c (bu_store b') \<and>
    (\<exists>x pl. plan_ok (nat (generator_max_product_views c)) (attempts_limit c (profile_for (gcu_persona x))) pl \<and>
       gcu_id x = jr_customer_id r \<and> jp_registers pl = (\<not> jr_returning_customer r) \<and>
       realises (jr_correlation_id r) (plan_steps sha256 x pl) (jr_events r)) \<and>
    sorted (map ev_event_time (jr_events r)) \<and>
    (\<forall>e \<in> set (jr_events r). event_wf e \<and> payload_customer (ev_payload e) = Some (jr_customer_id r)) \<and>
    length (jr_events r) \<le> nat (generator_max_product_views c) + nat (generator_max_payment_attempts c) + 6"
proof -
  obtain x y where xy: "built c sha256 (bu_store b) x y r" "commit_customer c y (bu_store b) = Inr (bu_store b')"
    using build_committed [OF assms(1,2,4)] by blast
  have sha: "\<And>u. sha256 u \<noteq> []" using assms(3) by blast
  obtain pl where pl: "journey_wf c sha256 x pl r" using built_events(1) [OF xy(1) sha] by blast
  have "length (jr_events r) = length (plan_steps sha256 x pl)"
    using pl unfolding journey_wf_def by (blast dest: realises_length)
  also have "\<dots> \<le> nat (generator_max_product_views c) + attempts_limit c (profile_for (gcu_persona x)) + 6"
    using pl plan_length by (simp add: journey_wf_def)
  also have "\<dots> \<le> nat (generator_max_product_views c) + nat (generator_max_payment_attempts c) + 6"
    using attempts_limit_le [OF assms(1)] by simp
  finally have len: "length (jr_events r) \<le> nat (generator_max_product_views c) + nat (generator_max_payment_attempts c) + 6" .
  have "customer_ok y" using xy(1) by (simp add: built_def)
  then have "store_ok c (bu_store b')" by (rule commit_ok [OF assms(2) _ xy(2)])
  moreover have "\<forall>e \<in> set (jr_events r). event_wf e \<and> payload_customer (ev_payload e) = Some (jr_customer_id r)"
    using built_events(2) [OF xy(1) sha] by blast
  ultimately show ?thesis using pl len unfolding journey_wf_def by blast
qed

definition demo_source :: synthetic where
  "demo_source = \<lparr>sy_draws = (\<lambda>_. 0), sy_pos = 0, sy_bits = of_nat, sy_uuid_pos = 0, sy_clock = (\<lambda>_. Some 0), sy_clock_pos = 0\<rparr>"

definition demo_builder :: builder where
  "demo_builder = \<lparr>bu_gen = demo_source, bu_store = []\<rparr>"

definition demo_float :: "string \<Rightarrow> rat option" where
  "demo_float s = Some 1"

definition normal_config :: generator_config where
  "normal_config = default_generator_config\<lparr>generator_persona := Some NORMAL\<rparr>"

lemma default_weights_parse: "parse_persona_weights demo_float DEFAULT_PERSONA_WEIGHTS \<noteq> None"
  by (simp add: parse_persona_weights_def DEFAULT_PERSONA_WEIGHTS_def parse_entry_def split_once_def persona_of_def
      customer_personas_def strip_def is_space_def demo_float_def insert_commute)

lemma default_generator_config_valid: "generator_config_valid demo_float default_generator_config"
  using default_weights_parse
  by (simp add: generator_config_valid_def default_generator_config_def unit_interval_def del: not_None_eq)

lemma normal_config_valid: "generator_config_valid demo_float normal_config"
  using default_generator_config_valid by (simp add: generator_config_valid_def normal_config_def)

theorem journeys_follow_script_witness:
  "\<exists>sha256 r b. build_journey demo_float sha256 normal_config demo_builder = (Inr r, b) \<and> store_ok normal_config (bu_store b) \<and>
     (\<forall>e \<in> set (jr_events r). event_wf e)"
proof -
  let ?sha = "\<lambda>u :: string. ''h''"
  have "\<exists>r. fst (build_journey demo_float ?sha normal_config demo_builder) = Inr r"
    using build_outcome [of demo_float normal_config demo_builder NORMAL False demo_source ?sha] normal_config_valid
    by (simp add: demo_builder_def demo_source_def store_ok_def choose_persona_def normal_config_def default_generator_config_def)
  then obtain r b where run: "build_journey demo_float ?sha normal_config demo_builder = (Inr r, b)" by (metis prod.collapse)
  have "store_ok normal_config (bu_store demo_builder)"
    by (simp add: store_ok_def demo_builder_def normal_config_def default_generator_config_def)
  then show ?thesis using journeys_follow_script [OF normal_config_valid _ _ run] run by blast
qed

text \<open>When a journey can be built. With a clock that has a time zone, an unused next identifier and a
  persona other than an account takeover, a build succeeds exactly when the pool has room or, in
  stateful mode, holds a customer of that persona; otherwise it raises the error of a full pool and
  leaves the pool as it is. So without stateful mode the generator cannot build more journeys than the
  pool has places, and in stateful mode a persona that is not in a full pool stops it.\<close>

theorem build_succeeds_iff:
  assumes "generator_config_valid float c" and "store_ok c (bu_store b)"
    and "\<forall>n. sy_clock (bu_gen b) n \<noteq> None" and "uuid4 (sy_bits (bu_gen b) (sy_uuid_pos (bu_gen b))) \<notin> fst ` set (bu_store b)"
    and "fst (choose_persona float c (bu_store b) (bu_gen b)) = (persona, seeding)" and "persona \<noteq> ACCOUNT_TAKEOVER"
  shows "((\<exists>r. fst (build_journey float sha256 c b) = Inr r) \<longleftrightarrow>
       int (length (bu_store b)) < generator_customer_pool_size c \<or>
       generator_stateful_mode c \<and> (\<exists>(k, x) \<in> set (bu_store b). gcu_persona x = persona)) \<and>
    ((\<forall>r. fst (build_journey float sha256 c b) \<noteq> Inr r) \<longrightarrow>
       fst (build_journey float sha256 c b) = Inl Pool_full \<and> bu_store (snd (build_journey float sha256 c b)) = bu_store b)"
proof -
  obtain g where "choose_persona float c (bu_store b) (bu_gen b) = ((persona, seeding), g)"
    using assms(5) by (metis prod.collapse)
  note out = build_outcome [OF assms(1-4) this assms(6), of sha256]
  have "(\<exists>x \<in> snd ` set (bu_store b). gcu_persona x = persona) \<longleftrightarrow> (\<exists>(k, x) \<in> set (bu_store b). gcu_persona x = persona)"
    by force
  with out show ?thesis by (auto split: if_splits)
qed

definition stateless_config :: generator_config where
  "stateless_config = normal_config\<lparr>generator_stateful_mode := False, generator_customer_pool_size := 1\<rparr>"

definition full_builder :: builder where
  "full_builder = demo_builder\<lparr>bu_store := [(5, new_customer 5 NORMAL 0 6 ''ip'')]\<rparr>"

theorem build_succeeds_iff_witness:
  "(\<exists>r. fst (build_journey demo_float id normal_config full_builder) = Inr r) \<and>
   fst (build_journey demo_float id stateless_config full_builder) = Inl Pool_full"
proof -
  have room: "store_ok normal_config (bu_store full_builder)" "store_ok stateless_config (bu_store full_builder)"
    by (simp_all add: store_ok_def full_builder_def new_customer_def customer_ok_def normal_config_def stateless_config_def
        default_generator_config_def)
  have src: "\<forall>n. sy_clock (bu_gen full_builder) n \<noteq> None"
    "uuid4 (sy_bits (bu_gen full_builder) (sy_uuid_pos (bu_gen full_builder))) \<notin> fst ` set (bu_store full_builder)"
    by (simp_all add: full_builder_def demo_builder_def demo_source_def uuid4_def Let_def)
  have per: "fst (choose_persona demo_float c (bu_store full_builder) (bu_gen full_builder)) = (NORMAL, False)"
    if "generator_persona c = Some NORMAL" for c using that by (simp add: choose_persona_def)
  have valid: "generator_config_valid demo_float stateless_config"
    using normal_config_valid by (simp add: generator_config_valid_def stateless_config_def)
  have "(\<exists>r. fst (build_journey demo_float id normal_config full_builder) = Inr r)"
    using build_succeeds_iff [OF normal_config_valid room(1) src per] by (simp add: normal_config_def full_builder_def default_generator_config_def)
  moreover have "fst (build_journey demo_float id stateless_config full_builder) = Inl Pool_full"
    using build_succeeds_iff [OF valid room(2) src per, of id] by (simp add: stateless_config_def full_builder_def normal_config_def)
  ultimately show ?thesis ..
qed

end
