(* ===== verification/Journey_Store.thy ===== *)
theory Journey_Store
  imports Journey_Spec Repositories
begin

text \<open>
  Generator and persistence together: the events of a journey handed, one after the other, to the
  handlers of the processor. A journey with new identifiers is stored completely; a journey that resumes
  the abandoned cart of an earlier session is not.
\<close>

section \<open>Storing the events of a journey\<close>

fun persist_events :: "store_env \<Rightarrow> envelope list \<Rightarrow> db \<Rightarrow> db_exn + db" where
  "persist_events v [] d = Inr d"
| "persist_events v (e # es) d =
     (case apply_handler v (ev_event_type e) e d of Inl x \<Rightarrow> Inl x | Inr (_, d') \<Rightarrow> persist_events v es d')"

lemma persist_append:
  "persist_events v (es @ fs) d = (case persist_events v es d of Inl x \<Rightarrow> Inl x | Inr d' \<Rightarrow> persist_events v fs d')"
  by (induction es arbitrary: d) (auto split: sum.split prod.split)

definition ready :: "customer_state \<Rightarrow> uuid \<Rightarrow> db \<Rightarrow> bool" where
  "ready x session d \<longleftrightarrow> exists_key cu_customer_id (gcu_id x) (t_customers d) \<and> exists_key se_session_id session (t_sessions d)"

definition carts_row :: "customer_state \<Rightarrow> uuid \<Rightarrow> uuid \<Rightarrow> int \<Rightarrow> money \<Rightarrow> money \<Rightarrow> db \<Rightarrow> bool" where
  "carts_row x session cart q subtotal disc d \<longleftrightarrow>
     (\<exists>r. select_key ct_cart_id cart (t_carts d) = Some r \<and> ct_customer_id r = gcu_id x \<and> ct_session_id r = session \<and>
        ct_subtotal r = subtotal \<and> ct_discount r = disc \<and> ct_total r = subtotal - disc \<and> ct_currency r = gcu_preferred_currency x \<and>
        ct_item_count r = q)"

definition orders_row :: "customer_state \<Rightarrow> uuid \<Rightarrow> money \<Rightarrow> order_status \<Rightarrow> db \<Rightarrow> bool" where
  "orders_row x order_id amount st d \<longleftrightarrow>
     (\<exists>r. select_key or_order_id order_id (t_orders d) = Some r \<and> or_customer_id r = gcu_id x \<and> or_total r = amount \<and>
        or_currency r = gcu_preferred_currency x \<and> or_status r = st)"

text \<open>The tables of orders, payments and refunds are unchanged.\<close>

definition same_sales :: "db \<Rightarrow> db \<Rightarrow> bool" where
  "same_sales d d' \<longleftrightarrow> t_orders d' = t_orders d \<and> t_payments d' = t_payments d \<and> t_refunds d' = t_refunds d"

lemma generated_handler:
  "apply_handler v (ev_event_type (generated_event i (payload_type p) corr p t)) (generated_event i (payload_type p) corr p t) =
    (case p of
       UserRegistered p \<Rightarrow> counted ''customers'' (register p i)
     | SessionStarted p \<Rightarrow> counted ''sessions'' (insert_session v p i)
     | ProductViewed p \<Rightarrow> counted ''product_views'' (insert_product_view p i t)
     | AddedToCart p \<Rightarrow> add_item p i
     | CheckoutStarted p \<Rightarrow> counted ''carts'' (checkout p i)
     | OrderCreated p \<Rightarrow> insert_order p i
     | PaymentCompleted p \<Rightarrow> insert_completed p i
     | PaymentFailed p \<Rightarrow> insert_failed p i
     | RefundRequested p \<Rightarrow> insert_refund p i
     | FraudAlertCreated p \<Rightarrow> counted ''fraud_alerts'' (insert_fraud_alert v p))"
  by (cases p) (simp_all add: apply_handler_def generated_event_def)

lemma realises_Cons:
  assumes "realises corr (f # fs) evs"
  obtains i t evs' where "evs = generated_event i (payload_type (f t)) corr (f t) t # evs'" "realises corr fs evs'"
  using assms by (cases evs) (auto simp: realises_def)

lemma realises_append:
  assumes "realises corr (fs @ gs) evs"
  obtains e1 e2 where "evs = e1 @ e2" "realises corr fs e1" "realises corr gs e2"
  using assms by (auto simp: realises_def list_all2_append1)

lemma realises_Nil: "realises corr [] evs \<longleftrightarrow> evs = []"
  by (simp add: realises_def)

lemma catalogue_int4: "p \<in> set PRODUCT_CATALOGUE \<Longrightarrow> int4 (pr_available_quantity p)"
  by (auto simp: PRODUCT_CATALOGUE_def catalogue_entry_def int4_def)

lemma views_stored:
  assumes "realises corr (map (viewed_payload x session) ps) evs" "ready x session d" "set ps \<subseteq> set PRODUCT_CATALOGUE"
  shows "\<exists>vs. persist_events v evs d = Inr (d\<lparr>t_product_views := vs\<rparr>)"
  using assms
proof (induction ps arbitrary: evs d)
  case Nil
  then show ?case by (intro exI [of _ "t_product_views d"]) (simp add: realises_Nil)
next
  case (Cons p ps)
  obtain i t evs' where evs: "evs = generated_event i (payload_type (viewed_payload x session p t)) corr (viewed_payload x session p t) t # evs'"
    "realises corr (map (viewed_payload x session) ps) evs'"
    using Cons.prems(1) by (auto elim: realises_Cons)
  have p: "p \<in> set PRODUCT_CATALOGUE" using Cons.prems(3) by simp
  have "\<exists>vs n. apply_handler v (ev_event_type (hd evs)) (hd evs) d = Inr (n, d\<lparr>t_product_views := vs\<rparr>)"
    unfolding evs(1) list.sel generated_handler using Cons.prems(2) catalogue_facts(2,3) [OF p] catalogue_int4 [OF p]
    by (cases "exists_key vw_event_id i (t_product_views d)")
       (auto simp: viewed_payload_def counted_def insert_product_view_def ready_def intro: exI [of _ "t_product_views d"])
  then obtain vs n where one: "apply_handler v (ev_event_type (hd evs)) (hd evs) d = Inr (n, d\<lparr>t_product_views := vs\<rparr>)" by blast
  have more: "ready x session (d\<lparr>t_product_views := vs\<rparr>)" "set ps \<subseteq> set PRODUCT_CATALOGUE"
    using Cons.prems(2,3) by (simp_all add: ready_def)
  obtain vs' where "persist_events v evs' (d\<lparr>t_product_views := vs\<rparr>) = Inr (d\<lparr>t_product_views := vs\<rparr>\<lparr>t_product_views := vs'\<rparr>)"
    using Cons.IH [OF evs(2) more] by blast
  then show ?case using one evs(1) by auto
qed

lemma cart_stored:
  assumes "ready x session d" "1 \<le> q" "q \<le> 3" "p \<in> set PRODUCT_CATALOGUE"
    and "select_key ct_cart_id cart (t_carts d) = None" "items_of cart (t_cart_items d) = []"
    and e: "e = generated_event i (payload_type (cart_payload x session cart p q t)) corr (cart_payload x session cart p q t) t"
  shows "\<exists>n d'. apply_handler v (ev_event_type e) e d = Inr (n, d') \<and> ready x session d' \<and> same_sales d d' \<and>
      carts_row x session cart q (pr_price p * of_int q) 0 d'"
proof -
  have price: "249 < pr_price p" using catalogue_facts(2) [OF assms(4)] .
  let ?pl = "\<lparr>ac_session_id = session, ac_customer_id = gcu_id x, ac_cart_id = cart, ac_product_id = pr_product_id p, ac_quantity = q,
    ac_unit_price = pr_price p, ac_currency = gcu_preferred_currency x\<rparr>" and ?total = "pr_price p * of_int q"
  let ?item = "\<lparr>it_cart_id = cart, it_product_id = pr_product_id p, it_quantity = q, it_unit_price = pr_price p, it_line_total = ?total\<rparr>"
  let ?row = "\<lparr>ct_cart_id = cart, ct_customer_id = gcu_id x, ct_session_id = session, ct_status = Cart_active, ct_subtotal = ?total,
    ct_discount = 0, ct_total = ?total, ct_currency = gcu_preferred_currency x, ct_item_count = q, ct_created_event_id = i, ct_latest_event_id = i\<rparr>"
  let ?items = "t_cart_items d @ [?item]" let ?d1 = "d\<lparr>t_carts := t_carts d @ [?row], t_cart_items := ?items\<rparr>"
  have pos: "0 \<le> ?total" "0 < q" "int4 q" using price assms(2,3) by (simp_all add: int4_def)
  have cart: "upsert_cart ?pl ?total i (t_carts d) = Some (t_carts d @ [?row])" using assms(5) by (simp add: upsert_cart_def)
  have "\<not> exists_key item_key (cart, pr_product_id p) (t_cart_items d)"
    using assms(6) by (auto simp: exists_key_def select_key_None items_of_def filter_empty_conv)
  then have item: "upsert_item ?pl ?total (t_cart_items d) = ?items" by (simp add: upsert_item_def)
  have sums: "items_of cart ?items = [?item]" "items_subtotal cart ?items = ?total" "items_count cart ?items = q"
    using assms(6) by (simp_all add: items_subtotal_def items_count_def items_of_def)
  let ?carts = "update_where (\<lambda>r. ct_cart_id r = cart \<and> items_of cart ?items \<noteq> []) (refresh_cart i cart ?d1) (t_carts d @ [?row])"
  have old: "ct_cart_id r \<noteq> cart" if "r \<in> set (t_carts d)" for r using assms(5) that by (auto simp: select_key_None)
  have fields: "ct_subtotal (refresh_cart i cart ?d1 ?row) = ?total" "ct_total (refresh_cart i cart ?d1 ?row) = ?total"
    "ct_item_count (refresh_cart i cart ?d1 ?row) = q" "ct_cart_id (refresh_cart i cart ?d1 r) = ct_cart_id r" for r
    by (simp_all add: refresh_cart_def sums)
  have "\<not> list_ex (\<lambda>r. ct_cart_id r = cart \<and> (ct_subtotal r < 0 \<or> ct_total r < 0 \<or> ct_item_count r < 0)) ?carts"
    using old pos fields by (auto simp: list_ex_iff set_update_where sums(1))
  then have ref: "refresh_totals i cart ?d1 = Inr ((), ?d1\<lparr>t_carts := ?carts\<rparr>)"
    using pos(3) by (simp add: refresh_totals_def Let_def sums)
  have "select_key ct_cart_id cart ?carts = Some (refresh_cart i cart ?d1 ?row)"
    using assms(5) fields(4) by (simp add: select_key_update select_key_append sums(1))
  then have "carts_row x session cart q ?total 0 (?d1\<lparr>t_carts := ?carts\<rparr>)"
    by (simp add: carts_row_def fields) (simp add: refresh_cart_def)
  moreover have "apply_handler v (ev_event_type e) e d = Inr ([(''carts'', 1), (''cart_items'', 1)], ?d1\<lparr>t_carts := ?carts\<rparr>)"
    unfolding e generated_handler using assms(1) price pos cart item ref
    by (simp add: cart_payload_def add_item_def ready_def Let_def)
  ultimately show ?thesis using assms(1) by (simp add: ready_def same_sales_def)
qed

lemma checkout_stored:
  assumes "ready x session d" "carts_row x session cart q subtotal 0 d" "0 \<le> disc" "disc \<le> subtotal"
    and e: "e = generated_event i (payload_type (checkout_payload x session cart q subtotal disc t)) corr (checkout_payload x session cart q subtotal disc t) t"
  shows "\<exists>n d'. apply_handler v (ev_event_type e) e d = Inr (n, d') \<and> ready x session d' \<and> same_sales d d' \<and>
    carts_row x session cart q subtotal disc d'"
proof -
  obtain r where r: "select_key ct_cart_id cart (t_carts d) = Some r" "ct_customer_id r = gcu_id x" "ct_session_id r = session"
    "ct_subtotal r = subtotal" "ct_currency r = gcu_preferred_currency x" "ct_item_count r = q"
    using assms(2) by (auto simp: carts_row_def)
  have "ct_cart_id r = cart" using select_key_Some [OF r(1)] by simp
  then show ?thesis unfolding e generated_handler using assms(1,3,4) r
    by (simp add: checkout_payload_def counted_def checkout_def ready_def same_sales_def carts_row_def select_key_update)
qed

lemma order_stored:
  assumes "ready x session d" "carts_row x session cart q subtotal disc d" "0 \<le> disc" "disc \<le> subtotal" "1 \<le> q"
    and "select_key or_order_id order_id (t_orders d) = None"
    and e: "e = generated_event i (payload_type (order_payload x order_id session cart q subtotal disc country t)) corr
      (order_payload x order_id session cart q subtotal disc country t) t"
  shows "\<exists>n d'. apply_handler v (ev_event_type e) e d = Inr (n, d') \<and> ready x session d' \<and>
    orders_row x order_id (subtotal - disc) Order_created d' \<and> t_payments d' = t_payments d \<and> t_refunds d' = t_refunds d"
proof -
  obtain r where r: "select_key ct_cart_id cart (t_carts d) = Some r" "ct_customer_id r = gcu_id x" "ct_session_id r = session"
    "ct_subtotal r = subtotal" "ct_discount r = disc" "ct_total r = subtotal - disc" "ct_currency r = gcu_preferred_currency x" "ct_item_count r = q"
    using assms(2) by (auto simp: carts_row_def)
  then show ?thesis unfolding e generated_handler using assms(1,3-6)
    by (simp add: order_payload_def insert_order_def ready_def exists_key_def select_key_append orders_row_def order_of_def)
qed

text \<open>No stored payment has one of these identifiers or was stored for one of these events.\<close>

definition unused :: "db \<Rightarrow> uuid set \<Rightarrow> uuid set \<Rightarrow> bool" where
  "unused d pids eids \<longleftrightarrow> (\<forall>r \<in> set (t_payments d). pa_payment_id r \<notin> pids \<and> pa_event_id r \<notin> eids)"

lemma unused_keys:
  assumes "unused d pids eids"
  shows "i \<in> pids \<Longrightarrow> \<not> exists_key pa_payment_id i (t_payments d)" "j \<in> eids \<Longrightarrow> \<not> exists_key pa_event_id j (t_payments d)"
  using assms by (auto simp: unused_def exists_key_def select_key_None)

lemma failed_stored:
  assumes "ready x session d" "orders_row x order_id amount Order_created d" "0 < amount" "unused d (insert pid pids) (insert i eids)"
    and "pid \<notin> pids" "i \<notin> eids"
    and e: "e = generated_event i (payload_type (failed_payload x pid m reason order_id amount device ip country t)) corr
      (failed_payload x pid m reason order_id amount device ip country t) t"
  shows "\<exists>n d'. apply_handler v (ev_event_type e) e d = Inr (n, d') \<and> ready x session d' \<and>
    orders_row x order_id amount Order_created d' \<and> unused d' pids eids \<and> t_refunds d' = t_refunds d"
proof -
  obtain r where r: "select_key or_order_id order_id (t_orders d) = Some r" "or_customer_id r = gcu_id x" "or_total r = amount"
    "or_currency r = gcu_preferred_currency x" "or_status r = Order_created"
    using assms(2) by (auto simp: orders_row_def)
  have fresh: "\<not> exists_key pa_payment_id pid (t_payments d)" "\<not> exists_key pa_event_id i (t_payments d)"
    using unused_keys [OF assms(4)] by blast+
  show ?thesis unfolding e generated_handler using assms(1,3-6) r fresh
    by (auto simp: failed_payload_def insert_failed_def insert_payment_def ready_def Let_def orders_row_def unused_def)
qed

lemma pays_stored:
  assumes "realises corr (pays x order_id amount device ip country fails) evs" "ready x session d" "orders_row x order_id amount Order_created d"
    and "0 < amount" "distinct (map fst fails)" "distinct (map ev_event_id evs)"
    and "unused d (fst ` set fails \<union> pids) (ev_event_id ` set evs \<union> eids)" "fst ` set fails \<inter> pids = {}" "ev_event_id ` set evs \<inter> eids = {}"
  shows "\<exists>d'. persist_events v evs d = Inr d' \<and> ready x session d' \<and> orders_row x order_id amount Order_created d' \<and>
    unused d' pids eids \<and> t_refunds d' = t_refunds d"
  using assms
proof (induction fails arbitrary: evs d)
  case Nil
  then show ?case by (simp add: pays_def realises_Nil)
next
  case (Cons f fails)
  obtain pid m reason where f: "f = (pid, m, reason)" using prod_cases3 by blast
  obtain i t evs' where evs: "evs = generated_event i (payload_type (failed_payload x pid m reason order_id amount device ip country t)) corr
      (failed_payload x pid m reason order_id amount device ip country t) t # evs'"
    "realises corr (pays x order_id amount device ip country fails) evs'"
    using Cons.prems(1) f by (auto simp: pays_def elim!: realises_Cons)
  let ?P = "fst ` set fails \<union> pids" and ?E = "ev_event_id ` set evs' \<union> eids"
  have id: "ev_event_id (hd evs) = i" by (simp add: evs(1) generated_event_def)
  have sets: "unused d (insert pid ?P) (insert i ?E)" "pid \<notin> ?P" "i \<notin> ?E"
    using Cons.prems(5-9) f evs(1) id by (auto simp: generated_event_def)
  obtain n d1 where d1: "apply_handler v (ev_event_type (hd evs)) (hd evs) d = Inr (n, d1)" "ready x session d1"
    "orders_row x order_id amount Order_created d1" "unused d1 ?P ?E" "t_refunds d1 = t_refunds d"
    using failed_stored [OF Cons.prems(2,3,4) sets, of "hd evs" m reason device ip country t corr v] evs(1) by auto
  have "distinct (map fst fails)" "distinct (map ev_event_id evs')" "fst ` set fails \<inter> pids = {}" "ev_event_id ` set evs' \<inter> eids = {}"
    using Cons.prems(5,6,8,9) evs(1) by auto
  from Cons.IH [OF evs(2) d1(2,3) Cons.prems(4) this(1,2) d1(4) this(3,4)] d1(1,5) evs(1) show ?case by auto
qed

definition paid_row :: "customer_state \<Rightarrow> uuid \<Rightarrow> uuid \<Rightarrow> money \<Rightarrow> db \<Rightarrow> bool" where
  "paid_row x pid order_id amount d \<longleftrightarrow>
     (\<exists>r. select_key pa_payment_id pid (t_payments d) = Some r \<and> pa_status r = Payment_completed \<and> pa_order_id r = order_id \<and>
        pa_customer_id r = gcu_id x \<and> pa_amount r = amount \<and> pa_currency r = gcu_preferred_currency x)"

lemma completed_stored:
  assumes "ready x session d" "orders_row x order_id amount Order_created d" "0 < amount" "unused d {pid} {i}"
    and e: "e = generated_event i (payload_type (completed_payload x pid m order_id amount device ip country t)) corr
      (completed_payload x pid m order_id amount device ip country t) t"
  shows "\<exists>n d'. apply_handler v (ev_event_type e) e d = Inr (n, d') \<and> ready x session d' \<and>
    orders_row x order_id amount Order_paid d' \<and> paid_row x pid order_id amount d' \<and> t_refunds d' = t_refunds d"
proof -
  obtain r where r: "select_key or_order_id order_id (t_orders d) = Some r" "or_customer_id r = gcu_id x" "or_total r = amount"
    "or_currency r = gcu_preferred_currency x" "or_status r = Order_created"
    using assms(2) by (auto simp: orders_row_def)
  have id: "or_order_id r = order_id" using select_key_Some [OF r(1)] by simp
  have fresh: "\<not> exists_key pa_payment_id pid (t_payments d)" "\<not> exists_key pa_event_id i (t_payments d)"
    using unused_keys [OF assms(4)] by blast+
  show ?thesis unfolding e generated_handler using assms(1,3) r id fresh
    by (simp add: completed_payload_def insert_completed_def insert_payment_def ready_def Let_def orders_row_def paid_row_def select_key_update
        select_key_append exists_key_def)
qed

lemma refund_stored:
  assumes "ready x session d" "orders_row x order_id amount Order_paid d" "paid_row x pid order_id amount d" "100 \<le> amount"
    and "\<forall>r \<in> set (t_refunds d). re_payment_id r \<noteq> pid \<and> re_refund_id r \<noteq> rid \<and> re_event_id r \<noteq> i"
    and e: "e = generated_event i (payload_type (refund_payload x rid pid order_id amount t)) corr (refund_payload x rid pid order_id amount t) t"
  shows "\<exists>n d'. apply_handler v (ev_event_type e) e d = Inr (n, d') \<and> orders_row x order_id amount Order_partially_refunded d'"
proof -
  obtain r where r: "select_key or_order_id order_id (t_orders d) = Some r" "or_customer_id r = gcu_id x" "or_total r = amount"
    "or_currency r = gcu_preferred_currency x"
    using assms(2) by (auto simp: orders_row_def)
  obtain p where p: "select_key pa_payment_id pid (t_payments d) = Some p" "pa_status p = Payment_completed" "pa_order_id p = order_id"
    "pa_customer_id p = gcu_id x" "pa_amount p = amount" "pa_currency p = gcu_preferred_currency x"
    using assms(3) by (auto simp: paid_row_def)
  have id: "or_order_id r = order_id" using select_key_Some [OF r(1)] by simp
  have half: "0 < quantize_cents (amount / 2)" "quantize_cents (amount / 2) < amount"
    using quantize_cents_ge [of 100 "amount / 2"] quantize_cents_near [of "amount / 2"] assms(4) by simp_all
  have none: "refunded_total pid (t_refunds d) = 0" "\<not> exists_key re_refund_id rid (t_refunds d)" "\<not> exists_key re_event_id i (t_refunds d)"
  proof -
    have "filter (\<lambda>r. re_payment_id r = pid) (t_refunds d) = []" using assms(5) by (simp add: filter_empty_conv)
    then show "refunded_total pid (t_refunds d) = 0" by (simp add: refunded_total_def)
  qed (use assms(5) in \<open>auto simp: exists_key_def select_key_None\<close>)
  show ?thesis unfolding e generated_handler using assms(1) r id p half none
    by (simp add: refund_payload_def insert_refund_def ready_def Let_def orders_row_def select_key_update exists_key_def [of or_order_id])
qed

definition shop_kept :: "db \<Rightarrow> db \<Rightarrow> bool" where
  "shop_kept d d' \<longleftrightarrow> t_carts d' = t_carts d \<and> t_cart_items d' = t_cart_items d \<and> same_sales d d'"

lemma registration_stored:
  assumes "select_key cu_customer_id (gcu_id x) (t_customers d) = None"
    and e: "e = generated_event i (payload_type (registered_payload sha256 x t)) corr (registered_payload sha256 x t) t"
  shows "\<exists>n d'. apply_handler v (ev_event_type e) e d = Inr (n, d') \<and> exists_key cu_customer_id (gcu_id x) (t_customers d') \<and>
    t_sessions d' = t_sessions d \<and> shop_kept d d'"
  unfolding e generated_handler using assms(1)
  by (simp add: registered_payload_def counted_def register_def exists_key_def select_key_append shop_kept_def same_sales_def)

lemma session_stored:
  assumes "exists_key cu_customer_id (gcu_id x) (t_customers d)" "select_key se_session_id session (t_sessions d) = None"
    and e: "e = generated_event i (payload_type (session_payload x session device dt ip country t)) corr (session_payload x session device dt ip country t) t"
  shows "\<exists>n d'. apply_handler v (ev_event_type e) e d = Inr (n, d') \<and> ready x session d' \<and> shop_kept d d'"
  unfolding e generated_handler using assms(1,2)
  by (simp add: session_payload_def counted_def insert_session_def ready_def exists_key_def select_key_append shop_kept_def same_sales_def)

text \<open>The identifiers a plan uses are new to the database, and its payments are pairwise different.\<close>

definition cart_fresh :: "uuid \<Rightarrow> db \<Rightarrow> bool" where
  "cart_fresh cart d \<longleftrightarrow> select_key ct_cart_id cart (t_carts d) = None \<and> items_of cart (t_cart_items d) = []"

fun purchase_payments :: "purchase_plan \<Rightarrow> uuid list" where
  "purchase_payments (Buy cart p q disc order_id fails success) = map fst fails @ (case success of None \<Rightarrow> [] | Some (i, _, _) \<Rightarrow> [i])"
| "purchase_payments _ = []"

fun purchase_fresh :: "purchase_plan \<Rightarrow> uuid set \<Rightarrow> db \<Rightarrow> bool" where
  "purchase_fresh Browse eids d \<longleftrightarrow> True"
| "purchase_fresh (Cart cart p q) eids d \<longleftrightarrow> cart_fresh cart d"
| "purchase_fresh (Buy cart p q disc order_id fails success) eids d \<longleftrightarrow> cart_fresh cart d \<and>
     select_key or_order_id order_id (t_orders d) = None \<and>
     distinct (purchase_payments (Buy cart p q disc order_id fails success)) \<and>
     unused d (set (purchase_payments (Buy cart p q disc order_id fails success))) eids \<and>
     (\<forall>r \<in> set (t_refunds d). re_payment_id r \<notin> set (purchase_payments (Buy cart p q disc order_id fails success)) \<and>
        re_event_id r \<notin> eids \<and> (\<forall>i m rid. success = Some (i, m, Some rid) \<longrightarrow> re_refund_id r \<noteq> rid))"

definition plan_fresh :: "customer_state \<Rightarrow> journey_plan \<Rightarrow> envelope list \<Rightarrow> db \<Rightarrow> bool" where
  "plan_fresh x pl evs d \<longleftrightarrow>
     (jp_registers pl \<longleftrightarrow> select_key cu_customer_id (gcu_id x) (t_customers d) = None) \<and>
     select_key se_session_id (jp_session pl) (t_sessions d) = None \<and> distinct (map ev_event_id evs) \<and>
     purchase_fresh (jp_purchase pl) (ev_event_id ` set evs) d"

text \<open>What the order table says after a purchase.\<close>

fun purchase_outcome :: "customer_state \<Rightarrow> purchase_plan \<Rightarrow> db \<Rightarrow> bool" where
  "purchase_outcome x (Buy cart p q disc order_id fails success) d \<longleftrightarrow>
     orders_row x order_id (pr_price p * of_int q - disc)
       (case success of None \<Rightarrow> Order_created | Some (_, _, None) \<Rightarrow> Order_paid | Some (_, _, Some _) \<Rightarrow> Order_partially_refunded) d"
| "purchase_outcome x _ d \<longleftrightarrow> True"

lemma settled_stored:
  assumes "realises corr (settled_by x order_id amount device ip country success) evs" "ready x session d"
    and "orders_row x order_id amount Order_created d" "100 \<le> amount" "distinct (map ev_event_id evs)"
    and "unused d (case success of None \<Rightarrow> {} | Some (i, _, _) \<Rightarrow> {i}) (ev_event_id ` set evs)"
    and "\<forall>r \<in> set (t_refunds d). re_event_id r \<notin> ev_event_id ` set evs \<and>
        (\<forall>i m rid. success = Some (i, m, rid) \<longrightarrow> re_payment_id r \<noteq> i \<and> (\<forall>k. rid = Some k \<longrightarrow> re_refund_id r \<noteq> k))"
  shows "\<exists>d'. persist_events v evs d = Inr d' \<and> orders_row x order_id amount
    (case success of None \<Rightarrow> Order_created | Some (_, _, None) \<Rightarrow> Order_paid | Some (_, _, Some _) \<Rightarrow> Order_partially_refunded) d'"
proof (cases success)
  case None
  then show ?thesis using assms(1,3) by (simp add: realises_Nil)
next
  case (Some s)
  obtain pid m rid where s: "success = Some (pid, m, rid)" using Some prod_cases3 by metis
  obtain i t evs' where evs: "evs = generated_event i (payload_type (completed_payload x pid m order_id amount device ip country t)) corr
      (completed_payload x pid m order_id amount device ip country t) t # evs'"
    "realises corr (case rid of None \<Rightarrow> [] | Some r \<Rightarrow> [refund_payload x r pid order_id amount]) evs'"
    using assms(1) s by (auto elim: realises_Cons)
  have "unused d {pid} {i}" using assms(6) s evs(1) by (auto simp: unused_def generated_event_def)
  then obtain n d1 where d1: "apply_handler v (ev_event_type (hd evs)) (hd evs) d = Inr (n, d1)" "ready x session d1"
    "orders_row x order_id amount Order_paid d1" "paid_row x pid order_id amount d1" "t_refunds d1 = t_refunds d"
    using completed_stored [OF assms(2,3) _ _, of pid i "hd evs" m device ip country t corr v] assms(4) evs(1) by auto
  show ?thesis
  proof (cases rid)
    case None
    then show ?thesis using d1 evs s by (simp add: realises_Nil)
  next
    case (Some k)
    obtain j u where evs': "evs' = [generated_event j (payload_type (refund_payload x k pid order_id amount u)) corr
        (refund_payload x k pid order_id amount u) u]"
      using evs(2) Some by (auto simp: realises_Nil elim!: realises_Cons)
    have "\<forall>r \<in> set (t_refunds d1). re_payment_id r \<noteq> pid \<and> re_refund_id r \<noteq> k \<and> re_event_id r \<noteq> j"
      using assms(7) s Some d1(5) evs(1) evs' by (auto simp: generated_event_def)
    from refund_stored [OF d1(2-4) assms(4) this, of "hd evs'" u corr v] evs'
    obtain n2 d2 where "apply_handler v (ev_event_type (hd evs')) (hd evs') d1 = Inr (n2, d2)" "orders_row x order_id amount Order_partially_refunded d2"
      by auto
    then show ?thesis using d1(1) evs(1) evs' s Some by auto
  qed
qed

lemma unused_sales: "same_sales d d' \<Longrightarrow> unused d' P E = unused d P E"
  by (simp add: unused_def same_sales_def)

lemma unused_mono: "unused d P E \<Longrightarrow> P' \<subseteq> P \<Longrightarrow> E' \<subseteq> E \<Longrightarrow> unused d P' E'"
  by (auto simp: unused_def)

lemma ordered_stored:
  assumes "ready x session d" "1 \<le> q" "q \<le> 3" "p \<in> set PRODUCT_CATALOGUE" "cart_fresh cart d" "0 \<le> disc" "disc \<le> pr_price p * of_int q"
    and "select_key or_order_id order_id (t_orders d) = None"
    and evs: "realises corr [cart_payload x session cart p q, checkout_payload x session cart q (pr_price p * of_int q) disc,
      order_payload x order_id session cart q (pr_price p * of_int q) disc country] evs"
  shows "\<exists>d'. persist_events v evs d = Inr d' \<and> ready x session d' \<and> orders_row x order_id (pr_price p * of_int q - disc) Order_created d' \<and>
    t_payments d' = t_payments d \<and> t_refunds d' = t_refunds d"
proof -
  obtain i1 t1 i2 t2 i3 t3 where e: "evs = [generated_event i1 (payload_type (cart_payload x session cart p q t1)) corr (cart_payload x session cart p q t1) t1,
      generated_event i2 (payload_type (checkout_payload x session cart q (pr_price p * of_int q) disc t2)) corr
        (checkout_payload x session cart q (pr_price p * of_int q) disc t2) t2,
      generated_event i3 (payload_type (order_payload x order_id session cart q (pr_price p * of_int q) disc country t3)) corr
        (order_payload x order_id session cart q (pr_price p * of_int q) disc country t3) t3]"
    using evs by (auto simp: realises_Nil elim!: realises_Cons)
  let ?e1 = "evs ! 0" and ?e2 = "evs ! 1" and ?e3 = "evs ! 2"
  obtain n1 d1 where d1: "apply_handler v (ev_event_type ?e1) ?e1 d = Inr (n1, d1)" "ready x session d1" "same_sales d d1"
    "carts_row x session cart q (pr_price p * of_int q) 0 d1"
    using cart_stored [OF assms(1-4), of cart ?e1 i1 t1 corr v] assms(5) e by (auto simp: cart_fresh_def)
  obtain n2 d2 where d2: "apply_handler v (ev_event_type ?e2) ?e2 d1 = Inr (n2, d2)" "ready x session d2" "same_sales d1 d2"
    "carts_row x session cart q (pr_price p * of_int q) disc d2"
    using checkout_stored [OF d1(2,4) assms(6,7), of ?e2 i2 t2 corr v] e by auto
  have "select_key or_order_id order_id (t_orders d2) = None" using assms(8) d1(3) d2(3) by (simp add: same_sales_def)
  then obtain n3 d3 where d3: "apply_handler v (ev_event_type ?e3) ?e3 d2 = Inr (n3, d3)" "ready x session d3"
    "orders_row x order_id (pr_price p * of_int q - disc) Order_created d3" "t_payments d3 = t_payments d2" "t_refunds d3 = t_refunds d2"
    using order_stored [OF d2(2,4) assms(6,7,2), of order_id ?e3 i3 country t3 corr v] e by auto
  show ?thesis using d1 d2 d3 e by (auto simp: same_sales_def)
qed

lemma purchase_stored:
  assumes "ready x session d" "purchase_ok attempts views pp" "set views \<subseteq> set PRODUCT_CATALOGUE" "distinct (map ev_event_id evs)"
    and "purchase_fresh pp (ev_event_id ` set evs) d" "realises corr (purchase_steps x session device ip country pp) evs"
  shows "\<exists>d'. persist_events v evs d = Inr d' \<and> purchase_outcome x pp d'"
proof (cases pp)
  case Browse
  then show ?thesis using assms(6) by (simp add: realises_Nil)
next
  case (Cart cart p q)
  then obtain i t where e: "evs = [generated_event i (payload_type (cart_payload x session cart p q t)) corr (cart_payload x session cart p q t) t]"
    using assms(6) by (auto simp: realises_Nil elim!: realises_Cons)
  have "1 \<le> q" "q \<le> 3" "p \<in> set PRODUCT_CATALOGUE" "cart_fresh cart d"
    using assms(2,3,5) Cart by (auto simp: cart_script_ok_def)
  then show ?thesis using cart_stored [OF assms(1), of q p cart "hd evs" i t corr v] e Cart by (auto simp: cart_fresh_def)
next
  case (Buy cart p q disc order_id fails success)
  let ?sub = "pr_price p * of_int q" let ?am = "?sub - disc" let ?pids = "purchase_payments pp"
  have ok: "1 \<le> q" "q \<le> 3" "p \<in> set PRODUCT_CATALOGUE" "0 \<le> disc" "disc \<le> ?sub / 4"
    using assms(2,3) Buy by (auto simp: cart_script_ok_def)
  have fresh: "cart_fresh cart d" "select_key or_order_id order_id (t_orders d) = None" "distinct ?pids" "unused d (set ?pids) (ev_event_id ` set evs)"
    "\<forall>r \<in> set (t_refunds d). re_payment_id r \<notin> set ?pids \<and> re_event_id r \<notin> ev_event_id ` set evs \<and>
       (\<forall>i m rid. success = Some (i, m, Some rid) \<longrightarrow> re_refund_id r \<noteq> rid)"
    using assms(5) Buy by auto
  have "pr_price p * 1 \<le> ?sub" using ok(1) catalogue_facts(2) [OF ok(3)] by (intro mult_left_mono) simp_all
  then have am: "100 \<le> ?am" "disc \<le> ?sub" using ok(4,5) catalogue_facts(2) [OF ok(3)] by linarith+
  let ?head = "[cart_payload x session cart p q, checkout_payload x session cart q ?sub disc, order_payload x order_id session cart q ?sub disc country]"
  obtain e1 e2 e3 where e: "evs = e1 @ e2 @ e3" "realises corr ?head e1" "realises corr (pays x order_id ?am device ip country fails) e2"
    "realises corr (settled_by x order_id ?am device ip country success) e3"
  proof -
    have "realises corr (?head @ pays x order_id ?am device ip country fails @ settled_by x order_id ?am device ip country success) evs"
      using assms(6) Buy by simp
    then show thesis using that by (elim realises_append) blast
  qed
  obtain d1 where d1: "persist_events v e1 d = Inr d1" "ready x session d1" "orders_row x order_id ?am Order_created d1"
    "t_payments d1 = t_payments d" "t_refunds d1 = t_refunds d"
    using ordered_stored [OF assms(1) ok(1-3) fresh(1) ok(4) am(2) fresh(2) e(2)] by blast
  let ?S = "case success of None \<Rightarrow> {} | Some (i, _, _) \<Rightarrow> {i}"
  have pids: "set ?pids = fst ` set fails \<union> ?S" "distinct (map fst fails)" "fst ` set fails \<inter> ?S = {}"
    using fresh(3) Buy by (auto split: option.splits)
  have ids: "distinct (map ev_event_id e2)" "distinct (map ev_event_id e3)" "ev_event_id ` set e2 \<inter> ev_event_id ` set e3 = {}"
    using assms(4) e(1) by auto
  have "unused d (fst ` set fails \<union> ?S) (ev_event_id ` set e2 \<union> ev_event_id ` set e3)"
    by (rule unused_mono [OF fresh(4)]) (use pids(1) e(1) in auto)
  then have un: "unused d1 (fst ` set fails \<union> ?S) (ev_event_id ` set e2 \<union> ev_event_id ` set e3)" using d1(4) by (simp add: unused_def)
  obtain d2 where d2: "persist_events v e2 d1 = Inr d2" "ready x session d2" "orders_row x order_id ?am Order_created d2"
    "unused d2 ?S (ev_event_id ` set e3)" "t_refunds d2 = t_refunds d1"
    using pays_stored [OF e(3) d1(2,3) _ pids(2) ids(1) un pids(3) ids(3)] am(1) by auto
  have "\<forall>r \<in> set (t_refunds d2). re_event_id r \<notin> ev_event_id ` set e3 \<and>
      (\<forall>i m rid. success = Some (i, m, rid) \<longrightarrow> re_payment_id r \<noteq> i \<and> (\<forall>k. rid = Some k \<longrightarrow> re_refund_id r \<noteq> k))"
    using fresh(5) d1(5) d2(5) e(1) pids(1) by auto
  from settled_stored [OF e(4) d2(2,3) am(1) ids(2) d2(4) this] d1(1) d2(1) e(1) Buy show ?thesis
    by (auto simp: persist_append)
qed

lemma plan_stored:
  assumes "plan_ok views attempts pl" "realises corr (plan_steps sha256 x pl) evs" "plan_fresh x pl evs d"
  shows "\<exists>d'. persist_events v evs d = Inr d' \<and> purchase_outcome x (jp_purchase pl) d'"
proof -
  let ?s = "jp_session pl" let ?sf = "session_payload x ?s (jp_device pl) (jp_device_type pl) (jp_ip pl) (jp_country pl)"
  let ?rest = "purchase_steps x ?s (jp_device pl) (jp_ip pl) (jp_country pl) (jp_purchase pl)"
  obtain e0 e1 e2 e3 where e: "evs = e0 @ e1 @ e2 @ e3" "realises corr (if jp_registers pl then [registered_payload sha256 x] else []) e0"
    "realises corr [?sf] e1" "realises corr (map (viewed_payload x ?s) (jp_views pl)) e2" "realises corr ?rest e3"
  proof -
    have "realises corr ((if jp_registers pl then [registered_payload sha256 x] else []) @ [?sf] @
        map (viewed_payload x ?s) (jp_views pl) @ ?rest) evs" using assms(2) by (simp add: plan_steps_def)
    then show thesis using that by (elim realises_append) blast
  qed
  have fresh: "jp_registers pl \<longleftrightarrow> select_key cu_customer_id (gcu_id x) (t_customers d) = None" "select_key se_session_id ?s (t_sessions d) = None"
    "distinct (map ev_event_id evs)" "purchase_fresh (jp_purchase pl) (ev_event_id ` set evs) d"
    using assms(3) by (simp_all add: plan_fresh_def)
  have "\<exists>d0. persist_events v e0 d = Inr d0 \<and> exists_key cu_customer_id (gcu_id x) (t_customers d0) \<and> t_sessions d0 = t_sessions d \<and> shop_kept d d0"
  proof (cases "jp_registers pl")
    case True
    then obtain i t where e0: "e0 = [generated_event i (payload_type (registered_payload sha256 x t)) corr (registered_payload sha256 x t) t]"
      using e(2) by (auto simp: realises_Nil elim!: realises_Cons)
    show ?thesis using registration_stored [of x d "hd e0" i sha256 t corr v] fresh(1) True e0 by auto
  next
    case False
    then show ?thesis using e(2) fresh(1) by (auto simp: realises_Nil exists_key_def shop_kept_def same_sales_def)
  qed
  then obtain d0 where d0: "persist_events v e0 d = Inr d0" "exists_key cu_customer_id (gcu_id x) (t_customers d0)"
    "t_sessions d0 = t_sessions d" "shop_kept d d0" by blast
  obtain i t where e1: "e1 = [generated_event i (payload_type (?sf t)) corr (?sf t) t]"
    using e(3) by (auto simp: realises_Nil elim!: realises_Cons)
  obtain d1 where d1: "persist_events v e1 d0 = Inr d1" "ready x ?s d1" "shop_kept d0 d1"
    using session_stored [OF d0(2), of ?s "hd e1" i "jp_device pl" "jp_device_type pl" "jp_ip pl" "jp_country pl" t corr v] fresh(2) d0(3) e1 by auto
  have cat: "set (jp_views pl) \<subseteq> set PRODUCT_CATALOGUE" "purchase_ok attempts (jp_views pl) (jp_purchase pl)"
    using assms(1) by (simp_all add: plan_ok_def)
  obtain vs where d2: "persist_events v e2 d1 = Inr (d1\<lparr>t_product_views := vs\<rparr>)" using views_stored [OF e(4) d1(2) cat(1)] by blast
  let ?d2 = "d1\<lparr>t_product_views := vs\<rparr>"
  have same: "shop_kept d ?d2" using d0(4) d1(3) by (simp add: shop_kept_def same_sales_def)
  have last: "ready x ?s ?d2" "distinct (map ev_event_id e3)" using d1(2) fresh(3) e(1) by (simp_all add: ready_def)
  have "purchase_fresh (jp_purchase pl) (ev_event_id ` set e3) ?d2"
    using fresh(4) same e(1) by (cases "jp_purchase pl") (auto simp: shop_kept_def same_sales_def cart_fresh_def unused_def)
  from purchase_stored [OF last(1) cat(2,1) last(2) this e(5)]
  obtain d3 where "persist_events v e3 ?d2 = Inr d3" "purchase_outcome x (jp_purchase pl) d3" by blast
  then show ?thesis using d0(1) d1(1) d2 e(1) by (simp add: persist_append)
qed

lemma cart_product_frame:
  assumes "run_state (cart_product pr viewed) w = (p, w1)" "viewed \<noteq> []"
  shows "p \<in> set viewed \<and> wk_customer w1 = wk_customer w \<and> wk_events w1 = wk_events w"
proof -
  have sorted: "hd (sort_key f viewed) \<in> set viewed" for f :: "product \<Rightarrow> money"
    using assms(2) hd_in_set [of "sort_key f viewed"] by (metis length_sort length_0_conv set_sort)
  obtain y g where c: "choice viewed (wk_gen w) = (y, g)" by force
  have "y \<in> set viewed" using choice_in [OF assms(2), of "wk_gen w"] c by simp
  then show ?thesis
    using assms(1) sorted c by (auto simp: cart_product_def working_def gen_def split: if_splits)
qed

section \<open>Properties\<close>

text \<open>C28: the processor can store what the generator makes. The events of a journey realise a plan with the
  shape that the builder keeps to. When the identifiers of the plan are new to the database (the customer
  is known exactly when the journey does not register it), the handlers accept all the events in order,
  without a missing dependency or an integrity error, for every other content of the tables. Afterwards
  the order of a purchase has the total of the plan and is created, paid or partially refunded, as the
  payments of the plan say.\<close>

theorem journeys_are_stored:
  assumes "plan_ok views attempts pl" and "realises corr (plan_steps sha256 x pl) evs" and "plan_fresh x pl evs d"
  shows "\<exists>d'. persist_events v evs d = Inr d' \<and> purchase_outcome x (jp_purchase pl) d'"
  using assms by (rule plan_stored)

definition demo_customer :: customer_state where
  "demo_customer = new_customer 7 NORMAL 0 8 ''198.51.100.1''"

definition demo_plan :: journey_plan where
  "demo_plan =
     \<lparr>jp_registers = True, jp_session = 1, jp_device = 8, jp_device_type = DESKTOP, jp_ip = ''198.51.100.1'', jp_country = ''TR'',
      jp_views = [hd PRODUCT_CATALOGUE],
      jp_purchase = Buy 2 (hd PRODUCT_CATALOGUE) 1 0 3 [(4, CREDIT_CARD, DECLINED)] (Some (5, DEBIT_CARD, Some 6))\<rparr>"

definition numbered_events :: "uuid \<Rightarrow> (instant \<Rightarrow> payload) list \<Rightarrow> envelope list" where
  "numbered_events corr fs = map (\<lambda>(i, f). generated_event (of_nat i) (payload_type (f 0)) corr (f 0) 0) (enumerate 100 fs)"

lemma numbered_realises: "realises corr fs (numbered_events corr fs)"
  by (auto simp: realises_def numbered_events_def list_all2_conv_all_nth nth_enumerate_eq generated_event_def)

theorem journeys_are_stored_witness:
  "\<forall>v. \<exists>d'. persist_events v (numbered_events 9 (plan_steps id demo_customer demo_plan)) empty_db = Inr d' \<and>
     purchase_outcome demo_customer (jp_purchase demo_plan) d'"
proof -
  let ?evs = "numbered_events 9 (plan_steps id demo_customer demo_plan)"
  have "plan_ok 1 2 demo_plan"
    by (simp add: plan_ok_def demo_plan_def cart_script_ok_def PRODUCT_CATALOGUE_def catalogue_entry_def country_code_def)
  moreover have "plan_fresh demo_customer demo_plan ?evs empty_db"
    by (simp add: plan_fresh_def demo_plan_def plan_steps_def pays_def numbered_events_def generated_event_def empty_db_def select_key_def
        cart_fresh_def items_of_def unused_def)
  ultimately show ?thesis using journeys_are_stored [OF _ numbered_realises] by blast
qed

text \<open>A resumed cart is never stored. When a customer whose profile resumes abandoned carts adds to the
  cart again, the event carries the cart of the earlier session and the new session. As long as the
  customer and the new session are stored, the handler refuses it with a cart identity conflict, which is a
  permanent error: whatever the tables hold besides, the conversion of an abandoned cart ends in the
  dead-letter topic.\<close>

theorem resumed_cart_refused:
  assumes "run_state (add_to_cart pr corr session viewed) w = ((cart, p, q), w')" and "pp_reuse_abandoned_cart pr"
    and "gcu_abandoned_cart (wk_customer w) = Some (old_cart, old_product)"
    and "select_key ct_cart_id old_cart (t_carts d) = Some row" and "ct_session_id row \<noteq> session"
    and "ready (wk_customer w) session d" and "viewed \<noteq> []" and "set viewed \<subseteq> set PRODUCT_CATALOGUE"
  shows "\<exists>e. wk_events w' = wk_events w @ [e] \<and> ev_event_type e = ADDED_TO_CART \<and> cart = old_cart \<and>
    apply_handler v ADDED_TO_CART e d = integrity ''cart identity conflict''"
proof -
  obtain p1 w1 where one: "run_state (cart_product pr viewed) w = (p1, w1)" by force
  note p1 = cart_product_frame [OF one assms(7)]
  obtain q1 g1 where q1: "quantity p1 (wk_gen w1) = (q1, g1)" by force
  obtain i g2 where i: "new_uuid g1 = (i, g2)" by force
  have p1': "p1 \<in> set PRODUCT_CATALOGUE" using p1 assms(8) by blast
  have q: "1 \<le> q1" "q1 \<le> 3" using quantity_range [OF p1', of "wk_gen w1"] q1 by simp_all
  let ?t = "wk_cursor w1 + pp_action_delay pr"
  let ?e = "generated_event i ADDED_TO_CART corr (cart_payload (wk_customer w) session old_cart p1 q1 ?t) ?t"
  have run: "cart = old_cart" "wk_events w' = wk_events w @ [?e]"
    using assms(1-3) one q1 i p1
    by (auto simp: add_to_cart_def cart_identity_def working_def gen_def next_timestamp_def append_event_def)
  have "apply_handler v ADDED_TO_CART ?e d = integrity ''cart identity conflict''"
    using assms(4-6) q catalogue_facts(2) [OF p1']
    by (simp add: apply_handler_def generated_event_def cart_payload_def add_item_def ready_def upsert_cart_def Let_def int4_def)
  then show ?thesis using run by (auto simp: generated_event_def)
qed

definition resuming_work :: work where
  "resuming_work = \<lparr>wk_gen = demo_source, wk_cursor = 0, wk_customer = demo_customer\<lparr>gcu_abandoned_cart := Some (2, 3)\<rparr>, wk_events = []\<rparr>"

definition abandoned_db :: db where
  "abandoned_db = empty_db
     \<lparr>t_customers := [\<lparr>cu_customer_id = 7, cu_email_hash = ''h'', cu_persona = INDECISIVE, cu_home_country = ''TR'', cu_registered_at = 0,
        cu_first_event_id = 100, cu_last_event_id = 100\<rparr>],
      t_sessions := map (\<lambda>s. \<lparr>se_session_id = s, se_customer_id = 7, se_device_id = [], se_device_type = DESKTOP, se_ip_address = [],
        se_country = ''TR'', se_channel = WEB, se_started_at = 0, se_first_event_id = 101\<rparr>) [1, 10],
      t_carts := [\<lparr>ct_cart_id = 2, ct_customer_id = 7, ct_session_id = 1, ct_status = Cart_active, ct_subtotal = 500, ct_discount = 0,
        ct_total = 500, ct_currency = TRY, ct_item_count = 1, ct_created_event_id = 102, ct_latest_event_id = 102\<rparr>]\<rparr>"

theorem resumed_cart_refused_witness:
  "\<exists>e w'. snd (run_state (add_to_cart indecisive_profile 9 10 [hd PRODUCT_CATALOGUE]) resuming_work) = w' \<and>
     wk_events w' = wk_events resuming_work @ [e] \<and> ev_event_type e = ADDED_TO_CART \<and>
     (\<forall>v. apply_handler v ADDED_TO_CART e abandoned_db = integrity ''cart identity conflict'')"
proof -
  obtain cart p q w' where run: "run_state (add_to_cart indecisive_profile 9 10 [hd PRODUCT_CATALOGUE]) resuming_work = ((cart, p, q), w')"
    by (metis prod.exhaust)
  have "\<exists>e. wk_events w' = wk_events resuming_work @ [e] \<and> ev_event_type e = ADDED_TO_CART \<and> cart = 2 \<and>
      apply_handler v ADDED_TO_CART e abandoned_db = integrity ''cart identity conflict''" for v
    using resumed_cart_refused [OF run, of 2 3 abandoned_db "hd (t_carts abandoned_db)" v]
    by (simp add: indecisive_profile_def resuming_work_def abandoned_db_def empty_db_def select_key_def ready_def exists_key_def
        demo_customer_def new_customer_def PRODUCT_CATALOGUE_def)
  then have "\<exists>e. wk_events w' = wk_events resuming_work @ [e] \<and> ev_event_type e = ADDED_TO_CART \<and>
      (\<forall>v. apply_handler v ADDED_TO_CART e abandoned_db = integrity ''cart identity conflict'')"
    by (metis last_snoc)
  then show ?thesis using run by auto
qed

end
