(* ===== verification/Anomalies.thy ===== *)
theory Anomalies
  imports Journey_Spec Validation "HOL-Library.List_Lexorder" "HOL-Library.Char_ord"
    "HOL-Library.Countable"
begin

text \<open>
  \<^verbatim>\<open>services/event_generator/messages.py\<close> and \<^verbatim>\<open>services/event_generator/anomalies.py\<close>: the messages made
  of the events of a journey and the controlled anomalies added to them. What is left to libraries is
  the printing of JSON (\<open>wr_dumps\<close>, the writer with sorted keys), of a payload model (\<open>wr_payload\<close>) and of
  times (\<open>wr_time\<close> by pydantic, \<open>wr_isoformat\<close> by \<open>isoformat\<close> with its UTC offset written as Z); reading
  them is the codec of the contracts.
\<close>

section \<open>Messages\<close>

datatype anomaly_type =
  A_DUPLICATE | A_MALFORMED_JSON | A_MISSING_FIELD | A_UNKNOWN_EVENT_TYPE | A_LATE_EVENT | A_OUT_OF_ORDER | A_PAYLOAD_MISMATCH

fun anomaly_value :: "anomaly_type \<Rightarrow> string" where
  "anomaly_value A_DUPLICATE = ''duplicate''"
| "anomaly_value A_MALFORMED_JSON = ''malformed_json''"
| "anomaly_value A_MISSING_FIELD = ''missing_field''"
| "anomaly_value A_UNKNOWN_EVENT_TYPE = ''unknown_event_type''"
| "anomaly_value A_LATE_EVENT = ''late_event''"
| "anomaly_value A_OUT_OF_ORDER = ''out_of_order''"
| "anomaly_value A_PAYLOAD_MISMATCH = ''payload_mismatch''"

record publishable_message =
  pm_value :: string
  pm_key :: string
  pm_headers :: "(string \<times> string) list"
  pm_event_id :: "uuid option"
  pm_event_type :: string
  pm_correlation_id :: "uuid option"
  pm_anomaly_type :: "anomaly_type option"

record writer =
  wr_dumps :: "json \<Rightarrow> string"
  wr_payload :: "payload \<Rightarrow> json dict"
  wr_time :: "instant \<Rightarrow> string"
  wr_isoformat :: "instant \<Rightarrow> string"

text \<open>\<open>event.model_dump(mode="json")\<close>: the fields of the envelope in the order of the model.\<close>

definition envelope_fields :: "envelope \<Rightarrow> string \<Rightarrow> string \<Rightarrow> json \<Rightarrow> json dict" where
  "envelope_fields e event_time produced_at payload0 =
     [(''event_id'', JStr (uuid_str (ev_event_id e))), (''event_type'', JStr (event_type_value (ev_event_type e))),
      (''event_version'', JInt (ev_event_version e)), (''event_time'', JStr event_time), (''produced_at'', JStr produced_at),
      (''source'', JStr (ev_source e)), (''correlation_id'', JStr (uuid_str (ev_correlation_id e))), (''payload'', payload0)]"

definition model_dump :: "writer \<Rightarrow> envelope \<Rightarrow> json" where
  "model_dump wr e =
     JObj (envelope_fields e (wr_time wr (ev_event_time e)) (wr_time wr (ev_produced_at e)) (JObj (wr_payload wr (ev_payload e))))"

definition canonical_json :: "writer \<Rightarrow> envelope \<Rightarrow> string" where
  "canonical_json wr e = wr_dumps wr (model_dump wr e)"

definition valid_message :: "writer \<Rightarrow> envelope \<Rightarrow> publishable_message" where
  "valid_message wr e =
     \<lparr>pm_value = canonical_json wr e, pm_key = event_message_key e, pm_headers = event_message_headers e,
      pm_event_id = Some (ev_event_id e), pm_event_type = event_type_value (ev_event_type e),
      pm_correlation_id = Some (ev_correlation_id e), pm_anomaly_type = None\<rparr>"

section \<open>Mutations\<close>

definition replace_value :: "publishable_message \<Rightarrow> string \<Rightarrow> anomaly_type \<Rightarrow> publishable_message" where
  "replace_value source v kind =
     source\<lparr>pm_value := v, pm_headers := pm_headers source @ [(''synthetic_anomaly'', anomaly_value kind)],
            pm_anomaly_type := Some kind\<rparr>"

definition tag :: "publishable_message \<Rightarrow> anomaly_type \<Rightarrow> publishable_message" where
  "tag source kind = replace_value source (pm_value source) kind"

text \<open>The payload of the first message of another type that is not an anomaly, and the empty object when
  there is none; None is the exception of a body that does not decode to an object with a payload.\<close>

definition replacement_payload :: "codec \<Rightarrow> publishable_message \<Rightarrow> publishable_message list \<Rightarrow> json option" where
  "replacement_payload cx source all_messages =
     (case find (\<lambda>m. pm_event_type m \<noteq> pm_event_type source \<and> pm_anomaly_type m = None) all_messages of
        None \<Rightarrow> Some (JObj [])
      | Some m \<Rightarrow>
          (case cx_loads cx (pm_value m) of Some (JObj replacement) \<Rightarrow> dict_get replacement ''payload'' | _ \<Rightarrow> None))"

text \<open>The change of the decoded body, None for an exception.\<close>

definition mutate_body ::
  "codec \<Rightarrow> writer \<Rightarrow> generator_config \<Rightarrow> anomaly_type \<Rightarrow> publishable_message \<Rightarrow> publishable_message list \<Rightarrow> json dict \<Rightarrow> json dict option" where
  "mutate_body cx wr c kind source all_messages decoded =
     (case kind of
        A_MISSING_FIELD \<Rightarrow> Some (AList.delete ''event_id'' decoded)
      | A_UNKNOWN_EVENT_TYPE \<Rightarrow> Some (AList.update ''event_type'' (JStr ''synthetic_unknown_event'') decoded)
      | A_PAYLOAD_MISMATCH \<Rightarrow>
          map_option (\<lambda>p. AList.update ''payload'' p decoded) (replacement_payload cx source all_messages)
      | A_LATE_EVENT \<Rightarrow>
          (case parse_event cx (pm_value source) of
             Inl _ \<Rightarrow> None
           | Inr parsed \<Rightarrow>
               Some (AList.update ''event_time''
                       (JStr (wr_isoformat wr (ev_event_time parsed - min (generator_max_late_event_seconds c) 240 * 1000000))) decoded))
      | _ \<Rightarrow> Some decoded)"

definition mutate ::
  "codec \<Rightarrow> writer \<Rightarrow> generator_config \<Rightarrow> anomaly_type \<Rightarrow> publishable_message \<Rightarrow> publishable_message list \<Rightarrow> publishable_message option" where
  "mutate cx wr c kind source all_messages =
     (if kind = A_DUPLICATE then Some (tag source kind)
      else if kind = A_MALFORMED_JSON then Some (replace_value source (butlast (pm_value source)) kind)
      else case cx_loads cx (pm_value source) of
             Some (JObj decoded) \<Rightarrow>
               map_option (\<lambda>d. replace_value source (wr_dumps wr (JObj d)) kind)
                 (mutate_body cx wr c kind source all_messages decoded)
           | _ \<Rightarrow> None)"

section \<open>Preparing the messages of a journey\<close>

definition anomaly_candidates :: "generator_config \<Rightarrow> (anomaly_type \<times> rat) list" where
  "anomaly_candidates c =
     [(A_DUPLICATE, generator_duplicate_event_probability c), (A_MALFORMED_JSON, generator_malformed_json_probability c),
      (A_MISSING_FIELD, generator_missing_field_probability c), (A_UNKNOWN_EVENT_TYPE, generator_unknown_event_type_probability c),
      (A_LATE_EVENT, generator_late_event_probability c), (A_PAYLOAD_MISMATCH, generator_payload_mismatch_probability c)]"

definition possible_chance :: "rat \<Rightarrow> synthetic \<Rightarrow> bool \<times> synthetic" where
  "possible_chance p g = (if p \<noteq> 0 then chance p g else (False, g))"

text \<open>The loop over the candidates: the anomalies appended, None for an exception; an empty journey fails
  at the modulus.\<close>

fun inject ::
  "codec \<Rightarrow> writer \<Rightarrow> generator_config \<Rightarrow> publishable_message list \<Rightarrow> nat \<Rightarrow> int \<Rightarrow> (anomaly_type \<times> rat) list \<Rightarrow> synthetic \<Rightarrow>
   publishable_message list option \<times> synthetic" where
  "inject cx wr c valid_messages index emitted [] g = (Some [], g)"
| "inject cx wr c valid_messages index emitted ((kind, p) # candidates) g =
     (if emitted \<ge> generator_max_anomalies_per_journey c then (Some [], g)
      else case possible_chance p g of
             (False, g') \<Rightarrow> inject cx wr c valid_messages (index + 1) emitted candidates g'
           | (True, g') \<Rightarrow>
               if valid_messages = [] then (None, g')
               else (case mutate cx wr c kind (valid_messages ! (index mod length valid_messages)) valid_messages of
                       None \<Rightarrow> (None, g')
                     | Some m \<Rightarrow>
                         (case inject cx wr c valid_messages (index + 1) (emitted + 1) candidates g' of
                            (rest, g'') \<Rightarrow> (map_option ((#) m) rest, g''))))"

definition swap_first :: "publishable_message list \<Rightarrow> publishable_message list" where
  "swap_first ms = ms[0 := tag (ms ! 1) A_OUT_OF_ORDER, 1 := tag (ms ! 0) A_OUT_OF_ORDER]"

definition reorder :: "generator_config \<Rightarrow> int \<Rightarrow> publishable_message list \<Rightarrow> synthetic \<Rightarrow> publishable_message list \<times> synthetic" where
  "reorder c emitted ms g =
     (if emitted < generator_max_anomalies_per_journey c \<and> 2 \<le> length ms
      then (case possible_chance (generator_out_of_order_probability c) g of
              (hit, g') \<Rightarrow> (if hit then swap_first ms else ms, g'))
      else (ms, g))"

definition prepare ::
  "codec \<Rightarrow> writer \<Rightarrow> generator_config \<Rightarrow> envelope list \<Rightarrow> synthetic \<Rightarrow> publishable_message list option \<times> synthetic" where
  "prepare cx wr c events g =
     (let ms = map (valid_message wr) events
      in if \<not> generator_anomalies_enabled c then (Some ms, g)
         else case inject cx wr c ms 0 0 (anomaly_candidates c) g of
                (None, g') \<Rightarrow> (None, g')
              | (Some extra, g') \<Rightarrow>
                  (case reorder c (int (length extra)) (ms @ extra) g' of (ms', g'') \<Rightarrow> (Some ms', g'')))"

section \<open>What the libraries promise\<close>

text \<open>Writing a document with sorted keys and reading it back gives the document with its keys sorted.\<close>

primrec sort_keys :: "json \<Rightarrow> json" where
  "sort_keys JNull = JNull"
| "sort_keys (JBool b) = JBool b"
| "sort_keys (JInt i) = JInt i"
| "sort_keys (JFloat x) = JFloat x"
| "sort_keys (JStr s) = JStr s"
| "sort_keys (JList xs) = JList (map sort_keys xs)"
| "sort_keys (JObj d) = JObj (sort_key fst (map (map_prod id sort_keys) d))"

text \<open>\<open>_EnvelopeInput\<close> read from a document: the eight fields, each with its type, and no other key.\<close>

definition envelope_input_of :: "(json \<Rightarrow> uuid option) \<Rightarrow> (string \<Rightarrow> instant option) \<Rightarrow> json \<Rightarrow> envelope_input option" where
  "envelope_input_of uuid_of time_of j =
     (case j of
        JObj d \<Rightarrow>
          (if set (map fst d) \<subseteq> {''event_id'', ''event_type'', ''event_version'', ''event_time'', ''produced_at'', ''source'',
                ''correlation_id'', ''payload''}
           then (case (Option.bind (dict_get d ''event_id'') uuid_of, dict_get d ''event_type'', dict_get d ''event_version'',
                       dict_get d ''event_time'', dict_get d ''produced_at'', dict_get d ''source'',
                       Option.bind (dict_get d ''correlation_id'') uuid_of, dict_get d ''payload'') of
                   (Some i, Some (JStr ty), Some (JInt v), Some (JStr te), Some (JStr tp), Some (JStr s), Some corr, Some (JObj p)) \<Rightarrow>
                     (case (event_type_of ty, time_of te, time_of tp) of
                        (Some ty', Some te', Some tp') \<Rightarrow>
                          Some \<lparr>ei_event_id = i, ei_event_type = ty', ei_event_version = v, ei_event_time = te',
                                ei_produced_at = tp', ei_source = s, ei_correlation_id = corr, ei_payload = p\<rparr>
                      | _ \<Rightarrow> None)
                 | _ \<Rightarrow> None)
           else None)
      | _ \<Rightarrow> None)"

text \<open>The documented behaviour of the JSON library and of the scalar types: a written object is read back,
  without its closing brace it is not JSON, an identifier and both spellings of a time are read back.\<close>

definition wire_laws :: "codec \<Rightarrow> writer \<Rightarrow> (string \<Rightarrow> instant option) \<Rightarrow> bool" where
  "wire_laws cx wr time_of \<longleftrightarrow>
     (\<forall>d. distinct (map fst d) \<longrightarrow> cx_loads cx (wr_dumps wr (JObj d)) = Some (sort_keys (JObj d)) \<and>
        cx_loads cx (butlast (wr_dumps wr (JObj d))) = None) \<and>
     (\<forall>s. cx_envelope cx s = Option.bind (cx_loads cx s) (envelope_input_of (cx_uuid cx) time_of)) \<and>
     (\<forall>u. cx_uuid cx (JStr (uuid_str u)) = Some u) \<and>
     (\<forall>t. time_of (wr_time wr t) = Some t \<and> time_of (wr_isoformat wr t) = Some t) \<and>
     set (cx_header_order cx) = set REQUIRED_EVENT_HEADERS"

text \<open>The payload models read what they wrote and refuse, having no optional and no unknown fields, what
  another model wrote and the empty object.\<close>

definition keys_sorted :: "json dict \<Rightarrow> json dict" where
  "keys_sorted d = map (map_prod id sort_keys) (sort_key fst d)"

definition payloads_read :: "codec \<Rightarrow> writer \<Rightarrow> payload set \<Rightarrow> bool" where
  "payloads_read cx wr ps \<longleftrightarrow>
     (\<forall>ty. cx_payload cx ty [] = None) \<and>
     (\<forall>ty. \<forall>p \<in> ps. cx_payload cx ty (keys_sorted (wr_payload wr p)) = (if payload_type p = ty then Some p else None))"

section \<open>Reading the bodies\<close>

definition wire_fields :: "envelope \<Rightarrow> string \<Rightarrow> string \<Rightarrow> json \<Rightarrow> json dict" where
  "wire_fields e event_time produced_at payload0 =
     [(''correlation_id'', JStr (uuid_str (ev_correlation_id e))), (''event_id'', JStr (uuid_str (ev_event_id e))),
      (''event_time'', JStr event_time), (''event_type'', JStr (event_type_value (ev_event_type e))),
      (''event_version'', JInt (ev_event_version e)), (''payload'', payload0), (''produced_at'', JStr produced_at),
      (''source'', JStr (ev_source e))]"

lemma insort_map_keys: "(\<And>x. k (f x) = k x) \<Longrightarrow> insort_key k (f x) (map f xs) = map f (insort_key k x xs)"
  by (induction xs) auto

lemma sort_map_keys: "(\<And>x. k (f x) = k x) \<Longrightarrow> sort_key k (map f xs) = map f (sort_key k xs)"
  by (induction xs) (simp_all add: insort_map_keys)

lemma sort_keys_obj: "sort_keys (JObj d) = JObj (keys_sorted d)"
  by (simp add: keys_sorted_def sort_map_keys del: map_prod_simp)

lemma sort_keys_idem: "sort_keys (sort_keys j) = sort_keys j"
proof (induction j)
  case (JObj d)
  have "sort_keys (sort_keys v) = sort_keys v" if "(k, v) \<in> set d" for k v using JObj [of "(k, v)" v] that by simp
  then have same: "map (map_prod id sort_keys) (map (map_prod id sort_keys) (sort_key fst d)) = map (map_prod id sort_keys) (sort_key fst d)"
    by auto
  have "sort_key fst (map (map_prod id sort_keys) (sort_key fst d)) = map (map_prod id sort_keys) (sort_key fst d)"
    by (subst sort_map_keys) (simp_all add: sort_key_id_if_sorted)
  then show ?case unfolding sort_keys_obj keys_sorted_def using same by simp
qed simp_all

lemma fields_sorted: "sort_key fst (envelope_fields e te tp p) = wire_fields e te tp p"
  by (simp add: envelope_fields_def wire_fields_def less_list_code)

lemma wire_sorted: "sort_key fst (wire_fields e te tp p) = wire_fields e te tp p"
  by (simp add: wire_fields_def)

lemma keys_sorted_idem: "keys_sorted (keys_sorted d) = keys_sorted d"
  using sort_keys_idem [of "JObj d"] unfolding sort_keys_obj by simp

lemma keys_sorted_fields:
  "keys_sorted (envelope_fields e te tp (JObj p)) = wire_fields e te tp (JObj (keys_sorted p))"
  "keys_sorted (wire_fields e te tp (JObj p)) = wire_fields e te tp (JObj (keys_sorted p))"
  using sort_keys_obj [of p]
  by (simp_all add: keys_sorted_def fields_sorted wire_sorted) (simp_all add: wire_fields_def)

lemma fields_distinct: "distinct (map fst (envelope_fields e te tp p))" "distinct (map fst (wire_fields e te tp p))"
  by (simp_all add: envelope_fields_def wire_fields_def)

lemma wire_loads:
  assumes "wire_laws cx wr time_of"
  shows "distinct (map fst d) \<Longrightarrow> cx_loads cx (wr_dumps wr (JObj d)) = Some (JObj (keys_sorted d))"
    and "cx_loads cx (canonical_json wr e) =
      Some (JObj (wire_fields e (wr_time wr (ev_event_time e)) (wr_time wr (ev_produced_at e)) (JObj (keys_sorted (wr_payload wr (ev_payload e))))))"
    and "cx_loads cx (wr_dumps wr (JObj (wire_fields e te tp (JObj p)))) = Some (JObj (wire_fields e te tp (JObj (keys_sorted p))))"
    and "cx_loads cx (butlast (canonical_json wr e)) = None"
proof -
  show *: "distinct (map fst d) \<Longrightarrow> cx_loads cx (wr_dumps wr (JObj d)) = Some (JObj (keys_sorted d))" for d
    using assms sort_keys_obj unfolding wire_laws_def by metis
  show "cx_loads cx (canonical_json wr e) =
      Some (JObj (wire_fields e (wr_time wr (ev_event_time e)) (wr_time wr (ev_produced_at e)) (JObj (keys_sorted (wr_payload wr (ev_payload e))))))"
    unfolding canonical_json_def model_dump_def by (subst *) (simp_all add: fields_distinct keys_sorted_fields)
  show "cx_loads cx (wr_dumps wr (JObj (wire_fields e te tp (JObj p)))) = Some (JObj (wire_fields e te tp (JObj (keys_sorted p))))"
    by (subst *) (simp_all add: fields_distinct keys_sorted_fields)
  show "cx_loads cx (butlast (canonical_json wr e)) = None"
    using assms fields_distinct unfolding wire_laws_def canonical_json_def model_dump_def by blast
qed

lemma wire_dict_get [simp]:
  "dict_get (wire_fields e te tp p) ''event_id'' = Some (JStr (uuid_str (ev_event_id e)))"
  "dict_get (wire_fields e te tp p) ''event_type'' = Some (JStr (event_type_value (ev_event_type e)))"
  "dict_get (wire_fields e te tp p) ''event_version'' = Some (JInt (ev_event_version e))"
  "dict_get (wire_fields e te tp p) ''event_time'' = Some (JStr te)"
  "dict_get (wire_fields e te tp p) ''produced_at'' = Some (JStr tp)"
  "dict_get (wire_fields e te tp p) ''source'' = Some (JStr (ev_source e))"
  "dict_get (wire_fields e te tp p) ''correlation_id'' = Some (JStr (uuid_str (ev_correlation_id e)))"
  "dict_get (wire_fields e te tp p) ''payload'' = Some p"
  by (simp_all add: dict_get_def wire_fields_def)

lemma wire_envelope:
  assumes "wire_laws cx wr time_of" "cx_loads cx s = Some (JObj (wire_fields e te tp (JObj p)))"
    and "time_of te = Some t" "time_of tp = Some (ev_produced_at e)"
  shows "cx_envelope cx s = Some \<lparr>ei_event_id = ev_event_id e, ei_event_type = ev_event_type e, ei_event_version = ev_event_version e,
    ei_event_time = t, ei_produced_at = ev_produced_at e, ei_source = ev_source e, ei_correlation_id = ev_correlation_id e, ei_payload = p\<rparr>"
proof -
  have keys: "set (map fst (wire_fields e te tp (JObj p))) \<subseteq> {''event_id'', ''event_type'', ''event_version'', ''event_time'', ''produced_at'',
      ''source'', ''correlation_id'', ''payload''}" by (simp add: wire_fields_def)
  have uuids: "\<And>u. cx_uuid cx (JStr (uuid_str u)) = Some u"
    and env: "cx_envelope cx s = Option.bind (cx_loads cx s) (envelope_input_of (cx_uuid cx) time_of)"
    using assms(1) by (simp_all add: wire_laws_def)
  show ?thesis unfolding env assms(2)
    by (simp only: envelope_input_of_def bind.simps json.case keys if_True wire_dict_get uuids option.case prod.case assms(3,4) event_type_of_value)
qed

lemma wire_parse:
  assumes "wire_laws cx wr time_of" "cx_loads cx s = Some (JObj (wire_fields e te tp (JObj p)))"
    and "time_of te = Some t" "time_of tp = Some (ev_produced_at e)" "event_wf e"
  shows "cx_payload cx (ev_event_type e) p = None \<Longrightarrow> parse_event cx s = Inl ''ValidationError''"
    and "cx_payload cx (ev_event_type e) p = Some (ev_payload e) \<Longrightarrow> t \<le> ev_event_time e \<Longrightarrow> parse_event cx s = Inr (e\<lparr>ev_event_time := t\<rparr>)"
  using wire_envelope [OF assms(1-4)] assms(2,5)
  by (simp_all add: parse_event_def event_type_of_value envelope_input_valid_def event_wf_def envelope_of_def validate_contract_consistency_def)

section \<open>How the processor reads the messages\<close>

text \<open>The record the processor consumes for a published message, at the position of \<open>m0\<close>.\<close>

definition as_consumed :: "consumed_message \<Rightarrow> publishable_message \<Rightarrow> consumed_message" where
  "as_consumed m0 m =
     m0\<lparr>cm_key := Some (pm_key m), cm_value := Some (pm_value m), cm_headers := map (\<lambda>(n, v). (n, Some v)) (pm_headers m)\<rparr>"

text \<open>What the processor makes of a message with a given anomaly of an event.\<close>

fun processor_verdict :: "generator_config \<Rightarrow> envelope \<Rightarrow> anomaly_type option \<Rightarrow> validation_category + envelope" where
  "processor_verdict c e (Some A_MALFORMED_JSON) = Inl MALFORMED_JSON"
| "processor_verdict c e (Some A_MISSING_FIELD) = Inl CONTRACT_VALIDATION_FAILED"
| "processor_verdict c e (Some A_UNKNOWN_EVENT_TYPE) = Inl UNKNOWN_EVENT_TYPE"
| "processor_verdict c e (Some A_PAYLOAD_MISMATCH) = Inl CONTRACT_VALIDATION_FAILED"
| "processor_verdict c e (Some A_LATE_EVENT) =
     Inr (e\<lparr>ev_event_time := ev_event_time e - min (generator_max_late_event_seconds c) 240 * 1000000\<rparr>)"
| "processor_verdict c e _ = Inr e"

definition read_as :: "codec \<Rightarrow> generator_config \<Rightarrow> consumed_message \<Rightarrow> envelope \<Rightarrow> publishable_message \<Rightarrow> bool" where
  "read_as cx c m0 e m \<longleftrightarrow>
     map_sum vi_category id (validate_message cx (as_consumed m0 m)) = processor_verdict c e (pm_anomaly_type m) \<and>
     (\<forall>i. validate_message cx (as_consumed m0 m) = Inl i \<longrightarrow> vi_anomaly_type i = map_option anomaly_value (pm_anomaly_type m))"

definition generated_ok :: "envelope \<Rightarrow> bool" where
  "generated_ok e \<longleftrightarrow> event_wf e \<and> ev_event_version e = CURRENT_EVENT_VERSION \<and> utf8_valid (ev_source e)"

lemma anomaly_value_utf8: "utf8_valid (anomaly_value k)"
  by (rule utf8_ascii) (cases k; simp)

lemma tagged_record:
  "as_consumed m0 (replace_value (valid_message wr e) v k) = event_message v [(''synthetic_anomaly'', Some (anomaly_value k))] e m0"
  "as_consumed m0 (valid_message wr e) = event_message (canonical_json wr e) [] e m0"
  by (simp_all add: as_consumed_def replace_value_def valid_message_def event_message_def)

lemma anomaly_reported:
  "anomaly_of (group_headers (map (\<lambda>(n, v). (n, Some v)) (event_message_headers e) @ [(''synthetic_anomaly'', Some (anomaly_value k))])) =
     Some (anomaly_value k)"
  using anomaly_value_utf8 [of k]
  by (simp add: anomaly_of_def map_of_group_headers Let_def event_message_headers_def decode_utf8_def)

lemma extra_ok: "\<forall>(n, w) \<in> set [(''synthetic_anomaly'', v)]. n \<notin> set REQUIRED_EVENT_HEADERS"
  by (simp add: REQUIRED_EVENT_HEADERS_def)

lemma reads_wire:
  assumes w: "wire_laws cx wr time_of" and e: "generated_ok e"
    and s: "cx_loads cx s = Some (JObj (wire_fields e te tp (JObj p)))" "time_of te = Some t" "time_of tp = Some (ev_produced_at e)"
    and p: "cx_payload cx (ev_event_type e) p = Some (ev_payload e)" "t \<le> ev_event_time e"
    and extra: "\<forall>(n, w) \<in> set extra. n \<notin> set REQUIRED_EVENT_HEADERS"
  shows "validate_message cx (event_message s extra e m0) = Inr (e\<lparr>ev_event_time := t\<rparr>)"
proof -
  let ?e = "e\<lparr>ev_event_time := t\<rparr>"
  have "event_message s extra e m0 = event_message s extra ?e m0"
    by (simp add: event_message_def event_message_key_def event_message_headers_def cong: option.case_cong)
  moreover have "validate_message cx (event_message s extra ?e m0) = Inr ?e"
    by (rule produced_validates [OF _ s(1)])
       (use wire_parse(2) [OF w s _ p] e w extra in \<open>simp_all add: generated_ok_def wire_laws_def\<close>)
  ultimately show ?thesis by simp
qed

lemma rejects_body:
  assumes w: "wire_laws cx wr time_of" and e: "generated_ok e"
    and v: "\<And>hs key anomaly. \<exists>i. validate_body cx hs key v anomaly = Inl i \<and> vi_category i = cat \<and> vi_anomaly_type i = anomaly"
    and cat: "processor_verdict c e (Some k) = Inl cat"
  shows "read_as cx c m0 e (replace_value (valid_message wr e) v k)"
proof -
  have hdr: "utf8_valid (ev_source e)" "set (cx_header_order cx) = set REQUIRED_EVENT_HEADERS"
    using e w by (simp_all add: generated_ok_def wire_laws_def)
  obtain hs where "validate_message cx (event_message v [(''synthetic_anomaly'', Some (anomaly_value k))] e m0) =
      validate_body cx hs (event_message_key e) v (Some (anomaly_value k))"
    by (rule reaches_body [OF hdr extra_ok, of v "Some (anomaly_value k)" m0]) (simp only: anomaly_reported)
  with v [of hs "event_message_key e" "Some (anomaly_value k)"] show ?thesis
    unfolding read_as_def tagged_record using cat by (auto simp: replace_value_def)
qed

lemma accepts_body:
  assumes "validate_message cx (event_message v [(''synthetic_anomaly'', Some (anomaly_value k))] e m0) = Inr e'"
    and "processor_verdict c e (Some k) = Inr e'"
  shows "read_as cx c m0 e (replace_value (valid_message wr e) v k)"
  unfolding read_as_def tagged_record using assms by (simp add: replace_value_def)

lemma wire_update:
  "AList.update ''event_time'' (JStr x) (wire_fields e te tp p) = wire_fields e x tp p"
  "AList.update ''payload'' q (wire_fields e te tp p) = wire_fields e te tp q"
  by (simp_all add: wire_fields_def)

lemma wire_delete_loads:
  assumes "wire_laws cx wr time_of"
  shows "cx_loads cx (wr_dumps wr (JObj (AList.delete ''event_id'' (wire_fields e te tp (JObj p))))) =
      Some (JObj (AList.delete ''event_id'' (wire_fields e te tp (JObj (keys_sorted p)))))"
    and "cx_loads cx (wr_dumps wr (JObj (AList.update ''event_type'' (JStr x) (wire_fields e te tp (JObj p))))) =
      Some (JObj (AList.update ''event_type'' (JStr x) (wire_fields e te tp (JObj (keys_sorted p)))))"
  by (subst wire_loads(1) [OF assms], simp add: wire_fields_def, subst keys_sorted_def,
      simp add: wire_fields_def sort_keys_obj del: sort_keys.simps(7))+

lemma validate_body_contract:
  assumes "cx_loads cx v = Some j" "precheck_body j = None" "parse_event cx v = Inl msg"
  shows "\<exists>i. validate_body cx hs key v anomaly = Inl i \<and> vi_category i = CONTRACT_VALIDATION_FAILED \<and> vi_anomaly_type i = anomaly"
  using assms by (simp add: validate_body_def Let_def validation_error_def split: prod.split)

lemma wire_precheck:
  assumes "ev_event_version e = CURRENT_EVENT_VERSION"
  shows "precheck_body (JObj (wire_fields e te tp p)) = None"
    and "precheck_body (JObj (AList.delete ''event_id'' (wire_fields e te tp p))) = None"
    and "precheck_body (JObj (AList.update ''event_type'' (JStr ''synthetic_unknown_event'') (wire_fields e te tp p))) =
      Some (UNKNOWN_EVENT_TYPE, ''unknown event type'')"
proof -
  have "event_type_value (ev_event_type e) \<in> set (map event_type_value event_types)"
    using event_types_all by (auto simp del: event_types_def)
  then show "precheck_body (JObj (wire_fields e te tp p)) = None"
    and "precheck_body (JObj (AList.delete ''event_id'' (wire_fields e te tp p))) = None"
    using assms by (simp_all add: precheck_body_def wire_fields_def dict_get_def)
  have "''synthetic_unknown_event'' \<notin> set (map event_type_value event_types)" by (simp add: event_types_def)
  then show "precheck_body (JObj (AList.update ''event_type'' (JStr ''synthetic_unknown_event'') (wire_fields e te tp p))) =
      Some (UNKNOWN_EVENT_TYPE, ''unknown event type'')"
    by (simp add: precheck_body_def wire_fields_def dict_get_def)
qed

lemma other_payload:
  assumes w: "wire_laws cx wr time_of" and p: "payloads_read cx wr (ev_payload ` set es)" and es: "\<And>x. x \<in> set es \<Longrightarrow> generated_ok x"
  shows "\<exists>q. replacement_payload cx (valid_message wr e) (map (valid_message wr) es) = Some (JObj q) \<and> keys_sorted q = q \<and>
    cx_payload cx (ev_event_type e) q = None"
proof (cases "find (\<lambda>m. pm_event_type m \<noteq> pm_event_type (valid_message wr e) \<and> pm_anomaly_type m = None) (map (valid_message wr) es)")
  case None
  with p show ?thesis by (simp add: replacement_payload_def keys_sorted_def payloads_read_def)
next
  case (Some m)
  then have "m \<in> set (map (valid_message wr) es)" "pm_event_type m \<noteq> pm_event_type (valid_message wr e)"
    unfolding find_Some_iff using nth_mem by metis+
  then obtain x where x: "x \<in> set es" "m = valid_message wr x" "event_type_value (ev_event_type x) \<noteq> event_type_value (ev_event_type e)"
    by (auto simp: valid_message_def)
  have "payload_type (ev_payload x) \<noteq> ev_event_type e"
    using es [OF x(1)] x(3) by (auto simp: generated_ok_def event_wf_def validate_contract_consistency_def)
  then have "cx_payload cx (ev_event_type e) (keys_sorted (wr_payload wr (ev_payload x))) = None"
    using p x(1) by (auto simp: payloads_read_def)
  with Some x(2) wire_loads(2) [OF w, of x] show ?thesis
    by (simp add: replacement_payload_def keys_sorted_idem valid_message_def)
qed

lemma own_reads:
  assumes w: "wire_laws cx wr time_of" and e: "generated_ok e" "payloads_read cx wr ps" "ev_payload e \<in> ps"
    and extra: "\<forall>(n, w) \<in> set extra. n \<notin> set REQUIRED_EVENT_HEADERS"
  shows "validate_message cx (event_message (canonical_json wr e) extra e m0) = Inr e"
proof -
  have "time_of (wr_time wr t) = Some t" for t using w by (simp add: wire_laws_def)
  moreover have "cx_payload cx (ev_event_type e) (keys_sorted (wr_payload wr (ev_payload e))) = Some (ev_payload e)"
    using e by (auto simp: payloads_read_def generated_ok_def event_wf_def validate_contract_consistency_def)
  ultimately show ?thesis using reads_wire [OF w e(1) wire_loads(2) [OF w] _ _ _ _ extra] by simp
qed

lemma tagged_reads:
  assumes "wire_laws cx wr time_of" "generated_ok e" "payloads_read cx wr ps" "ev_payload e \<in> ps" "k = A_DUPLICATE \<or> k = A_OUT_OF_ORDER"
  shows "read_as cx c m0 e (tag (valid_message wr e) k)" "validate_message cx (as_consumed m0 (tag (valid_message wr e) k)) = Inr e"
proof -
  have v: "tag (valid_message wr e) k = replace_value (valid_message wr e) (canonical_json wr e) k"
    by (simp add: tag_def valid_message_def)
  note own = own_reads [OF assms(1-4) extra_ok]
  show "read_as cx c m0 e (tag (valid_message wr e) k)"
    unfolding v by (rule accepts_body [OF own]) (use assms(5) in auto)
  show "validate_message cx (as_consumed m0 (tag (valid_message wr e) k)) = Inr e" unfolding v tagged_record by (rule own)
qed

lemma valid_reads:
  assumes "wire_laws cx wr time_of" "generated_ok e" "payloads_read cx wr ps" "ev_payload e \<in> ps"
  shows "read_as cx c m0 e (valid_message wr e)" "validate_message cx (as_consumed m0 (valid_message wr e)) = Inr e"
proof -
  show *: "validate_message cx (as_consumed m0 (valid_message wr e)) = Inr e"
    unfolding tagged_record by (rule own_reads [OF assms]) simp
  show "read_as cx c m0 e (valid_message wr e)" unfolding read_as_def * by (simp add: valid_message_def)
qed

lemma mutated_reads:
  assumes w: "wire_laws cx wr time_of" and p: "payloads_read cx wr (ev_payload ` set es)"
    and es: "\<And>x. x \<in> set es \<Longrightarrow> generated_ok x" and e: "e \<in> set es" and late: "0 < generator_max_late_event_seconds c"
    and k: "k \<noteq> A_OUT_OF_ORDER"
  shows "\<exists>v. mutate cx wr c k (valid_message wr e) (map (valid_message wr) es) = Some (replace_value (valid_message wr e) v k) \<and>
    read_as cx c m0 e (replace_value (valid_message wr e) v k)"
proof -
  let ?ty = "event_type_value (ev_event_type e)"
  let ?te = "wr_time wr (ev_event_time e)" and ?tp = "wr_time wr (ev_produced_at e)" and ?p = "keys_sorted (wr_payload wr (ev_payload e))"
  have ok: "generated_ok e" "event_wf e" "ev_event_version e = CURRENT_EVENT_VERSION" using es [OF e] by (simp_all add: generated_ok_def)
  have times: "time_of (wr_time wr t) = Some t" "time_of (wr_isoformat wr t) = Some t" for t using w by (simp_all add: wire_laws_def)
  have own: "cx_payload cx (ev_event_type e) ?p = Some (ev_payload e)"
    using p e ok(2) by (auto simp: payloads_read_def event_wf_def validate_contract_consistency_def)
  have loads: "cx_loads cx (pm_value (valid_message wr e)) = Some (JObj (wire_fields e ?te ?tp (JObj ?p)))"
    by (simp add: valid_message_def wire_loads(2) [OF w])
  have parsed: "parse_event cx (pm_value (valid_message wr e)) = Inr e"
    using wire_parse(2) [OF w loads times(1) times(1) ok(2) own] by simp
  show ?thesis
  proof (cases k)
    case A_DUPLICATE
    have "read_as cx c m0 e (tag (valid_message wr e) k)" using tagged_reads(1) [OF w ok(1) p] e A_DUPLICATE by simp
    with A_DUPLICATE show ?thesis by (auto simp: mutate_def tag_def)
  next
    case A_MALFORMED_JSON
    have "read_as cx c m0 e (replace_value (valid_message wr e) (butlast (canonical_json wr e)) k)"
      by (rule rejects_body [OF w ok(1), where cat = MALFORMED_JSON])
         (simp_all add: A_MALFORMED_JSON validate_body_def wire_loads(4) [OF w] Let_def validation_error_def split: prod.split)
    with A_MALFORMED_JSON show ?thesis by (auto simp: mutate_def valid_message_def)
  next
    case A_MISSING_FIELD
    let ?d = "AList.delete ''event_id'' (wire_fields e ?te ?tp (JObj ?p))"
    have l: "cx_loads cx (wr_dumps wr (JObj ?d)) = Some (JObj ?d)" using wire_delete_loads(1) [OF w] keys_sorted_idem by metis
    have "cx_envelope cx (wr_dumps wr (JObj ?d)) = Option.bind (cx_loads cx (wr_dumps wr (JObj ?d))) (envelope_input_of (cx_uuid cx) time_of)"
      using w by (simp add: wire_laws_def)
    then have "cx_envelope cx (wr_dumps wr (JObj ?d)) = None"
      unfolding l by (simp add: envelope_input_of_def wire_fields_def dict_get_def)
    then have "parse_event cx (wr_dumps wr (JObj ?d)) = Inl ''ValidationError''"
      unfolding parse_event_def l by (simp add: wire_fields_def dict_get_def event_type_of_value)
    note reject = validate_body_contract [OF l wire_precheck(2) [OF ok(3)] this]
    have "read_as cx c m0 e (replace_value (valid_message wr e) (wr_dumps wr (JObj ?d)) k)"
      by (rule rejects_body [OF w ok(1) reject]) (simp add: A_MISSING_FIELD)
    with A_MISSING_FIELD loads show ?thesis by (auto simp: mutate_def mutate_body_def)
  next
    case A_UNKNOWN_EVENT_TYPE
    let ?d = "AList.update ''event_type'' (JStr ''synthetic_unknown_event'') (wire_fields e ?te ?tp (JObj ?p))"
    have l: "cx_loads cx (wr_dumps wr (JObj ?d)) = Some (JObj ?d)" using wire_delete_loads(2) [OF w] keys_sorted_idem by metis
    have "read_as cx c m0 e (replace_value (valid_message wr e) (wr_dumps wr (JObj ?d)) k)"
      by (rule rejects_body [OF w ok(1), where cat = UNKNOWN_EVENT_TYPE])
         (simp_all add: A_UNKNOWN_EVENT_TYPE validate_body_def l wire_precheck(3) [OF ok(3)] Let_def validation_error_def split: prod.split)
    with A_UNKNOWN_EVENT_TYPE loads show ?thesis by (auto simp: mutate_def mutate_body_def)
  next
    case A_LATE_EVENT
    let ?t = "ev_event_time e - min (generator_max_late_event_seconds c) 240 * 1000000"
    let ?v = "wr_dumps wr (JObj (wire_fields e (wr_isoformat wr ?t) ?tp (JObj ?p)))"
    have l: "cx_loads cx ?v = Some (JObj (wire_fields e (wr_isoformat wr ?t) ?tp (JObj ?p)))"
      using wire_loads(3) [OF w] keys_sorted_idem by metis
    have "?t \<le> ev_event_time e" using late by simp
    from reads_wire [OF w ok(1) l times(2) times(1) own this extra_ok]
    have "read_as cx c m0 e (replace_value (valid_message wr e) ?v k)"
      by (rule accepts_body) (simp add: A_LATE_EVENT)
    with A_LATE_EVENT loads parsed show ?thesis by (auto simp: mutate_def mutate_body_def wire_update)
  next
    case A_PAYLOAD_MISMATCH
    have "\<exists>q. replacement_payload cx (valid_message wr e) (map (valid_message wr) es) = Some (JObj q) \<and> keys_sorted q = q \<and>
        cx_payload cx (ev_event_type e) q = None"
      using other_payload [OF w p es] by simp
    then obtain q where q: "replacement_payload cx (valid_message wr e) (map (valid_message wr) es) = Some (JObj q)" "keys_sorted q = q"
      "cx_payload cx (ev_event_type e) q = None" by blast
    let ?v = "wr_dumps wr (JObj (wire_fields e ?te ?tp (JObj q)))"
    have l: "cx_loads cx ?v = Some (JObj (wire_fields e ?te ?tp (JObj q)))" using wire_loads(3) [OF w] q(2) by metis
    note reject = validate_body_contract [OF l wire_precheck(1) [OF ok(3)] wire_parse(1) [OF w l times(1) times(1) ok(2) q(3)]]
    have "read_as cx c m0 e (replace_value (valid_message wr e) ?v k)"
      by (rule rejects_body [OF w ok(1) reject]) (simp add: A_PAYLOAD_MISMATCH)
    with A_PAYLOAD_MISMATCH loads q(1) show ?thesis by (auto simp: mutate_def mutate_body_def wire_update)
  next
    case A_OUT_OF_ORDER
    with k show ?thesis by simp
  qed
qed

section \<open>The messages of a journey\<close>

lemma inject_reads:
  assumes w: "wire_laws cx wr time_of" and p: "payloads_read cx wr (ev_payload ` set es)"
    and es: "\<And>x. x \<in> set es \<Longrightarrow> generated_ok x" "es \<noteq> []" and late: "0 < generator_max_late_event_seconds c"
    and k: "A_OUT_OF_ORDER \<notin> fst ` set cs" and n: "0 \<le> emitted"
  shows "\<exists>extra g'. inject cx wr c (map (valid_message wr) es) i emitted cs g = (Some extra, g') \<and>
    emitted + int (length extra) \<le> max emitted (generator_max_anomalies_per_journey c) \<and>
    (\<forall>m \<in> set extra. pm_anomaly_type m \<noteq> None \<and> (\<exists>e \<in> set es. read_as cx c m0 e m))"
  using k n
proof (induction cs arbitrary: i emitted g)
  case (Cons kp cs)
  obtain k p where kp: "kp = (k, p)" by force
  show ?case
  proof (cases "emitted \<ge> generator_max_anomalies_per_journey c")
    case False
    obtain hit g1 where hit: "possible_chance p g = (hit, g1)" by force
    note more = Cons.IH [of _ "i + 1" g1]
    show ?thesis
    proof (cases hit)
      case True
      let ?e = "es ! (i mod length es)"
      have e: "?e \<in> set es" using es(2) by simp
      have k: "k \<noteq> A_OUT_OF_ORDER" using Cons.prems(1) unfolding kp by auto
      obtain v where v: "mutate cx wr c k (valid_message wr ?e) (map (valid_message wr) es) = Some (replace_value (valid_message wr ?e) v k)"
        "read_as cx c m0 ?e (replace_value (valid_message wr ?e) v k)"
        using mutated_reads [OF w assms(2) es(1) e late k] by blast
      obtain extra g' where rest: "inject cx wr c (map (valid_message wr) es) (i + 1) (emitted + 1) cs g1 = (Some extra, g')"
        "emitted + 1 + int (length extra) \<le> max (emitted + 1) (generator_max_anomalies_per_journey c)"
        "\<forall>m \<in> set extra. pm_anomaly_type m \<noteq> None \<and> (\<exists>e \<in> set es. read_as cx c m0 e m)"
        using more [of "emitted + 1"] Cons.prems by auto
      have "map (valid_message wr) es ! (i mod length (map (valid_message wr) es)) = valid_message wr ?e" using es(2) by simp
      with False hit True es(2) v(1) rest(1)
      have "inject cx wr c (map (valid_message wr) es) i emitted (kp # cs) g = (Some (replace_value (valid_message wr ?e) v k # extra), g')"
        unfolding kp by simp
      moreover have "\<forall>m \<in> set (replace_value (valid_message wr ?e) v k # extra).
          pm_anomaly_type m \<noteq> None \<and> (\<exists>e \<in> set es. read_as cx c m0 e m)"
        using rest(3) v(2) e by (auto simp: replace_value_def)
      moreover have "emitted + int (length (replace_value (valid_message wr ?e) v k # extra)) \<le> max emitted (generator_max_anomalies_per_journey c)"
        using rest(2) False by simp
      ultimately show ?thesis by blast
    next
      case miss: False
      have "inject cx wr c (map (valid_message wr) es) i emitted (kp # cs) g = inject cx wr c (map (valid_message wr) es) (i + 1) emitted cs g1"
        using False hit miss unfolding kp by simp
      with more [of emitted] Cons.prems show ?thesis by simp
    qed
  qed (use kp in simp)
qed simp

definition anomalous :: "publishable_message \<Rightarrow> bool" where
  "anomalous m \<longleftrightarrow> pm_anomaly_type m \<noteq> None"

lemma plain_messages: "filter (anomalous \<circ> valid_message wr) xs = []"
  by (induction xs) (simp_all add: valid_message_def anomalous_def)

lemma swap_first_Cons: "swap_first (a # b # ms) = tag b A_OUT_OF_ORDER # tag a A_OUT_OF_ORDER # ms"
  by (simp add: swap_first_def)

lemma reorder_cases:
  assumes "reorder c n ms g = (ms', g')"
  shows "ms' = ms \<or> ms' = swap_first ms \<and> n < generator_max_anomalies_per_journey c"
  using assms by (auto simp: reorder_def split: if_splits prod.splits)

text \<open>What holds of the messages prepared for the events \<open>es\<close>.\<close>

definition well_prepared :: "codec \<Rightarrow> generator_config \<Rightarrow> consumed_message \<Rightarrow> envelope list \<Rightarrow> publishable_message list \<Rightarrow> bool" where
  "well_prepared cx c m0 es ms \<longleftrightarrow>
     (\<forall>m \<in> set ms. \<exists>e \<in> set es. read_as cx c m0 e m) \<and>
     (\<forall>e \<in> set es. \<exists>m \<in> set ms. validate_message cx (as_consumed m0 m) = Inr e) \<and>
     int (length ms) \<le> int (length es) + generator_max_anomalies_per_journey c \<and>
     int (length (filter anomalous ms)) \<le> generator_max_anomalies_per_journey c + 1"

lemma appended_prepared:
  assumes w: "wire_laws cx wr time_of" and p: "payloads_read cx wr (ev_payload ` set es)" and es: "\<And>e. e \<in> set es \<Longrightarrow> generated_ok e"
    and x: "\<forall>m \<in> set extra. \<exists>e \<in> set es. read_as cx c m0 e m" "int (length extra) \<le> generator_max_anomalies_per_journey c"
  shows "well_prepared cx c m0 es (map (valid_message wr) es @ extra)"
proof -
  let ?ms = "map (valid_message wr) es @ extra"
  note valid = valid_reads [OF w es p imageI]
  have "\<forall>m \<in> set ?ms. \<exists>e \<in> set es. read_as cx c m0 e m" using valid(1) x(1) by auto
  moreover have "\<exists>m \<in> set ?ms. validate_message cx (as_consumed m0 m) = Inr e" if "e \<in> set es" for e
    using valid(2) [OF that that] that by (intro bexI [of _ "valid_message wr e"]) auto
  moreover have "length (filter anomalous ?ms) = length (filter anomalous extra)" by (simp add: plain_messages)
  moreover have "int (length (filter anomalous extra)) \<le> generator_max_anomalies_per_journey c"
    using length_filter_le [of anomalous extra] x(2) by linarith
  ultimately show ?thesis using x(2) unfolding well_prepared_def by simp
qed

lemma swapped_prepared:
  assumes w: "wire_laws cx wr time_of" and p: "payloads_read cx wr (ev_payload ` set es)" and es: "\<And>e. e \<in> set es \<Longrightarrow> generated_ok e"
    and len: "2 \<le> length es"
    and x: "\<forall>m \<in> set extra. \<exists>e \<in> set es. read_as cx c m0 e m" "int (length extra) < generator_max_anomalies_per_journey c"
  shows "well_prepared cx c m0 es (swap_first (map (valid_message wr) es @ extra))"
proof -
  note valid = valid_reads [OF w es p imageI] and tagged = tagged_reads [OF w es p imageI]
  obtain a b rest where abr: "es = a # b # rest" using len by (auto simp: numeral_2_eq_2 Suc_le_length_iff)
  define ms where "ms = tag (valid_message wr b) A_OUT_OF_ORDER # tag (valid_message wr a) A_OUT_OF_ORDER # map (valid_message wr) rest @ extra"
  have ms: "swap_first (map (valid_message wr) es @ extra) = ms" using abr by (simp add: swap_first_Cons ms_def)
  have mem: "a \<in> set es" "b \<in> set es" "\<And>x. x \<in> set rest \<Longrightarrow> x \<in> set es" using abr by auto
  have "\<exists>e \<in> set es. read_as cx c m0 e (tag (valid_message wr y) A_OUT_OF_ORDER)" if "y \<in> set es" for y
    using tagged(1) [OF that that] that by blast
  moreover have "\<exists>e \<in> set es. read_as cx c m0 e (valid_message wr y)" if "y \<in> set rest" for y
    using valid(1) [OF mem(3) mem(3), OF that that] mem(3) [OF that] by blast
  ultimately have reads: "\<forall>m \<in> set ms. \<exists>e \<in> set es. read_as cx c m0 e m" unfolding ms_def using mem(1,2) x(1) by auto
  have kept: "\<exists>m \<in> set ms. validate_message cx (as_consumed m0 m) = Inr e" if e: "e \<in> set es" for e
  proof -
    consider "e = a" | "e = b" | "e \<in> set rest" using abr e by auto
    then show ?thesis
    proof cases
      case 3
      then have "valid_message wr e \<in> set ms" by (simp add: ms_def)
      then show ?thesis using valid(2) [OF e e] by blast
    qed (use tagged(2) [OF e e] in \<open>auto simp: ms_def\<close>)
  qed
  have "length (filter anomalous ms) = 2 + length (filter anomalous extra)"
    by (simp add: ms_def plain_messages) (simp add: anomalous_def tag_def replace_value_def)
  moreover have "int (length (filter anomalous extra)) < generator_max_anomalies_per_journey c"
    using length_filter_le [of anomalous extra] x(2) by linarith
  moreover have "length ms = length es + length extra" using abr by (simp add: ms_def)
  ultimately show ?thesis unfolding ms well_prepared_def using reads kept x(2) by simp
qed

section \<open>Properties\<close>

text \<open>C29: controlled anomalies do what they are named after, all the way into the processor. For the events of a
  journey under a valid configuration, whatever is drawn, the injector produces messages without an
  error. Each of them is read by the processor's validation as its kind says: a malformed body, a
  missing field, an unknown event type and a foreign payload are rejected with the matching category
  and report the kind of the anomaly; a duplicate, a late and an out-of-order message are accepted. No
  event is lost: each is still delivered unchanged by some message. At most the configured number of
  messages is added, and at most one more than that is tagged, since an exchange tags two messages.\<close>

theorem anomalies_read_as_meant:
  assumes c: "generator_config_valid float c" and w: "wire_laws cx wr time_of"
    and p: "payloads_read cx wr (ev_payload ` set es)" and es: "\<forall>e \<in> set es. generated_ok e" "2 \<le> length es"
  shows "\<exists>ms g'. prepare cx wr c es g = (Some ms, g') \<and>
    (\<forall>m \<in> set ms. \<exists>e \<in> set es. read_as cx c m0 e m) \<and>
    (\<forall>e \<in> set es. \<exists>m \<in> set ms. validate_message cx (as_consumed m0 m) = Inr e) \<and>
    int (length ms) \<le> int (length es) + generator_max_anomalies_per_journey c \<and>
    int (length (filter anomalous ms)) \<le> generator_max_anomalies_per_journey c + 1 \<and>
    (\<not> generator_anomalies_enabled c \<longrightarrow> ms = map (valid_message wr) es)"
proof -
  let ?max = "generator_max_anomalies_per_journey c"
  have c': "0 < generator_max_late_event_seconds c" "0 \<le> ?max" using c by (simp_all add: generator_config_valid_def)
  have ok: "x \<in> set es \<Longrightarrow> generated_ok x" for x using es(1) by blast
  have "\<exists>ms g'. prepare cx wr c es g = (Some ms, g') \<and> well_prepared cx c m0 es ms \<and> (\<not> generator_anomalies_enabled c \<longrightarrow> ms = map (valid_message wr) es)"
  proof (cases "generator_anomalies_enabled c")
    case False
    then show ?thesis using appended_prepared [OF w p ok, of "[]" c m0] c'(2) by (simp add: prepare_def)
  next
    case True
    have ne: "es \<noteq> []" using es(2) by auto
    obtain extra g1 where x: "inject cx wr c (map (valid_message wr) es) 0 0 (anomaly_candidates c) g = (Some extra, g1)"
      "int (length extra) \<le> ?max" "\<forall>m \<in> set extra. pm_anomaly_type m \<noteq> None \<and> (\<exists>e \<in> set es. read_as cx c m0 e m)"
      using inject_reads [OF w p ok ne c'(1), of "anomaly_candidates c" 0 0 g m0] c'(2) by (auto simp: anomaly_candidates_def)
    obtain ms g' where ms: "reorder c (int (length extra)) (map (valid_message wr) es @ extra) g1 = (ms, g')" by force
    have "prepare cx wr c es g = (Some ms, g')" using True x(1) ms by (simp add: prepare_def)
    moreover have "well_prepared cx c m0 es ms"
      using reorder_cases [OF ms] appended_prepared [OF w p ok _ x(2)] swapped_prepared [OF w p ok es(2)] x(3) by auto
    ultimately show ?thesis using True by blast
  qed
  then show ?thesis unfolding well_prepared_def by blast
qed

text \<open>A writer and a codec with the documented behaviour, for the witness: documents are written as the number of
  their code in unary, times in unary with a sign.\<close>

instance json :: countable
  by countable_datatype

definition unary_time :: "instant \<Rightarrow> string" where
  "unary_time t = (if t < 0 then replicate (nat (- t)) (CHR ''-'') else replicate (nat t) (CHR ''+''))"

definition read_time :: "string \<Rightarrow> instant option" where
  "read_time s = Some (case s of [] \<Rightarrow> 0 | ch # _ \<Rightarrow> if ch = CHR ''-'' then - int (length s) else int (length s))"

definition unary_writer :: writer where
  "unary_writer =
     \<lparr>wr_dumps = (\<lambda>j. replicate (to_nat j) (CHR ''x'') @ ''}''),
      wr_payload = (\<lambda>p. [(''type'', JStr (event_type_value (payload_type p)))]),
      wr_time = unary_time, wr_isoformat = unary_time\<rparr>"

definition unary_loads :: "string \<Rightarrow> json option" where
  "unary_loads s = (if s \<noteq> [] \<and> last s = CHR ''}'' then Some (sort_keys (from_nat (length s - 1))) else None)"

definition unary_codec :: "payload list \<Rightarrow> codec" where
  "unary_codec ps =
     \<lparr>cx_loads = unary_loads,
      cx_envelope = (\<lambda>s. Option.bind (unary_loads s)
        (envelope_input_of (\<lambda>j. case j of JStr u \<Rightarrow> Some (inv uuid_str u) | _ \<Rightarrow> None) read_time)),
      cx_payload = (\<lambda>ty d. if d = [(''type'', JStr (event_type_value ty))] then find (\<lambda>p. payload_type p = ty) ps else None),
      cx_uuid = (\<lambda>j. case j of JStr u \<Rightarrow> Some (inv uuid_str u) | _ \<Rightarrow> None),
      cx_header_order = REQUIRED_EVENT_HEADERS\<rparr>"

lemma unary_laws: "wire_laws (unary_codec ps) unary_writer read_time"
proof -
  have "inv uuid_str (uuid_str u) = u" for u using uuid_str_inj by (simp add: inj_def)
  moreover have "read_time (unary_time t) = Some t" for t
    by (cases "nat t"; cases "nat (- t)") (auto simp: read_time_def unary_time_def)
  moreover have "unary_loads (butlast (replicate n (CHR ''x'') @ ''}'')) = None" for n
    by (cases "n = 0") (simp_all add: unary_loads_def)
  ultimately show ?thesis by (simp add: wire_laws_def unary_codec_def unary_writer_def unary_loads_def del: sort_keys.simps)
qed

definition sample_session :: envelope where
  "sample_session = generated_event 2 SESSION_STARTED 9
     (SessionStarted \<lparr>ss_session_id = 3, ss_customer_id = 7, ss_device_id = 4, ss_device_type = DESKTOP, ss_ip_address = ''198.51.100.1'',
        ss_country_code = ''TR'', ss_channel = WEB, ss_started_at = 0\<rparr>) 0"

definition sample_registration :: envelope where
  "sample_registration = generated_event 1 USER_REGISTERED 9 demo_payload 0"

definition anomaly_config :: generator_config where
  "anomaly_config = default_generator_config\<lparr>generator_anomalies_enabled := True, generator_malformed_json_probability := 1\<rparr>"

lemma event_type_values_distinct: "event_type_value s = event_type_value t \<longleftrightarrow> s = t"
  using event_type_of_value by (metis option.inject)

lemma demo_messages_ok:
  "generated_ok sample_registration" "generated_ok sample_session"
  "payloads_read (unary_codec [ev_payload sample_registration, ev_payload sample_session]) unary_writer
     (ev_payload ` set [sample_registration, sample_session])"
proof -
  have "utf8_valid ''event-generator''" by (rule utf8_ascii) simp
  then show "generated_ok sample_registration" "generated_ok sample_session"
    by (simp_all add: generated_ok_def sample_registration_def sample_session_def generated_event_def event_wf_def demo_payload_def
        country_code_def non_empty_string_def validate_contract_consistency_def MAX_PRODUCER_CLOCK_SKEW_def CURRENT_EVENT_VERSION_def
        del: utf8_valid.simps)
  show "payloads_read (unary_codec [ev_payload sample_registration, ev_payload sample_session]) unary_writer
     (ev_payload ` set [sample_registration, sample_session])"
    by (auto simp: payloads_read_def unary_codec_def unary_writer_def keys_sorted_def sample_registration_def sample_session_def
        generated_event_def demo_payload_def event_type_values_distinct)
qed

theorem anomalies_read_as_meant_witness:
  "\<exists>cx. \<exists>ms g. prepare cx unary_writer anomaly_config [sample_registration, sample_session] demo_source = (Some ms, g) \<and>
     (\<forall>m \<in> set ms. \<exists>e \<in> {sample_registration, sample_session}. read_as cx anomaly_config demo_record e m)"
proof -
  have "generator_config_valid demo_float anomaly_config"
    using default_generator_config_valid by (simp add: generator_config_valid_def anomaly_config_def unit_interval_def)
  from anomalies_read_as_meant [OF this unary_laws demo_messages_ok(3), of demo_source demo_record] demo_messages_ok(1,2)
  show ?thesis by auto
qed

end
