(* ===== verification/Producer.thy ===== *)
theory Producer
  imports Anomalies "HOL-Library.Multiset" "HOL-Library.Sublist"
begin

text \<open>
  \<^verbatim>\<open>services/event_generator/producer.py\<close>: the Kafka producer of the generator. The client is an
  environment: its n-th call either refuses a message because its queue is full, and each time
  callbacks are served it reports, for any of the messages it holds, a delivery or a failure. The
  messages reported so far are kept beside the counters of the class.
\<close>

section \<open>The producer\<close>

text \<open>\<open>kc_full n\<close>: the n-th call raises \<open>BufferError\<close>. \<open>kc_reports n i\<close>: the report made in the n-th call for the
  i-th queued message, None while there is none.\<close>

record kafka_client =
  kc_full :: "nat \<Rightarrow> bool"
  kc_reports :: "nat \<Rightarrow> nat \<Rightarrow> bool option"

record producer =
  pd_calls :: nat
  pd_queue :: "publishable_message list"
  pd_delivered :: "publishable_message list"
  pd_failed :: "publishable_message list"
  pd_delivery_failures :: nat
  pd_published :: nat

datatype producer_error = Queue_full | Undelivered nat | Delivery_failures nat

definition new_producer :: producer where
  "new_producer = \<lparr>pd_calls = 0, pd_queue = [], pd_delivered = [], pd_failed = [], pd_delivery_failures = 0, pd_published = 0\<rparr>"

definition reported :: "kafka_client \<Rightarrow> nat \<Rightarrow> bool option \<Rightarrow> publishable_message list \<Rightarrow> publishable_message list" where
  "reported k n r queue = map snd (filter (\<lambda>(i, m). kc_reports k n i = r) (enumerate 0 queue))"

text \<open>The delivery callback of one message: only a failure is counted.\<close>

definition delivery_callback :: "bool \<Rightarrow> publishable_message \<Rightarrow> producer \<Rightarrow> producer" where
  "delivery_callback ok m p =
     (if ok then p\<lparr>pd_delivered := pd_delivered p @ [m]\<rparr>
      else p\<lparr>pd_failed := pd_failed p @ [m], pd_delivery_failures := pd_delivery_failures p + 1\<rparr>)"

text \<open>\<open>client.poll\<close> and \<open>client.flush\<close>: the callbacks of the reported messages run, and the messages without a
  report stay in the queue.\<close>

definition serve :: "kafka_client \<Rightarrow> producer \<Rightarrow> producer" where
  "serve k p =
     (let n = pd_calls p; queue = pd_queue p; p' = p\<lparr>pd_calls := n + 1, pd_queue := reported k n None queue\<rparr>
      in fold (delivery_callback False) (reported k n (Some False) queue)
           (fold (delivery_callback True) (reported k n (Some True) queue) p'))"

definition accept_message :: "kafka_client \<Rightarrow> publishable_message \<Rightarrow> producer \<Rightarrow> producer" where
  "accept_message k m p = serve k (p\<lparr>pd_queue := pd_queue p @ [m], pd_published := pd_published p + 1\<rparr>)"

text \<open>\<open>publish_message\<close>: up to six calls of \<open>produce\<close>; the argument counts the attempts that remain.\<close>

primrec produce_attempts :: "kafka_client \<Rightarrow> publishable_message \<Rightarrow> nat \<Rightarrow> producer \<Rightarrow> producer_error option \<times> producer" where
  "produce_attempts k m 0 p =
     (let p' = p\<lparr>pd_calls := pd_calls p + 1\<rparr>
      in if kc_full k (pd_calls p) then (Some Queue_full, p')
         else (None, accept_message k m p'))"
| "produce_attempts k m (Suc n) p =
     (let p' = p\<lparr>pd_calls := pd_calls p + 1\<rparr>
      in if kc_full k (pd_calls p) then produce_attempts k m n (serve k p')
         else (None, accept_message k m p'))"

definition publish_message :: "kafka_client \<Rightarrow> publishable_message \<Rightarrow> producer \<Rightarrow> producer_error option \<times> producer" where
  "publish_message k m p = produce_attempts k m 5 p"

definition poll_producer :: "kafka_client \<Rightarrow> producer \<Rightarrow> producer_error option \<times> producer" where
  "poll_producer k p =
     (let p' = serve k p
      in (if pd_delivery_failures p' \<noteq> 0 then Some (Delivery_failures (pd_delivery_failures p')) else None, p'))"

definition flush_producer :: "kafka_client \<Rightarrow> producer \<Rightarrow> producer_error option \<times> producer" where
  "flush_producer k p =
     (let p' = serve k p
      in (if length (pd_queue p') \<noteq> 0 then Some (Undelivered (length (pd_queue p')))
          else if pd_delivery_failures p' \<noteq> 0 then Some (Delivery_failures (pd_delivery_failures p')) else None, p'))"

text \<open>\<open>for message in messages: producer.publish_message(message)\<close>, stopping at the first exception.\<close>

primrec publish_messages :: "kafka_client \<Rightarrow> publishable_message list \<Rightarrow> producer \<Rightarrow> producer_error option \<times> producer" where
  "publish_messages k [] p = (None, p)"
| "publish_messages k (m # ms) p =
     (case publish_message k m p of (None, p') \<Rightarrow> publish_messages k ms p' | (Some e, p') \<Rightarrow> (Some e, p'))"

section \<open>Accounting\<close>

text \<open>Every accepted message is queued, delivered or failed, and the failures are counted.\<close>

definition accounts :: "publishable_message list \<Rightarrow> producer \<Rightarrow> bool" where
  "accounts ms p \<longleftrightarrow> mset ms = mset (pd_queue p) + mset (pd_delivered p) + mset (pd_failed p) \<and>
     pd_delivery_failures p = length (pd_failed p) \<and> pd_published p = length ms"

lemma fold_callbacks:
  "fold (delivery_callback True) ms p = p\<lparr>pd_delivered := pd_delivered p @ ms\<rparr>"
  "fold (delivery_callback False) ms p =
     p\<lparr>pd_failed := pd_failed p @ ms, pd_delivery_failures := pd_delivery_failures p + length ms\<rparr>"
  by (induction ms arbitrary: p) (simp_all add: delivery_callback_def)

lemma partition_reports:
  "mset xs = mset (filter (\<lambda>x. f x = None) xs) + mset (filter (\<lambda>x. f x = Some True) xs) + mset (filter (\<lambda>x. f x = Some False) xs)"
proof (induction xs)
  case (Cons x xs)
  show ?case
  proof (cases "f x")
    case None
    then show ?thesis using Cons by simp
  next
    case (Some b)
    then show ?thesis using Cons by (cases b) simp_all
  qed
qed simp

lemma reported_all:
  "mset queue = mset (reported k n None queue) + mset (reported k n (Some True) queue) + mset (reported k n (Some False) queue)"
proof -
  have "mset (enumerate 0 queue) = mset (filter (\<lambda>x. kc_reports k n (fst x) = None) (enumerate 0 queue)) +
      mset (filter (\<lambda>x. kc_reports k n (fst x) = Some True) (enumerate 0 queue)) +
      mset (filter (\<lambda>x. kc_reports k n (fst x) = Some False) (enumerate 0 queue))"
    by (rule partition_reports)
  from arg_cong [OF this, of "image_mset snd"] have "image_mset snd (mset (enumerate 0 queue)) =
      mset (reported k n None queue) + mset (reported k n (Some True) queue) + mset (reported k n (Some False) queue)"
    by (simp add: reported_def case_prod_beta')
  moreover have "image_mset snd (mset (enumerate 0 queue)) = mset queue" by (simp flip: mset_map)
  ultimately show ?thesis by simp
qed

lemma serve_accounts: "accounts ms p \<Longrightarrow> accounts ms (serve k p)"
  using reported_all [of "pd_queue p" k "pd_calls p"] by (simp add: accounts_def serve_def Let_def fold_callbacks)

lemma call_accounts: "accounts ms (p\<lparr>pd_calls := n\<rparr>) = accounts ms p"
  by (simp add: accounts_def)

lemma accept_accounts: "accounts ms p \<Longrightarrow> accounts (ms @ [m]) (accept_message k m p)"
  unfolding accept_message_def by (rule serve_accounts) (simp add: accounts_def)

lemma produce_accounts:
  assumes "accounts ms p" "produce_attempts k m n p = (e, p')"
  shows "(e = None \<and> accounts (ms @ [m]) p') \<or> (e = Some Queue_full \<and> accounts ms p')"
  using assms
proof (induction n arbitrary: p)
  case 0
  then show ?case using accept_accounts by (auto simp: Let_def call_accounts split: if_splits)
next
  case (Suc n)
  show ?case
  proof (cases "kc_full k (pd_calls p)")
    case True
    then show ?thesis
      using Suc.IH [of "serve k (p\<lparr>pd_calls := pd_calls p + 1\<rparr>)"] Suc.prems serve_accounts by (simp add: Let_def call_accounts)
  next
    case False
    then show ?thesis using Suc.prems accept_accounts by (auto simp: Let_def call_accounts)
  qed
qed

lemma publish_accounts:
  assumes "accounts ms p" "publish_messages k xs p = (e, p')"
  shows "\<exists>ys. prefix ys xs \<and> accounts (ms @ ys) p' \<and> (e = None \<longrightarrow> ys = xs)"
  using assms
proof (induction xs arbitrary: ms p)
  case (Cons x xs)
  obtain e1 p1 where one: "publish_message k x p = (e1, p1)" by force
  from produce_accounts [OF Cons.prems(1) one [unfolded publish_message_def]]
  show ?case
  proof
    assume ok: "e1 = None \<and> accounts (ms @ [x]) p1"
    then have "publish_messages k xs p1 = (e, p')" using Cons.prems(2) one by simp
    from Cons.IH [OF _ this] ok obtain ys where "prefix ys xs" "accounts ((ms @ [x]) @ ys) p'" "e = None \<longrightarrow> ys = xs" by blast
    then show ?thesis by (intro exI [of _ "x # ys"]) simp
  next
    assume bad: "e1 = Some Queue_full \<and> accounts ms p1"
    with Cons.prems(2) one have "e = Some Queue_full" "p' = p1" by auto
    with bad show ?thesis by (intro exI [of _ "[]"]) simp
  qed
qed simp

end
