(* ===== verification/Generation.thy ===== *)
theory Generation
  imports Producer
begin

text \<open>
  \<^verbatim>\<open>services/event_generator/summary.py\<close> and \<^verbatim>\<open>services/event_generator/main.py\<close>: the counters of a run and the
  loop that builds journeys, adds anomalies, publishes the messages and flushes at the end. The
  injector has a source of values of its own. The loop of a run without a number of journeys ends only
  on a request, so the loop takes fuel and returns None when it runs out.
\<close>

section \<open>The summary of a run\<close>

record generation_summary =
  gs_journeys_per_persona :: "customer_persona \<Rightarrow> nat"
  gs_customers_per_persona :: "customer_persona \<Rightarrow> nat"
  gs_events_per_type :: "event_type \<Rightarrow> nat"
  gs_anomalies_per_type :: "anomaly_type \<Rightarrow> nat"
  gs_new_journeys :: nat
  gs_returning_journeys :: nat
  gs_payment_successes :: nat
  gs_payment_failures :: nat
  gs_refunds :: nat
  gs_event_total :: nat
  gs_journey_total :: nat
  gs_total_logical_commerce_value :: money
  gs_seen_customers :: "string list"

definition new_summary :: generation_summary where
  "new_summary =
     \<lparr>gs_journeys_per_persona = (\<lambda>_. 0), gs_customers_per_persona = (\<lambda>_. 0), gs_events_per_type = (\<lambda>_. 0),
      gs_anomalies_per_type = (\<lambda>_. 0), gs_new_journeys = 0, gs_returning_journeys = 0, gs_payment_successes = 0,
      gs_payment_failures = 0, gs_refunds = 0, gs_event_total = 0, gs_journey_total = 0, gs_total_logical_commerce_value = 0,
      gs_seen_customers = []\<rparr>"

definition bump :: "'k \<Rightarrow> ('k \<Rightarrow> nat) \<Rightarrow> 'k \<Rightarrow> nat" where
  "bump k counter = counter(k := counter k + 1)"

text \<open>\<open>event.payload.amount if isinstance(event.payload, PaymentCompletedPayload) else Decimal("0")\<close>.\<close>

fun completed_amount :: "payload \<Rightarrow> money" where
  "completed_amount (PaymentCompleted p) = pc_amount p"
| "completed_amount _ = 0"

definition record_event :: "envelope \<Rightarrow> generation_summary \<Rightarrow> generation_summary" where
  "record_event e s =
     (let s1 = s\<lparr>gs_events_per_type := bump (ev_event_type e) (gs_events_per_type s), gs_event_total := gs_event_total s + 1\<rparr>
      in if ev_event_type e = PAYMENT_COMPLETED
         then s1\<lparr>gs_payment_successes := gs_payment_successes s1 + 1,
                 gs_total_logical_commerce_value := gs_total_logical_commerce_value s1 + completed_amount (ev_payload e)\<rparr>
         else if ev_event_type e = PAYMENT_FAILED then s1\<lparr>gs_payment_failures := gs_payment_failures s1 + 1\<rparr>
         else if ev_event_type e = REFUND_REQUESTED then s1\<lparr>gs_refunds := gs_refunds s1 + 1\<rparr>
         else s1)"

definition record_customer :: "journey_result \<Rightarrow> generation_summary \<Rightarrow> generation_summary" where
  "record_customer r s =
     (let key = uuid_str (jr_customer_id r)
      in if key \<in> set (gs_seen_customers s) then s
         else s\<lparr>gs_seen_customers := gs_seen_customers s @ [key],
                gs_customers_per_persona := bump (jr_persona r) (gs_customers_per_persona s)\<rparr>)"

definition record_journey :: "journey_result \<Rightarrow> anomaly_type list \<Rightarrow> generation_summary \<Rightarrow> generation_summary" where
  "record_journey r kinds s =
     (let s1 = s\<lparr>gs_journey_total := gs_journey_total s + 1, gs_journeys_per_persona := bump (jr_persona r) (gs_journeys_per_persona s)\<rparr>;
          s2 = record_customer r s1;
          s3 = (if jr_returning_customer r then s2\<lparr>gs_returning_journeys := gs_returning_journeys s2 + 1\<rparr>
                else s2\<lparr>gs_new_journeys := gs_new_journeys s2 + 1\<rparr>);
          s4 = fold record_event (jr_events r) s3
      in s4\<lparr>gs_anomalies_per_type := fold bump kinds (gs_anomalies_per_type s4)\<rparr>)"

definition average_events_per_journey :: "generation_summary \<Rightarrow> rat" where
  "average_events_per_journey s =
     (if gs_journey_total s = 0 then 0 else of_nat (gs_event_total s) / of_nat (gs_journey_total s))"

section \<open>The run\<close>

text \<open>What the run uses beside its configuration: the readings of numbers, the hash, the JSON library, the
  Kafka client, and the iterations at which a stop is requested.\<close>

record surroundings =
  su_float :: "string \<Rightarrow> rat option"
  su_sha256 :: "string \<Rightarrow> string"
  su_codec :: codec
  su_writer :: writer
  su_client :: kafka_client
  su_stop :: "nat \<Rightarrow> bool"

record generation =
  ge_builder :: builder
  ge_injector :: synthetic
  ge_producer :: producer
  ge_summary :: generation_summary
  ge_generated :: nat

datatype generation_error = Journey_error generator_error | Injection_error | Producer_error producer_error

definition anomalies_of :: "publishable_message list \<Rightarrow> anomaly_type list" where
  "anomalies_of ms = map (\<lambda>m. the (pm_anomaly_type m)) (filter anomalous ms)"

text \<open>One iteration of the loop; an exception leaves the run.\<close>

definition generate_journey :: "surroundings \<Rightarrow> generator_config \<Rightarrow> generation \<Rightarrow> generation_error option \<times> generation" where
  "generate_journey su c s =
     (case build_journey (su_float su) (su_sha256 su) c (ge_builder s) of
        (Inl e, b) \<Rightarrow> (Some (Journey_error e), s\<lparr>ge_builder := b\<rparr>)
      | (Inr r, b) \<Rightarrow>
          (case prepare (su_codec su) (su_writer su) c (jr_events r) (ge_injector s) of
             (None, g) \<Rightarrow> (Some Injection_error, s\<lparr>ge_builder := b, ge_injector := g\<rparr>)
           | (Some ms, g) \<Rightarrow>
               let s1 = s\<lparr>ge_builder := b, ge_injector := g\<rparr>
               in (case publish_messages (su_client su) ms (ge_producer s) of
                     (Some e, p) \<Rightarrow> (Some (Producer_error e), s1\<lparr>ge_producer := p\<rparr>)
                   | (None, p) \<Rightarrow>
                       (case poll_producer (su_client su) p of
                          (Some e, p') \<Rightarrow> (Some (Producer_error e), s1\<lparr>ge_producer := p'\<rparr>)
                        | (None, p') \<Rightarrow>
                            (None, s1\<lparr>ge_producer := p', ge_generated := ge_generated s1 + 1,
                                      ge_summary := record_journey r (anomalies_of ms) (ge_summary s1)\<rparr>)))))"

definition goes_on :: "surroundings \<Rightarrow> generator_config \<Rightarrow> nat \<Rightarrow> bool" where
  "goes_on su c generated \<longleftrightarrow> \<not> su_stop su generated \<and>
     (case generator_journeys c of None \<Rightarrow> True | Some target \<Rightarrow> int generated < target)"

primrec generation_loop :: "surroundings \<Rightarrow> generator_config \<Rightarrow> nat \<Rightarrow> generation \<Rightarrow> (generation_error option \<times> generation) option" where
  "generation_loop su c 0 s = (if goes_on su c (ge_generated s) then None else Some (None, s))"
| "generation_loop su c (Suc fuel) s =
     (if goes_on su c (ge_generated s)
      then (case generate_journey su c s of
              (Some e, s') \<Rightarrow> Some (Some e, s')
            | (None, s') \<Rightarrow> generation_loop su c fuel s')
      else Some (None, s))"

definition initial_generation :: "builder \<Rightarrow> synthetic \<Rightarrow> generation" where
  "initial_generation b g =
     \<lparr>ge_builder = b, ge_injector = g, ge_producer = new_producer, ge_summary = new_summary, ge_generated = 0\<rparr>"

text \<open>\<open>run_generation\<close>: the loop, then the final flush; None in the first component is the return of 0.\<close>

definition run_generation ::
  "surroundings \<Rightarrow> generator_config \<Rightarrow> nat \<Rightarrow> builder \<Rightarrow> synthetic \<Rightarrow> (generation_error option \<times> generation) option" where
  "run_generation su c fuel b g =
     (case generation_loop su c fuel (initial_generation b g) of
        None \<Rightarrow> None
      | Some (Some e, s) \<Rightarrow> Some (Some e, s)
      | Some (None, s) \<Rightarrow>
          (case flush_producer (su_client su) (ge_producer s) of
             (e, p) \<Rightarrow> Some (map_option Producer_error e, s\<lparr>ge_producer := p\<rparr>)))"

text \<open>The exit code of \<open>main\<close>: every exception is logged and gives 1.\<close>

definition generator_exit :: "generation_error option \<times> generation \<Rightarrow> int" where
  "generator_exit r = (case fst r of None \<Rightarrow> 0 | Some _ \<Rightarrow> 1)"

section \<open>What a run has done\<close>

definition made :: "surroundings \<Rightarrow> generator_config \<Rightarrow> journey_result \<Rightarrow> publishable_message list \<Rightarrow> bool" where
  "made su c r ms \<longleftrightarrow> (\<exists>b b' g g'. build_journey (su_float su) (su_sha256 su) c b = (Inr r, b') \<and>
     prepare (su_codec su) (su_writer su) c (jr_events r) g = (Some ms, g'))"

definition summary_of :: "(journey_result \<times> publishable_message list) list \<Rightarrow> generation_summary" where
  "summary_of runs = fold (\<lambda>(r, ms). record_journey r (anomalies_of ms)) runs new_summary"

definition run_so_far :: "surroundings \<Rightarrow> generator_config \<Rightarrow> (journey_result \<times> publishable_message list) list \<Rightarrow> generation \<Rightarrow> bool" where
  "run_so_far su c runs s \<longleftrightarrow> length runs = ge_generated s \<and> accounts (concat (map snd runs)) (ge_producer s) \<and>
     ge_summary s = summary_of runs \<and> (\<forall>(r, ms) \<in> set runs. made su c r ms)"

lemma poll_accounts: "accounts ms p \<Longrightarrow> poll_producer k p = (e, p') \<Longrightarrow> accounts ms p'"
  using serve_accounts by (auto simp: poll_producer_def Let_def)

lemma generate_journey_None:
  assumes "generate_journey su c s = (None, s')" "run_so_far su c runs s"
  obtains r ms where "run_so_far su c (runs @ [(r, ms)]) s'" "ge_generated s' = Suc (ge_generated s)"
proof -
  obtain r b where build: "build_journey (su_float su) (su_sha256 su) c (ge_builder s) = (Inr r, b)"
    using assms(1) by (auto simp: generate_journey_def split: prod.splits sum.splits)
  obtain ms g where prep: "prepare (su_codec su) (su_writer su) c (jr_events r) (ge_injector s) = (Some ms, g)"
    using assms(1) build by (auto simp: generate_journey_def split: prod.splits option.splits)
  obtain p where pub: "publish_messages (su_client su) ms (ge_producer s) = (None, p)"
    using assms(1) build prep by (auto simp: generate_journey_def Let_def split: prod.splits option.splits)
  obtain p' where poll: "poll_producer (su_client su) p = (None, p')"
    using assms(1) build prep pub by (auto simp: generate_journey_def Let_def split: prod.splits option.splits)
  have s': "s' = s\<lparr>ge_builder := b, ge_injector := g, ge_producer := p', ge_generated := ge_generated s + 1,
      ge_summary := record_journey r (anomalies_of ms) (ge_summary s)\<rparr>"
    using assms(1) build prep pub poll by (simp add: generate_journey_def Let_def)
  have "accounts (concat (map snd runs) @ ms) p"
    using publish_accounts [OF _ pub] assms(2) by (auto simp: run_so_far_def)
  then have "accounts (concat (map snd runs) @ ms) p'" using poll by (rule poll_accounts)
  moreover have "made su c r ms" using build prep unfolding made_def by blast
  ultimately have "run_so_far su c (runs @ [(r, ms)]) s'"
    using assms(2) by (auto simp: run_so_far_def s' summary_of_def)
  then show thesis using that s' by simp
qed

lemma loop_None:
  assumes "generation_loop su c fuel s = Some (None, s')" "run_so_far su c runs s"
  shows "\<exists>more. run_so_far su c (runs @ more) s' \<and> \<not> goes_on su c (ge_generated s') \<and> (\<forall>n. ge_generated s \<le> n \<and> n < ge_generated s' \<longrightarrow> goes_on su c n)"
  using assms
proof (induction fuel arbitrary: s runs)
  case 0
  then show ?case by (intro exI [of _ "[]"]) (auto split: if_splits)
next
  case (Suc fuel)
  show ?case
  proof (cases "goes_on su c (ge_generated s)")
    case True
    obtain e s1 where one: "generate_journey su c s = (e, s1)" by force
    have e: "e = None" "generation_loop su c fuel s1 = Some (None, s')"
      using Suc.prems(1) True one by (auto split: option.splits)
    obtain r ms where step: "run_so_far su c (runs @ [(r, ms)]) s1" "ge_generated s1 = Suc (ge_generated s)"
      using generate_journey_None [OF one [unfolded e] Suc.prems(2)] by blast
    obtain more where more: "run_so_far su c ((runs @ [(r, ms)]) @ more) s'" "\<not> goes_on su c (ge_generated s')"
      "\<forall>n. ge_generated s1 \<le> n \<and> n < ge_generated s' \<longrightarrow> goes_on su c n"
      using Suc.IH [OF e(2) step(1)] by blast
    have "goes_on su c n" if "ge_generated s \<le> n \<and> n < ge_generated s'" for n
      using more(3) that True step(2) by (cases "n = ge_generated s") (auto simp: goes_on_def)
    then show ?thesis using more(1,2) by (intro exI [of _ "(r, ms) # more"]) simp
  next
    case False
    then show ?thesis using Suc.prems by (intro exI [of _ "[]"]) auto
  qed
qed

lemma loop_ends:
  assumes "ge_generated s \<le> n" "\<not> goes_on su c n" "n \<le> ge_generated s + fuel"
  shows "generation_loop su c fuel s \<noteq> None"
  using assms
proof (induction fuel arbitrary: s)
  case (Suc fuel)
  show ?case
  proof (cases "goes_on su c (ge_generated s)")
    case True
    obtain e s1 where one: "generate_journey su c s = (e, s1)" by force
    have "ge_generated s1 = Suc (ge_generated s)" if "e = None"
      using one that by (auto simp: generate_journey_def Let_def split: prod.splits sum.splits option.splits)
    moreover have "ge_generated s \<noteq> n" using True Suc.prems(2) by auto
    ultimately have "generation_loop su c fuel s1 \<noteq> None" if "e = None" using that Suc.prems by (intro Suc.IH) auto
    then show ?thesis using True one by (cases e) auto
  qed simp
qed auto

section \<open>The counters of a run\<close>

lemma fold_bump: "fold bump ks f k = f k + count_list ks k"
  by (induction ks arbitrary: f) (auto simp: bump_def)

definition events_in :: "(journey_result \<times> 'a) list \<Rightarrow> envelope list" where
  "events_in runs = concat (map (jr_events \<circ> fst) runs)"

lemma record_events:
  "fold record_event es s =
     s\<lparr>gs_events_per_type := (\<lambda>ty. gs_events_per_type s ty + count_list (map ev_event_type es) ty),
       gs_event_total := gs_event_total s + length es,
       gs_payment_successes := gs_payment_successes s + count_list (map ev_event_type es) PAYMENT_COMPLETED,
       gs_payment_failures := gs_payment_failures s + count_list (map ev_event_type es) PAYMENT_FAILED,
       gs_refunds := gs_refunds s + count_list (map ev_event_type es) REFUND_REQUESTED,
       gs_total_logical_commerce_value := gs_total_logical_commerce_value s +
         sum_list (map (\<lambda>e. completed_amount (ev_payload e)) (filter (\<lambda>e. ev_event_type e = PAYMENT_COMPLETED) es))\<rparr>"
proof (induction es arbitrary: s)
  case (Cons e es)
  show ?case
    by (simp add: Cons.IH) (auto simp: record_event_def Let_def bump_def fun_eq_iff)
qed simp

lemma summary_of_snoc: "summary_of (runs @ [x]) = record_journey (fst x) (anomalies_of (snd x)) (summary_of runs)"
  by (simp add: summary_of_def split_beta)

lemma customer_fields:
  "gs_seen_customers (record_journey r kinds s) =
     (if uuid_str (jr_customer_id r) \<in> set (gs_seen_customers s) then gs_seen_customers s
      else gs_seen_customers s @ [uuid_str (jr_customer_id r)])"
  "gs_customers_per_persona (record_journey r kinds s) =
     (if uuid_str (jr_customer_id r) \<in> set (gs_seen_customers s) then gs_customers_per_persona s
      else bump (jr_persona r) (gs_customers_per_persona s))"
  by (simp_all add: record_journey_def record_customer_def Let_def record_events)

lemma journey_fields:
  "gs_journey_total (record_journey r kinds s) = Suc (gs_journey_total s)"
  "gs_journeys_per_persona (record_journey r kinds s) = bump (jr_persona r) (gs_journeys_per_persona s)"
  "gs_returning_journeys (record_journey r kinds s) = gs_returning_journeys s + (if jr_returning_customer r then 1 else 0)"
  "gs_new_journeys (record_journey r kinds s) = gs_new_journeys s + (if jr_returning_customer r then 0 else 1)"
  "gs_anomalies_per_type (record_journey r kinds s) k = gs_anomalies_per_type s k + count_list kinds k"
  "gs_event_total (record_journey r kinds s) = gs_event_total s + length (jr_events r)"
  "gs_events_per_type (record_journey r kinds s) ty = gs_events_per_type s ty + count_list (map ev_event_type (jr_events r)) ty"
  "gs_payment_successes (record_journey r kinds s) = gs_payment_successes s + count_list (map ev_event_type (jr_events r)) PAYMENT_COMPLETED"
  "gs_payment_failures (record_journey r kinds s) = gs_payment_failures s + count_list (map ev_event_type (jr_events r)) PAYMENT_FAILED"
  "gs_refunds (record_journey r kinds s) = gs_refunds s + count_list (map ev_event_type (jr_events r)) REFUND_REQUESTED"
  "gs_total_logical_commerce_value (record_journey r kinds s) = gs_total_logical_commerce_value s +
     sum_list (map (\<lambda>e. completed_amount (ev_payload e)) (filter (\<lambda>e. ev_event_type e = PAYMENT_COMPLETED) (jr_events r)))"
  by (simp_all add: record_journey_def record_customer_def Let_def record_events fold_bump)

lemma summary_of_customers:
  "set (gs_seen_customers (summary_of runs)) = uuid_str ` (jr_customer_id \<circ> fst) ` set runs \<and> distinct (gs_seen_customers (summary_of runs)) \<and>
   sum_list (map (gs_customers_per_persona (summary_of runs)) customer_personas) = length (gs_seen_customers (summary_of runs))"
proof (induction runs rule: rev_induct)
  case Nil
  show ?case by (simp add: summary_of_def new_summary_def customer_personas_def)
next
  case (snoc x runs)
  have "sum_list (map (bump p f) customer_personas) = Suc (sum_list (map f customer_personas))" for p f
    by (cases p) (simp_all add: bump_def customer_personas_def)
  then show ?case using snoc by (auto simp: summary_of_snoc customer_fields)
qed

section \<open>A healthy broker\<close>

text \<open>A client that accepts every message and reports its delivery at the next call.\<close>

definition healthy_client :: kafka_client where
  "healthy_client = \<lparr>kc_full = (\<lambda>_. False), kc_reports = (\<lambda>_ _. Some True)\<rparr>"

lemma healthy_serve: "pd_queue (serve healthy_client p) = []" "pd_delivery_failures (serve healthy_client p) = pd_delivery_failures p"
  by (simp_all add: serve_def Let_def fold_callbacks reported_def healthy_client_def)

lemma healthy_publish:
  "\<exists>p'. publish_messages healthy_client ms p = (None, p') \<and> pd_delivery_failures p' = pd_delivery_failures p"
proof (induction ms arbitrary: p)
  case (Cons m ms)
  have "publish_message healthy_client m p = (None, accept_message healthy_client m (p\<lparr>pd_calls := pd_calls p + 1\<rparr>))"
    by (simp add: publish_message_def numeral_eq_Suc healthy_client_def)
  then obtain p1 where p1: "publish_message healthy_client m p = (None, p1)" "pd_delivery_failures p1 = pd_delivery_failures p"
    by (simp add: accept_message_def healthy_serve)
  with Cons.IH [of p1] show ?case by simp
qed simp

lemma healthy_journey:
  assumes "build_journey (su_float su) (su_sha256 su) c (ge_builder s) = (Inr r, b)"
    and "su_client su = healthy_client" "\<not> generator_anomalies_enabled c" "pd_delivery_failures (ge_producer s) = 0"
  shows "\<exists>s'. generate_journey su c s = (None, s') \<and> pd_delivery_failures (ge_producer s') = 0 \<and> ge_generated s' = Suc (ge_generated s)"
proof -
  obtain p where "publish_messages healthy_client (map (valid_message (su_writer su)) (jr_events r)) (ge_producer s) = (None, p)"
    "pd_delivery_failures p = 0" using healthy_publish assms(4) by metis
  with assms(1-3) show ?thesis
    by (simp add: generate_journey_def prepare_def Let_def poll_producer_def healthy_serve)
qed

section \<open>Properties\<close>

text \<open>The summary of a run counts what the run made. Whatever journeys are recorded, the totals are the
  numbers of journeys and events, the counters per persona, event type and anomaly are the numbers of
  occurrences, the payments and refunds are counted by the type of their events, the commerce value is
  the sum of the completed payments, every journey is either new or returning, and the customers counted
  per persona add up to the number of distinct customers.\<close>

theorem summary_counts_runs:
  "gs_journey_total (summary_of runs) = length runs \<and>
   gs_new_journeys (summary_of runs) + gs_returning_journeys (summary_of runs) = length runs \<and>
   gs_journeys_per_persona (summary_of runs) = count_list (map (jr_persona \<circ> fst) runs) \<and>
   sum_list (map (gs_customers_per_persona (summary_of runs)) customer_personas) = card (jr_customer_id ` fst ` set runs) \<and>
   gs_event_total (summary_of runs) = length (events_in runs) \<and>
   gs_events_per_type (summary_of runs) = count_list (map ev_event_type (events_in runs)) \<and>
   gs_payment_successes (summary_of runs) = count_list (map ev_event_type (events_in runs)) PAYMENT_COMPLETED \<and>
   gs_payment_failures (summary_of runs) = count_list (map ev_event_type (events_in runs)) PAYMENT_FAILED \<and>
   gs_refunds (summary_of runs) = count_list (map ev_event_type (events_in runs)) REFUND_REQUESTED \<and>
   gs_total_logical_commerce_value (summary_of runs) =
     sum_list (map (\<lambda>e. completed_amount (ev_payload e)) (filter (\<lambda>e. ev_event_type e = PAYMENT_COMPLETED) (events_in runs))) \<and>
   gs_anomalies_per_type (summary_of runs) = count_list (concat (map (anomalies_of \<circ> snd) runs))"
proof -
  note cust = summary_of_customers [of runs]
  have "length (gs_seen_customers (summary_of runs)) = card (set (gs_seen_customers (summary_of runs)))"
    by (rule distinct_card [symmetric]) (use cust in blast)
  also have "\<dots> = card (jr_customer_id ` fst ` set runs)"
  proof -
    have "inj_on uuid_str A" for A using uuid_str_inj by (auto intro: inj_onI)
    then have "card (uuid_str ` (jr_customer_id \<circ> fst) ` set runs) = card ((jr_customer_id \<circ> fst) ` set runs)" by (rule card_image)
    with cust show ?thesis by (simp add: image_comp)
  qed
  finally have "sum_list (map (gs_customers_per_persona (summary_of runs)) customer_personas) = card (jr_customer_id ` fst ` set runs)"
    using cust by simp
  moreover have "gs_journey_total (summary_of runs) = length runs \<and>
     gs_new_journeys (summary_of runs) + gs_returning_journeys (summary_of runs) = length runs \<and>
     gs_event_total (summary_of runs) = length (events_in runs) \<and>
     gs_payment_successes (summary_of runs) = count_list (map ev_event_type (events_in runs)) PAYMENT_COMPLETED \<and>
     gs_payment_failures (summary_of runs) = count_list (map ev_event_type (events_in runs)) PAYMENT_FAILED \<and>
     gs_refunds (summary_of runs) = count_list (map ev_event_type (events_in runs)) REFUND_REQUESTED \<and>
     gs_total_logical_commerce_value (summary_of runs) =
       sum_list (map (\<lambda>e. completed_amount (ev_payload e)) (filter (\<lambda>e. ev_event_type e = PAYMENT_COMPLETED) (events_in runs)))"
    by (induction runs rule: rev_induct) (simp_all add: summary_of_snoc journey_fields events_in_def summary_of_def [of "[]"] new_summary_def)
  moreover have "gs_journeys_per_persona (summary_of runs) = count_list (map (jr_persona \<circ> fst) runs) \<and>
     gs_events_per_type (summary_of runs) = count_list (map ev_event_type (events_in runs)) \<and>
     gs_anomalies_per_type (summary_of runs) = count_list (concat (map (anomalies_of \<circ> snd) runs))"
    by (induction runs rule: rev_induct)
       (auto simp: summary_of_snoc journey_fields events_in_def fun_eq_iff bump_def summary_of_def [of "[]"] new_summary_def)
  ultimately show ?thesis by blast
qed

text \<open>C30: a run that exits with code 0 delivered everything. Then the messages prepared for its journeys, each
  journey built and each list of messages prepared as the code does, are exactly the messages Kafka
  reported as delivered, none failed and none is left in the queue; the summary is that of these
  journeys; and the run had made the configured number of journeys, or a stop was requested after
  that many and not before.\<close>

theorem generation_clean_exit:
  assumes "run_generation su c fuel b g = Some res" and "generator_exit res = 0" and "\<forall>n. generator_journeys c = Some n \<longrightarrow> 0 < n"
  shows "\<exists>runs. (\<forall>(r, ms) \<in> set runs. made su c r ms) \<and>
    mset (concat (map snd runs)) = mset (pd_delivered (ge_producer (snd res))) \<and>
    pd_queue (ge_producer (snd res)) = [] \<and> pd_failed (ge_producer (snd res)) = [] \<and>
    ge_summary (snd res) = summary_of runs \<and>
    (generator_journeys c = Some (int (length runs)) \<or> su_stop su (length runs)) \<and>
    (\<forall>n < length runs. \<not> su_stop su n)"
proof -
  obtain s where s: "generation_loop su c fuel (initial_generation b g) = Some (None, s)"
    using assms(1,2) by (auto simp: run_generation_def generator_exit_def split: option.splits prod.splits)
  obtain p where p: "flush_producer (su_client su) (ge_producer s) = (None, p)" "res = (None, s\<lparr>ge_producer := p\<rparr>)"
    using assms(1,2) s by (auto simp: run_generation_def generator_exit_def split: prod.splits option.splits)
  have start: "run_so_far su c [] (initial_generation b g)"
    by (simp add: run_so_far_def initial_generation_def accounts_def new_producer_def summary_of_def)
  obtain runs where runs: "run_so_far su c runs s" "\<not> goes_on su c (ge_generated s)" "\<forall>n < ge_generated s. goes_on su c n"
    using loop_None [OF s start] by (auto simp: initial_generation_def)
  have "accounts (concat (map snd runs)) p"
    using runs(1) p(1) serve_accounts by (auto simp: run_so_far_def flush_producer_def Let_def split: if_splits)
  moreover have "pd_queue p = []" "pd_delivery_failures p = 0" using p(1) by (auto simp: flush_producer_def Let_def split: if_splits)
  ultimately have acc: "mset (concat (map snd runs)) = mset (pd_delivered p)" "pd_queue p = []" "pd_failed p = []"
    by (simp_all add: accounts_def)
  have len: "length runs = ge_generated s" using runs(1) by (simp add: run_so_far_def)
  have "generator_journeys c = Some (int (length runs)) \<or> su_stop su (length runs)"
  proof (cases "generator_journeys c")
    case (Some n)
    have "n \<le> int (ge_generated s)" if "\<not> su_stop su (ge_generated s)" using runs(2) that Some by (simp add: goes_on_def)
    moreover have "int (ge_generated s) \<le> n"
      using runs(3) [rule_format, of "ge_generated s - 1"] Some assms(3) by (cases "ge_generated s") (auto simp: goes_on_def)
    ultimately show ?thesis using Some len by auto
  qed (use runs(2) len in \<open>simp add: goes_on_def\<close>)
  moreover have "\<forall>n < length runs. \<not> su_stop su n" using runs(3) len by (simp add: goes_on_def)
  ultimately show ?thesis using runs(1) acc p(2) by (intro exI [of _ runs]) (auto simp: run_so_far_def)
qed

text \<open>A run ends. A run for n journeys needs at most n iterations of its loop, whatever fails, and a run that
  is asked to stop before some iteration needs no more than that many.\<close>

theorem generation_ends:
  assumes "(generator_journeys c = Some (int n)) \<or> su_stop su n" and "n \<le> fuel"
  shows "\<exists>res. run_generation su c fuel b g = Some res"
proof -
  have "generation_loop su c fuel (initial_generation b g) \<noteq> None"
    by (rule loop_ends [of _ n]) (use assms in \<open>auto simp: initial_generation_def goes_on_def\<close>)
  then show ?thesis by (auto simp: run_generation_def split: option.splits prod.splits)
qed

definition demo_surroundings :: surroundings where
  "demo_surroundings =
     \<lparr>su_float = demo_float, su_sha256 = (\<lambda>_. ''h''), su_codec = unary_codec [], su_writer = unary_writer,
      su_client = healthy_client, su_stop = (\<lambda>_. False)\<rparr>"

definition one_journey :: generator_config where
  "one_journey = normal_config\<lparr>generator_journeys := Some 1\<rparr>"

theorem generation_ends_witness:
  "(\<exists>res. run_generation demo_surroundings one_journey 1 demo_builder demo_source = Some res) \<and>
   (\<exists>res. run_generation (demo_surroundings\<lparr>su_stop := \<lambda>n. n = 2\<rparr>) normal_config 2 demo_builder demo_source = Some res)"
  using generation_ends [of one_journey 1 demo_surroundings 1] generation_ends [of normal_config 2 "demo_surroundings\<lparr>su_stop := \<lambda>n. n = 2\<rparr>" 2]
  by (simp add: one_journey_def)

lemma one_journey_run: "\<exists>s. run_generation demo_surroundings one_journey 1 demo_builder demo_source = Some (None, s)"
proof -
  have "generator_config_valid demo_float one_journey"
    using normal_config_valid by (simp add: generator_config_valid_def one_journey_def)
  then have "\<exists>r. fst (build_journey demo_float (\<lambda>_. ''h'') one_journey demo_builder) = Inr r"
    using build_outcome [of demo_float one_journey demo_builder NORMAL False demo_source "\<lambda>_. ''h''"]
    by (simp add: demo_builder_def demo_source_def store_ok_def choose_persona_def one_journey_def normal_config_def default_generator_config_def)
  then obtain r b where build: "build_journey demo_float (\<lambda>_. ''h'') one_journey demo_builder = (Inr r, b)" by (metis prod.collapse)
  let ?s = "initial_generation demo_builder demo_source"
  obtain s where s: "generate_journey demo_surroundings one_journey ?s = (None, s)" "pd_delivery_failures (ge_producer s) = 0" "ge_generated s = 1"
    using healthy_journey [of demo_surroundings one_journey ?s r b] build
    by (auto simp: demo_surroundings_def initial_generation_def new_producer_def one_journey_def normal_config_def default_generator_config_def)
  have "goes_on demo_surroundings one_journey 0" "\<not> goes_on demo_surroundings one_journey 1"
    by (simp_all add: goes_on_def demo_surroundings_def one_journey_def)
  with s have "generation_loop demo_surroundings one_journey 1 ?s = Some (None, s)" by (simp add: initial_generation_def)
  moreover have "flush_producer healthy_client (ge_producer s) = (None, serve healthy_client (ge_producer s))"
    using s(2) by (simp add: flush_producer_def Let_def healthy_serve)
  ultimately show ?thesis by (simp add: run_generation_def demo_surroundings_def)
qed

theorem generation_clean_exit_witness:
  "\<exists>s runs. run_generation demo_surroundings one_journey 1 demo_builder demo_source = Some (None, s) \<and> length runs = 1 \<and>
     (\<forall>(r, ms) \<in> set runs. made demo_surroundings one_journey r ms) \<and>
     mset (concat (map snd runs)) = mset (pd_delivered (ge_producer s))"
proof -
  obtain s where s: "run_generation demo_surroundings one_journey 1 demo_builder demo_source = Some (None, s)"
    using one_journey_run by blast
  have "generator_exit (None, s) = 0" "\<forall>n. generator_journeys one_journey = Some n \<longrightarrow> 0 < n"
    by (simp_all add: generator_exit_def one_journey_def)
  from generation_clean_exit [OF s this] s show ?thesis by (auto simp: one_journey_def demo_surroundings_def)
qed

end
