(* ===== verification/Scenario.thy ===== *)
theory Scenario
  imports Generation Demo_Runs
begin

text \<open>
  \<^verbatim>\<open>ScenarioRunner._generate\<close> of \<^verbatim>\<open>services/demo_control_api/services/scenario_runner.py\<close>: the generator
  configuration of a requested run, and the loop that builds journeys, cuts their messages to the
  requested number, registers them in the manifest and publishes them. Pacing, metrics and the
  progress updates between the first and the last are left out: they change no message. Builder and
  injector draw from the same source of values.
\<close>

section \<open>The configuration of a run\<close>

fun PERSONA_MAP :: "scenario_type \<Rightarrow> customer_persona option" where
  "PERSONA_MAP NORMAL_CUSTOMER = Some NORMAL"
| "PERSONA_MAP SUSPICIOUS_PAYMENT = Some SUSPICIOUS"
| "PERSONA_MAP TAKEOVER = Some ACCOUNT_TAKEOVER"
| "PERSONA_MAP BOT_CHECKOUT = Some BOT"
| "PERSONA_MAP REFUND_ABUSE = Some SUSPICIOUS"
| "PERSONA_MAP DUPLICATE_DELIVERY = Some NORMAL"
| "PERSONA_MAP MALFORMED_EVENT = Some NORMAL"
| "PERSONA_MAP MIXED_TRAFFIC = None"

definition weight_string :: "(string \<times> int) list option \<Rightarrow> string option" where
  "weight_string weights =
     (case weights of
        None \<Rightarrow> None
      | Some d \<Rightarrow> if d = [] then None else Some (join_on (CHR '','') (map (\<lambda>(name, v). name @ ''='' @ int_str v) d)))"

definition malformed_probability :: "run_create \<Rightarrow> string \<Rightarrow> rat \<Rightarrow> rat" where
  "malformed_probability q kind other =
     (if rc_scenario_type q = MALFORMED_EVENT \<and> rc_malformed_case q = kind then 1 else other)"

definition scenario_config :: "run_create \<Rightarrow> generator_config" where
  "scenario_config q = default_generator_config
     \<lparr>generator_persona := PERSONA_MAP (rc_scenario_type q),
      generator_persona_weights := (case weight_string (rc_persona_distribution q) of Some w \<Rightarrow> w | None \<Rightarrow> DEFAULT_PERSONA_WEIGHTS),
      generator_add_to_cart_probability := (if rc_transaction_enabled q then 1 else 0),
      generator_checkout_probability := (if rc_transaction_enabled q then 1 else 0),
      generator_refund_probability := (if rc_scenario_type q = REFUND_ABUSE then 1 else 0),
      generator_anomalies_enabled := (rc_scenario_type q \<in> {DUPLICATE_DELIVERY, MALFORMED_EVENT, MIXED_TRAFFIC}),
      generator_duplicate_event_probability := (if rc_scenario_type q = DUPLICATE_DELIVERY then 1 else rc_duplicate_rate q),
      generator_malformed_json_probability := malformed_probability q ''malformed_json'' (rc_malformed_rate q),
      generator_missing_field_probability := malformed_probability q ''missing_field'' 0,
      generator_unknown_event_type_probability := malformed_probability q ''unknown_event_type'' 0,
      generator_payload_mismatch_probability := malformed_probability q ''payload_mismatch'' 0,
      generator_max_anomalies_per_journey := 2\<rparr>"

section \<open>Generation\<close>

record scenario_state =
  sc_builder :: builder
  sc_producer :: producer
  sc_manifest :: manifest
  sc_generated :: int

datatype scenario_error = Invalid_config | Generation_failed generation_error

definition manifest_entries :: "publishable_message list \<Rightarrow> (uuid \<times> string) list" where
  "manifest_entries ms = concat (map (\<lambda>m. case pm_event_id m of None \<Rightarrow> [] | Some i \<Rightarrow> [(i, pm_event_type m)]) ms)"

text \<open>One pass of the loop; the number of messages published so far counts also the part of a journey
  published before an exception.\<close>

definition scenario_journey ::
  "surroundings \<Rightarrow> generator_config \<Rightarrow> uuid \<Rightarrow> int \<Rightarrow> scenario_state \<Rightarrow> generation_error option \<times> scenario_state" where
  "scenario_journey su c run_id event_count s =
     (case build_journey (su_float su) (su_sha256 su) c (sc_builder s) of
        (Inl e, b) \<Rightarrow> (Some (Journey_error e), s\<lparr>sc_builder := b\<rparr>)
      | (Inr r, b) \<Rightarrow>
          (case prepare (su_codec su) (su_writer su) c (jr_events r) (bu_gen b) of
             (None, g) \<Rightarrow> (Some Injection_error, s\<lparr>sc_builder := b\<lparr>bu_gen := g\<rparr>\<rparr>)
           | (Some all_messages, g) \<Rightarrow>
               let ms = take (nat (event_count - sc_generated s)) all_messages;
                   s1 = s\<lparr>sc_builder := b\<lparr>bu_gen := g\<rparr>, sc_manifest := add_manifest run_id (manifest_entries ms) (sc_manifest s)\<rparr>
               in (case publish_messages (su_client su) ms (sc_producer s) of
                     (Some e, p) \<Rightarrow>
                       (Some (Producer_error e), s1\<lparr>sc_producer := p, sc_generated := sc_generated s + int (pd_published p - pd_published (sc_producer s))\<rparr>)
                   | (None, p) \<Rightarrow>
                       (case poll_producer (su_client su) p of
                          (e, p') \<Rightarrow> (map_option Producer_error e,
                                       s1\<lparr>sc_producer := p', sc_generated := sc_generated s + int (length ms)\<rparr>)))))"

primrec scenario_loop ::
  "surroundings \<Rightarrow> generator_config \<Rightarrow> uuid \<Rightarrow> int \<Rightarrow> nat \<Rightarrow> scenario_state \<Rightarrow> (generation_error option \<times> scenario_state) option" where
  "scenario_loop su c run_id event_count 0 s = (if sc_generated s < event_count then None else Some (None, s))"
| "scenario_loop su c run_id event_count (Suc fuel) s =
     (if sc_generated s < event_count
      then (case scenario_journey su c run_id event_count s of
              (Some e, s') \<Rightarrow> Some (Some e, s')
            | (None, s') \<Rightarrow> scenario_loop su c run_id event_count fuel s')
      else Some (None, s))"

definition initial_scenario :: "synthetic \<Rightarrow> manifest \<Rightarrow> scenario_state" where
  "initial_scenario g m =
     \<lparr>sc_builder = \<lparr>bu_gen = g, bu_store = []\<rparr>, sc_producer = new_producer, sc_manifest = m, sc_generated = 0\<rparr>"

text \<open>The whole of \<open>_generate\<close>: a configuration that does not validate raises, then the loop, then the flush. The
  last progress update writes the number of generated messages into the run.\<close>

definition generate_scenario ::
  "surroundings \<Rightarrow> nat \<Rightarrow> synthetic \<Rightarrow> demo_run \<Rightarrow> manifest \<Rightarrow> (scenario_error option \<times> scenario_state) option" where
  "generate_scenario su fuel g run m =
     (let q = dr_parameters run; c = scenario_config q; s0 = initial_scenario g m
      in if \<not> generator_config_valid (su_float su) c then Some (Some Invalid_config, s0)
         else case scenario_loop su c (dr_run_id run) (rc_event_count q) fuel s0 of
                None \<Rightarrow> None
              | Some (Some e, s) \<Rightarrow> Some (Some (Generation_failed e), s)
              | Some (None, s) \<Rightarrow>
                  (case flush_producer (su_client su) (sc_producer s) of
                     (e, p) \<Rightarrow> Some (map_option (Generation_failed \<circ> Producer_error) e, s\<lparr>sc_producer := p\<rparr>)))"

definition generated_progress ::
  "surroundings \<Rightarrow> nat \<Rightarrow> synthetic \<Rightarrow> db \<Rightarrow> instant \<Rightarrow> demo_run \<Rightarrow> control \<Rightarrow> (awaited \<times> control) option" where
  "generated_progress su fuel g d now run s =
     (case generate_scenario su fuel g run (ct_manifest s) of
        None \<Rightarrow> None
      | Some (Some e, sc) \<Rightarrow> Some (Raised_error, s\<lparr>ct_manifest := sc_manifest sc\<rparr>)
      | Some (None, sc) \<Rightarrow>
          let s1 = s\<lparr>ct_manifest := sc_manifest sc\<rparr>
          in Some (Returned, s1\<lparr>ct_runs := snd (refresh d (ct_manifest s1) now (dr_run_id run) (Some (sc_generated sc)) (ct_runs s1))\<rparr>))"

section \<open>The loop makes progress\<close>

lemma build_nonempty:
  assumes "generator_config_valid float c" "store_ok c (bu_store b)" "build_journey float sha256 c b = (Inr r, b')"
  shows "jr_events r \<noteq> []" "store_ok c (bu_store b')"
proof -
  obtain x y where xy: "built c sha256 (bu_store b) x y r" "commit_customer c y (bu_store b) = Inr (bu_store b')"
    using build_committed [OF assms] by blast
  then obtain pl where "realises (jr_correlation_id r) (plan_steps sha256 x pl) (jr_events r)" by (auto simp: built_def journey_wf_def)
  then show "jr_events r \<noteq> []" using realises_length plan_steps_nonempty by fastforce
  show "store_ok c (bu_store b')" using commit_ok [OF assms(2) _ xy(2)] xy(1) by (simp add: built_def)
qed

lemma prepare_nonempty: "prepare cx wr c es g = (Some ms, g') \<Longrightarrow> es \<noteq> [] \<Longrightarrow> ms \<noteq> []"
  by (auto simp: prepare_def reorder_def swap_first_def Let_def split: if_splits prod.splits option.splits)

lemma add_manifest_append: "add_manifest i (xs @ ys) m = add_manifest i ys (add_manifest i xs m)"
  by (simp add: add_manifest_def)

lemma manifest_entries_append: "manifest_entries (xs @ ys) = manifest_entries xs @ manifest_entries ys"
  by (simp add: manifest_entries_def)

definition scenario_so_far :: "generator_config \<Rightarrow> uuid \<Rightarrow> int \<Rightarrow> manifest \<Rightarrow> publishable_message list \<Rightarrow> scenario_state \<Rightarrow> bool" where
  "scenario_so_far c run_id event_count m ms s \<longleftrightarrow> sc_generated s = int (length ms) \<and> sc_generated s \<le> event_count \<and>
     accounts ms (sc_producer s) \<and> sc_manifest s = add_manifest run_id (manifest_entries ms) m \<and> store_ok c (bu_store (sc_builder s))"

lemma scenario_journey_None:
  assumes "scenario_so_far c i n m ms s" "sc_generated s < n" "generator_config_valid (su_float su) c"
    and "scenario_journey su c i n s = (None, s')"
  obtains more where "more \<noteq> []" "scenario_so_far c i n m (ms @ more) s'"
proof -
  have so: "sc_generated s = int (length ms)" "accounts ms (sc_producer s)" "sc_manifest s = add_manifest i (manifest_entries ms) m"
    "store_ok c (bu_store (sc_builder s))" using assms(1) by (simp_all add: scenario_so_far_def)
  obtain r b where build: "build_journey (su_float su) (su_sha256 su) c (sc_builder s) = (Inr r, b)"
    using assms(4) by (auto simp: scenario_journey_def split: prod.splits sum.splits)
  obtain allm g where prep: "prepare (su_codec su) (su_writer su) c (jr_events r) (bu_gen b) = (Some allm, g)"
    using assms(4) build by (auto simp: scenario_journey_def split: prod.splits option.splits)
  note ne = build_nonempty [OF assms(3) so(4) build]
  have allm: "allm \<noteq> []" by (rule prepare_nonempty [OF prep ne(1)])
  let ?more = "take (nat (n - sc_generated s)) allm"
  obtain p where pub: "publish_messages (su_client su) ?more (sc_producer s) = (None, p)"
    using assms(4) build prep by (auto simp: scenario_journey_def Let_def split: prod.splits option.splits)
  obtain p' where poll: "poll_producer (su_client su) p = (None, p')"
    using assms(4) build prep pub by (auto simp: scenario_journey_def Let_def split: prod.splits option.splits)
  have s': "s' = s\<lparr>sc_builder := b\<lparr>bu_gen := g\<rparr>, sc_manifest := add_manifest i (manifest_entries ?more) (sc_manifest s),
      sc_producer := p', sc_generated := sc_generated s + int (length ?more)\<rparr>"
    using assms(4) build prep pub poll by (simp add: scenario_journey_def Let_def)
  have "accounts (ms @ ?more) p" using publish_accounts [OF so(2) pub] by auto
  then have "accounts (ms @ ?more) p'" using poll by (rule poll_accounts)
  then have "scenario_so_far c i n m (ms @ ?more) s'"
    using so assms(2) ne(2) by (simp add: scenario_so_far_def s' add_manifest_append manifest_entries_append)
  moreover have "?more \<noteq> []" using allm assms(2) by simp
  ultimately show thesis using that by blast
qed

lemma scenario_loop_ends:
  assumes "scenario_so_far c i n m ms s" "generator_config_valid (su_float su) c" "n - sc_generated s \<le> int fuel"
  shows "\<exists>e s'. scenario_loop su c i n fuel s = Some (e, s') \<and>
    (e = None \<longrightarrow> sc_generated s' = n \<and> (\<exists>ms'. scenario_so_far c i n m ms' s'))"
  using assms
proof (induction fuel arbitrary: ms s)
  case 0
  then show ?case by (auto simp: scenario_so_far_def)
next
  case (Suc fuel)
  show ?case
  proof (cases "sc_generated s < n")
    case True
    obtain e s1 where one: "scenario_journey su c i n s = (e, s1)" by force
    show ?thesis
    proof (cases e)
      case None
      obtain more where more: "more \<noteq> []" "scenario_so_far c i n m (ms @ more) s1"
        using scenario_journey_None [OF Suc.prems(1) True Suc.prems(2)] one None by blast
      then have "sc_generated s < sc_generated s1" using Suc.prems(1) by (simp add: scenario_so_far_def)
      then show ?thesis using Suc.IH [OF more(2) Suc.prems(2)] Suc.prems(3) True one None by simp
    qed (use True one in simp)
  next
    case False
    then show ?thesis using Suc.prems(1) by (auto simp: scenario_so_far_def)
  qed
qed

section \<open>The weights of a mixed run\<close>

lemma allowed_persona: "name \<in> set allowed_personas \<longleftrightarrow> (\<exists>p. name = persona_value p)"
proof
  show "name \<in> set allowed_personas \<Longrightarrow> \<exists>p. name = persona_value p"
    by (auto simp: allowed_personas_def intro: exI [of _ NORMAL] exI [of _ SUSPICIOUS] exI [of _ BOT] exI [of _ ACCOUNT_TAKEOVER]
        exI [of _ DISCOUNT_HUNTER] exI [of _ INDECISIVE])
  assume "\<exists>p. name = persona_value p"
  then obtain p where "name = persona_value p" ..
  then show "name \<in> set allowed_personas" by (cases p) (simp_all add: allowed_personas_def)
qed

lemma entry_chars:
  "ch \<in> set (persona_value p) \<Longrightarrow> ch \<noteq> CHR '','' \<and> ch \<noteq> CHR ''='' \<and> \<not> is_space ch"
  "ch \<in> set (int_str v) \<Longrightarrow> ch \<noteq> CHR '','' \<and> ch \<noteq> CHR ''='' \<and> \<not> is_space ch"
proof -
  show "ch \<in> set (persona_value p) \<Longrightarrow> ch \<noteq> CHR '','' \<and> ch \<noteq> CHR ''='' \<and> \<not> is_space ch"
    by (cases p) (auto simp: is_space_def)
  have "\<forall>ch \<in> insert (CHR ''-'') digit_chars. ch \<noteq> CHR '','' \<and> ch \<noteq> CHR ''='' \<and> \<not> is_space ch"
    by (simp add: digit_chars_def is_space_def)
  then show "ch \<in> set (int_str v) \<Longrightarrow> ch \<noteq> CHR '','' \<and> ch \<noteq> CHR ''='' \<and> \<not> is_space ch" using int_str_chars [of v] by auto
qed

lemma split_once_entry: "sep \<notin> set x \<Longrightarrow> split_once sep (x @ sep # y) = Some (x, y)"
  by (induction x) (auto simp: split_once_def split: list.splits)

definition weight_entry :: "string \<times> int \<Rightarrow> string" where
  "weight_entry = (\<lambda>(name, v). name @ ''='' @ int_str v)"

lemma parse_weight_entry:
  assumes "float (int_str v) = Some (of_int v)" "0 \<le> v"
  shows "parse_entry float (weight_entry (persona_value p, v)) weights =
    (if map_of weights p = None then Some (weights @ [(p, of_int v)]) else None)"
proof -
  have "split_once (CHR ''='') (weight_entry (persona_value p, v)) = Some (persona_value p, int_str v)"
    unfolding weight_entry_def using entry_chars(1) [of _ p] by (simp add: split_once_entry) (blast intro: split_once_entry)
  moreover have "strip (persona_value p) = persona_value p" "strip (int_str v) = int_str v"
    using entry_chars by (blast intro: strip_id)+
  ultimately show ?thesis using assms by (simp add: parse_entry_def persona_of_value)
qed

lemma parse_weight_entries:
  assumes "\<forall>(p, v) \<in> set d. float (int_str v) = Some (of_int v) \<and> 0 \<le> v" "distinct (map fst weights @ map fst d)"
  shows "parse_entries float (map (\<lambda>(p, v). weight_entry (persona_value p, v)) d) weights = Some (weights @ map (\<lambda>(p, v). (p, of_int v)) d)"
  using assms
proof (induction d arbitrary: weights)
  case (Cons x d)
  obtain p v where x: "x = (p, v)" by force
  then have "map_of weights p = None" using Cons.prems(2) by (auto simp: map_of_eq_None_iff)
  then have "parse_entry float (weight_entry (persona_value p, v)) weights = Some (weights @ [(p, of_int v)])"
    using parse_weight_entry [of float v p weights] Cons.prems(1) x by simp
  then show ?case using Cons.IH [of "weights @ [(p, of_int v)]"] Cons.prems x by simp
qed simp

lemma distinct_mapI: "distinct (map f xs) \<Longrightarrow> distinct xs"
  by (simp add: distinct_map)

lemma parse_weights:
  assumes d: "\<forall>(p, v) \<in> set d. float (int_str v) = Some (of_int v) \<and> 0 \<le> v" "distinct (map fst d)" "sum_list (map snd d) = 100"
  shows "parse_persona_weights float (join_on (CHR '','') (map (\<lambda>(p, v). weight_entry (persona_value p, v)) d)) \<noteq> None \<longleftrightarrow>
    set (map fst d) = set customer_personas"
proof -
  let ?es = "map (\<lambda>(p, v). weight_entry (persona_value p, v)) d"
  have ne: "d \<noteq> []" using d(3) by auto
  have ch: "ch \<noteq> CHR '','' \<and> \<not> is_space ch" if "ch \<in> set (weight_entry (persona_value p, v))" for ch p v
    using that entry_chars [of ch] by (auto simp: weight_entry_def is_space_def)
  have "split_on (CHR '','') (join_on (CHR '','') ?es) = ?es" by (rule split_join) (use ne ch in auto)
  moreover have "map strip ?es = ?es" using ch by (auto intro!: strip_id)
  moreover have "filter (\<lambda>e. e \<noteq> []) ?es = ?es" by (induction d) (auto simp: weight_entry_def)
  ultimately have parse: "parse_persona_weights float (join_on (CHR '','') ?es) =
      (let weights = map (\<lambda>(p, v). (p, of_int v)) d
       in if set (map fst weights) \<noteq> set customer_personas then None
          else let total0 = sum_list (map snd weights) in if total0 \<le> 0 then None else Some (map (\<lambda>(p, w). (p, w / total0)) weights))"
    using parse_weight_entries [of d float "[]"] d(1,2) unfolding parse_persona_weights_def by (simp only: option.case Let_def) simp
  have fst: "map fst (map (\<lambda>(p, v). (p, of_int v :: rat)) d) = map fst d" by auto
  have "sum_list (map snd (map (\<lambda>(p, v). (p, of_int v :: rat)) d)) = of_int (sum_list (map snd d))"
    by (induction d) auto
  with d(3) have snd: "sum_list (map snd (map (\<lambda>(p, v). (p, of_int v :: rat)) d)) = 100" by simp
  show ?thesis unfolding parse Let_def fst snd by simp
qed

lemma scenario_config_valid:
  assumes "fields_valid q"
  shows "generator_config_valid float (scenario_config q) \<longleftrightarrow>
    parse_persona_weights float (generator_persona_weights (scenario_config q)) \<noteq> None"
  using assms
  by (auto simp: generator_config_valid_def scenario_config_def default_generator_config_def unit_interval_def fields_valid_def
      rate_valid_def malformed_probability_def)

lemma finished_persona: "gcu_persona (finished_customer evs s oid x) = gcu_persona x"
proof -
  have "gcu_persona (remember_event p y) = gcu_persona y" for p y by (cases p; simp add: Let_def)
  then have "gcu_persona (fold (\<lambda>e. remember_event (ev_payload e)) evs y) = gcu_persona y" for y
    by (induction evs arbitrary: y) simp_all
  then show ?thesis by (simp add: finished_customer_def Let_def)
qed

lemma build_persona:
  assumes "generator_config_valid float c" "store_ok c (bu_store b)" "build_journey float sha256 c b = (Inr r, b')"
    and "choose_persona float c (bu_store b) (bu_gen b) = ((persona, seeding), g1)" "persona \<noteq> ACCOUNT_TAKEOVER"
  shows "jr_persona r = persona"
proof -
  obtain x ret g2 where sel: "select_customer c (bu_store b) persona g1 = (Inr (x, ret), g2)"
    using assms(3,4) by (auto simp: build_journey_def split: prod.splits sum.splits)
  have x: "gcu_persona x = persona" "customer_ok x"
    using select_or_create_ok [OF assms(2)] sel assms(5) by (auto simp: select_customer_def selected_def)
  let ?pr = "profile_for (gcu_persona x)"
  obtain t g3 where st: "start_logical_time x ?pr ret g2 = (Inr t, g3)"
    using assms(3,4) sel by (auto simp: build_journey_def Let_def split: prod.splits sum.splits)
  obtain corr s oid a w where run: "run_state (journey_steps c sha256 seeding ?pr ret)
      \<lparr>wk_gen = g3, wk_cursor = t, wk_customer = x, wk_events = []\<rparr> = ((corr, s, oid, a), w)" by (metis prod.exhaust)
  have "same_customer x (wk_customer w)"
    using journey_rule [OF profile_facts(1,3,4,6,7) config_facts [OF assms(1)] run _ _ _ x(2)] by (auto simp: journal_def)
  moreover have "jr_persona r = gcu_persona (finished_customer (wk_events w) s oid (wk_customer w))"
    using assms(3) by (auto simp: build_journey_def assms(4) sel st Let_def run split: sum.splits)
  ultimately show ?thesis using x(1) by (simp add: finished_persona same_customer_def)
qed

section \<open>The branch probabilities\<close>

text \<open>A configuration with other probabilities for the four branches of a journey.\<close>

definition with_branches :: "rat \<Rightarrow> rat \<Rightarrow> rat \<Rightarrow> rat \<Rightarrow> generator_config \<Rightarrow> generator_config" where
  "with_branches add checkout success refund c =
     c\<lparr>generator_add_to_cart_probability := add, generator_checkout_probability := checkout,
       generator_payment_success_probability := success, generator_refund_probability := refund\<rparr>"

lemma with_branches_fields:
  "generator_persona (with_branches a k p r c) = generator_persona c"
  "generator_max_product_views (with_branches a k p r c) = generator_max_product_views c"
  "generator_customer_pool_size (with_branches a k p r c) = generator_customer_pool_size c"
  "generator_new_customer_probability (with_branches a k p r c) = generator_new_customer_probability c"
  "generator_stateful_mode (with_branches a k p r c) = generator_stateful_mode c"
  "generator_max_payment_attempts (with_branches a k p r c) = generator_max_payment_attempts c"
  "generator_payment_retry_probability (with_branches a k p r c) = generator_payment_retry_probability c"
  by (simp_all add: with_branches_def)

lemma branches_steps:
  assumes "seeding \<or> pp_persona pr \<noteq> NORMAL"
  shows "journey_steps (with_branches a k p r c) sha256 seeding pr ret = journey_steps c sha256 seeding pr ret"
proof -
  let ?c = "with_branches a k p r c"
  have prob: "probability ?c seeding pr br = probability c seeding pr br" for br using assms by (cases br) auto
  have "pay ?c seeding pr corr oid am dv ip cn n i = pay c seeding pr corr oid am dv ip cn n i" for corr oid am dv ip cn n i
  proof (induction n arbitrary: i)
    case (Suc n)
    show ?case unfolding pay.simps prob with_branches_fields Suc.IH by (rule refl)
  qed simp
  then have pays: "payments ?c seeding pr = payments c seeding pr" by (simp add: payments_def fun_eq_iff with_branches_fields)
  have buys: "purchase ?c seeding pr = purchase c seeding pr" by (intro ext) (simp only: purchase_def prob pays)
  have "shop ?c seeding pr = shop c seeding pr" by (intro ext) (simp only: shop_def prob buys)
  moreover have "view_products ?c pr = view_products c pr" by (simp add: view_products_def with_branches_fields)
  ultimately show ?thesis by (simp add: journey_steps_def)
qed

lemma selected_persona:
  assumes "select_customer c st persona g = (Inr (x, ret), g')"
  shows "gcu_persona x = persona"
proof -
  have "gcu_persona x = persona" if "select_or_create c st persona g0 = (Inr (x, ret), g')" for g0
    using that create_customer_cases(1)
    by (auto simp: select_or_create_def returning_def split: prod.splits option.splits if_splits sum.splits dest!: pick_Some)
  with assms show ?thesis
    by (auto simp: select_customer_def takeover_candidate_def split: if_splits prod.splits option.splits)
qed

section \<open>Properties\<close>

text \<open>C32: a scenario publishes exactly the requested number of messages. Whatever is drawn and whatever Kafka
  does, \<open>_generate\<close> ends, within as many passes of its loop as messages are requested. When it ends
  without an exception, it has published exactly the requested number of messages, Kafka has confirmed
  each of them, and the manifest of the run has gained exactly the identifiers of these messages.\<close>

theorem scenario_generates_exactly:
  assumes "0 \<le> rc_event_count (dr_parameters run)" and "rc_event_count (dr_parameters run) \<le> int fuel"
  shows "\<exists>e s. generate_scenario su fuel g run m = Some (e, s) \<and>
    (e = None \<longrightarrow> sc_generated s = rc_event_count (dr_parameters run) \<and>
       (\<exists>ms. int (length ms) = rc_event_count (dr_parameters run) \<and> mset (pd_delivered (sc_producer s)) = mset ms \<and>
          pd_queue (sc_producer s) = [] \<and> pd_failed (sc_producer s) = [] \<and>
          sc_manifest s = add_manifest (dr_run_id run) (manifest_entries ms) m))"
proof -
  let ?q = "dr_parameters run" let ?c = "scenario_config ?q" let ?n = "rc_event_count ?q" let ?i = "dr_run_id run"
  show ?thesis
  proof (cases "generator_config_valid (su_float su) ?c")
    case True
    have "scenario_so_far ?c ?i ?n m [] (initial_scenario g m)"
      using assms(1) by (simp add: scenario_so_far_def initial_scenario_def accounts_def new_producer_def manifest_entries_def
          add_manifest_def store_ok_def scenario_config_def default_generator_config_def)
    then obtain e s where loop: "scenario_loop su ?c ?i ?n fuel (initial_scenario g m) = Some (e, s)"
      "e = None \<longrightarrow> sc_generated s = ?n \<and> (\<exists>ms. scenario_so_far ?c ?i ?n m ms s)"
      using scenario_loop_ends [of ?c ?i ?n m "[]" "initial_scenario g m" su fuel] True assms(2) by (auto simp: initial_scenario_def)
    show ?thesis
    proof (cases e)
      case None
      then obtain ms where ms: "scenario_so_far ?c ?i ?n m ms s" "sc_generated s = ?n" using loop(2) by blast
      obtain x p where fl: "flush_producer (su_client su) (sc_producer s) = (x, p)" by force
      have acc: "accounts ms p" using ms(1) fl serve_accounts by (auto simp: scenario_so_far_def flush_producer_def Let_def)
      have res: "generate_scenario su fuel g run m = Some (map_option (Generation_failed \<circ> Producer_error) x, s\<lparr>sc_producer := p\<rparr>)"
        using True loop(1) None fl by (simp add: generate_scenario_def Let_def)
      have "mset (pd_delivered p) = mset ms \<and> pd_queue p = [] \<and> pd_failed p = []" if "x = None"
        using acc fl that by (auto simp: accounts_def flush_producer_def Let_def split: if_splits)
      then show ?thesis using res ms by (auto simp: scenario_so_far_def)
    qed (use True loop(1) in \<open>simp add: generate_scenario_def Let_def\<close>)
  qed (simp add: generate_scenario_def Let_def)
qed

definition one_message_run :: demo_run where
  "one_message_run = new_run 7 0 ''demo:7'' (demo_request\<lparr>rc_event_count := 1\<rparr>)"

lemma one_message_valid: "generator_config_valid demo_float (scenario_config (dr_parameters one_message_run))"
proof -
  let ?q = "dr_parameters one_message_run"
  have "generator_persona_weights (scenario_config ?q) = DEFAULT_PERSONA_WEIGHTS" "fields_valid ?q"
    by (simp_all add: scenario_config_def one_message_run_def new_run_def demo_request_def weight_string_def
        fields_valid_def rate_valid_def malformed_cases_def)
  then show ?thesis using scenario_config_valid [of ?q demo_float] default_weights_parse by (simp del: not_None_eq)
qed

lemma one_message_journey:
  "\<exists>r b. build_journey demo_float (\<lambda>_. ''h'') (scenario_config (dr_parameters one_message_run)) demo_builder = (Inr r, b) \<and> jr_events r \<noteq> []"
proof -
  let ?c = "scenario_config (dr_parameters one_message_run)"
  have c: "generator_persona ?c = Some NORMAL" "generator_customer_pool_size ?c = 100"
    by (simp_all add: scenario_config_def one_message_run_def new_run_def demo_request_def default_generator_config_def)
  note valid = one_message_valid
  have store: "store_ok ?c (bu_store demo_builder)" using c(2) by (simp add: store_ok_def demo_builder_def)
  have "\<exists>r. fst (build_journey demo_float (\<lambda>_. ''h'') ?c demo_builder) = Inr r"
    using build_outcome [OF valid store, of NORMAL False demo_source "\<lambda>_. ''h''"] c(1,2)
    by (simp add: demo_builder_def demo_source_def choose_persona_def)
  then obtain r b where "build_journey demo_float (\<lambda>_. ''h'') ?c demo_builder = (Inr r, b)" by (metis prod.collapse)
  with build_nonempty(1) [OF valid store this] show ?thesis by blast
qed

theorem scenario_generates_exactly_witness:
  "\<exists>e s. generate_scenario demo_surroundings 1 demo_source one_message_run [] = Some (e, s) \<and>
     (e = None \<longrightarrow> sc_generated s = 1 \<and> length (pd_delivered (sc_producer s)) = 1) \<and> e = None"
proof -
  let ?q = "dr_parameters one_message_run" let ?c = "scenario_config ?q" let ?s0 = "initial_scenario demo_source []"
  have n: "rc_event_count ?q = 1" by (simp add: one_message_run_def new_run_def)
  obtain r b where build: "build_journey demo_float (\<lambda>_. ''h'') ?c demo_builder = (Inr r, b)" "jr_events r \<noteq> []"
    using one_message_journey by blast
  have off: "\<not> generator_anomalies_enabled ?c"
    by (simp add: scenario_config_def one_message_run_def new_run_def demo_request_def)
  have b0: "sc_builder ?s0 = demo_builder" "sc_generated ?s0 = 0" "pd_delivery_failures (sc_producer ?s0) = 0"
    by (simp_all add: initial_scenario_def demo_builder_def new_producer_def)
  let ?ms = "take 1 (map (valid_message unary_writer) (jr_events r))"
  obtain p where p: "publish_messages healthy_client ?ms (sc_producer ?s0) = (None, p)" "pd_delivery_failures p = 0"
    using healthy_publish b0(3) by metis
  have len: "length ?ms = 1" using build(2) by (cases "jr_events r") simp_all
  have "\<exists>s1. scenario_journey demo_surroundings ?c 7 1 ?s0 = (None, s1) \<and> sc_generated s1 = 1 \<and> pd_delivery_failures (sc_producer s1) = 0"
    using build(1) b0 p len off
    by (simp add: scenario_journey_def demo_surroundings_def prepare_def Let_def poll_producer_def healthy_serve)
  then obtain s1 where "scenario_loop demo_surroundings ?c 7 1 1 ?s0 = Some (None, s1)" "pd_delivery_failures (sc_producer s1) = 0"
    using b0(2) by auto
  moreover note one_message_valid
  ultimately have "\<exists>s. generate_scenario demo_surroundings 1 demo_source one_message_run [] = Some (None, s)"
    by (simp add: generate_scenario_def Let_def n demo_surroundings_def flush_producer_def healthy_serve one_message_run_def new_run_def)
  then show ?thesis
    using scenario_generates_exactly [of one_message_run 1 demo_surroundings demo_source "[]"] n by (auto dest!: mset_eq_length)
qed

text \<open>Mixed traffic is not mixed. A valid request for mixed traffic with a distribution of personas gives a
  valid generator configuration exactly when the distribution names all six personas, although the
  request model accepts any non-empty selection that adds up to 100; otherwise the run fails at its
  start. And with a valid configuration every journey of the run is one of a normal customer, whatever the
  distribution: the runner overrides the cart and checkout probabilities, and the builder uses the
  weights only when these have their defaults.\<close>

theorem mixed_traffic_is_normal:
  assumes "run_create_valid q" and "rc_scenario_type q = MIXED_TRAFFIC" and "rc_persona_distribution q = Some d"
    and "distinct (map fst d)" and "\<forall>(name, v) \<in> set d. float (int_str v) = Some (of_int v)"
  shows "(generator_config_valid float (scenario_config q) \<longleftrightarrow> set (map fst d) = set allowed_personas) \<and>
    (\<forall>sha256 b r b'. generator_config_valid float (scenario_config q) \<longrightarrow> store_ok (scenario_config q) (bu_store b) \<longrightarrow>
       build_journey float sha256 (scenario_config q) b = (Inr r, b') \<longrightarrow> jr_persona r = NORMAL)"
proof
  define e where "e = map (\<lambda>(name, v). (the (persona_of name), v)) d"
  have d: "fields_valid q" "d \<noteq> []" "sum_list (map snd d) = 100" "\<forall>(name, v) \<in> set d. name \<in> set allowed_personas \<and> 0 \<le> v"
    using assms(1-3) by (auto simp: run_create_valid_def mixed_valid_def)
  have names: "persona_value (the (persona_of name)) = name" if "(name, v) \<in> set d" for name v
    using d(4) that by (auto simp: allowed_persona persona_of_value)
  have de: "d = map (\<lambda>(p, v). (persona_value p, v)) e" using names by (auto simp: e_def intro!: map_idI [symmetric])
  have inj: "persona_value p = persona_value p' \<longleftrightarrow> p = p'" for p p' using persona_of_value by (metis option.inject)
  have fe: "map fst d = map persona_value (map fst e)" "map snd d = map snd e" unfolding de by auto
  have "distinct (map fst e)" using assms(4) unfolding fe(1) by (rule distinct_mapI)
  moreover have "\<forall>(p, v) \<in> set e. float (int_str v) = Some (of_int v) \<and> 0 \<le> v"
    using assms(5) d(4) by (auto simp: e_def)
  ultimately have "parse_persona_weights float (join_on (CHR '','') (map (\<lambda>(p, v). weight_entry (persona_value p, v)) e)) \<noteq> None \<longleftrightarrow>
      set (map fst e) = set customer_personas"
    using d(3) fe(2) by (intro parse_weights) simp_all
  moreover have "generator_persona_weights (scenario_config q) = join_on (CHR '','') (map (\<lambda>(p, v). weight_entry (persona_value p, v)) e)"
    using d(2) by (simp add: scenario_config_def assms(3) weight_string_def) (simp add: de weight_entry_def comp_def case_prod_beta')
  moreover have "set (map fst e) = set customer_personas \<longleftrightarrow> set (map fst d) = set allowed_personas"
  proof -
    have all: "set allowed_personas = persona_value ` set customer_personas"
      by (auto simp: allowed_personas_def customer_personas_def)
    have "inj persona_value" using inj by (auto intro: injI)
    then show ?thesis unfolding fe(1) all by (simp add: inj_image_eq_iff flip: image_image)
  qed
  ultimately show "generator_config_valid float (scenario_config q) \<longleftrightarrow> set (map fst d) = set allowed_personas"
    using scenario_config_valid [OF d(1)] by simp
  have "fst (choose_persona float (scenario_config q) st g) = (NORMAL, False)" for st g
    by (simp add: choose_persona_def scenario_config_def assms(2))
  then show "\<forall>sha256 b r b'. generator_config_valid float (scenario_config q) \<longrightarrow> store_ok (scenario_config q) (bu_store b) \<longrightarrow>
       build_journey float sha256 (scenario_config q) b = (Inr r, b') \<longrightarrow> jr_persona r = NORMAL"
    using build_persona [of float "scenario_config q"] by (metis customer_persona.distinct(9) prod.collapse)
qed

definition mixed_request :: "(string \<times> int) list \<Rightarrow> run_create" where
  "mixed_request d = demo_request\<lparr>rc_scenario_type := MIXED_TRAFFIC, rc_persona_distribution := Some d\<rparr>"

definition percent_float :: "string \<Rightarrow> rat option" where
  "percent_float = map_of [(int_str 50, 50), (int_str 10, 10)]"

theorem mixed_traffic_is_normal_witness:
  "run_create_valid (mixed_request [(''normal'', 50), (''bot'', 50)]) \<and>
   \<not> generator_config_valid percent_float (scenario_config (mixed_request [(''normal'', 50), (''bot'', 50)])) \<and>
   (\<exists>d. run_create_valid (mixed_request d) \<and> generator_config_valid percent_float (scenario_config (mixed_request d)) \<and>
     (\<forall>sha256 b r b'. store_ok (scenario_config (mixed_request d)) (bu_store b) \<longrightarrow>
        build_journey percent_float sha256 (scenario_config (mixed_request d)) b = (Inr r, b') \<longrightarrow> jr_persona r = NORMAL))"
proof -
  let ?two = "[(''normal'', 50), (''bot'', 50 :: int)]"
  let ?six = "[(''normal'', 50), (''indecisive'', 10), (''discount_hunter'', 10), (''suspicious'', 10), (''bot'', 10), (''account_takeover'', 10 :: int)]"
  have fl: "percent_float (int_str 50) = Some 50" "percent_float (int_str 10) = Some 10"
    by (simp_all add: percent_float_def int_str_inj)
  have valid: "run_create_valid (mixed_request ?two)" "run_create_valid (mixed_request ?six)"
    by (simp_all add: run_create_valid_def mixed_request_def demo_request_def fields_valid_def rate_valid_def malformed_cases_def
        mixed_valid_def allowed_personas_def)
  have eq: "rc_scenario_type (mixed_request d) = MIXED_TRAFFIC" "rc_persona_distribution (mixed_request d) = Some d" for d
    by (simp_all add: mixed_request_def)
  have d: "distinct (map fst ?two)" "distinct (map fst ?six)"
    "\<forall>(name, v) \<in> set ?two. percent_float (int_str v) = Some (of_int v)" "\<forall>(name, v) \<in> set ?six. percent_float (int_str v) = Some (of_int v)"
    using fl by simp_all
  have "''suspicious'' \<in> set allowed_personas" "''suspicious'' \<notin> set (map fst ?two)" by (simp_all add: allowed_personas_def)
  then have sets: "set (map fst ?two) \<noteq> set allowed_personas" "set (map fst ?six) = set allowed_personas"
    by (blast, auto simp: allowed_personas_def)
  note two = mixed_traffic_is_normal [OF valid(1) eq d(1,3)] and six = mixed_traffic_is_normal [OF valid(2) eq d(2,4)]
  have "\<not> generator_config_valid percent_float (scenario_config (mixed_request ?two))" using conjunct1 [OF two] sets(1) by blast
  moreover have ok: "generator_config_valid percent_float (scenario_config (mixed_request ?six))" using conjunct1 [OF six] sets(2) by blast
  moreover have "\<forall>sha256 b r b'. store_ok (scenario_config (mixed_request ?six)) (bu_store b) \<longrightarrow>
        build_journey percent_float sha256 (scenario_config (mixed_request ?six)) b = (Inr r, b') \<longrightarrow> jr_persona r = NORMAL"
    using conjunct2 [OF six] ok by blast
  ultimately show ?thesis using valid by blast
qed

text \<open>The branch probabilities of a run do not reach a fixed persona. For every persona but the normal one,
  a build gives the same journey and the same pool of customers whatever the cart, checkout, payment and
  refund probabilities of the configuration are. So a run of the refund scenario requests no more
  refunds than any run of suspicious customers, although the runner sets the refund probability to one,
  and runs of suspicious customers, takeovers and bots buy when transactions are disabled.\<close>

theorem fixed_persona_ignores_branches:
  assumes "generator_persona c = Some persona" and "persona \<noteq> NORMAL"
  shows "build_journey float sha256 (with_branches a k p r c) b = build_journey float sha256 c b"
proof -
  let ?c = "with_branches a k p r c"
  have "create_customer ?c = create_customer c" by (intro ext) (simp add: create_customer_def with_branches_fields)
  then have sel: "select_or_create ?c = select_or_create c" by (intro ext) (simp only: select_or_create_def with_branches_fields)
  have same: "select_customer ?c = select_customer c" "choose_persona float ?c = choose_persona float c" "commit_customer ?c = commit_customer c"
    by (intro ext, simp only: select_customer_def choose_persona_def commit_customer_def with_branches_fields assms(1) option.case sel)+
  obtain q seeding g1 where ch: "choose_persona float c (bu_store b) (bu_gen b) = ((q, seeding), g1)" by (metis prod.exhaust)
  then have q: "seeding \<or> q \<noteq> NORMAL" using assms by (auto simp: choose_persona_def split: if_splits prod.splits option.splits)
  have "journey_steps ?c sha256 seeding (profile_for (gcu_persona x)) ret = journey_steps c sha256 seeding (profile_for (gcu_persona x)) ret"
    if "select_customer c (bu_store b) q g1 = (Inr (x, ret), g2)" for x ret g2
    using branches_steps q selected_persona [OF that] profile_facts(5) by metis
  then show ?thesis
    by (cases "select_customer c (bu_store b) q g1") (auto simp: build_journey_def same ch Let_def split: sum.split prod.split)
qed

theorem fixed_persona_ignores_branches_witness:
  "\<exists>q. rc_scenario_type q = REFUND_ABUSE \<and> generator_refund_probability (scenario_config q) = 1 \<and>
     (\<forall>b. build_journey demo_float id (with_branches 1 1 (85 / 100) 0 (scenario_config q)) b = build_journey demo_float id (scenario_config q) b)"
proof -
  let ?q = "demo_request\<lparr>rc_scenario_type := REFUND_ABUSE\<rparr>"
  have "generator_persona (scenario_config ?q) = Some SUSPICIOUS" "generator_refund_probability (scenario_config ?q) = 1"
    by (simp_all add: scenario_config_def)
  then show ?thesis using fixed_persona_ignores_branches [of "scenario_config ?q" SUSPICIOUS] by (intro exI [of _ ?q]) simp
qed

end
