(* ===== verification/Pacing.thy ===== *)
theory Pacing
  imports Prelude
begin

text \<open>
  The pacing of \<^verbatim>\<open>ScenarioRunner._generate\<close> (\<^verbatim>\<open>services/demo_control_api/services/scenario_runner.py\<close>): after each
  message the deadline moves on by one interval, a deadline that was missed by more than an interval is
  moved to the present, and the loop sleeps until the deadline. Times are the readings of the clock of
  the event loop.
\<close>

section \<open>Deadlines\<close>

definition next_deadline :: "rat \<Rightarrow> rat \<Rightarrow> rat \<Rightarrow> rat" where
  "next_deadline interval deadline now =
     (let moved = deadline + interval; lateness = now - moved
      in if lateness > 0 \<and> lateness > interval then now else moved)"

definition pacing_delay :: "rat \<Rightarrow> rat \<Rightarrow> rat" where
  "pacing_delay deadline now = (if now < deadline then deadline - now else 0)"

text \<open>The times of the messages of a run, each with the time its publication starts and the time read after it:
  the next publication starts when the loop has slept, or later.\<close>

fun paced :: "rat \<Rightarrow> rat \<Rightarrow> (rat \<times> rat) list \<Rightarrow> bool" where
  "paced interval deadline [] \<longleftrightarrow> True"
| "paced interval deadline ((started, now) # rest) \<longleftrightarrow>
     (let deadline' = next_deadline interval deadline now
      in started \<le> now \<and> (case rest of [] \<Rightarrow> True | (started', _) # _ \<Rightarrow> now + pacing_delay deadline' now \<le> started') \<and>
         paced interval deadline' rest)"

lemma next_deadline_bounds:
  assumes "0 \<le> interval"
  shows "deadline + interval \<le> next_deadline interval deadline now" "now - interval \<le> next_deadline interval deadline now"
  using assms by (auto simp: next_deadline_def Let_def)

lemma delay_reaches: "deadline \<le> now + pacing_delay deadline now" "now \<le> now + pacing_delay deadline now"
  by (auto simp: pacing_delay_def)

lemma paced_after:
  assumes "paced interval deadline xs" "0 \<le> interval" "j < length xs" "0 < j"
  shows "deadline + of_nat j * interval \<le> fst (xs ! j)"
  using assms
proof (induction xs arbitrary: deadline j)
  case (Cons x xs)
  obtain started now where x: "x = (started, now)" by force
  let ?d = "next_deadline interval deadline now"
  obtain k where k: "j = Suc k" "k < length xs" using Cons.prems(3,4) by (cases j) auto
  have rest: "paced interval ?d xs" using Cons.prems(1) x by (auto simp: Let_def)
  show ?case
  proof (cases k)
    case 0
    then obtain s n ys where xs: "xs = (s, n) # ys" using k(2) by (cases xs) auto
    then have "now + pacing_delay ?d now \<le> s" using Cons.prems(1) x by (simp add: Let_def)
    then have "?d \<le> s" using delay_reaches(1) [of ?d now] by linarith
    then show ?thesis using next_deadline_bounds(1) [OF Cons.prems(2), of deadline now] xs k(1) 0 by simp
  next
    case (Suc m)
    then have "?d + of_nat k * interval \<le> fst (xs ! k)" using Cons.IH [OF rest Cons.prems(2) k(2)] by simp
    then show ?thesis using next_deadline_bounds(1) [OF Cons.prems(2), of deadline now] k(1) by (simp add: algebra_simps)
  qed
qed simp

lemma paced_spread:
  assumes "paced interval deadline xs" "0 \<le> interval" "i < j" "j < length xs"
  shows "fst (xs ! i) + (of_nat (j - i) - 2) * interval \<le> fst (xs ! j)"
  using assms
proof (induction xs arbitrary: deadline i j)
  case (Cons x xs)
  obtain started now where x: "x = (started, now)" by force
  let ?d = "next_deadline interval deadline now"
  have rest: "paced interval ?d xs" and le: "started \<le> now" using Cons.prems(1) x by (auto simp: Let_def)
  obtain k where k: "j = Suc k" "k < length xs" using Cons.prems(3,4) by (cases j) auto
  show ?case
  proof (cases i)
    case (Suc m)
    then show ?thesis using Cons.IH [OF rest Cons.prems(2), of m k] Cons.prems(3) k by simp
  next
    case 0
    have d: "now - interval \<le> ?d" by (rule next_deadline_bounds(2) [OF Cons.prems(2)])
    show ?thesis
    proof (cases k)
      case 0
      then obtain s n ys where xs: "xs = (s, n) # ys" using k(2) by (cases xs) auto
      then have "now + pacing_delay ?d now \<le> s" using Cons.prems(1) x by (simp add: Let_def)
      then have "now \<le> s" using delay_reaches(2) [of now ?d] by linarith
      then show ?thesis using le Cons.prems(2) \<open>i = 0\<close> 0 k(1) x xs by simp
    next
      case (Suc m)
      have "?d + of_nat k * interval \<le> fst (xs ! k)" using paced_after [OF rest Cons.prems(2) k(2)] Suc by simp
      then show ?thesis using le d \<open>i = 0\<close> k(1) x by (simp add: algebra_simps)
    qed
  qed
qed simp

section \<open>Properties\<close>

text \<open>C33: the pacing of a scenario keeps its rate. However long publishing, sleeping and everything else take, the
  publication of the j-th message starts no earlier than j - i - 2 intervals after that of the i-th: a
  delay never causes a burst of more than two messages beyond the requested rate.\<close>

theorem pacing_keeps_rate:
  assumes "paced interval deadline starts" and "0 \<le> interval" and "i < j" and "j < length starts"
  shows "fst (starts ! i) + (of_nat (j - i) - 2) * interval \<le> fst (starts ! j)"
  using assms by (rule paced_spread)

theorem pacing_keeps_rate_witness:
  "paced 1 0 [(0, 10), (10, 10), (11, 11), (12, 12)] \<and> (0 :: rat) + (of_nat (3 - 0) - 2) * 1 \<le> 12"
proof -
  have "paced 1 0 [(0, 10), (10, 10), (11, 11), (12, 12)]" by (simp add: Let_def next_deadline_def pacing_delay_def)
  then show ?thesis using pacing_keeps_rate [of 1 0 "[(0, 10), (10, 10), (11, 11), (12, 12)]" 0 3] by simp
qed

end
