(* ===== verification/Migrations.thy ===== *)
theory Migrations
  imports Contracts Retry "HOL-Library.List_Lexorder" "HOL-Library.Char_ord"
    "HOL-Library.Multiset"
begin

text \<open>
  The migration runner of \<^verbatim>\<open>services/event_processor/persistence/migrations.py\<close> and the start-up checks of
  \<^verbatim>\<open>services/event_processor/persistence/database.py\<close>.

  A directory is the list of its files, each a name and a content. PostgreSQL is a parameter: what a
  script does to the schema (a failed script leaves no trace, since every migration is one transaction),
  which tables and which constraints a schema has. The scripts of the repository do not touch the table
  \<^verbatim>\<open>schema_migrations\<close>, which is kept beside the schema. The digest of \<^verbatim>\<open>hashlib.sha256\<close> is a parameter.
  Several runners may be started at the same time: each action of a runner is a step, a runner can die
  between any two of them, and the advisory lock is freed when its session ends.
\<close>

section \<open>Discovery\<close>

record migration =
  mg_version :: int
  mg_name :: string
  mg_checksum :: string
  mg_sql :: string

datatype migration_error =
    Invalid_filename string
  | Versions_disordered
  | Checksum_mismatch int
  | Database_failure
  | Schema_behind int int
  | Missing_tables "string list"
  | Missing_constraints

definition char_code :: "char \<Rightarrow> int" where
  "char_code ch = int (of_char ch)"

definition is_decimal :: "char \<Rightarrow> bool" where
  "is_decimal ch \<longleftrightarrow> 48 \<le> char_code ch \<and> char_code ch \<le> 57"

definition name_char :: "char \<Rightarrow> bool" where
  "name_char ch \<longleftrightarrow> is_decimal ch \<or> 97 \<le> char_code ch \<and> char_code ch \<le> 122 \<or> ch = CHR ''_''"

definition digits_value :: "string \<Rightarrow> int" where
  "digits_value s = foldl (\<lambda>n ch. 10 * n + (char_code ch - 48)) 0 s"

text \<open>The glob \<^verbatim>\<open>*.sql\<close> and the pattern of a migration's name: three digits, an underscore, a name and
  the suffix.\<close>

definition is_sql :: "string \<Rightarrow> bool" where
  "is_sql s \<longleftrightarrow> drop (length s - 4) s = ''.sql''"

definition match_filename :: "string \<Rightarrow> (int \<times> string) option" where
  "match_filename s =
     (let stem = take (length s - 4) s
      in if is_sql s \<and> 4 < length stem \<and> list_all is_decimal (take 3 stem) \<and> stem ! 3 = CHR ''_'' \<and>
            list_all name_char (drop 4 stem)
         then Some (digits_value (take 3 stem), drop 4 stem) else None)"

fun load_migrations :: "(string \<Rightarrow> string) \<Rightarrow> (string \<times> string) list \<Rightarrow> migration_error + migration list" where
  "load_migrations sha256 [] = Inr []"
| "load_migrations sha256 ((file, content) # files) =
     (case match_filename file of
        None \<Rightarrow> Inl (Invalid_filename file)
      | Some (v, n) \<Rightarrow>
          (case load_migrations sha256 files of
             Inl e \<Rightarrow> Inl e
           | Inr ms \<Rightarrow> Inr (\<lparr>mg_version = v, mg_name = n, mg_checksum = sha256 content, mg_sql = content\<rparr> # ms)))"

definition discover_migrations :: "(string \<Rightarrow> string) \<Rightarrow> (string \<times> string) list \<Rightarrow> migration_error + migration list" where
  "discover_migrations sha256 directory =
     (case load_migrations sha256 (sort_key fst (filter (is_sql \<circ> fst) directory)) of
        Inl e \<Rightarrow> Inl e
      | Inr ms \<Rightarrow>
          if map mg_version ms \<noteq> sorted_list_of_set (set (map mg_version ms)) then Inl Versions_disordered
          else Inr ms)"

section \<open>Execution\<close>

record 'd postgres =
  pg_execute :: "string \<Rightarrow> 'd \<Rightarrow> 'd option"
  pg_tables :: "'d \<Rightarrow> string list"
  pg_constraints :: "'d \<Rightarrow> string list"

record history_row =
  hr_version :: int
  hr_name :: string
  hr_checksum :: string
  hr_execution_ms :: int

record 'd catalog =
  cg_schema :: 'd
  cg_history :: "history_row list option"

definition ensure_history :: "'d catalog \<Rightarrow> 'd catalog" where
  "ensure_history c = (case cg_history c of None \<Rightarrow> c\<lparr>cg_history := Some []\<rparr> | Some _ \<Rightarrow> c)"

definition run_script :: "'d postgres \<Rightarrow> migration \<Rightarrow> 'd \<Rightarrow> 'd option" where
  "run_script pg m d =
     (if mg_version m = 1 then (if ''processed_events'' \<in> set (pg_tables pg d) then Some d else pg_execute pg (mg_sql m) d)
      else pg_execute pg (mg_sql m) d)"

definition insert_history :: "history_row \<Rightarrow> history_row list option \<Rightarrow> history_row list option" where
  "insert_history r h =
     (case h of
        None \<Rightarrow> None
      | Some rows \<Rightarrow>
          if hr_version r \<in> hr_version ` set rows \<or> hr_execution_ms r < 0 then None else Some (rows @ [r]))"

definition row_for :: "int \<Rightarrow> migration \<Rightarrow> history_row" where
  "row_for elapsed m = \<lparr>hr_version = mg_version m, hr_name = mg_name m, hr_checksum = mg_checksum m, hr_execution_ms = elapsed\<rparr>"

text \<open>The transaction of one migration: the script and the row of the history together, or neither.\<close>

definition commit_migration :: "'d postgres \<Rightarrow> int \<Rightarrow> migration \<Rightarrow> 'd catalog \<Rightarrow> 'd catalog option" where
  "commit_migration pg elapsed m c =
     (case run_script pg m (cg_schema c) of
        None \<Rightarrow> None
      | Some d \<Rightarrow>
          (case insert_history (row_for elapsed m) (cg_history c) of
             None \<Rightarrow> None
           | Some rows \<Rightarrow> Some (c\<lparr>cg_schema := d, cg_history := Some rows\<rparr>)))"

definition applied_checksums :: "history_row list \<Rightarrow> int \<Rightarrow> string option" where
  "applied_checksums rows = map_of (map (\<lambda>r. (hr_version r, hr_checksum r)) rows)"

definition migrate_one :: "'d postgres \<Rightarrow> int \<Rightarrow> (int \<Rightarrow> string option) \<Rightarrow> migration \<Rightarrow> 'd catalog \<Rightarrow> migration_error + 'd catalog option" where
  "migrate_one pg elapsed applied m c =
     (case applied (mg_version m) of
        Some existing \<Rightarrow> if existing \<noteq> mg_checksum m then Inl (Checksum_mismatch (mg_version m)) else Inr None
      | None \<Rightarrow> (case commit_migration pg elapsed m c of None \<Rightarrow> Inl Database_failure | Some c' \<Rightarrow> Inr (Some c')))"

fun migrate_all :: "'d postgres \<Rightarrow> (migration \<Rightarrow> int) \<Rightarrow> (int \<Rightarrow> string option) \<Rightarrow> migration list \<Rightarrow> migration list \<Rightarrow> 'd catalog \<Rightarrow>
  (migration_error + migration list) \<times> 'd catalog" where
  "migrate_all pg elapsed applied applied_now [] c = (Inr applied_now, c)"
| "migrate_all pg elapsed applied applied_now (m # ms) c =
     (case migrate_one pg (elapsed m) applied m c of
        Inl e \<Rightarrow> (Inl e, c)
      | Inr None \<Rightarrow> migrate_all pg elapsed applied applied_now ms c
      | Inr (Some c') \<Rightarrow> migrate_all pg elapsed applied (applied_now @ [m]) ms c')"

definition apply_migrations :: "(string \<Rightarrow> string) \<Rightarrow> 'd postgres \<Rightarrow> (migration \<Rightarrow> int) \<Rightarrow> (string \<times> string) list \<Rightarrow> 'd catalog \<Rightarrow>
  (migration_error + migration list) \<times> 'd catalog" where
  "apply_migrations sha256 pg elapsed directory c =
     (case discover_migrations sha256 directory of
        Inl e \<Rightarrow> (Inl e, c)
      | Inr ms \<Rightarrow>
          (let c1 = ensure_history c
           in migrate_all pg elapsed (applied_checksums (the (cg_history c1))) [] ms c1))"

definition migration_status :: "(string \<Rightarrow> string) \<Rightarrow> (string \<times> string) list \<Rightarrow> 'd catalog \<Rightarrow>
  migration_error + (int \<times> string \<times> string \<times> string) list" where
  "migration_status sha256 directory c =
     (case discover_migrations sha256 directory of
        Inl e \<Rightarrow> Inl e
      | Inr ms \<Rightarrow>
          (case cg_history c of
             None \<Rightarrow> Inr (map (\<lambda>m. (mg_version m, mg_name m, mg_checksum m, ''pending'')) ms)
           | Some rows \<Rightarrow>
               Inr (map (\<lambda>m. (mg_version m, mg_name m, mg_checksum m,
                               if mg_version m \<in> hr_version ` set rows then ''applied'' else ''pending'')) ms)))"

definition schema_version :: "history_row list \<Rightarrow> int" where
  "schema_version rows = (if rows = [] then 0 else Max (hr_version ` set rows))"

definition REQUIRED_TABLES :: "string list" where
  "REQUIRED_TABLES =
     [''processed_events'', ''customers'', ''sessions'', ''product_views'', ''carts'', ''cart_items'', ''orders'', ''payments'',
      ''refunds'', ''schema_migrations'', ''fraud_evaluations'', ''fraud_outbox'', ''fraud_alerts'', ''demo_runs'',
      ''demo_run_event_manifest'']"

definition REQUIRED_CONSTRAINTS :: "string list" where
  "REQUIRED_CONSTRAINTS =
     [''processed_events_pkey'', ''processed_events_kafka_source_unique'', ''payments_event_id_key'', ''refunds_event_id_key'']"

definition schema_check :: "'d postgres \<Rightarrow> int \<Rightarrow> 'd catalog \<Rightarrow> migration_error + unit" where
  "schema_check pg required c =
     (case cg_history c of
        None \<Rightarrow> Inl Database_failure
      | Some rows \<Rightarrow>
          (let found = ''schema_migrations'' # pg_tables pg (cg_schema c);
               missing = filter (\<lambda>t. t \<notin> set found) REQUIRED_TABLES;
               constraint_count = length (filter (\<lambda>n. n \<in> set REQUIRED_CONSTRAINTS) (pg_constraints pg (cg_schema c)))
           in if schema_version rows < required then Inl (Schema_behind (schema_version rows) required)
              else if missing \<noteq> [] then Inl (Missing_tables (sort missing))
              else if constraint_count \<noteq> 4 then Inl Missing_constraints
              else Inr ()))"

section \<open>Start-up of the connection pool\<close>

text \<open>What one attempt meets: the row of the probe, and the row of the query for the version, when the
  queries succeed.\<close>

record startup_attempt =
  at_select :: "int option option"
  at_version :: "int option option"

record connection_pool =
  cp_open :: bool
  cp_sleeps :: "rat list"

definition healthcheck :: "startup_attempt \<Rightarrow> exn + unit" where
  "healthcheck a =
     (case at_select a of
        None \<Rightarrow> Inl (Exn RetryableDatabaseError ''PostgreSQL is unavailable'')
      | Some row \<Rightarrow> if row \<noteq> Some 1 then Inl (Exn StartupDatabaseError ''PostgreSQL health check failed'') else Inr ())"

definition verify_schema :: "int \<Rightarrow> startup_attempt \<Rightarrow> exn + unit" where
  "verify_schema required a =
     (case at_version a of
        None \<Rightarrow> Inl (Exn StartupDatabaseError ''database migration history is unavailable'')
      | Some row \<Rightarrow>
          (let actual = (case row of Some v \<Rightarrow> v | None \<Rightarrow> 0)
           in if actual < required
              then Inl (Exn StartupDatabaseError
                     (''database schema version '' @ int_str actual @ '' is behind required '' @ int_str required))
              else Inr ()))"

definition startup_check :: "int \<Rightarrow> startup_attempt \<Rightarrow> exn + unit" where
  "startup_check required a = (case healthcheck a of Inl e \<Rightarrow> Inl e | Inr _ \<Rightarrow> verify_schema required a)"

fun open_attempts :: "int \<Rightarrow> rat \<Rightarrow> (nat \<Rightarrow> startup_attempt) \<Rightarrow> nat \<Rightarrow> nat \<Rightarrow> connection_pool \<Rightarrow> (exn + unit) \<times> connection_pool" where
  "open_attempts required backoff tries n 0 p =
     (Inl (Exn StartupDatabaseError ''PostgreSQL startup checks failed''), p\<lparr>cp_open := False\<rparr>)"
| "open_attempts required backoff tries n (Suc k) p =
     (case startup_check required (tries n) of
        Inr _ \<Rightarrow> (Inr (), p)
      | Inl _ \<Rightarrow> open_attempts required backoff tries (Suc n) k
                  (if k \<noteq> 0 then p\<lparr>cp_sleeps := cp_sleeps p @ [backoff]\<rparr> else p))"

definition open_database :: "int \<Rightarrow> nat \<Rightarrow> rat \<Rightarrow> (nat \<Rightarrow> startup_attempt) \<Rightarrow> connection_pool \<Rightarrow> (exn + unit) \<times> connection_pool" where
  "open_database required attempts backoff tries p = open_attempts required backoff tries 0 attempts (p\<lparr>cp_open := True\<rparr>)"

section \<open>Concurrent runners\<close>

text \<open>The position of a runner in \<^verbatim>\<open>apply_migrations\<close>, with the values of its local variables.\<close>

datatype runner =
    Fresh
  | Connected "migration list"
  | Locked "migration list"
  | Migrating "migration list" "int \<Rightarrow> string option" "migration list" "migration list"
  | Unlocking "migration list" "migration_error + migration list"
  | Ended "migration list" "migration_error + migration list"

record 'd cluster =
  cl_catalog :: "'d catalog"
  cl_lock :: "nat option"
  cl_runners :: "nat \<Rightarrow> runner"

definition set_runner :: "nat \<Rightarrow> runner \<Rightarrow> 'd cluster \<Rightarrow> 'd cluster" where
  "set_runner i r s = s\<lparr>cl_runners := (cl_runners s)(i := r)\<rparr>"

inductive migrate_step :: "(string \<Rightarrow> string) \<Rightarrow> 'd postgres \<Rightarrow> 'd cluster \<Rightarrow> 'd cluster \<Rightarrow> bool"
  for sha256 pg where
  connects: "cl_runners s i = Fresh \<Longrightarrow> discover_migrations sha256 directory = Inr ms \<Longrightarrow>
    migrate_step sha256 pg s (set_runner i (Connected ms) (s\<lparr>cl_catalog := ensure_history (cl_catalog s)\<rparr>))"
| locks: "cl_runners s i = Connected ms \<Longrightarrow> cl_lock s = None \<Longrightarrow>
    migrate_step sha256 pg s (set_runner i (Locked ms) (s\<lparr>cl_lock := Some i\<rparr>))"
| loads: "cl_runners s i = Locked ms \<Longrightarrow>
    migrate_step sha256 pg s (set_runner i (Migrating ms (applied_checksums (the (cg_history (cl_catalog s)))) [] ms) s)"
| skips: "cl_runners s i = Migrating ms applied applied_now (m # rest) \<Longrightarrow>
    migrate_one pg elapsed applied m (cl_catalog s) = Inr None \<Longrightarrow>
    migrate_step sha256 pg s (set_runner i (Migrating ms applied applied_now rest) s)"
| commits: "cl_runners s i = Migrating ms applied applied_now (m # rest) \<Longrightarrow>
    migrate_one pg elapsed applied m (cl_catalog s) = Inr (Some c) \<Longrightarrow>
    migrate_step sha256 pg s (set_runner i (Migrating ms applied (applied_now @ [m]) rest) (s\<lparr>cl_catalog := c\<rparr>))"
| refuses: "cl_runners s i = Migrating ms applied applied_now (m # rest) \<Longrightarrow>
    migrate_one pg elapsed applied m (cl_catalog s) = Inl e \<or> e = Database_failure \<Longrightarrow>
    migrate_step sha256 pg s (set_runner i (Unlocking ms (Inl e)) s)"
| finishes: "cl_runners s i = Migrating ms applied applied_now [] \<Longrightarrow>
    migrate_step sha256 pg s (set_runner i (Unlocking ms (Inr applied_now)) s)"
| unlocks: "cl_runners s i = Unlocking ms r \<Longrightarrow>
    migrate_step sha256 pg s (set_runner i (Ended ms r) (s\<lparr>cl_lock := None\<rparr>))"
| dies: "migrate_step sha256 pg s
    (set_runner i (Ended [] (Inl Database_failure)) (s\<lparr>cl_lock := (if cl_lock s = Some i then None else cl_lock s)\<rparr>))"

definition fresh_cluster :: "'d \<Rightarrow> 'd cluster" where
  "fresh_cluster d = \<lparr>cl_catalog = \<lparr>cg_schema = d, cg_history = None\<rparr>, cl_lock = None, cl_runners = (\<lambda>_. Fresh)\<rparr>"

section \<open>Discovery succeeds\<close>

lemma load_Inr:
  assumes "load_migrations sha256 files = Inr ms"
  shows "list_all2 (\<lambda>(file, content) m. match_filename file = Some (mg_version m, mg_name m) \<and>
    mg_sql m = content \<and> mg_checksum m = sha256 content) files ms"
  using assms by (induction sha256 files arbitrary: ms rule: load_migrations.induct) (auto split: option.splits sum.splits)

lemma load_total:
  "(\<exists>ms. load_migrations sha256 files = Inr ms) \<longleftrightarrow> (\<forall>f \<in> set files. match_filename (fst f) \<noteq> None)"
proof (induction files)
  case (Cons f files)
  then show ?case by (cases f; cases "load_migrations sha256 files") (auto split: option.splits)
qed simp

lemma match_version:
  assumes "match_filename f \<noteq> None"
  shows "fst (the (match_filename f)) = digits_value (take 3 f)" "list_all is_decimal (take 3 f)" "length (take 3 f) = 3"
  using assms by (auto simp: match_filename_def Let_def min_def split: if_splits)

lemma length_three: "length s = 3 \<Longrightarrow> \<exists>a b c. s = [a, b, c]"
  by (auto simp: length_Suc_conv eval_nat_numeral)

lemma char_code_less: "a < b \<longleftrightarrow> char_code a < char_code b"
  by (simp add: char_code_def less_char_def)

lemma char_code_inj: "char_code a = char_code b \<longleftrightarrow> a = b"
  by (simp add: char_code_def)

lemma digits_mono:
  assumes "list_all is_decimal s" "list_all is_decimal t" "length s = 3" "length t = 3" "s \<le> t"
  shows "digits_value s \<le> digits_value t"
proof -
  obtain a b c x y z where "s = [a, b, c]" "t = [x, y, z]" using assms(3,4) length_three by metis
  then show ?thesis using assms(1,2,5) by (auto simp: is_decimal_def digits_value_def char_code_less)
qed

lemma digits_inj:
  assumes "list_all is_decimal s" "list_all is_decimal t" "length s = 3" "length t = 3" "digits_value s = digits_value t"
  shows "s = t"
proof -
  obtain a b c x y z where st: "s = [a, b, c]" "t = [x, y, z]" using assms(3,4) length_three by metis
  then have eq: "100 * char_code a + (10 * char_code b + char_code c) = 100 * char_code x + (10 * char_code y + char_code z)"
    using assms(5) by (simp add: digits_value_def)
  have dec: "is_decimal a" "is_decimal b" "is_decimal c" "is_decimal x" "is_decimal y" "is_decimal z" using assms(1,2) st by auto
  have a: "char_code a = char_code x" using eq dec unfolding is_decimal_def by linarith
  moreover have b: "char_code b = char_code y" using eq dec a unfolding is_decimal_def by linarith
  moreover have "char_code c = char_code z" using eq a b by linarith
  ultimately show ?thesis using st by (simp add: char_code_inj)
qed

lemma take_mono: "(s :: string) \<le> t \<Longrightarrow> take n s \<le> take n t"
proof (induction n arbitrary: s t)
  case (Suc n)
  then show ?case by (cases s; cases t) auto
qed simp

lemma sorted_list_of_set_iff: "(xs :: int list) = sorted_list_of_set (set xs) \<longleftrightarrow> sorted xs \<and> distinct xs"
  by (metis distinct_sorted_list_of_set sorted_list_of_set.idem_if_sorted_distinct sorted_sorted_list_of_set)

lemma versions_sorted:
  assumes "sorted (map fst files)" "\<forall>f \<in> set files. match_filename (fst f) \<noteq> None"
  shows "sorted (map (\<lambda>f. fst (the (match_filename (fst f)))) files)"
  using assms
proof (induction files)
  case (Cons f files)
  have "fst (the (match_filename (fst f))) \<le> fst (the (match_filename (fst g)))" if "g \<in> set files" for g
  proof -
    have "fst f \<le> fst g" using Cons.prems(1) that by simp
    then have le: "take 3 (fst f) \<le> take 3 (fst g)" by (rule take_mono)
    have m: "match_filename (fst f) \<noteq> None" "match_filename (fst g) \<noteq> None" using Cons.prems(2) that by auto
    note f = match_version [OF m(1)] and g = match_version [OF m(2)]
    show ?thesis using digits_mono [OF f(2) g(2) f(3) g(3) le] f(1) g(1) by simp
  qed
  then show ?case using Cons by simp
qed simp

lemma distinct_map_same:
  assumes "\<And>x y. x \<in> set xs \<Longrightarrow> y \<in> set xs \<Longrightarrow> f x = f y \<longleftrightarrow> g x = g y"
  shows "distinct (map f xs) \<longleftrightarrow> distinct (map g xs)"
  using assms
proof (induction xs)
  case (Cons x xs)
  have "f x \<in> f ` set xs \<longleftrightarrow> g x \<in> g ` set xs" unfolding image_iff by (rule bex_cong) (simp_all add: Cons.prems)
  then show ?case using Cons by simp
qed simp

lemma versions_distinct:
  assumes "\<forall>f \<in> set files. match_filename (fst f) \<noteq> None"
  shows "distinct (map (\<lambda>f. fst (the (match_filename (fst f)))) files) \<longleftrightarrow> distinct (map (take 3 \<circ> fst) files)"
proof -
  have "fst (the (match_filename (fst f))) = fst (the (match_filename (fst g))) \<longleftrightarrow> take 3 (fst f) = take 3 (fst g)"
    if fg: "f \<in> set files" "g \<in> set files" for f g
  proof -
    have m: "match_filename (fst f) \<noteq> None" "match_filename (fst g) \<noteq> None" using assms fg by auto
    note f = match_version [OF m(1)] and g = match_version [OF m(2)]
    show ?thesis using digits_inj [OF f(2) g(2) f(3) g(3)] f(1) g(1) by auto
  qed
  then show ?thesis by (intro distinct_map_same) simp
qed

lemma loaded_versions:
  assumes "load_migrations sha256 files = Inr ms"
  shows "map mg_version ms = map (\<lambda>f. fst (the (match_filename (fst f)))) files"
  using load_Inr [OF assms] by (induction rule: list_all2_induct) auto

lemma discovered:
  assumes "discover_migrations sha256 directory = Inr ms"
  shows "sorted (map mg_version ms)" "distinct (map mg_version ms)" "\<forall>m \<in> set ms. mg_checksum m = sha256 (mg_sql m)"
proof -
  have load: "load_migrations sha256 (sort_key fst (filter (is_sql \<circ> fst) directory)) = Inr ms"
    and ord: "map mg_version ms = sorted_list_of_set (set (map mg_version ms))"
    using assms by (auto simp: discover_migrations_def split: sum.splits if_splits)
  show "sorted (map mg_version ms)" "distinct (map mg_version ms)" using ord sorted_list_of_set_iff by blast+
  show "\<forall>m \<in> set ms. mg_checksum m = sha256 (mg_sql m)"
    using load_Inr [OF load] by (induction rule: list_all2_induct) auto
qed

text \<open>The versions of well-formed names come out of the sorted directory in numeric order, so a directory is
  refused only for a name that does not match or for two files with the same three digits.\<close>

lemma discover_succeeds:
  "(\<exists>ms. discover_migrations sha256 directory = Inr ms) \<longleftrightarrow>
     (\<forall>f \<in> set directory. is_sql (fst f) \<longrightarrow> match_filename (fst f) \<noteq> None) \<and>
     distinct (map (take 3 \<circ> fst) (filter (is_sql \<circ> fst) directory))"
proof -
  define files where "files = sort_key fst (filter (is_sql \<circ> fst) directory)"
  have all: "(\<forall>f \<in> set files. match_filename (fst f) \<noteq> None) \<longleftrightarrow>
      (\<forall>f \<in> set directory. is_sql (fst f) \<longrightarrow> match_filename (fst f) \<noteq> None)"
    unfolding files_def by auto
  have "distinct (map (take 3 \<circ> fst) files) \<longleftrightarrow> distinct (map (take 3 \<circ> fst) (filter (is_sql \<circ> fst) directory))"
    unfolding files_def by (rule mset_eq_imp_distinct_iff) (simp only: mset_map mset_sort)
  moreover have "(\<exists>ms. discover_migrations sha256 directory = Inr ms) \<longleftrightarrow>
      (\<forall>f \<in> set files. match_filename (fst f) \<noteq> None) \<and> distinct (map (take 3 \<circ> fst) files)"
  proof (cases "load_migrations sha256 files")
    case (Inl e)
    then show ?thesis using load_total [of sha256 files] by (auto simp: discover_migrations_def files_def [symmetric])
  next
    case (Inr ms)
    then have m: "\<forall>f \<in> set files. match_filename (fst f) \<noteq> None" using load_total [of sha256 files] by auto
    have "sorted (map fst files)" by (simp add: files_def)
    then have "map mg_version ms = sorted_list_of_set (set (map mg_version ms)) \<longleftrightarrow> distinct (map (take 3 \<circ> fst) files)"
      unfolding sorted_list_of_set_iff loaded_versions [OF Inr] using versions_sorted [OF _ m] versions_distinct [OF m] by simp
    then show ?thesis using Inr m by (auto simp: discover_migrations_def files_def [symmetric])
  qed
  ultimately show ?thesis using all by blast
qed

section \<open>The history is a replay\<close>

fun replay_scripts :: "'d postgres \<Rightarrow> migration list \<Rightarrow> 'd \<Rightarrow> 'd option" where
  "replay_scripts pg [] d = Some d"
| "replay_scripts pg (m # ms) d = (case run_script pg m d of None \<Rightarrow> None | Some d' \<Rightarrow> replay_scripts pg ms d')"

definition mg_key :: "migration \<Rightarrow> int \<times> string \<times> string" where
  "mg_key m = (mg_version m, mg_name m, mg_checksum m)"

definition hr_key :: "history_row \<Rightarrow> int \<times> string \<times> string" where
  "hr_key r = (hr_version r, hr_name r, hr_checksum r)"

definition catalog_ok :: "'d postgres \<Rightarrow> 'd \<Rightarrow> migration list \<Rightarrow> 'd catalog \<Rightarrow> bool" where
  "catalog_ok pg d logged c \<longleftrightarrow>
     map mg_key logged = (case cg_history c of None \<Rightarrow> [] | Some rows \<Rightarrow> map hr_key rows) \<and>
     distinct (map mg_version logged) \<and> replay_scripts pg logged d = Some (cg_schema c)"

lemma replay_append:
  "replay_scripts pg (ms @ ns) d = (case replay_scripts pg ms d of None \<Rightarrow> None | Some d' \<Rightarrow> replay_scripts pg ns d')"
  by (induction ms arbitrary: d) (auto split: option.split)

lemma row_for_key [simp]: "hr_key (row_for t m) = mg_key m" "hr_version (row_for t m) = mg_version m" "hr_checksum (row_for t m) = mg_checksum m"
  by (simp_all add: hr_key_def mg_key_def row_for_def)

lemma key_versions:
  assumes "map mg_key logged = map hr_key rows"
  shows "map (\<lambda>r. (hr_version r, hr_checksum r)) rows = map (\<lambda>m. (mg_version m, mg_checksum m)) logged" "map hr_version rows = map mg_version logged"
proof -
  have "map (\<lambda>(v, _, x). (v, x)) (map mg_key logged) = map (\<lambda>(v, _, x). (v, x)) (map hr_key rows)"
    and "map fst (map mg_key logged) = map fst (map hr_key rows)" using assms by simp_all
  then show "map (\<lambda>r. (hr_version r, hr_checksum r)) rows = map (\<lambda>m. (mg_version m, mg_checksum m)) logged" "map hr_version rows = map mg_version logged"
    by (simp_all add: comp_def mg_key_def hr_key_def)
qed

lemma commit_migration_Some:
  assumes "commit_migration pg t m c = Some c'"
  shows "\<exists>rows d. cg_history c = Some rows \<and> mg_version m \<notin> hr_version ` set rows \<and> run_script pg m (cg_schema c) = Some d \<and>
    c' = c\<lparr>cg_schema := d, cg_history := Some (rows @ [row_for t m])\<rparr>"
  using assms by (auto simp: commit_migration_def insert_history_def split: option.splits if_splits)

lemma catalog_ok_commit:
  assumes "catalog_ok pg d logged c" "commit_migration pg t m c = Some c'"
  shows "catalog_ok pg d (logged @ [m]) c'"
proof -
  obtain rows d' where c: "cg_history c = Some rows" "mg_version m \<notin> hr_version ` set rows" "run_script pg m (cg_schema c) = Some d'"
      "c' = c\<lparr>cg_schema := d', cg_history := Some (rows @ [row_for t m])\<rparr>"
    using commit_migration_Some [OF assms(2)] by blast
  have "map mg_key logged = map hr_key rows" using assms(1) c(1) by (simp add: catalog_ok_def)
  then have "mg_version m \<notin> set (map mg_version logged)" using c(2) key_versions(2) [of logged rows] by (metis list.set_map)
  then show ?thesis using assms(1) c by (simp add: catalog_ok_def replay_append)
qed

lemma catalog_ok_ensure: "catalog_ok pg d logged (ensure_history c) \<longleftrightarrow> catalog_ok pg d logged c"
  by (simp add: catalog_ok_def ensure_history_def split: option.split)

lemma ensure_history_Some [simp]: "cg_history (ensure_history c) \<noteq> None"
  by (simp add: ensure_history_def split: option.split)

lemma catalog_ok_applied:
  assumes "catalog_ok pg d logged c" "cg_history c = Some rows"
  shows "applied_checksums rows = map_of (map (\<lambda>m. (mg_version m, mg_checksum m)) logged)"
  using assms key_versions(1) [of logged rows] by (simp add: catalog_ok_def applied_checksums_def)

section \<open>Mutual exclusion\<close>

fun holding :: "runner \<Rightarrow> bool" where
  "holding (Locked ms) \<longleftrightarrow> True"
| "holding (Migrating ms applied applied_now rest) \<longleftrightarrow> True"
| "holding (Unlocking ms r) \<longleftrightarrow> True"
| "holding _ \<longleftrightarrow> False"

fun underway :: "runner \<Rightarrow> bool" where
  "underway Fresh \<longleftrightarrow> False"
| "underway (Ended ms r) \<longleftrightarrow> False"
| "underway _ \<longleftrightarrow> True"

definition recorded_in :: "migration list \<Rightarrow> migration list \<Rightarrow> bool" where
  "recorded_in logged ms \<longleftrightarrow> (\<forall>m \<in> set ms. map_of (map (\<lambda>m. (mg_version m, mg_checksum m)) logged) (mg_version m) = Some (mg_checksum m))"

fun runner_ok :: "(string \<Rightarrow> string) \<Rightarrow> migration list \<Rightarrow> runner \<Rightarrow> bool" where
  "runner_ok sha256 logged Fresh \<longleftrightarrow> True"
| "runner_ok sha256 logged (Connected ms) \<longleftrightarrow> distinct (map mg_version ms) \<and> (\<forall>m \<in> set ms. mg_checksum m = sha256 (mg_sql m))"
| "runner_ok sha256 logged (Locked ms) \<longleftrightarrow> distinct (map mg_version ms) \<and> (\<forall>m \<in> set ms. mg_checksum m = sha256 (mg_sql m))"
| "runner_ok sha256 logged (Migrating ms applied applied_now rest) \<longleftrightarrow>
     distinct (map mg_version ms) \<and> (\<forall>m \<in> set ms. mg_checksum m = sha256 (mg_sql m)) \<and>
     (\<exists>past. ms = past @ rest \<and> recorded_in logged past) \<and>
     (\<forall>m \<in> set rest. applied (mg_version m) = map_of (map (\<lambda>m. (mg_version m, mg_checksum m)) logged) (mg_version m))"
| "runner_ok sha256 logged (Unlocking ms r) \<longleftrightarrow> (case r of Inl _ \<Rightarrow> True | Inr _ \<Rightarrow> recorded_in logged ms)"
| "runner_ok sha256 logged (Ended ms r) \<longleftrightarrow> (case r of Inl _ \<Rightarrow> True | Inr _ \<Rightarrow> recorded_in logged ms)"

definition cluster_inv :: "(string \<Rightarrow> string) \<Rightarrow> 'd postgres \<Rightarrow> 'd \<Rightarrow> migration list \<Rightarrow> 'd cluster \<Rightarrow> bool" where
  "cluster_inv sha256 pg d logged s \<longleftrightarrow>
     catalog_ok pg d logged (cl_catalog s) \<and> (\<forall>m \<in> set logged. mg_checksum m = sha256 (mg_sql m)) \<and>
     (\<forall>i. holding (cl_runners s i) \<longleftrightarrow> cl_lock s = Some i) \<and>
     (\<forall>i. underway (cl_runners s i) \<longrightarrow> cg_history (cl_catalog s) \<noteq> None) \<and>
     (\<forall>i. runner_ok sha256 logged (cl_runners s i))"

lemma recorded_in_append: "recorded_in logged ms \<Longrightarrow> recorded_in (logged @ later) ms"
  by (auto simp: recorded_in_def)

lemma runner_ok_append: "\<not> holding r \<Longrightarrow> runner_ok sha256 logged r \<Longrightarrow> runner_ok sha256 (logged @ [m]) r"
  by (cases r) (auto simp: recorded_in_append split: sum.splits)

text \<open>The invariant after a step that changes one runner, the lock and perhaps the catalogue.\<close>

lemma cluster_invI:
  assumes "cluster_inv sha256 pg d logged s" "cl_catalog s' = cl_catalog s"
    and "cl_runners s' = (cl_runners s)(i := r)" "runner_ok sha256 logged r"
    and "\<And>j. holding (((cl_runners s)(i := r)) j) \<longleftrightarrow> cl_lock s' = Some j"
    and "underway r \<Longrightarrow> cg_history (cl_catalog s) \<noteq> None"
  shows "cluster_inv sha256 pg d logged s'"
  using assms unfolding cluster_inv_def by (auto split: if_splits)

lemma applied_from_log:
  assumes "cluster_inv sha256 pg d logged s" "cg_history (cl_catalog s) \<noteq> None"
  shows "applied_checksums (the (cg_history (cl_catalog s))) = map_of (map (\<lambda>m. (mg_version m, mg_checksum m)) logged)"
  using assms catalog_ok_applied unfolding cluster_inv_def by fastforce

lemma cluster_commit:
  assumes inv: "cluster_inv sha256 pg d logged s" and i: "cl_runners s i = Migrating ms applied applied_now (m # rest)"
    and one: "migrate_one pg t applied m (cl_catalog s) = Inr (Some c)"
  shows "cluster_inv sha256 pg d (logged @ [m]) (set_runner i (Migrating ms applied (applied_now @ [m]) rest) (s\<lparr>cl_catalog := c\<rparr>))"
proof -
  have none: "applied (mg_version m) = None" and com: "commit_migration pg t m (cl_catalog s) = Some c"
    using one by (auto simp: migrate_one_def split: option.splits if_splits)
  have ok: "runner_ok sha256 logged (Migrating ms applied applied_now (m # rest))"
    and lock: "\<And>j. holding (cl_runners s j) \<longleftrightarrow> cl_lock s = Some j" and others: "\<And>j. runner_ok sha256 logged (cl_runners s j)"
    using inv i unfolding cluster_inv_def by metis+
  have cat: "catalog_ok pg d (logged @ [m]) c" using inv catalog_ok_commit [OF _ com] unfolding cluster_inv_def by blast
  have hist: "cg_history c \<noteq> None" using commit_migration_Some [OF com] by auto
  obtain past where past: "ms = past @ m # rest" "recorded_in logged past" using ok by auto
  have ver: "mg_version m \<notin> mg_version ` set rest" using ok past(1) by auto
  have new: "recorded_in (logged @ [m]) (past @ [m])"
    using past(2) ok none by (auto simp: recorded_in_def map_add_def split: option.splits)
  have rest: "\<forall>m' \<in> set rest. applied (mg_version m') =
      map_of (map (\<lambda>m. (mg_version m, mg_checksum m)) (logged @ [m])) (mg_version m')"
  proof
    fix m' assume "m' \<in> set rest"
    moreover have "mg_version m' \<noteq> mg_version m" using ver calculation by (metis image_eqI)
    ultimately show "applied (mg_version m') = map_of (map (\<lambda>m. (mg_version m, mg_checksum m)) (logged @ [m])) (mg_version m')"
      using ok by (auto simp: map_add_def split: option.split)
  qed
  have "runner_ok sha256 (logged @ [m]) (Migrating ms applied (applied_now @ [m]) rest)"
    using ok past(1) new rest by (auto intro!: exI [of _ "past @ [m]"])
  moreover have "runner_ok sha256 (logged @ [m]) (cl_runners s j)" if "j \<noteq> i" for j
  proof (rule runner_ok_append [OF _ others])
    have "cl_lock s = Some i" using lock [of i] i by simp
    then show "\<not> holding (cl_runners s j)" using lock [of j] that by simp
  qed
  moreover have "holding (((cl_runners s)(i := Migrating ms applied (applied_now @ [m]) rest)) j) \<longleftrightarrow> cl_lock s = Some j" for j
    using lock [of j] i by (cases "j = i") auto
  moreover have "mg_checksum m = sha256 (mg_sql m)" using ok past(1) by auto
  ultimately show ?thesis using inv cat hist unfolding cluster_inv_def set_runner_def by auto
qed

lemma cluster_keeps:
  assumes inv: "cluster_inv sha256 pg d logged s" and i: "cl_runners s i = r0" "holding r0" "holding r" "runner_ok sha256 logged r0 \<Longrightarrow> runner_ok sha256 logged r"
  shows "cluster_inv sha256 pg d logged (set_runner i r s)"
proof (rule cluster_invI [OF inv, where i = i and r = r])
  have ok: "runner_ok sha256 logged r0" and lock: "\<And>j. holding (cl_runners s j) \<longleftrightarrow> cl_lock s = Some j"
    and hist: "underway r0 \<Longrightarrow> cg_history (cl_catalog s) \<noteq> None" using inv i(1) unfolding cluster_inv_def by metis+
  show "runner_ok sha256 logged r" using ok i(4) by simp
  show "holding (((cl_runners s)(i := r)) j) \<longleftrightarrow> cl_lock (set_runner i r s) = Some j" for j
    using lock [of j] lock [of i] i by (auto simp: set_runner_def)
  show "cg_history (cl_catalog s) \<noteq> None" using hist i(2) by (cases r0) auto
qed (simp_all add: set_runner_def)

lemma cluster_step:
  assumes "migrate_step sha256 pg s s'" "cluster_inv sha256 pg d logged s"
  shows "\<exists>logged'. cluster_inv sha256 pg d logged' s'"
  using assms
proof cases
  case (connects i directory ms)
  let ?s = "s\<lparr>cl_catalog := ensure_history (cl_catalog s)\<rparr>"
  have inv: "cluster_inv sha256 pg d logged ?s"
    using assms(2) by (simp add: cluster_inv_def catalog_ok_ensure del: not_None_eq)
  have ok: "runner_ok sha256 logged (Connected ms)" using discovered [OF connects(3)] by simp
  have lock: "holding (cl_runners s j) \<longleftrightarrow> cl_lock s = Some j" for j using assms(2) unfolding cluster_inv_def by blast
  have "cluster_inv sha256 pg d logged s'"
  proof (rule cluster_invI [OF inv, where i = i and r = "Connected ms"])
    show "holding (((cl_runners ?s)(i := Connected ms)) j) \<longleftrightarrow> cl_lock s' = Some j" for j
      using lock [of j] connects(1,2) by (auto simp: set_runner_def)
  qed (use ok connects(1) in \<open>simp_all add: set_runner_def\<close>)
  then show ?thesis by blast
next
  case (locks i ms)
  have "runner_ok sha256 logged (Connected ms)" "underway (Connected ms) \<longrightarrow> cg_history (cl_catalog s) \<noteq> None"
    using assms(2) locks(2) unfolding cluster_inv_def by metis+
  then show ?thesis
    using assms(2) locks by (intro exI cluster_invI [OF assms(2), where i = i and r = "Locked ms"]) (auto simp: set_runner_def cluster_inv_def)
next
  case (loads i ms)
  have "underway (Locked ms) \<longrightarrow> cg_history (cl_catalog s) \<noteq> None" using assms(2) loads(2) unfolding cluster_inv_def by metis
  then have "applied_checksums (the (cg_history (cl_catalog s))) = map_of (map (\<lambda>m. (mg_version m, mg_checksum m)) logged)"
    using applied_from_log [OF assms(2)] by simp
  then have "cluster_inv sha256 pg d logged s'"
    unfolding loads(1) by (intro cluster_keeps [OF assms(2) loads(2)]) (simp_all add: recorded_in_def)
  then show ?thesis by blast
next
  case (skips i ms applied applied_now m rest elapsed)
  have same: "applied (mg_version m) = Some (mg_checksum m)" using skips(3) by (auto simp: migrate_one_def split: option.splits if_splits)
  have "runner_ok sha256 logged (Migrating ms applied applied_now rest)"
    if r: "runner_ok sha256 logged (Migrating ms applied applied_now (m # rest))"
  proof -
    obtain past where "ms = past @ m # rest" "recorded_in logged past" using r by auto
    then have "ms = (past @ [m]) @ rest" "recorded_in logged (past @ [m])" using r same by (auto simp: recorded_in_def)
    then show ?thesis using r unfolding runner_ok.simps by (metis list.set_intros(2))
  qed
  then have "cluster_inv sha256 pg d logged s'"
    unfolding skips(1) by (intro cluster_keeps [OF assms(2) skips(2)]) (simp_all del: runner_ok.simps)
  then show ?thesis by blast
next
  case (commits i ms applied applied_now m rest elapsed c)
  then show ?thesis using cluster_commit [OF assms(2)] by blast
next
  case (refuses i ms applied applied_now m rest elapsed e)
  have "cluster_inv sha256 pg d logged s'"
    unfolding refuses(1) by (intro cluster_keeps [OF assms(2) refuses(2)]) simp_all
  then show ?thesis by blast
next
  case (finishes i ms applied applied_now)
  have "cluster_inv sha256 pg d logged s'"
    unfolding finishes(1) by (intro cluster_keeps [OF assms(2) finishes(2)]) auto
  then show ?thesis by blast
next
  case (unlocks i ms r)
  have ok: "runner_ok sha256 logged (Unlocking ms r)" and lock: "\<And>j. holding (cl_runners s j) \<longleftrightarrow> cl_lock s = Some j"
    using assms(2) unlocks(2) unfolding cluster_inv_def by metis+
  have "cluster_inv sha256 pg d logged s'"
  proof (rule cluster_invI [OF assms(2), where i = i and r = "Ended ms r"])
    show "holding (((cl_runners s)(i := Ended ms r)) j) \<longleftrightarrow> cl_lock s' = Some j" for j
      using lock [of j] lock [of i] unlocks by (auto simp: set_runner_def)
  qed (use ok unlocks(1) in \<open>simp_all add: set_runner_def\<close>)
  then show ?thesis by blast
next
  case (dies i)
  then show ?thesis
    using assms(2) by (intro exI cluster_invI [OF assms(2), where i = i and r = "Ended [] (Inl Database_failure)"])
      (auto simp: set_runner_def cluster_inv_def)
qed

lemma cluster_reachable:
  assumes "(migrate_step sha256 pg)\<^sup>*\<^sup>* (fresh_cluster d) s"
  shows "\<exists>logged. cluster_inv sha256 pg d logged s"
  using assms
proof induction
  case base
  have "cluster_inv sha256 pg d [] (fresh_cluster d)"
    by (simp add: cluster_inv_def fresh_cluster_def catalog_ok_def)
  then show ?case by blast
next
  case (step s s')
  then obtain logged where "cluster_inv sha256 pg d logged s" by blast
  then show ?case by (rule cluster_step [OF step.hyps(2)])
qed

section \<open>One runner\<close>

text \<open>What a run leaves, whether it succeeds or fails: the history grows by the migrations committed, whose
  scripts have all been executed in this order, and nothing else has.\<close>

lemma migrate_all_commits:
  assumes "migrate_all pg elapsed applied applied_now ms c = (res, c')" "cg_history c = Some rows"
  shows "\<exists>new. cg_history c' = Some (rows @ map (\<lambda>m. row_for (elapsed m) m) new) \<and>
    replay_scripts pg new (cg_schema c) = Some (cg_schema c') \<and> set new \<subseteq> set ms \<and>
    (\<forall>made. res = Inr made \<longrightarrow> made = applied_now @ new \<and> new = filter (\<lambda>m. applied (mg_version m) = None) ms \<and>
       (\<forall>m \<in> set ms. applied (mg_version m) = None \<or> applied (mg_version m) = Some (mg_checksum m)))"
  using assms
proof (induction ms arbitrary: applied_now c rows)
  case (Cons m ms)
  show ?case
  proof (cases "migrate_one pg (elapsed m) applied m c")
    case (Inl e)
    then show ?thesis using Cons.prems by (auto intro: exI [of _ "[]"])
  next
    case (Inr out)
    show ?thesis
    proof (cases out)
      case None
      have "applied (mg_version m) = Some (mg_checksum m)" using Inr None by (auto simp: migrate_one_def split: option.splits if_splits)
      moreover have "migrate_all pg elapsed applied applied_now ms c = (res, c')" using Cons.prems(1) Inr None by simp
      ultimately show ?thesis using Cons.IH [OF _ Cons.prems(2)] by fastforce
    next
      case (Some c1)
      have com: "commit_migration pg (elapsed m) m c = Some c1" and none: "applied (mg_version m) = None"
        using Inr Some by (auto simp: migrate_one_def split: option.splits if_splits)
      have c1: "cg_history c1 = Some (rows @ [row_for (elapsed m) m])" "run_script pg m (cg_schema c) = Some (cg_schema c1)"
        using commit_migration_Some [OF com] Cons.prems(2) by auto
      have "migrate_all pg elapsed applied (applied_now @ [m]) ms c1 = (res, c')" using Cons.prems(1) Inr Some by simp
      from Cons.IH [OF this c1(1)] obtain new where new:
          "cg_history c' = Some ((rows @ [row_for (elapsed m) m]) @ map (\<lambda>m. row_for (elapsed m) m) new)"
          "replay_scripts pg new (cg_schema c1) = Some (cg_schema c')" "set new \<subseteq> set ms"
          "\<forall>made. res = Inr made \<longrightarrow> made = (applied_now @ [m]) @ new \<and> new = filter (\<lambda>m. applied (mg_version m) = None) ms \<and>
             (\<forall>m \<in> set ms. applied (mg_version m) = None \<or> applied (mg_version m) = Some (mg_checksum m))" by blast
      then show ?thesis using c1(2) none by (intro exI [of _ "m # new"]) auto
    qed
  qed
qed auto

lemma migrate_all_settled:
  assumes "\<forall>m \<in> set ms. applied (mg_version m) = Some (mg_checksum m)"
  shows "migrate_all pg elapsed applied applied_now ms c = (Inr applied_now, c)"
  using assms by (induction ms) (simp_all add: migrate_one_def)

lemma open_attempts_succeeds:
  assumes "j < k" "\<And>i. i < j \<Longrightarrow> startup_check required (tries (n + i)) \<noteq> Inr ()" "startup_check required (tries (n + j)) = Inr ()"
  shows "open_attempts required backoff tries n k p = (Inr (), p\<lparr>cp_sleeps := cp_sleeps p @ replicate j backoff\<rparr>)"
  using assms
proof (induction j arbitrary: n k p)
  case 0
  then show ?case by (cases k) simp_all
next
  case (Suc j)
  obtain k' where k: "k = Suc k'" "k' \<noteq> 0" using Suc.prems(1) by (cases k) auto
  obtain e where e: "startup_check required (tries n) = Inl e" using Suc.prems(2) [of 0] by (cases "startup_check required (tries n)") auto
  show ?case
    using Suc.IH [of k' "Suc n" "p\<lparr>cp_sleeps := cp_sleeps p @ [backoff]\<rparr>"] Suc.prems Suc.prems(2) [of "Suc i" for i] k e
    by (simp add: replicate_append_same)
qed

lemma open_attempts_fails:
  assumes "\<And>i. i < k \<Longrightarrow> startup_check required (tries (n + i)) \<noteq> Inr ()"
  shows "open_attempts required backoff tries n k p =
    (Inl (Exn StartupDatabaseError ''PostgreSQL startup checks failed''),
     p\<lparr>cp_open := False, cp_sleeps := cp_sleeps p @ replicate (k - 1) backoff\<rparr>)"
  using assms
proof (induction k arbitrary: n p)
  case (Suc k)
  obtain e where e: "startup_check required (tries n) = Inl e" using Suc.prems [of 0] by (cases "startup_check required (tries n)") auto
  show ?case
    using Suc.IH [of "Suc n" "if k \<noteq> 0 then p\<lparr>cp_sleeps := cp_sleeps p @ [backoff]\<rparr> else p"] Suc.prems [of "Suc i" for i] e
    by (cases k) (simp_all)
qed simp

section \<open>The function is a run of steps\<close>

lemma set_runner_simps [simp]:
  "cl_runners (set_runner i r s) = (cl_runners s)(i := r)" "cl_catalog (set_runner i r s) = cl_catalog s"
  "cl_lock (set_runner i r s) = cl_lock s" "set_runner i r (set_runner i r' s) = set_runner i r s"
  "set_runner i r (s\<lparr>cl_catalog := c\<rparr>) = (set_runner i r s)\<lparr>cl_catalog := c\<rparr>"
  "set_runner i r (s\<lparr>cl_lock := l\<rparr>) = (set_runner i r s)\<lparr>cl_lock := l\<rparr>"
  "(set_runner i r s)\<lparr>cl_catalog := cl_catalog s\<rparr> = set_runner i r s"
  by (simp_all add: set_runner_def)

lemma migrate_all_steps:
  assumes "cl_runners s i = Migrating ms applied applied_now rest"
    and "migrate_all pg elapsed applied applied_now rest (cl_catalog s) = (res, c')"
  shows "(migrate_step sha256 pg)\<^sup>*\<^sup>* s (set_runner i (Unlocking ms res) (s\<lparr>cl_catalog := c'\<rparr>))"
  using assms
proof (induction rest arbitrary: applied_now s)
  case Nil
  then show ?case using finishes [OF Nil.prems(1), of sha256 pg] by auto
next
  case (Cons m rest)
  show ?case
  proof (cases "migrate_one pg (elapsed m) applied m (cl_catalog s)")
    case (Inl e)
    then show ?thesis using refuses [OF Cons.prems(1), of pg "elapsed m" e sha256] Cons.prems(2) by auto
  next
    case (Inr out)
    define s1 where "s1 = (case out of
        None \<Rightarrow> set_runner i (Migrating ms applied applied_now rest) s
      | Some c \<Rightarrow> set_runner i (Migrating ms applied (applied_now @ [m]) rest) (s\<lparr>cl_catalog := c\<rparr>))"
    have one: "migrate_step sha256 pg s s1"
      using skips [OF Cons.prems(1)] commits [OF Cons.prems(1)] Inr by (auto simp: s1_def split: option.split)
    have "(migrate_step sha256 pg)\<^sup>*\<^sup>* s1 (set_runner i (Unlocking ms res) (s1\<lparr>cl_catalog := c'\<rparr>))"
      using Cons.IH [of s1 applied_now] Cons.IH [of s1 "applied_now @ [m]"] Cons.prems(2) Inr by (cases out) (auto simp: s1_def)
    moreover have "set_runner i (Unlocking ms res) (s1\<lparr>cl_catalog := c'\<rparr>) = set_runner i (Unlocking ms res) (s\<lparr>cl_catalog := c'\<rparr>)"
      by (cases out) (simp_all add: s1_def set_runner_def)
    ultimately show ?thesis using one by (metis converse_rtranclp_into_rtranclp)
  qed
qed

lemma apply_migrations_steps:
  assumes "cl_runners s i = Fresh" "cl_lock s = None" "discover_migrations sha256 directory = Inr ms"
    and "apply_migrations sha256 pg elapsed directory (cl_catalog s) = (res, c')"
  shows "(migrate_step sha256 pg)\<^sup>*\<^sup>* s (set_runner i (Ended ms res) (s\<lparr>cl_catalog := c'\<rparr>))"
proof -
  define s1 where "s1 = set_runner i (Connected ms) (s\<lparr>cl_catalog := ensure_history (cl_catalog s)\<rparr>)"
  define s2 where "s2 = set_runner i (Locked ms) (s1\<lparr>cl_lock := Some i\<rparr>)"
  define s3 where "s3 = set_runner i (Migrating ms (applied_checksums (the (cg_history (cl_catalog s2)))) [] ms) s2"
  define s4 where "s4 = set_runner i (Unlocking ms res) (s3\<lparr>cl_catalog := c'\<rparr>)"
  have 1: "migrate_step sha256 pg s s1" unfolding s1_def by (rule connects [OF assms(1,3)])
  have 2: "migrate_step sha256 pg s1 s2" unfolding s2_def by (rule locks) (simp_all add: s1_def assms(2))
  have 3: "migrate_step sha256 pg s2 s3" unfolding s3_def by (rule loads) (simp add: s2_def)
  have 4: "(migrate_step sha256 pg)\<^sup>*\<^sup>* s3 s4" unfolding s4_def
    using assms(3,4) by (intro migrate_all_steps [where elapsed = elapsed]) (simp_all add: s3_def s2_def s1_def apply_migrations_def Let_def)
  have 5: "migrate_step sha256 pg s4 (set_runner i (Ended ms res) (s4\<lparr>cl_lock := None\<rparr>))" by (rule unlocks) (simp add: s4_def)
  have "set_runner i (Ended ms res) (s4\<lparr>cl_lock := None\<rparr>) = set_runner i (Ended ms res) (s\<lparr>cl_catalog := c'\<rparr>)"
    using assms(2) by (simp add: set_runner_def s4_def s3_def s2_def s1_def)
  then have 5: "migrate_step sha256 pg s4 (set_runner i (Ended ms res) (s\<lparr>cl_catalog := c'\<rparr>))" using 5 by simp
  let ?R = "migrate_step sha256 pg"
  have "?R\<^sup>*\<^sup>* s s3" using 1 2 3 by (meson rtranclp.rtrancl_into_rtrancl rtranclp.rtrancl_refl)
  then have "?R\<^sup>*\<^sup>* s s4" using 4 by (rule rtranclp_trans [where r = ?R])
  then show ?thesis using 5 by (rule rtranclp.rtrancl_into_rtrancl [where r = ?R])
qed

section \<open>Properties\<close>

text \<open>C35: migrations are applied exactly once, whatever runs at the same time. Any number of runners, with any
  directories, may start, wait for the lock, fail and die at every point. In every reachable state the
  rows of the history are those of a list of migrations with distinct versions, whose scripts, each
  executed once in this order on the original schema, give the present schema; at most one runner is
  between taking and releasing the lock; and for a runner that ended without an error every migration of
  its directory is in the history with its checksum.\<close>

theorem migrations_applied_once:
  assumes "(migrate_step sha256 pg)\<^sup>*\<^sup>* (fresh_cluster d) s"
  shows "\<exists>logged. distinct (map mg_version logged) \<and> (\<forall>m \<in> set logged. mg_checksum m = sha256 (mg_sql m)) \<and>
    map mg_key logged = (case cg_history (cl_catalog s) of None \<Rightarrow> [] | Some rows \<Rightarrow> map hr_key rows) \<and>
    replay_scripts pg logged d = Some (cg_schema (cl_catalog s)) \<and>
    (\<forall>i j. holding (cl_runners s i) \<and> holding (cl_runners s j) \<longrightarrow> i = j) \<and>
    (\<forall>i ms applied_now. cl_runners s i = Ended ms (Inr applied_now) \<longrightarrow>
       (\<forall>m \<in> set ms. \<exists>m' \<in> set logged. mg_version m' = mg_version m \<and> mg_checksum m' = mg_checksum m))"
proof -
  obtain logged where inv: "cluster_inv sha256 pg d logged s" using cluster_reachable [OF assms] by blast
  have "\<exists>m' \<in> set logged. mg_version m' = mg_version m \<and> mg_checksum m' = mg_checksum m"
    if r: "cl_runners s i = Ended ms (Inr applied_now)" and m: "m \<in> set ms" for i ms applied_now m
  proof -
    have "runner_ok sha256 logged (Ended ms (Inr applied_now))" using inv r unfolding cluster_inv_def by metis
    then have "map_of (map (\<lambda>m. (mg_version m, mg_checksum m)) logged) (mg_version m) = Some (mg_checksum m)"
      using m by (simp add: recorded_in_def)
    then show ?thesis using map_of_SomeD by fastforce
  qed
  moreover have "i = j" if "holding (cl_runners s i)" "holding (cl_runners s j)" for i j
    using inv that unfolding cluster_inv_def by (metis option.inject)
  ultimately show ?thesis using inv unfolding cluster_inv_def catalog_ok_def by blast
qed

definition script_log :: "string list postgres" where
  "script_log = \<lparr>pg_execute = (\<lambda>q d. Some (d @ [q])), pg_tables = id, pg_constraints = id\<rparr>"

definition two_migrations :: "(string \<times> string) list" where
  "two_migrations = [(''002_b.sql'', ''B''), (''001_a.sql'', ''A''), (''notes.txt'', [])]"

definition migration_a :: migration where
  "migration_a = \<lparr>mg_version = 1, mg_name = ''a'', mg_checksum = ''A'', mg_sql = ''A''\<rparr>"

definition migration_b :: migration where
  "migration_b = \<lparr>mg_version = 2, mg_name = ''b'', mg_checksum = ''B'', mg_sql = ''B''\<rparr>"

lemma two_discovered: "discover_migrations id two_migrations = Inr [migration_a, migration_b]"
  by (simp add: discover_migrations_def two_migrations_def migration_a_def migration_b_def match_filename_def is_sql_def
      is_decimal_def name_char_def digits_value_def char_code_def less_char_def sorted_list_of_set_iff [symmetric])

lemma two_applied:
  "apply_migrations id script_log (\<lambda>_. 7) two_migrations \<lparr>cg_schema = [], cg_history = None\<rparr> =
     (Inr [migration_a, migration_b],
      \<lparr>cg_schema = [''A'', ''B''], cg_history = Some [row_for 7 migration_a, row_for 7 migration_b]\<rparr>)"
  by (simp add: apply_migrations_def two_discovered Let_def ensure_history_def migrate_one_def applied_checksums_def
      commit_migration_def run_script_def script_log_def insert_history_def migration_a_def migration_b_def row_for_def)

theorem migrations_applied_once_witness:
  "\<exists>s logged. (migrate_step id script_log)\<^sup>*\<^sup>* (fresh_cluster []) s \<and>
     cl_runners s 0 = Ended [migration_a, migration_b] (Inr [migration_a, migration_b]) \<and>
     distinct (map mg_version logged) \<and> replay_scripts script_log logged [] = Some [''A'', ''B''] \<and>
     (\<exists>m' \<in> set logged. mg_version m' = 2 \<and> mg_checksum m' = ''B'')"
proof -
  define s where "s = set_runner 0 (Ended [migration_a, migration_b] (Inr [migration_a, migration_b]))
      ((fresh_cluster [])\<lparr>cl_catalog := \<lparr>cg_schema = [''A'', ''B''], cg_history = Some [row_for 7 migration_a, row_for 7 migration_b]\<rparr>\<rparr>)"
  have steps: "(migrate_step id script_log)\<^sup>*\<^sup>* (fresh_cluster []) s" unfolding s_def
    by (rule apply_migrations_steps [where elapsed = "\<lambda>_. 7", OF _ _ two_discovered]) (simp_all add: fresh_cluster_def two_applied)
  have ended: "cl_runners s 0 = Ended [migration_a, migration_b] (Inr [migration_a, migration_b])"
    and schema: "cg_schema (cl_catalog s) = [''A'', ''B'']" by (simp_all add: s_def)
  have b: "migration_b \<in> set [migration_a, migration_b]" "mg_version migration_b = 2" "mg_checksum migration_b = ''B''"
    by (simp_all add: migration_b_def)
  show ?thesis using migrations_applied_once [OF steps] steps ended schema b by metis
qed

text \<open>C36: a migrated database settles and opens. After a successful run the applied migrations are those of the
  directory that were not in the history before, in order; a second run applies nothing and changes
  nothing; the status of every migration is applied; and with a healthy connection the start-up check of
  the processor accepts the database at the first attempt for every required version that the directory
  reaches.\<close>

theorem migrated_database_opens:
  assumes "apply_migrations sha256 pg elapsed directory c = (Inr applied_now, c')"
  shows "\<exists>ms rows. discover_migrations sha256 directory = Inr ms \<and> cg_history c' = Some rows \<and>
    applied_now = filter (\<lambda>m. mg_version m \<notin> hr_version ` set (case cg_history c of None \<Rightarrow> [] | Some rows \<Rightarrow> rows)) ms \<and>
    apply_migrations sha256 pg elapsed' directory c' = (Inr [], c') \<and>
    migration_status sha256 directory c' = Inr (map (\<lambda>m. (mg_version m, mg_name m, mg_checksum m, ''applied'')) ms) \<and>
    (\<forall>m \<in> set ms. \<forall>required \<le> mg_version m. \<forall>tries attempts.
       tries 0 = \<lparr>at_select = Some (Some 1), at_version = Some (Some (schema_version rows))\<rparr> \<and> 0 < attempts \<longrightarrow>
       open_database required attempts backoff tries p = (Inr (), p\<lparr>cp_open := True\<rparr>))"
proof -
  obtain ms where ms: "discover_migrations sha256 directory = Inr ms"
    using assms by (auto simp: apply_migrations_def split: sum.splits)
  define old where "old = (case cg_history c of None \<Rightarrow> [] | Some rows \<Rightarrow> rows)"
  have c1: "cg_history (ensure_history c) = Some old" by (simp add: ensure_history_def old_def split: option.split)
  have all: "migrate_all pg elapsed (applied_checksums old) [] ms (ensure_history c) = (Inr applied_now, c')"
    using assms ms c1 by (simp add: apply_migrations_def Let_def)
  define rows where "rows = old @ map (\<lambda>m. row_for (elapsed m) m) applied_now"
  have h: "cg_history c' = Some rows" "applied_now = filter (\<lambda>m. applied_checksums old (mg_version m) = None) ms"
    "\<forall>m \<in> set ms. applied_checksums old (mg_version m) = None \<or> applied_checksums old (mg_version m) = Some (mg_checksum m)"
    using migrate_all_commits [OF all c1] by (auto simp: rows_def)
  have settled: "applied_checksums rows (mg_version m) = Some (mg_checksum m)" if m: "m \<in> set ms" for m
  proof (cases "applied_checksums old (mg_version m)")
    case None
    then have new: "m \<in> set applied_now" using h(2) m by simp
    have "distinct (map mg_version applied_now)" using discovered(2) [OF ms] unfolding h(2) by (rule distinct_map_filter)
    then have "map_of (map (\<lambda>m. (mg_version m, mg_checksum m)) applied_now) (mg_version m) = Some (mg_checksum m)"
      using new by (intro map_of_is_SomeI) (auto simp: comp_def)
    then show ?thesis using None by (simp add: rows_def applied_checksums_def comp_def map_add_def)
  next
    case (Some x)
    then show ?thesis using h(3) m by (auto simp: rows_def applied_checksums_def map_add_def split: option.split)
  qed
  have known: "applied_checksums old v = None \<longleftrightarrow> v \<notin> hr_version ` set old" for v
    by (simp add: applied_checksums_def map_of_eq_None_iff image_image)
  have ver: "mg_version m \<in> hr_version ` set rows" if "m \<in> set ms" for m
    using settled [OF that] map_of_SomeD unfolding applied_checksums_def by fastforce
  have again: "apply_migrations sha256 pg elapsed' directory c' = (Inr [], c')"
    using ms h(1) settled by (simp add: apply_migrations_def ensure_history_def migrate_all_settled)
  have status: "migration_status sha256 directory c' = Inr (map (\<lambda>m. (mg_version m, mg_name m, mg_checksum m, ''applied'')) ms)"
    using ms h(1) ver by (simp add: migration_status_def)
  have opens: "open_database required attempts backoff tries p = (Inr (), p\<lparr>cp_open := True\<rparr>)"
    if "m \<in> set ms" "required \<le> mg_version m" "0 < attempts"
      "tries 0 = \<lparr>at_select = Some (Some 1), at_version = Some (Some (schema_version rows))\<rparr>" for m required attempts tries
  proof -
    have "mg_version m \<le> schema_version rows" using ver [OF that(1)] by (auto simp: schema_version_def)
    then have "startup_check required (tries (0 + 0)) = Inr ()"
      using that(2,4) by (simp add: startup_check_def healthcheck_def verify_schema_def)
    then show ?thesis using open_attempts_succeeds [of 0 attempts required tries 0] that(3) by (simp add: open_database_def)
  qed
  show ?thesis
    using ms h(1) again status opens h(2) known unfolding old_def by (intro exI [of _ ms] exI [of _ rows]) simp
qed

theorem migrated_database_opens_witness:
  "\<exists>rows. cg_history (snd (apply_migrations id script_log (\<lambda>_. 7) two_migrations \<lparr>cg_schema = [], cg_history = None\<rparr>)) = Some rows \<and>
     open_database 2 5 1 (\<lambda>_. \<lparr>at_select = Some (Some 1), at_version = Some (Some (schema_version rows))\<rparr>) \<lparr>cp_open = False, cp_sleeps = []\<rparr> =
       (Inr (), \<lparr>cp_open = True, cp_sleeps = []\<rparr>)"
proof -
  from migrated_database_opens [OF two_applied, of "\<lambda>_. 0" 1 "\<lparr>cp_open = False, cp_sleeps = []\<rparr>"] obtain ms rows where r:
    "discover_migrations id two_migrations = Inr ms" "cg_history (snd (apply_migrations id script_log (\<lambda>_. 7) two_migrations \<lparr>cg_schema = [], cg_history = None\<rparr>)) = Some rows"
    "\<forall>m \<in> set ms. \<forall>required \<le> mg_version m. \<forall>tries attempts.
       tries 0 = \<lparr>at_select = Some (Some 1), at_version = Some (Some (schema_version rows))\<rparr> \<and> 0 < attempts \<longrightarrow>
       open_database required attempts 1 tries \<lparr>cp_open = False, cp_sleeps = []\<rparr> = (Inr (), \<lparr>cp_open = False, cp_sleeps = []\<rparr>\<lparr>cp_open := True\<rparr>)"
    unfolding two_applied by auto
  have "ms = [migration_a, migration_b]" "2 \<le> mg_version migration_b" using r(1) two_discovered by (simp, simp add: migration_b_def)
  then have "migration_b \<in> set ms" "2 \<le> mg_version migration_b" by simp_all
  then show ?thesis using r(2,3) by (intro exI [of _ rows]) auto
qed

end
