(* ===== verification/Settings.thy ===== *)
theory Settings
  imports Bytes
begin

text \<open>
  Settings as the services declare them with pydantic: a model is a table of fields with their types, bounds
  and defaults and a condition that relates fields. A dictionary of values is validated field by field; a
  value that is given is converted and checked, a default is taken as it is. The conversions that
  pydantic makes (a text to a number or a truth value) are parameters; the law used of them is that a
  value which has the type of the field already is kept. The locales hold what follows for every table.
\<close>

section \<open>Fields\<close>

datatype setting = Text string | Number int | Fraction rat | Flag bool | Texts "string list" | Nothing

record bounds =
  bd_gt :: "rat option"
  bd_ge :: "rat option"
  bd_le :: "rat option"

datatype field_type =
    NonBlank
  | Checked "string \<Rightarrow> bool"
  | Literal "string list"
  | Optional_literal "string list"
  | Whole bounds
  | Optional_whole bounds
  | Decimal bounds
  | Switch
  | Many

type_synonym field_table = "(string \<times> field_type \<times> setting) list"

definition gt_le :: "rat \<Rightarrow> rat \<Rightarrow> bounds" where
  "gt_le a b = \<lparr>bd_gt = Some a, bd_ge = None, bd_le = Some b\<rparr>"

definition ge_le :: "rat \<Rightarrow> rat \<Rightarrow> bounds" where
  "ge_le a b = \<lparr>bd_gt = None, bd_ge = Some a, bd_le = Some b\<rparr>"

definition gt_only :: "rat \<Rightarrow> bounds" where
  "gt_only a = \<lparr>bd_gt = Some a, bd_ge = None, bd_le = None\<rparr>"

definition ge_only :: "rat \<Rightarrow> bounds" where
  "ge_only a = \<lparr>bd_gt = None, bd_ge = Some a, bd_le = None\<rparr>"

definition unbounded :: bounds where
  "unbounded = \<lparr>bd_gt = None, bd_ge = None, bd_le = None\<rparr>"

definition in_bounds :: "bounds \<Rightarrow> rat \<Rightarrow> bool" where
  "in_bounds b x \<longleftrightarrow>
     (case bd_gt b of None \<Rightarrow> True | Some a \<Rightarrow> a < x) \<and>
     (case bd_ge b of None \<Rightarrow> True | Some a \<Rightarrow> a \<le> x) \<and>
     (case bd_le b of None \<Rightarrow> True | Some a \<Rightarrow> x \<le> a)"

lemmas bounds_simps = in_bounds_def gt_le_def ge_le_def gt_only_def ge_only_def unbounded_def

section \<open>Validation\<close>

record coercions =
  cv_int :: "setting \<Rightarrow> int option"
  cv_float :: "setting \<Rightarrow> rat option"
  cv_bool :: "setting \<Rightarrow> bool option"

fun validate_field :: "coercions \<Rightarrow> field_type \<Rightarrow> setting \<Rightarrow> setting option" where
  "validate_field cv NonBlank v =
     (case v of Text s \<Rightarrow> (if strip s = [] then None else Some (Text (strip s))) | _ \<Rightarrow> None)"
| "validate_field cv (Checked ok) v = (case v of Text s \<Rightarrow> (if ok s then Some (Text s) else None) | _ \<Rightarrow> None)"
| "validate_field cv (Literal choices) v =
     (case v of Text s \<Rightarrow> (if s \<in> set choices then Some (Text s) else None) | _ \<Rightarrow> None)"
| "validate_field cv (Optional_literal choices) v =
     (case v of Nothing \<Rightarrow> Some Nothing | Text s \<Rightarrow> (if s \<in> set choices then Some (Text s) else None) | _ \<Rightarrow> None)"
| "validate_field cv (Whole b) v =
     (case cv_int cv v of None \<Rightarrow> None | Some n \<Rightarrow> if in_bounds b (of_int n) then Some (Number n) else None)"
| "validate_field cv (Optional_whole b) v =
     (if v = Nothing then Some Nothing
      else case cv_int cv v of None \<Rightarrow> None | Some n \<Rightarrow> if in_bounds b (of_int n) then Some (Number n) else None)"
| "validate_field cv (Decimal b) v =
     (case cv_float cv v of None \<Rightarrow> None | Some x \<Rightarrow> if in_bounds b x then Some (Fraction x) else None)"
| "validate_field cv Switch v = (case cv_bool cv v of None \<Rightarrow> None | Some x \<Rightarrow> Some (Flag x))"
| "validate_field cv Many v = (case v of Texts ss \<Rightarrow> Some (Texts ss) | _ \<Rightarrow> None)"

text \<open>The fields in order, each with the value given, converted and checked, or its default, which is not
  checked.\<close>

fun validate_fields :: "coercions \<Rightarrow> field_table \<Rightarrow> setting dict \<Rightarrow> setting dict option" where
  "validate_fields cv [] data = Some []"
| "validate_fields cv ((name, ty, preset) # table) data =
     (case (case map_of data name of Some v \<Rightarrow> validate_field cv ty v | None \<Rightarrow> Some preset) of
        None \<Rightarrow> None
      | Some v \<Rightarrow> map_option (\<lambda>config. (name, v) # config) (validate_fields cv table data))"

text \<open>A model that forbids other names than its fields.\<close>

definition model_validate :: "coercions \<Rightarrow> field_table \<Rightarrow> (setting dict \<Rightarrow> bool) \<Rightarrow> setting dict \<Rightarrow> setting dict option" where
  "model_validate cv table related data =
     (if list_all (\<lambda>k. k \<in> set (map fst table)) (map fst data)
      then case validate_fields cv table data of
             None \<Rightarrow> None
           | Some config \<Rightarrow> if related config then Some config else None
      else None)"

definition int_of :: "setting dict \<Rightarrow> string \<Rightarrow> int" where
  "int_of config name = (case map_of config name of Some (Number n) \<Rightarrow> n | _ \<Rightarrow> 0)"

definition float_of :: "setting dict \<Rightarrow> string \<Rightarrow> rat" where
  "float_of config name = (case map_of config name of Some (Fraction x) \<Rightarrow> x | _ \<Rightarrow> 0)"

definition flag_of :: "setting dict \<Rightarrow> string \<Rightarrow> bool" where
  "flag_of config name \<longleftrightarrow> map_of config name = Some (Flag True)"

definition text_of :: "setting dict \<Rightarrow> string \<Rightarrow> string" where
  "text_of config name = (case map_of config name of Some (Text s) \<Rightarrow> s | _ \<Rightarrow> [])"

definition optional_int_of :: "setting dict \<Rightarrow> string \<Rightarrow> int option" where
  "optional_int_of config name = (case map_of config name of Some (Number n) \<Rightarrow> Some n | _ \<Rightarrow> None)"

text \<open>The variables of the environment have the names of the fields in capitals.\<close>

definition upper_char :: "char \<Rightarrow> char" where
  "upper_char ch = (if of_char ch \<in> {97 .. 122 :: nat} then char_of (of_char ch - 32 :: nat) else ch)"

section \<open>Laws of the conversions\<close>

text \<open>A value that has the type of its field already is accepted as it is.\<close>

definition keeps_typed :: "coercions \<Rightarrow> bool" where
  "keeps_typed cv \<longleftrightarrow>
     (\<forall>n. cv_int cv (Number n) = Some n) \<and> (\<forall>x. cv_float cv (Fraction x) = Some x) \<and> (\<forall>b. cv_bool cv (Flag b) = Some b)"

lemma strip_strip: "strip (strip s) = strip s"
proof -
  define u where "u = dropWhile is_space s"
  define w where "w = rev (dropWhile is_space (rev u))"
  have "dropWhile is_space w = w"
  proof (cases w)
    case (Cons a w')
    obtain t where "rev u = t @ dropWhile is_space (rev u)" by (metis takeWhile_dropWhile_id)
    then have "u = w @ rev t" unfolding w_def by (metis rev_append rev_rev_ident)
    then have "hd u = a" "u \<noteq> []" using Cons by auto
    moreover have "u \<noteq> [] \<Longrightarrow> \<not> is_space (hd u)" unfolding u_def by (rule hd_dropWhile)
    ultimately show ?thesis using Cons by simp
  qed simp
  then show ?thesis unfolding strip_def by (simp add: u_def [symmetric] w_def)
qed

lemma validate_field_again:
  assumes "keeps_typed cv" "validate_field cv ty v = Some v'"
  shows "validate_field cv ty v' = Some v'"
  using assms by (cases ty) (auto simp: keeps_typed_def strip_strip split: setting.splits option.splits if_splits)

definition field_value :: "coercions \<Rightarrow> setting dict \<Rightarrow> string \<times> field_type \<times> setting \<Rightarrow> setting option" where
  "field_value cv data = (\<lambda>(name, ty, preset). case map_of data name of Some w \<Rightarrow> validate_field cv ty w | None \<Rightarrow> Some preset)"

lemma validate_fields_iff:
  "validate_fields cv table data = Some config \<longleftrightarrow>
     list_all2 (\<lambda>f (name, v). name = fst f \<and> field_value cv data f = Some v) table config"
proof (induction table arbitrary: config)
  case (Cons f table)
  then show ?case
    by (cases f; cases config) (auto simp: field_value_def list_all2_Cons1 list_all2_Cons2 split: option.splits)
qed auto

lemma validated_lookup:
  assumes "list_all2 (\<lambda>f (name, v). name = fst f \<and> field_value cv data f = Some v) table config"
    and "distinct (map fst table)" "f \<in> set table"
  shows "map_of config (fst f) = field_value cv data f"
  using assms
proof (induction rule: list_all2_induct)
  case (Cons g table entry config)
  then show ?case by (cases entry) (force simp: image_iff)
qed simp

lemma validated_keys:
  assumes "list_all2 (\<lambda>f (name, v). name = fst f \<and> field_value cv data f = Some v) table config"
  shows "map fst config = map fst table" "f \<in> set table \<Longrightarrow> \<exists>v. field_value cv data f = Some v"
  using assms by (induction rule: list_all2_induct) auto

lemma fields_total:
  assumes "\<And>f. f \<in> set table \<Longrightarrow> field_value cv data f \<noteq> None"
  shows "\<exists>config. validate_fields cv table data = Some config"
proof -
  have "list_all2 (\<lambda>f (name, v). name = fst f \<and> field_value cv data f = Some v) table (map (\<lambda>f. (fst f, the (field_value cv data f))) table)"
    using assms by (simp add: list_all2_conv_all_nth)
  then show ?thesis using validate_fields_iff by blast
qed

lemma presets_validate: "validate_fields cv table [] = Some (map (\<lambda>(name, ty, preset). (name, preset)) table)"
  by (induction table) auto

lemma map_of_environment:
  "map_of (List.map_filter (\<lambda>(name, field). map_option (\<lambda>v. (field, Text v)) (source name)) (map (\<lambda>f. (g f, f)) names)) name =
     (if name \<in> set names then map_option Text (source (g name)) else None)"
  by (induction names) (auto simp: List.map_filter_def split: option.splits)

section \<open>Tables\<close>

text \<open>What a table owes its model: the names of its fields differ.\<close>

locale settings_table =
  fixes table :: field_table and related :: "setting dict \<Rightarrow> bool"
  assumes names_distinct: "distinct (map fst table)"
begin

lemma validated:
  assumes "model_validate cv table related data = Some config"
  shows "list_all2 (\<lambda>f (name, v). name = fst f \<and> field_value cv data f = Some v) table config" "related config"
proof -
  have v: "validate_fields cv table data = Some config" and r: "related config"
    using assms by (auto simp: model_validate_def split: if_splits option.splits)
  show "list_all2 (\<lambda>f (name, v). name = fst f \<and> field_value cv data f = Some v) table config"
    using v unfolding validate_fields_iff .
  show "related config" by (rule r)
qed

lemma lookup:
  assumes "model_validate cv table related data = Some config" "f \<in> set table"
  shows "map_of config (fst f) = field_value cv data f"
  using validated_lookup [OF validated(1) [OF assms(1)] names_distinct assms(2)] .

lemma keys: "model_validate cv table related data = Some config \<Longrightarrow> map fst config = map fst table"
  using validated(1) validated_keys(1) by blast

lemma unique: "f \<in> set table \<Longrightarrow> g \<in> set table \<Longrightarrow> fst f = fst g \<Longrightarrow> f = g"
  using names_distinct by (metis distinct_map inj_onD)

lemma presets_accepted:
  assumes "\<And>name ty preset. (name, ty, preset) \<in> set table \<Longrightarrow> validate_field cv ty preset = Some preset"
    and "related (map (\<lambda>(name, ty, preset). (name, preset)) table)"
  shows "model_validate cv table related (map (\<lambda>(name, ty, preset). (name, preset)) table) =
    Some (map (\<lambda>(name, ty, preset). (name, preset)) table)"
proof -
  let ?base = "map (\<lambda>(name, ty, preset). (name, preset)) table"
  have "field_value cv ?base (name, ty, preset) = Some preset" if f: "(name, ty, preset) \<in> set table" for name ty preset
  proof -
    have "map_of ?base name = Some preset" using f names_distinct by (intro map_of_is_SomeI) (force simp: comp_def case_prod_beta')+
    then show ?thesis using assms(1) [OF f] by (simp add: field_value_def)
  qed
  then have "list_all2 (\<lambda>f (name, v). name = fst f \<and> field_value cv ?base f = Some v) table ?base"
    unfolding list_all2_map2 list_all2_conv_all_nth by (auto simp: case_prod_beta) (metis nth_mem prod.collapse)
  then have "validate_fields cv table ?base = Some ?base" unfolding validate_fields_iff .
  then show ?thesis using assms(2) by (force simp: model_validate_def list_all_iff)
qed

text \<open>A value that was given has passed the check of its field.\<close>

lemma checked:
  assumes "model_validate cv table related data = Some config" "(name, ty, preset) \<in> set table" "map_of data name = Some w"
  obtains v where "map_of config name = Some v" "validate_field cv ty w = Some v"
proof -
  obtain v where "field_value cv data (name, ty, preset) = Some v"
    using validated_keys(2) [OF validated(1) [OF assms(1)] assms(2)] by blast
  then show ?thesis using that lookup [OF assms(1,2)] assms(3) by (simp add: field_value_def)
qed

end

text \<open>A table whose defaults satisfy their own fields: an accepted model has only values that its fields accept,
  and is accepted again as it is.\<close>

locale sound_table = settings_table +
  assumes presets_valid: "\<And>cv name ty preset. keeps_typed cv \<Longrightarrow> (name, ty, preset) \<in> set table \<Longrightarrow> validate_field cv ty preset = Some preset"
begin

lemma value_kept:
  assumes "keeps_typed cv" "f \<in> set table" "field_value cv data f = Some v"
  shows "validate_field cv (fst (snd f)) v = Some v"
  using assms validate_field_again [OF assms(1)] presets_valid [OF assms(1)]
  by (cases f) (auto simp: field_value_def split: option.splits)

lemma accepted_field:
  assumes "keeps_typed cv" "model_validate cv table related data = Some config" "f \<in> set table"
  obtains v where "map_of config (fst f) = Some v" "validate_field cv (fst (snd f)) v = Some v"
proof -
  obtain v where "field_value cv data f = Some v" using validated_keys(2) [OF validated(1) [OF assms(2)] assms(3)] by blast
  then show ?thesis using that lookup [OF assms(2,3)] value_kept [OF assms(1,3)] by simp
qed

lemma accepted_again:
  assumes "keeps_typed cv" "model_validate cv table related data = Some config"
  shows "model_validate cv table related config = Some config"
proof -
  note l = validated(1) [OF assms(2)]
  have "field_value cv config f = field_value cv data f" if f: "f \<in> set table" for f
  proof -
    obtain v where v: "map_of config (fst f) = Some v" "validate_field cv (fst (snd f)) v = Some v"
      using accepted_field [OF assms f] .
    then have "field_value cv config f = Some v" by (simp add: field_value_def case_prod_beta)
    then show ?thesis using lookup [OF assms(2) f] v(1) by simp
  qed
  then have "list_all2 (\<lambda>f (name, v). name = fst f \<and> field_value cv config f = Some v) table config"
    using l by (auto simp: list_all2_conv_all_nth)
  then show ?thesis
    using validate_fields_iff [of cv table config config] keys [OF assms(2)] validated(2) [OF assms(2)]
    by (simp add: model_validate_def list_all_iff)
qed

lemma whole_field:
  assumes "keeps_typed cv" "model_validate cv table related data = Some config" "(name, Whole b, preset) \<in> set table"
  shows "in_bounds b (of_int (int_of config name))"
proof -
  obtain v where "map_of config name = Some v" "validate_field cv (Whole b) v = Some v"
    using accepted_field [OF assms] by auto
  then show ?thesis by (auto simp: int_of_def split: option.splits if_splits)
qed

lemma decimal_field:
  assumes "keeps_typed cv" "model_validate cv table related data = Some config" "(name, Decimal b, preset) \<in> set table"
  shows "in_bounds b (float_of config name)"
proof -
  obtain v where "map_of config name = Some v" "validate_field cv (Decimal b) v = Some v"
    using accepted_field [OF assms] by auto
  then show ?thesis by (auto simp: float_of_def split: option.splits if_splits)
qed

end

end
