(* ===== verification/Control_Views.thy ===== *)
theory Control_Views
  imports Demo_Runs Bytes "HOL-Library.List_Lexorder" "HOL-Library.Char_ord" "HOL-Library.Product_Lexorder"
begin

text \<open>
  The read side of the control API (\<^verbatim>\<open>services/demo_control_api\<close>): the run shown in the overview
  (\<^verbatim>\<open>services/overview.py\<close> and \<^verbatim>\<open>DemoRunRepository.overview_run\<close>), the summary of a run, the event stream of a run
  and the paged list (\<^verbatim>\<open>main.py\<close>), the cached platform health (\<^verbatim>\<open>services/platform_health.py\<close>) and the
  predefined Prometheus queries (\<^verbatim>\<open>services/prometheus_client.py\<close>).

  The JSON text of a run and the conversion \<^verbatim>\<open>float\<close> are parameters; what the HTTP services answer is an
  argument.
\<close>

section \<open>Overview\<close>

text \<open>Python's \<^verbatim>\<open>max\<close> with a key: the first of the greatest elements.\<close>

definition max_by :: "('a \<Rightarrow> 'k :: linorder) \<Rightarrow> 'a list \<Rightarrow> 'a option" where
  "max_by key xs =
     (case xs of [] \<Rightarrow> None | x # ys \<Rightarrow> Some (foldl (\<lambda>best y. if key best < key y then y else best) x ys))"

definition select_overview_run :: "demo_run list \<Rightarrow> demo_run option" where
  "select_overview_run runs =
     (let active = filter is_active runs
      in if active \<noteq> [] then max_by (\<lambda>r. (dr_created_at r, uuid_str (dr_run_id r))) active
         else max_by (\<lambda>r. (dr_created_at r, uuid_str (dr_run_id r))) (filter (\<lambda>r. dr_status r = COMPLETED) runs))"

datatype overview_scope = ACTIVE_RUN | LATEST_COMPLETED_RUN

definition scope_of :: "demo_run \<Rightarrow> overview_scope" where
  "scope_of r = (if is_active r then ACTIVE_RUN else LATEST_COMPLETED_RUN)"

definition overview_run :: "db \<Rightarrow> manifest \<Rightarrow> instant \<Rightarrow> demo_run list \<Rightarrow> (control_error + (demo_run \<times> overview_scope) option) \<times> demo_run list" where
  "overview_run d m now runs =
     (case overview_order runs of
        [] \<Rightarrow> (Inr None, runs)
      | row # _ \<Rightarrow>
          (case refresh d m now (dr_run_id row) None runs of
             (Inl e, runs') \<Rightarrow> (Inl e, runs')
           | (Inr r, runs') \<Rightarrow> (Inr (Some (r, scope_of r)), runs')))"

record overview_summary =
  ov_run_id :: "uuid option"
  ov_scenario_type :: "scenario_type option"
  ov_run_status :: "run_status option"
  ov_scope :: "overview_scope option"
  ov_approve_count :: int
  ov_review_count :: int
  ov_block_count :: int
  ov_fraud_alert_count :: int

definition total_decisions :: "overview_summary \<Rightarrow> int" where
  "total_decisions s = ov_approve_count s + ov_review_count s + ov_block_count s"

definition build_fraud_summary :: "demo_run option \<Rightarrow> overview_scope option \<Rightarrow> overview_summary" where
  "build_fraud_summary run scope =
     (case run of
        None \<Rightarrow> \<lparr>ov_run_id = None, ov_scenario_type = None, ov_run_status = None, ov_scope = None, ov_approve_count = 0,
                 ov_review_count = 0, ov_block_count = 0, ov_fraud_alert_count = 0\<rparr>
      | Some r \<Rightarrow> \<lparr>ov_run_id = Some (dr_run_id r), ov_scenario_type = Some (dr_scenario_type r), ov_run_status = Some (dr_status r),
                   ov_scope = Some (case scope of Some sc \<Rightarrow> sc | None \<Rightarrow> scope_of r), ov_approve_count = dr_approve_count r,
                   ov_review_count = dr_review_count r, ov_block_count = dr_block_count r, ov_fraud_alert_count = dr_fraud_alert_count r\<rparr>)"

definition overview_fraud_summary :: "db \<Rightarrow> manifest \<Rightarrow> instant \<Rightarrow> demo_run list \<Rightarrow> (control_error + overview_summary) \<times> demo_run list" where
  "overview_fraud_summary d m now runs =
     (case overview_run d m now runs of
        (Inl e, runs') \<Rightarrow> (Inl e, runs')
      | (Inr None, runs') \<Rightarrow> (Inr (build_fraud_summary None None), runs')
      | (Inr (Some (r, scope)), runs') \<Rightarrow> (Inr (build_fraud_summary (Some r) (Some scope)), runs'))"

section \<open>Summary of a run\<close>

record run_summary_view =
  rv_run :: demo_run
  rv_validation_failures :: int
  rv_postgres_committed_events :: int
  rv_fraud_evaluations :: int
  rv_outbox_pending :: int
  rv_outbox_published :: int
  rv_duration_seconds :: "rat option"
  rv_effective_event_rate :: "rat option"

definition summary_rows :: "db \<Rightarrow> manifest \<Rightarrow> uuid \<Rightarrow> (fraud_evaluation_row option \<times> outbox_row option) list" where
  "summary_rows d m run_id =
     concat (map (\<lambda>(_, event_id, _). concat (map (\<lambda>fe. concat (map (\<lambda>fa. map (Pair fe)
         (left_join (\<lambda>r. case fa of None \<Rightarrow> False | Some a \<Rightarrow> ob_aggregate_id r = al_alert_id a) (t_fraud_outbox d)))
         (left_join (\<lambda>r. al_source_event_id r = event_id) (t_fraud_alerts d))))
         (left_join (\<lambda>r. fe_source_event_id r = event_id) (t_fraud_evaluations d))))
       (filter (\<lambda>x. fst x = run_id) m))"

definition outbox_with :: "outbox_status \<Rightarrow> (fraud_evaluation_row option \<times> outbox_row option) list \<Rightarrow> int" where
  "outbox_with st rows = rowcount (\<lambda>x. case snd x of None \<Rightarrow> False | Some r \<Rightarrow> ob_status r = st) rows"

definition run_duration :: "demo_run \<Rightarrow> rat option" where
  "run_duration r =
     (let finished = (case dr_completed_at r of Some t \<Rightarrow> t | None \<Rightarrow> (case dr_stopped_at r of Some t \<Rightarrow> t | None \<Rightarrow> dr_updated_at r))
      in map_option (\<lambda>t. of_int (finished - t) / 1000000) (dr_started_at r))"

definition summarise :: "db \<Rightarrow> manifest \<Rightarrow> instant \<Rightarrow> uuid \<Rightarrow> demo_run list \<Rightarrow> (control_error + run_summary_view) \<times> demo_run list" where
  "summarise d m now run_id runs =
     (case refresh d m now run_id None runs of
        (Inl e, runs') \<Rightarrow> (Inl e, runs')
      | (Inr r, runs') \<Rightarrow>
          (let rows = summary_rows d m run_id; duration = run_duration r
           in (Inr \<lparr>rv_run = r, rv_validation_failures = dr_dlq_count r, rv_postgres_committed_events = dr_processed_event_count r,
                    rv_fraud_evaluations = rowcount (\<lambda>x. fst x \<noteq> None) rows, rv_outbox_pending = outbox_with outbox_status.PENDING rows,
                    rv_outbox_published = outbox_with PUBLISHED rows, rv_duration_seconds = duration,
                    rv_effective_event_rate =
                      (case duration of
                         None \<Rightarrow> None
                       | Some x \<Rightarrow> if x \<noteq> 0 \<and> x > 0 then Some (of_int (dr_generated_event_count r) / x) else None)\<rparr>, runs')))"

section \<open>Endpoints\<close>

datatype http_error = Http int string

definition runs_endpoint :: "int \<Rightarrow> int \<Rightarrow> int \<Rightarrow> int option \<Rightarrow> demo_run list \<Rightarrow> http_error + (demo_run list \<times> int \<times> int \<times> int)" where
  "runs_endpoint default_size max_size page page_size runs =
     (let size = (case page_size of Some n \<Rightarrow> if n = 0 then default_size else n | None \<Rightarrow> default_size)
      in if size > max_size then Inl (Http 422 ''page_size exceeds configured maximum'')
         else (case list_runs page size runs of (items, total_count) \<Rightarrow> Inr (items, page, size, total_count)))"

definition token_guard :: "bool \<Rightarrow> string \<Rightarrow> string option \<Rightarrow> http_error option" where
  "token_guard enabled token authorization =
     (if enabled
      then if token = [] then Some (Http 503 ''API token is enabled but not configured'')
           else if authorization \<noteq> Some (''Bearer '' @ token) then Some (Http 401 ''invalid API token'') else None
      else None)"

text \<open>The stream of a run: at each turn the client may be gone, the refresh may raise, or it gives the run.\<close>

datatype frame = Progress string | Completed uuid run_status | Heartbeat

datatype turn = Disconnected | Raised_error | Refreshed demo_run

fun stream_frames :: "(demo_run \<Rightarrow> string) \<Rightarrow> string \<Rightarrow> turn list \<Rightarrow> frame list" where
  "stream_frames dumps last_sent [] = []"
| "stream_frames dumps last_sent (Disconnected # turns) = []"
| "stream_frames dumps last_sent (Raised_error # turns) = []"
| "stream_frames dumps last_sent (Refreshed run # turns) =
     (if dumps run \<noteq> last_sent then [Progress (dumps run)] else []) @
     (if dr_status run \<in> set TERMINAL_STATUSES then [Completed (dr_run_id run) (dr_status run)]
      else Heartbeat # stream_frames dumps (dumps run) turns)"

section \<open>Platform health\<close>

datatype probe = Success | Bad_status | Transport_error

datatype health_state = HEALTHY | DEGRADED | UNHEALTHY | NOT_MONITORED | UNKNOWN

record probes =
  pr_postgres :: bool
  pr_redis :: bool
  pr_kafka :: bool
  pr_generator :: probe
  pr_processor :: probe
  pr_outbox :: probe
  pr_prometheus :: probe
  pr_grafana :: probe
  pr_kafka_ui :: probe

definition direct_state :: "bool \<Rightarrow> health_state" where
  "direct_state answered = (if answered then HEALTHY else UNHEALTHY)"

definition required_state :: "probe \<Rightarrow> health_state" where
  "required_state p = (case p of Success \<Rightarrow> HEALTHY | Bad_status \<Rightarrow> UNHEALTHY | Transport_error \<Rightarrow> UNHEALTHY)"

definition generator_state :: "probe \<Rightarrow> health_state" where
  "generator_state p = (case p of Success \<Rightarrow> HEALTHY | Bad_status \<Rightarrow> UNHEALTHY | Transport_error \<Rightarrow> NOT_MONITORED)"

definition check_platform :: "probes \<Rightarrow> (string \<times> health_state) list" where
  "check_platform p =
     [(''PostgreSQL'', direct_state (pr_postgres p)), (''Redis'', direct_state (pr_redis p)), (''Kafka'', direct_state (pr_kafka p)),
      (''Generator'', generator_state (pr_generator p)), (''Fraud Engine'', NOT_MONITORED),
      (''Event Processor'', required_state (pr_processor p)), (''Fraud Outbox Publisher'', required_state (pr_outbox p)),
      (''Prometheus'', required_state (pr_prometheus p)), (''Grafana'', required_state (pr_grafana p)),
      (''Kafka UI'', required_state (pr_kafka_ui p)), (''Kafka Exporter'', UNKNOWN), (''PostgreSQL Exporter'', UNKNOWN),
      (''Redis Exporter'', UNKNOWN), (''Demo Control API'', HEALTHY)]"

definition MONITORED_STATES :: "health_state list" where
  "MONITORED_STATES = [HEALTHY, DEGRADED, UNHEALTHY]"

definition overall_state :: "(string \<times> health_state) list \<Rightarrow> health_state" where
  "overall_state services =
     (let monitored = filter (\<lambda>x. snd x \<in> set MONITORED_STATES) services
      in if list_ex (\<lambda>x. snd x \<noteq> HEALTHY) monitored then DEGRADED else HEALTHY)"

record health_report =
  hp_overall :: health_state
  hp_checked_at :: instant
  hp_services :: "(string \<times> health_state) list"

text \<open>One call: the reading of the monotonic clock at its start, the answers of the probes, the time of the
  report and the reading at its end.\<close>

record health_call =
  hc_started :: rat
  hc_probes :: probes
  hc_time :: instant
  hc_finished :: rat

definition fresh_report :: "health_call \<Rightarrow> health_report" where
  "fresh_report call =
     (let services = check_platform (hc_probes call)
      in \<lparr>hp_overall = overall_state services, hp_checked_at = hc_time call, hp_services = services\<rparr>)"

definition health_get :: "rat \<Rightarrow> health_call \<Rightarrow> (rat \<times> health_report) option \<Rightarrow> health_report \<times> (rat \<times> health_report) option" where
  "health_get ttl call cached =
     (case cached of
        Some (t, report) \<Rightarrow>
          if hc_started call - t < ttl then (report, cached) else (fresh_report call, Some (hc_finished call, fresh_report call))
      | None \<Rightarrow> (fresh_report call, Some (hc_finished call, fresh_report call)))"

fun health_calls :: "rat \<Rightarrow> health_call list \<Rightarrow> (rat \<times> health_report) option \<Rightarrow> health_report list" where
  "health_calls ttl [] cached = []"
| "health_calls ttl (call # calls) cached =
     (case health_get ttl call cached of (report, cached') \<Rightarrow> report # health_calls ttl calls cached')"

section \<open>Prometheus queries\<close>

datatype py_error = Http_failure | Key_missing | Type_mismatch | Bad_value | No_attribute | Index_missing

datatype float_value = Finite rat | Nonfinite

text \<open>Subscripts of decoded JSON by a text and by a number, with the errors Python raises.\<close>

definition item_key :: "string \<Rightarrow> json \<Rightarrow> py_error + json" where
  "item_key k x = (case x of JObj d \<Rightarrow> (case map_of d k of None \<Rightarrow> Inl Key_missing | Some y \<Rightarrow> Inr y) | _ \<Rightarrow> Inl Type_mismatch)"

definition item_index :: "nat \<Rightarrow> json \<Rightarrow> py_error + json" where
  "item_index n x =
     (case x of
        JList xs \<Rightarrow> if n < length xs then Inr (xs ! n) else Inl Index_missing
      | JStr s \<Rightarrow> if n < str_len s then Inr (JStr (drop (length (str_take n s)) (str_take (n + 1) s))) else Inl Index_missing
      | JObj _ \<Rightarrow> Inl Key_missing
      | _ \<Rightarrow> Inl Type_mismatch)"

definition finite_only :: "py_error + float_value \<Rightarrow> py_error + rat option" where
  "finite_only v = (case v of Inl e \<Rightarrow> Inl e | Inr (Finite x) \<Rightarrow> Inr (Some x) | Inr Nonfinite \<Rightarrow> Inr None)"

definition read_answer :: "(json \<Rightarrow> py_error + float_value) \<Rightarrow> json \<Rightarrow> py_error + rat option" where
  "read_answer float data =
     (case data of
        JObj d \<Rightarrow>
          if map_of d ''resultType'' = Some (JStr ''scalar'')
          then (case map_of d ''result'' of
                  Some (JList xs) \<Rightarrow> if length xs < 2 then Inr None else finite_only (float (xs ! 1))
                | _ \<Rightarrow> Inr None)
          else (case map_of d ''result'' of
                  Some (JList (x # xs)) \<Rightarrow>
                    (case item_key ''value'' x of
                       Inl e \<Rightarrow> Inl e
                     | Inr v \<Rightarrow> (case item_index 1 v of Inl e \<Rightarrow> Inl e | Inr y \<Rightarrow> finite_only (float y)))
                | _ \<Rightarrow> Inr None)
      | _ \<Rightarrow> Inl No_attribute)"

definition query_prometheus :: "(json \<Rightarrow> py_error + float_value) \<Rightarrow> (string \<Rightarrow> py_error + json) \<Rightarrow> string \<Rightarrow> py_error + rat option" where
  "query_prometheus float answers query =
     (case answers query of
        Inl e \<Rightarrow> Inl e
      | Inr body \<Rightarrow> (case item_key ''data'' body of Inl e \<Rightarrow> Inl e | Inr data \<Rightarrow> read_answer float data))"

definition QUERIES :: "string dict" where
  \<open>QUERIES =
     [(''processed_rate'', ''sum(rate(commerce_processor_events_terminal_total{result="processed"}[2m]))''),
      (''average_latency_seconds'', ''sum(rate(commerce_processor_event_processing_duration_seconds_sum[2m])) / sum(rate(commerce_processor_event_processing_duration_seconds_count[2m]))''),
      (''duplicate_rate'', ''sum(rate(commerce_processor_events_terminal_total{result="duplicate"}[5m]))''),
      (''dlq_rate'', ''sum(rate(commerce_processor_events_terminal_total{result="dlq"}[5m]))''),
      (''consumer_lag'', ''sum(kafka_consumergroup_lag{consumergroup="commerce-event-processor-v1"})''),
      (''p95_latency'', ''commerce:processor_latency_seconds:p95''),
      (''database_success_rate'', ''sum(rate(commerce_database_transactions_total{result="committed"}[5m]))''),
      (''fraud_alert_rate'', ''sum(rate(commerce_fraud_alerts_created_total[5m]))''),
      (''outbox_pending'', ''sum(commerce_outbox_rows{status="pending"})'')]\<close>

definition PRESENCE_QUERIES :: "string dict" where
  "PRESENCE_QUERIES =
     [(''processed_rate'', ''count(commerce_processor_events_terminal_total)''),
      (''average_latency_seconds'', ''count(commerce_processor_event_processing_duration_seconds_count)'')]"

definition query_metric :: "(json \<Rightarrow> py_error + float_value) \<Rightarrow> (string \<Rightarrow> py_error + json) \<Rightarrow> string \<Rightarrow> string \<Rightarrow> py_error + rat option" where
  "query_metric float answers name query =
     (case query_prometheus float answers query of
        Inl e \<Rightarrow> Inl e
      | Inr v \<Rightarrow>
          (case map_of PRESENCE_QUERIES name of
             None \<Rightarrow> Inr v
           | Some presence \<Rightarrow>
               if v \<noteq> None then Inr v
               else (case query_prometheus float answers presence of
                       Inl e \<Rightarrow> Inl e
                     | Inr present \<Rightarrow> Inr (case present of Some x \<Rightarrow> if x > 0 then Some 0 else None | None \<Rightarrow> None))))"

definition caught :: "py_error \<Rightarrow> bool" where
  "caught e \<longleftrightarrow> e \<in> {Http_failure, Key_missing, Type_mismatch, Bad_value}"

fun collect_metrics ::
  "(json \<Rightarrow> py_error + float_value) \<Rightarrow> (string \<Rightarrow> py_error + json) \<Rightarrow> string dict \<Rightarrow> py_error + bool \<times> (string \<times> rat option) list" where
  "collect_metrics float answers [] = Inr (False, [])"
| "collect_metrics float answers ((name, query) # queries) =
     (case query_metric float answers name query of
        Inl e \<Rightarrow>
          if caught e
          then (case collect_metrics float answers queries of
                  Inl x \<Rightarrow> Inl x | Inr (_, vs) \<Rightarrow> Inr (True, (name, None) # vs))
          else Inl e
      | Inr v \<Rightarrow> (case collect_metrics float answers queries of Inl x \<Rightarrow> Inl x | Inr (degraded, vs) \<Rightarrow> Inr (degraded, (name, v) # vs)))"

definition metrics_summary :: "(json \<Rightarrow> py_error + float_value) \<Rightarrow> (string \<Rightarrow> py_error + json) \<Rightarrow> py_error + string \<times> (string \<times> rat option) list" where
  "metrics_summary float answers =
     (case collect_metrics float answers QUERIES of
        Inl e \<Rightarrow> Inl e
      | Inr (degraded, vs) \<Rightarrow> Inr (if degraded then ''degraded'' else ''available'', vs))"

section \<open>The run of the overview\<close>

lemma foldl_max:
  fixes key :: "'a \<Rightarrow> 'k :: linorder"
  shows "foldl (\<lambda>best y. if key best < key y then y else best) x ys \<in> set (x # ys) \<and>
    (\<forall>y \<in> set (x # ys). key y \<le> key (foldl (\<lambda>best y. if key best < key y then y else best) x ys))"
proof (induction ys arbitrary: x)
  case (Cons y ys)
  show ?case
  proof (cases "key x < key y")
    case True
    then show ?thesis using Cons.IH [of y] by fastforce
  next
    case False
    then show ?thesis using Cons.IH [of x] by fastforce
  qed
qed simp

lemma max_by_greatest:
  assumes "xs \<noteq> []"
  obtains m where "max_by key xs = Some m" "m \<in> set xs" "\<And>x. x \<in> set xs \<Longrightarrow> key x \<le> key m"
  using assms foldl_max [of key "hd xs" "tl xs"] by (cases xs) (auto simp: max_by_def)

lemma sorted_head:
  assumes "sorted (map f xs)" "xs = y # ys"
  shows "y \<in> set xs \<and> (\<forall>x \<in> set xs. f y \<le> f x)"
  using assms by auto

lemma overview_head_active:
  assumes "overview_order runs = y # ys" "\<exists>r \<in> set runs. is_active r"
  shows "y \<in> set runs \<and> is_active y \<and> (\<forall>r \<in> set runs. is_active r \<longrightarrow> dr_created_at r \<le> dr_created_at y)"
proof -
  let ?act = "\<lambda>r. if is_active r then (0 :: int) else 1"
  define B where "B = sort_key (\<lambda>r. - dr_created_at r) (sort_key dr_run_id (filter (\<lambda>r. is_active r \<or> dr_status r = COMPLETED) runs))"
  have ov: "overview_order runs = sort_key ?act B" by (simp add: overview_order_def B_def)
  have sets: "set B = {r \<in> set runs. is_active r \<or> dr_status r = COMPLETED}" by (auto simp: B_def)
  have "sorted (map ?act (overview_order runs))" unfolding ov by simp
  then have min: "\<forall>r \<in> set B. ?act y \<le> ?act r" using sorted_head [OF _ assms(1)] unfolding ov by (metis set_sort)
  have y: "is_active y" using min assms(2) sets by (force split: if_splits)
  have "filter (\<lambda>r. ?act r = 0) (overview_order runs) = filter (\<lambda>r. ?act r = 0) B" unfolding ov by (rule sort_key_stable)
  moreover have "(\<lambda>r. ?act r = 0) = is_active" by auto
  ultimately have z: "filter is_active B = y # filter is_active ys" using y assms(1) by simp
  have "sorted (map (\<lambda>r. - dr_created_at r) (filter is_active B))" by (rule sorted_filter) (simp add: B_def)
  then have "\<forall>r \<in> set (filter is_active B). - dr_created_at y \<le> - dr_created_at r" using sorted_head [OF _ z] by blast
  moreover have "y \<in> set (filter is_active B)" unfolding z by simp
  ultimately show ?thesis using y sets by auto
qed

lemma overview_head_completed:
  assumes "overview_order runs = y # ys" "\<not> (\<exists>r \<in> set runs. is_active r)"
  shows "y \<in> set runs \<and> dr_status y = COMPLETED \<and> (\<forall>r \<in> set runs. dr_status r = COMPLETED \<longrightarrow> dr_created_at r \<le> dr_created_at y)"
proof -
  let ?act = "\<lambda>r. if is_active r then (0 :: int) else 1"
  define B where "B = sort_key (\<lambda>r. - dr_created_at r) (sort_key dr_run_id (filter (\<lambda>r. is_active r \<or> dr_status r = COMPLETED) runs))"
  have ov: "overview_order runs = sort_key ?act B" by (simp add: overview_order_def B_def)
  have sets: "set B = {r \<in> set runs. dr_status r = COMPLETED}" using assms(2) by (auto simp: B_def)
  have one: "\<forall>r \<in> set B. ?act r = 1" using sets assms(2) by auto
  have "filter (\<lambda>r. ?act r = 1) (overview_order runs) = filter (\<lambda>r. ?act r = 1) B" unfolding ov by (rule sort_key_stable)
  moreover have "filter (\<lambda>r. ?act r = 1) B = B" using one by (simp add: filter_id_conv)
  moreover have "filter (\<lambda>r. ?act r = 1) (overview_order runs) = overview_order runs" using one ov by (simp add: filter_id_conv)
  ultimately have "overview_order runs = B" by simp
  then have "y \<in> set B \<and> (\<forall>r \<in> set B. - dr_created_at y \<le> - dr_created_at r)"
    using sorted_head [of "\<lambda>r. - dr_created_at r" B y ys] assms(1) by (simp add: B_def)
  then show ?thesis using sets by auto
qed

lemma overview_empty: "overview_order runs = [] \<longleftrightarrow> (\<forall>r \<in> set runs. \<not> is_active r \<and> dr_status r \<noteq> COMPLETED)"
proof -
  have "overview_order runs = [] \<longleftrightarrow> set (overview_order runs) = {}" by simp
  then show ?thesis unfolding overview_order_def set_sort by auto
qed

lemma created_unique:
  assumes "distinct (map dr_created_at runs)" "r \<in> set runs" "r' \<in> set runs" "dr_created_at r \<le> dr_created_at r'" "dr_created_at r' \<le> dr_created_at r"
  shows "r = r'"
  using assms by (metis distinct_map inj_onD order_antisym)

lemma overview_head:
  assumes "distinct (map dr_created_at runs)"
  shows "(case overview_order runs of [] \<Rightarrow> None | r # _ \<Rightarrow> Some r) = select_overview_run runs"
proof (cases "overview_order runs")
  case Nil
  then have "filter is_active runs = []" "filter (\<lambda>r. dr_status r = COMPLETED) runs = []"
    using overview_empty [of runs] by (auto simp: filter_empty_conv)
  then show ?thesis using Nil by (simp add: select_overview_run_def max_by_def)
next
  case (Cons y ys)
  let ?key = "\<lambda>r. (dr_created_at r, uuid_str (dr_run_id r))"
  have "select_overview_run runs = Some y"
  proof (cases "\<exists>r \<in> set runs. is_active r")
    case True
    then have ne: "filter is_active runs \<noteq> []" by (auto simp: filter_empty_conv)
    obtain m where m: "max_by ?key (filter is_active runs) = Some m" "m \<in> set (filter is_active runs)"
      "\<And>x. x \<in> set (filter is_active runs) \<Longrightarrow> ?key x \<le> ?key m" using max_by_greatest [OF ne] by blast
    have y: "y \<in> set runs" "is_active y" "\<forall>r \<in> set runs. is_active r \<longrightarrow> dr_created_at r \<le> dr_created_at y"
      using overview_head_active [OF Cons True] by blast+
    have "dr_created_at y \<le> dr_created_at m" using m(3) [of y] y by (auto simp: less_eq_prod_simp)
    moreover have "dr_created_at m \<le> dr_created_at y" using m(2) y(3) by simp
    ultimately have "m = y" using created_unique [OF assms, of m y] m(2) y(1) by simp
    then show ?thesis using m(1) ne by (simp add: select_overview_run_def)
  next
    case False
    then have e: "filter is_active runs = []" by (auto simp: filter_empty_conv)
    have y: "y \<in> set runs" "dr_status y = COMPLETED" "\<forall>r \<in> set runs. dr_status r = COMPLETED \<longrightarrow> dr_created_at r \<le> dr_created_at y"
      using overview_head_completed [OF Cons False] by blast+
    then have ne: "filter (\<lambda>r. dr_status r = COMPLETED) runs \<noteq> []" by (auto simp: filter_empty_conv)
    obtain m where m: "max_by ?key (filter (\<lambda>r. dr_status r = COMPLETED) runs) = Some m" "m \<in> set (filter (\<lambda>r. dr_status r = COMPLETED) runs)"
      "\<And>x. x \<in> set (filter (\<lambda>r. dr_status r = COMPLETED) runs) \<Longrightarrow> ?key x \<le> ?key m" using max_by_greatest [OF ne] by blast
    have "dr_created_at y \<le> dr_created_at m" using m(3) [of y] y by (auto simp: less_eq_prod_simp)
    moreover have "dr_created_at m \<le> dr_created_at y" using m(2) y(3) by simp
    ultimately have "m = y" using created_unique [OF assms, of m y] m(2) y(1) by simp
    then show ?thesis using m(1) e by (simp add: select_overview_run_def)
  qed
  then show ?thesis using Cons by simp
qed

lemma refreshed_fields [simp]:
  "dr_status (refreshed d m now g r) = dr_status r" "scope_of (refreshed d m now g r) = scope_of r"
  by (simp_all add: refreshed_def Let_def scope_of_def is_active_def)

lemma decisions_sum:
  "decisions APPROVE js + decisions REVIEW js + decisions BLOCK js = rowcount (\<lambda>j. jn_evaluation j \<noteq> None) js"
proof (induction js)
  case (Cons j js)
  have "decisions dec (j # js) = (if map_option fe_decision (jn_evaluation j) = Some dec then 1 else 0) + decisions dec js" for dec
    by (auto simp: decisions_def rowcount_def split: option.splits)
  then show ?case
    using Cons by (cases "jn_evaluation j"; cases "fe_decision (the (jn_evaluation j))") (auto simp: rowcount_def)
qed (simp add: decisions_def rowcount_def)

section \<open>Properties\<close>



lemma overview_tie_differs:
  fixes r :: demo_run
  assumes "dr_status r = RUNNING" "dr_created_at r = 0"
  shows "(case overview_order [r\<lparr>dr_run_id := 1\<rparr>, r\<lparr>dr_run_id := 2\<rparr>] of [] \<Rightarrow> None | x # _ \<Rightarrow> Some (dr_run_id x)) = Some 1"
    "map_option dr_run_id (select_overview_run [r\<lparr>dr_run_id := 1\<rparr>, r\<lparr>dr_run_id := 2\<rparr>]) = Some 2"
proof -
  show "(case overview_order [r\<lparr>dr_run_id := 1\<rparr>, r\<lparr>dr_run_id := 2\<rparr>] of [] \<Rightarrow> None | x # _ \<Rightarrow> Some (dr_run_id x)) = Some 1"
    using assms by (simp add: overview_order_def is_active_def)
  have "uuid_str 1 < uuid_str 2" by code_simp
  then show "map_option dr_run_id (select_overview_run [r\<lparr>dr_run_id := 1\<rparr>, r\<lparr>dr_run_id := 2\<rparr>]) = Some 2"
    using assms by (simp add: select_overview_run_def max_by_def is_active_def less_prod_simp)
qed

section \<open>The stream of a run\<close>

definition is_progress :: "frame \<Rightarrow> bool" where
  "is_progress f \<longleftrightarrow> (case f of Progress _ \<Rightarrow> True | _ \<Rightarrow> False)"

definition unfinished :: "demo_run \<Rightarrow> bool" where
  "unfinished r \<longleftrightarrow> dr_status r \<notin> set TERMINAL_STATUSES"

text \<open>C39: a stream ends with its run and tells every change. While the client stays, and when the run is refreshed
  until it is finished, the last frame is the one that completes the run, and it is the only such frame;
  the progress frames are the texts of the run with repetitions left out, starting from the text last
  sent; and there is one heartbeat for every refresh before the last.\<close>

theorem stream_ends_with_run:
  assumes "\<forall>r \<in> set rs. unfinished r" and "\<not> unfinished r"
  shows "\<exists>fs. stream_frames dumps last_sent (map Refreshed rs @ Refreshed r # turns) = fs @ [Completed (dr_run_id r) (dr_status r)] \<and>
    filter is_progress fs = map Progress (tl (remdups_adj (last_sent # map dumps (rs @ [r])))) \<and>
    filter (\<lambda>f. \<not> is_progress f) fs = replicate (length rs) Heartbeat"
  using assms
proof (induction rs arbitrary: last_sent)
  case Nil
  then show ?case by (auto simp: unfinished_def is_progress_def)
next
  case (Cons x rs)
  obtain fs where fs: "stream_frames dumps (dumps x) (map Refreshed rs @ Refreshed r # turns) = fs @ [Completed (dr_run_id r) (dr_status r)]"
    "filter is_progress fs = map Progress (tl (remdups_adj (dumps x # map dumps (rs @ [r]))))"
    "filter (\<lambda>f. \<not> is_progress f) fs = replicate (length rs) Heartbeat"
    using Cons.IH [of "dumps x"] Cons.prems by auto
  let ?gs = "(if dumps x \<noteq> last_sent then [Progress (dumps x)] else []) @ Heartbeat # fs"
  have "stream_frames dumps last_sent (map Refreshed (x # rs) @ Refreshed r # turns) = ?gs @ [Completed (dr_run_id r) (dr_status r)]"
    using fs(1) Cons.prems(1) by (simp add: unfinished_def)
  moreover obtain zs where zs: "remdups_adj (dumps x # map dumps rs @ [dumps r]) = dumps x # zs"
    by (metis hd_remdups_adj list.collapse list.distinct(1) list.sel(1) remdups_adj_Nil_iff)
  have "filter is_progress ?gs = map Progress (tl (remdups_adj (last_sent # map dumps ((x # rs) @ [r]))))"
    using fs(2) zs by (auto simp: is_progress_def)
  moreover have "filter (\<lambda>f. \<not> is_progress f) ?gs = replicate (length (x # rs)) Heartbeat"
    using fs(3) by (simp add: is_progress_def)
  ultimately show ?case by blast
qed

definition finished_run :: demo_run where
  "finished_run = new_run 7 0 ''demo'' demo_request\<lparr>dr_status := COMPLETED\<rparr>"

theorem stream_ends_with_run_witness:
  "\<exists>fs. stream_frames (\<lambda>_. ''run'') [] [Refreshed (new_run 7 0 ''demo'' demo_request), Refreshed finished_run, Disconnected] =
       fs @ [Completed 7 COMPLETED] \<and> filter is_progress fs = [Progress ''run''] \<and>
     filter (\<lambda>f. \<not> is_progress f) fs = [Heartbeat]"
proof -
  have u: "\<forall>r \<in> set [new_run 7 0 ''demo'' demo_request]. unfinished r" "\<not> unfinished finished_run"
    by (simp_all add: unfinished_def new_run_def finished_run_def TERMINAL_STATUSES_def)
  have f: "dr_run_id finished_run = 7" "dr_status finished_run = COMPLETED" by (simp_all add: finished_run_def new_run_def)
  show ?thesis using stream_ends_with_run [OF u, of "\<lambda>_. ''run''" "[]" "[Disconnected]"] f by (auto simp: unfinished_def)
qed

text \<open>The refresh stamps the run each time it is read. So when the text of a run shows that stamp and the clock
  moves on between the turns, no text repeats: every turn sends the whole run again and the comparison
  with the text last sent never suppresses anything.\<close>

lemma stream_never_suppresses:
  assumes "\<And>a b. dumps a = dumps b \<Longrightarrow> dr_updated_at a = dr_updated_at b"
    and "sorted_wrt (<) (map fst seen)" and "\<forall>a. dumps a \<noteq> last_sent"
  shows "tl (remdups_adj (last_sent # map dumps (map (\<lambda>(now, r). refreshed d m now None r) seen))) =
    map dumps (map (\<lambda>(now, r). refreshed d m now None r) seen)"
proof -
  let ?runs = "map (\<lambda>(now, r). refreshed d m now None r) seen"
  have stamps: "map dr_updated_at ?runs = map fst seen" by (simp add: refreshed_def Let_def case_prod_beta')
  have "distinct (map dr_updated_at ?runs)" using assms(2) stamps strict_sorted_iff by (metis (no_types))
  then have d: "distinct ?runs" "inj_on dr_updated_at (set ?runs)" unfolding distinct_map [of dr_updated_at] by blast+
  have "inj_on dumps (set ?runs)" using d(2) assms(1) by (meson inj_on_def)
  then have "distinct (map dumps ?runs)" using d(1) unfolding distinct_map [of dumps] by blast
  moreover have "last_sent \<notin> set (map dumps ?runs)" using assms(3) unfolding list.set_map [of dumps] by blast
  ultimately have "distinct (last_sent # map dumps ?runs)" by simp
  then show ?thesis by (simp only: remdups_adj_distinct list.sel(3))
qed

section \<open>The health cache and the metrics\<close>

definition all_well :: "probes \<Rightarrow> bool" where
  "all_well p \<longleftrightarrow> pr_postgres p \<and> pr_redis p \<and> pr_kafka p \<and> pr_generator p \<noteq> Bad_status \<and> pr_processor p = Success \<and>
     pr_outbox p = Success \<and> pr_prometheus p = Success \<and> pr_grafana p = Success \<and> pr_kafka_ui p = Success"

lemma overall_healthy: "overall_state (check_platform p) = HEALTHY \<longleftrightarrow> all_well p"
  by (auto simp: overall_state_def check_platform_def MONITORED_STATES_def all_well_def direct_state_def required_state_def
      generator_state_def Let_def split: probe.splits)

lemma health_get_cache:
  assumes "health_get ttl call cached = (report, cached')"
  shows "cached' = cached \<or> cached' = Some (hc_finished call, fresh_report call)"
  using assms by (auto simp: health_get_def split: option.splits if_splits)

lemma health_calls_recent:
  assumes "k < length calls"
  shows "(\<exists>j \<le> k. health_calls ttl calls cached ! k = fresh_report (calls ! j) \<and>
       (j < k \<longrightarrow> hc_started (calls ! k) - hc_finished (calls ! j) < ttl)) \<or>
     (\<exists>t report. cached = Some (t, report) \<and> health_calls ttl calls cached ! k = report \<and> hc_started (calls ! k) - t < ttl)"
  using assms
proof (induction calls arbitrary: cached k)
  case (Cons call calls)
  obtain report cached' where g: "health_get ttl call cached = (report, cached')" by force
  show ?case
  proof (cases k)
    case 0
    then show ?thesis using g by (auto simp: health_get_def split: option.splits if_splits)
  next
    case (Suc i)
    then have i: "i < length calls" using Cons.prems by simp
    have later: "health_calls ttl (call # calls) cached ! k = health_calls ttl calls cached' ! i" using g Suc by simp
    from Cons.IH [OF i, of cached'] show ?thesis
    proof
      assume "\<exists>j \<le> i. health_calls ttl calls cached' ! i = fresh_report (calls ! j) \<and>
        (j < i \<longrightarrow> hc_started (calls ! i) - hc_finished (calls ! j) < ttl)"
      then obtain j where "j \<le> i" "health_calls ttl calls cached' ! i = fresh_report (calls ! j)"
        "j < i \<longrightarrow> hc_started (calls ! i) - hc_finished (calls ! j) < ttl" by blast
      then show ?thesis using later Suc by (intro disjI1 exI [of _ "Suc j"]) auto
    next
      assume "\<exists>t report. cached' = Some (t, report) \<and> health_calls ttl calls cached' ! i = report \<and> hc_started (calls ! i) - t < ttl"
      then obtain t rep where c: "cached' = Some (t, rep)" "health_calls ttl calls cached' ! i = rep" "hc_started (calls ! i) - t < ttl" by blast
      from health_get_cache [OF g] show ?thesis
      proof
        assume "cached' = cached"
        then show ?thesis using c later Suc by (intro disjI2 exI [of _ t] exI [of _ rep]) simp
      next
        assume "cached' = Some (hc_finished call, fresh_report call)"
        then show ?thesis using c later Suc by (intro disjI1 exI [of _ 0]) simp
      qed
    qed
  qed
qed simp

text \<open>The health shown is recent and says what was found: the report returned by a call is the one made by that
  call or by an earlier call that finished less than the time to live before, and it says HEALTHY exactly
  when in that call every probe but that of an absent generator succeeded.\<close>

theorem health_is_recent:
  assumes "k < length calls"
  shows "\<exists>j \<le> k. health_calls ttl calls None ! k = fresh_report (calls ! j) \<and>
    (j < k \<longrightarrow> hc_started (calls ! k) - hc_finished (calls ! j) < ttl) \<and>
    (hp_overall (health_calls ttl calls None ! k) = HEALTHY \<longleftrightarrow> all_well (hc_probes (calls ! j)))"
  using health_calls_recent [OF assms, of ttl None] overall_healthy by (auto simp: fresh_report_def Let_def)

text \<open>The summary of the metrics has all its names in order, the value of each query or none when it failed, and is
  degraded exactly when a query failed.\<close>

lemma collect_metrics_Inr:
  assumes "collect_metrics float answers queries = Inr (degraded, vs)"
  shows "vs = map (\<lambda>(name, q). (name, case query_metric float answers name q of Inl _ \<Rightarrow> None | Inr v \<Rightarrow> v)) queries \<and>
    (degraded \<longleftrightarrow> (\<exists>(name, q) \<in> set queries. \<exists>e. query_metric float answers name q = Inl e))"
  using assms
proof (induction queries arbitrary: degraded vs)
  case (Cons nq queries)
  then show ?case
    by (cases nq; cases "collect_metrics float answers queries")
      (auto split: sum.splits if_splits prod.splits)
qed simp

theorem metrics_summary_sound:
  assumes "metrics_summary float answers = Inr (status, vs)"
  shows "vs = map (\<lambda>(name, q). (name, case query_metric float answers name q of Inl _ \<Rightarrow> None | Inr v \<Rightarrow> v)) QUERIES \<and>
    (status = ''degraded'' \<longleftrightarrow> (\<exists>(name, q) \<in> set QUERIES. \<exists>e. query_metric float answers name q = Inl e))"
proof -
  obtain degraded where c: "collect_metrics float answers QUERIES = Inr (degraded, vs)"
    and st: "status = (if degraded then ''degraded'' else ''available'')"
    using assms by (auto simp: metrics_summary_def split: sum.splits prod.splits)
  then show ?thesis using collect_metrics_Inr [OF c] by auto
qed

end
