(* ===== verification/Sql_Labels.thy ===== *)
theory Sql_Labels
  imports Prelude
begin

text \<open>
  The timing facade of the database connection, \<^verbatim>\<open>services/event_processor/persistence/instrumentation.py\<close>: the
  classification of a statement into metric labels and the counting of the statements that pass through.
  The statements are ASCII text; the wrapped cursor is an arbitrary state transformer that may raise.
\<close>

section \<open>Classification\<close>

definition lower_char :: "char \<Rightarrow> char" where
  "lower_char ch = (if of_char ch \<in> {65 .. 90 :: nat} then char_of (of_char ch + 32 :: nat) else ch)"

text \<open>\<^verbatim>\<open>str.split()\<close>: the maximal pieces without white space.\<close>

fun words_from :: "string \<Rightarrow> string \<Rightarrow> string list" where
  "words_from piece [] = (if piece = [] then [] else [piece])"
| "words_from piece (ch # s) =
     (if is_space ch then (if piece = [] then words_from [] s else piece # words_from [] s) else words_from (piece @ [ch]) s)"

fun join_words :: "string list \<Rightarrow> string" where
  "join_words [] = []"
| "join_words [w] = w"
| "join_words (w # ws) = w @ '' '' @ join_words ws"

definition normalized :: "string \<Rightarrow> string" where
  "normalized query = join_words (words_from [] (map lower_char query))"

definition statement_kind :: "string \<Rightarrow> string" where
  "statement_kind sql =
     (if prefix ''select'' sql then ''select'' else if prefix ''insert'' sql then ''insert''
      else if prefix ''update'' sql then ''update'' else if prefix ''delete'' sql then ''delete'' else ''other'')"

definition contains :: "string \<Rightarrow> string \<Rightarrow> bool" where
  "contains sql part \<longleftrightarrow> sublist part sql"

definition fraud_context_label :: "string \<Rightarrow> string \<Rightarrow> string" where
  "fraud_context_label sql kind =
     (if kind \<noteq> ''select'' then ''fraud_context_other''
      else if contains sql ''home_country'' \<and> contains sql ''billing_country'' then ''fraud_context_customer_order''
      else if contains sql ''home_country'' then ''fraud_context_customer''
      else if contains sql ''select session_id from orders'' then ''fraud_context_order_session''
      else if contains sql ''started_at from sessions'' then ''fraud_context_session''
      else if contains sql ''ordered_at, total'' then ''fraud_context_order''
      else if contains sql ''requested_at, amount from refunds'' then ''fraud_context_refunds''
      else if contains sql ''count(*)'' \<and> contains sql ''product_views'' then ''fraud_context_product_views''
      else if contains sql ''count(*)'' \<and> contains sql ''orders'' then ''fraud_context_recent_orders''
      else if contains sql ''p.amount - coalesce'' then ''fraud_context_refund_facts''
      else if contains sql ''attempted_at <='' then ''fraud_context_recent_payments''
      else if contains sql ''attempted_at <'' then ''fraud_context_prior_payments''
      else ''fraud_context_other'')"

definition BUSINESS_TABLES :: "string list" where
  "BUSINESS_TABLES =
     [''customers'', ''sessions'', ''product_views'', ''carts'', ''cart_items'', ''orders'', ''payments'', ''refunds'']"

definition business_label :: "string \<Rightarrow> string" where
  "business_label sql = (case find (contains sql) BUSINESS_TABLES of Some t \<Rightarrow> ''business_'' @ t | None \<Rightarrow> ''business_other'')"

definition classify :: "string \<Rightarrow> string \<Rightarrow> string \<times> string" where
  "classify query phase =
     (let sql = normalized query; kind = statement_kind sql
      in if contains sql ''processed_events''
         then (if kind = ''insert'' then ''processed_events_insert'' else ''processed_events_select'', kind)
         else if contains sql ''fraud_evaluations''
         then (if kind = ''insert'' then ''fraud_evaluation_write'' else ''fraud_evaluation_select'', kind)
         else if contains sql ''fraud_alerts'' then (''fraud_alert_write'', kind)
         else if contains sql ''fraud_outbox'' then (''outbox_insert'', kind)
         else if phase = ''fraud_context'' then (fraud_context_label sql kind, kind)
         else if phase = ''business'' then (business_label sql, kind)
         else (''other_sql'', kind))"

section \<open>The facade\<close>

record instrumented =
  in_phase :: string
  in_counts :: "string \<times> string \<Rightarrow> nat"

definition set_phase :: "string \<Rightarrow> instrumented \<Rightarrow> instrumented" where
  "set_phase phase i = i\<lparr>in_phase := phase\<rparr>"

definition observe_statement :: "string \<Rightarrow> instrumented \<Rightarrow> instrumented" where
  "observe_statement query i = (let l = classify query (in_phase i) in i\<lparr>in_counts := (in_counts i)(l := in_counts i l + 1)\<rparr>)"

text \<open>The statement runs and is observed afterwards, whether it returned or raised.\<close>

definition execute_statement :: "(string \<Rightarrow> 's \<Rightarrow> ('e + 'a) \<times> 's) \<Rightarrow> string \<Rightarrow> instrumented \<times> 's \<Rightarrow> ('e + 'a) \<times> instrumented \<times> 's" where
  "execute_statement cursor query = (\<lambda>(i, s). case cursor query s of (r, s') \<Rightarrow> (r, observe_statement query i, s'))"

fun execute_all :: "(string \<Rightarrow> 's \<Rightarrow> ('e + 'a) \<times> 's) \<Rightarrow> string list \<Rightarrow> instrumented \<times> 's \<Rightarrow> ('e + 'a) list \<times> instrumented \<times> 's" where
  "execute_all cursor [] w = ([], w)"
| "execute_all cursor (q # qs) w =
     (case execute_statement cursor q w of (r, w1) \<Rightarrow> (case execute_all cursor qs w1 of (rs, w2) \<Rightarrow> (r # rs, w2)))"

fun plain_all :: "(string \<Rightarrow> 's \<Rightarrow> ('e + 'a) \<times> 's) \<Rightarrow> string list \<Rightarrow> 's \<Rightarrow> ('e + 'a) list \<times> 's" where
  "plain_all cursor [] s = ([], s)"
| "plain_all cursor (q # qs) s = (case cursor q s of (r, s1) \<Rightarrow> (case plain_all cursor qs s1 of (rs, s2) \<Rightarrow> (r # rs, s2)))"

section \<open>Properties\<close>

definition SQL_KINDS :: "string list" where
  "SQL_KINDS = [''select'', ''insert'', ''update'', ''delete'', ''other'']"

definition SQL_OPERATIONS :: "string list" where
  "SQL_OPERATIONS =
     [''processed_events_insert'', ''processed_events_select'', ''fraud_evaluation_write'', ''fraud_evaluation_select'',
      ''fraud_alert_write'', ''outbox_insert'', ''fraud_context_other'', ''fraud_context_customer_order'', ''fraud_context_customer'',
      ''fraud_context_order_session'', ''fraud_context_session'', ''fraud_context_order'', ''fraud_context_refunds'',
      ''fraud_context_product_views'', ''fraud_context_recent_orders'', ''fraud_context_refund_facts'',
      ''fraud_context_recent_payments'', ''fraud_context_prior_payments'', ''business_other'', ''other_sql''] @
     map ((@) ''business_'') BUSINESS_TABLES"

lemma business_label_bounded: "business_label sql \<in> set SQL_OPERATIONS"
proof (cases "find (contains sql) BUSINESS_TABLES")
  case None
  then show ?thesis by (simp add: business_label_def SQL_OPERATIONS_def)
next
  case (Some t)
  then have "t \<in> set BUSINESS_TABLES" by (auto simp: find_Some_iff)
  then show ?thesis using Some by (simp add: business_label_def SQL_OPERATIONS_def)
qed

lemma if_in: "x \<in> A \<Longrightarrow> y \<in> A \<Longrightarrow> (if b then x else y) \<in> A"
  by simp

lemma sum_bump:
  fixes f :: "'a \<Rightarrow> nat"
  assumes "finite A" "l \<in> A"
  shows "sum (f(l := f l + 1)) A = sum f A + 1"
proof -
  have "sum (f(l := f l + 1)) (A - {l}) = sum f (A - {l})" by (rule sum.cong) auto
  then show ?thesis using sum.remove [OF assms, of f] sum.remove [OF assms, of "f(l := f l + 1)"] by simp
qed

lemma fraud_label_bounded: "fraud_context_label sql kind \<in> set SQL_OPERATIONS"
  unfolding fraud_context_label_def by (intro if_in) (simp_all add: SQL_OPERATIONS_def)

lemma classify_bounded: "classify query phase \<in> set (List.product SQL_OPERATIONS SQL_KINDS)"
proof -
  have "statement_kind sql \<in> set SQL_KINDS" for sql by (simp add: statement_kind_def SQL_KINDS_def)
  moreover have "x \<in> set SQL_OPERATIONS"
    if "x \<in> {''processed_events_insert'', ''processed_events_select'', ''fraud_evaluation_write'', ''fraud_evaluation_select'',
      ''fraud_alert_write'', ''outbox_insert'', ''other_sql''}" for x using that by (auto simp: SQL_OPERATIONS_def)
  ultimately show ?thesis using business_label_bounded fraud_label_bounded by (simp add: classify_def Let_def)
qed

text \<open>The facade is transparent and its metrics are bounded. Whatever statements run, the results and the state of the
  database are those of the plain cursor; every statement is counted once; and only 140 label pairs can
  ever be counted.\<close>

theorem instrumentation_transparent:
  assumes "execute_all cursor qs (i, s) = (rs, i', s')" and "\<forall>l. in_counts i l = 0"
  shows "plain_all cursor qs s = (rs, s') \<and>
    (\<Sum>l \<in> set (List.product SQL_OPERATIONS SQL_KINDS). in_counts i' l) = length qs \<and>
    (\<forall>l. l \<notin> set (List.product SQL_OPERATIONS SQL_KINDS) \<longrightarrow> in_counts i' l = 0)"
proof -
  let ?L = "set (List.product SQL_OPERATIONS SQL_KINDS)"
  have "plain_all cursor qs s = (rs, s') \<and> sum (in_counts i') ?L = sum (in_counts i) ?L + length qs \<and>
      (\<forall>l. l \<notin> ?L \<longrightarrow> in_counts i' l = in_counts i l)"
    using assms(1)
  proof (induction qs arbitrary: i s rs)
    case (Cons q qs)
    obtain r s1 where r: "cursor q s = (r, s1)" by force
    let ?l = "classify q (in_phase i)"
    obtain rs' where rs': "execute_all cursor qs (observe_statement q i, s1) = (rs', i', s')" "rs = r # rs'"
      using Cons.prems r by (auto simp: execute_statement_def split: prod.splits)
    have "sum (in_counts (observe_statement q i)) ?L = sum (in_counts i) ?L + 1"
      using sum_bump [OF _ classify_bounded [of q "in_phase i"], of "in_counts i"] by (simp add: observe_statement_def Let_def)
    moreover have "in_counts (observe_statement q i) l = in_counts i l" if "l \<notin> ?L" for l
      using classify_bounded [of q "in_phase i"] that by (auto simp: observe_statement_def Let_def)
    ultimately show ?case using Cons.IH [OF rs'(1)] r rs'(2) by simp
  qed simp
  then show ?thesis using assms(2) by simp
qed

end
