(* ===== verification/Generator_Config.thy ===== *)
theory Generator_Config
  imports Settings Journey_Spec
begin

text \<open>
  How the generator gets its settings: the model of \<^verbatim>\<open>services/event_generator/config.py\<close> with the variables of the
  environment, and the command line of \<^verbatim>\<open>parse_config\<close> in \<^verbatim>\<open>services/event_generator/main.py\<close> on top of them. The
  command line is the record of the values \<^verbatim>\<open>argparse\<close> found, and \<^verbatim>\<open>float\<close> is a parameter.
\<close>

section \<open>Fields\<close>

definition weights_readable :: "(string \<Rightarrow> rat option) \<Rightarrow> string \<Rightarrow> bool" where
  "weights_readable float s \<longleftrightarrow> parse_persona_weights float s \<noteq> None"

definition GENERATOR_FIELDS :: "(string \<Rightarrow> rat option) \<Rightarrow> field_table" where
  "GENERATOR_FIELDS float =
    [(''kafka_bootstrap_servers'', NonBlank, Text ''kafka:9092''),
     (''kafka_events_topic'', NonBlank, Text ''commerce.events''),
     (''kafka_client_id'', NonBlank, Text ''event-generator''),
     (''kafka_compression_type'', Literal [''gzip'', ''snappy'', ''lz4'', ''zstd'', ''none''], Text ''lz4''),
     (''kafka_linger_ms'', Whole (ge_le 0 5000), Number 20),
     (''kafka_batch_size'', Whole (ge_le 1024 10485760), Number 65536),
     (''kafka_delivery_timeout_ms'', Whole (ge_le 1000 300000), Number 30000),
     (''kafka_request_timeout_ms'', Whole (ge_le 1000 120000), Number 10000),
     (''generator_rate_per_second'', Decimal (gt_le 0 1000), Fraction 1),
     (''generator_max_product_views'', Whole (gt_le 0 100), Number 20),
     (''generator_add_to_cart_probability'', Decimal (ge_le 0 1), Fraction (55 / 100)),
     (''generator_checkout_probability'', Decimal (ge_le 0 1), Fraction (70 / 100)),
     (''generator_payment_success_probability'', Decimal (ge_le 0 1), Fraction (85 / 100)),
     (''generator_refund_probability'', Decimal (ge_le 0 1), Fraction (5 / 100)),
     (''generator_seed'', Optional_whole unbounded, Nothing),
     (''generator_log_level'', Literal [''DEBUG'', ''INFO'', ''WARNING'', ''ERROR'', ''CRITICAL''], Text ''INFO''),
     (''generator_flush_timeout_seconds'', Decimal (gt_le 0 120), Fraction 10),
     (''generator_journeys'', Optional_whole (gt_only 0), Nothing),
     (''generator_customer_pool_size'', Whole (gt_le 0 100000), Number 100),
     (''generator_new_customer_probability'', Decimal (ge_le 0 1), Fraction (35 / 100)),
     (''generator_persona_weights'', Checked (weights_readable float), Text DEFAULT_PERSONA_WEIGHTS),
     (''generator_persona'', Optional_literal (map persona_value customer_personas), Nothing),
     (''generator_stateful_mode'', Switch, Flag True),
     (''generator_max_payment_attempts'', Whole (ge_le 1 10), Number 3),
     (''generator_payment_retry_probability'', Decimal (ge_le 0 1), Fraction (65 / 100)),
     (''generator_anomalies_enabled'', Switch, Flag False),
     (''generator_duplicate_event_probability'', Decimal (ge_le 0 1), Fraction 0),
     (''generator_malformed_json_probability'', Decimal (ge_le 0 1), Fraction 0),
     (''generator_missing_field_probability'', Decimal (ge_le 0 1), Fraction 0),
     (''generator_unknown_event_type_probability'', Decimal (ge_le 0 1), Fraction 0),
     (''generator_late_event_probability'', Decimal (ge_le 0 1), Fraction 0),
     (''generator_out_of_order_probability'', Decimal (ge_le 0 1), Fraction 0),
     (''generator_payload_mismatch_probability'', Decimal (ge_le 0 1), Fraction 0),
     (''generator_max_late_event_seconds'', Whole (gt_le 0 2592000), Number 86400),
     (''generator_max_anomalies_per_journey'', Whole (ge_le 0 20), Number 2)]"

definition kafka_timeouts_valid :: "setting dict \<Rightarrow> bool" where
  "kafka_timeouts_valid config \<longleftrightarrow>
     \<not> int_of config ''kafka_delivery_timeout_ms'' < int_of config ''kafka_request_timeout_ms''"

section \<open>Environment and command line\<close>

text \<open>The persona is not read from the environment, and two empty variables count as absent.\<close>

definition generator_variables :: "(string \<Rightarrow> rat option) \<Rightarrow> (string \<Rightarrow> string option) \<Rightarrow> setting dict" where
  "generator_variables float source =
     List.map_filter (\<lambda>(name, field).
         if field \<in> {''generator_seed'', ''generator_journeys''} \<and> source name = Some [] then None
         else map_option (\<lambda>v. (field, Text v)) (source name))
       (map (\<lambda>field. (map upper_char field, field))
          (filter (\<lambda>field. field \<noteq> ''generator_persona'') (map fst (GENERATOR_FIELDS float))))"

definition generator_environment :: "coercions \<Rightarrow> (string \<Rightarrow> rat option) \<Rightarrow> (string \<Rightarrow> string option) \<Rightarrow> setting dict option" where
  "generator_environment cv float source =
     model_validate cv (GENERATOR_FIELDS float) kafka_timeouts_valid (generator_variables float source)"

record generator_arguments =
  ga_journeys :: "int option"
  ga_rate :: "rat option"
  ga_seed :: "int option"
  ga_log_level :: "string option"
  ga_persona :: "string option"
  ga_persona_mix :: "string option"
  ga_stateful :: "bool option"
  ga_anomalies :: "bool option"
  ga_customers :: "int option"

definition given :: "string \<Rightarrow> ('a \<Rightarrow> setting) \<Rightarrow> 'a option \<Rightarrow> setting dict" where
  "given name wrap v = (case v of None \<Rightarrow> [] | Some x \<Rightarrow> [(name, wrap x)])"

definition generator_overrides :: "generator_arguments \<Rightarrow> setting dict" where
  "generator_overrides ga =
     given ''generator_journeys'' Number (ga_journeys ga) @ given ''generator_rate_per_second'' Fraction (ga_rate ga) @
     given ''generator_seed'' Number (ga_seed ga) @ given ''generator_log_level'' Text (ga_log_level ga) @
     given ''generator_persona'' Text (ga_persona ga) @ given ''generator_persona_weights'' Text (ga_persona_mix ga) @
     given ''generator_stateful_mode'' Flag (ga_stateful ga) @ given ''generator_anomalies_enabled'' Flag (ga_anomalies ga) @
     given ''generator_customer_pool_size'' Number (ga_customers ga)"

definition parse_generator_config :: "coercions \<Rightarrow> (string \<Rightarrow> rat option) \<Rightarrow> generator_arguments \<Rightarrow> (string \<Rightarrow> string option) \<Rightarrow> setting dict option" where
  "parse_generator_config cv float ga source =
     (case generator_environment cv float source of
        None \<Rightarrow> None
      | Some base \<Rightarrow> model_validate cv (GENERATOR_FIELDS float) kafka_timeouts_valid (generator_overrides ga @ base))"

text \<open>The settings as the journey builder and the anomaly injector read them.\<close>

definition generator_config_of :: "setting dict \<Rightarrow> generator_config" where
  "generator_config_of s =
     \<lparr>generator_max_product_views = int_of s ''generator_max_product_views'',
      generator_add_to_cart_probability = float_of s ''generator_add_to_cart_probability'',
      generator_checkout_probability = float_of s ''generator_checkout_probability'',
      generator_payment_success_probability = float_of s ''generator_payment_success_probability'',
      generator_refund_probability = float_of s ''generator_refund_probability'',
      generator_journeys = optional_int_of s ''generator_journeys'',
      generator_customer_pool_size = int_of s ''generator_customer_pool_size'',
      generator_new_customer_probability = float_of s ''generator_new_customer_probability'',
      generator_persona_weights = text_of s ''generator_persona_weights'',
      generator_persona = persona_of (text_of s ''generator_persona''),
      generator_stateful_mode = flag_of s ''generator_stateful_mode'',
      generator_max_payment_attempts = int_of s ''generator_max_payment_attempts'',
      generator_payment_retry_probability = float_of s ''generator_payment_retry_probability'',
      generator_anomalies_enabled = flag_of s ''generator_anomalies_enabled'',
      generator_duplicate_event_probability = float_of s ''generator_duplicate_event_probability'',
      generator_malformed_json_probability = float_of s ''generator_malformed_json_probability'',
      generator_missing_field_probability = float_of s ''generator_missing_field_probability'',
      generator_unknown_event_type_probability = float_of s ''generator_unknown_event_type_probability'',
      generator_late_event_probability = float_of s ''generator_late_event_probability'',
      generator_out_of_order_probability = float_of s ''generator_out_of_order_probability'',
      generator_payload_mismatch_probability = float_of s ''generator_payload_mismatch_probability'',
      generator_max_late_event_seconds = int_of s ''generator_max_late_event_seconds'',
      generator_max_anomalies_per_journey = int_of s ''generator_max_anomalies_per_journey''\<rparr>"

section \<open>Accepted settings\<close>

interpretation generator: settings_table "GENERATOR_FIELDS float" kafka_timeouts_valid for float
  by unfold_locales (simp add: GENERATOR_FIELDS_def)

text \<open>The second validation is given every field, so every value of an accepted configuration has passed the
  check of its field.\<close>

lemma parsed_field:
  assumes "parse_generator_config cv float ga source = Some config" "(name, ty, preset) \<in> set (GENERATOR_FIELDS float)"
  obtains v w where "map_of config name = Some v" "validate_field cv ty w = Some v"
proof -
  obtain base where base: "generator_environment cv float source = Some base"
    and mv: "model_validate cv (GENERATOR_FIELDS float) kafka_timeouts_valid (generator_overrides ga @ base) = Some config"
    using assms(1) by (auto simp: parse_generator_config_def split: option.splits)
  have "name \<in> set (map fst base)"
    using assms(2) generator.keys [OF base [unfolded generator_environment_def]] by force
  then have "map_of (generator_overrides ga @ base) name \<noteq> None" unfolding map_of_eq_None_iff by auto
  then obtain w where "map_of (generator_overrides ga @ base) name = Some w" by blast
  then show ?thesis using generator.checked [OF mv assms(2)] that by blast
qed

lemma parsed_whole:
  assumes "parse_generator_config cv float ga source = Some config" "(name, Whole b, preset) \<in> set (GENERATOR_FIELDS float)"
  shows "in_bounds b (of_int (int_of config name))"
proof -
  obtain v w where "map_of config name = Some v" "validate_field cv (Whole b) w = Some v" using parsed_field [OF assms] .
  then show ?thesis by (auto simp: int_of_def split: option.splits if_splits)
qed

lemma parsed_decimal:
  assumes "parse_generator_config cv float ga source = Some config" "(name, Decimal b, preset) \<in> set (GENERATOR_FIELDS float)"
  shows "in_bounds b (float_of config name)"
proof -
  obtain v w where "map_of config name = Some v" "validate_field cv (Decimal b) w = Some v" using parsed_field [OF assms] .
  then show ?thesis by (auto simp: float_of_def split: option.splits if_splits)
qed

lemma parsed_probability:
  assumes "parse_generator_config cv float ga source = Some config" "(name, Decimal (ge_le 0 1), preset) \<in> set (GENERATOR_FIELDS float)"
  shows "unit_interval (float_of config name)"
  using parsed_decimal [OF assms] by (simp add: bounds_simps unit_interval_def)

lemma parsed_probabilities:
  assumes "parse_generator_config cv float ga source = Some config"
    and "name \<in> {''generator_add_to_cart_probability'', ''generator_checkout_probability'', ''generator_payment_success_probability'',
      ''generator_refund_probability'', ''generator_new_customer_probability'', ''generator_payment_retry_probability'',
      ''generator_duplicate_event_probability'', ''generator_malformed_json_probability'', ''generator_missing_field_probability'',
      ''generator_unknown_event_type_probability'', ''generator_late_event_probability'', ''generator_out_of_order_probability'',
      ''generator_payload_mismatch_probability''}"
  shows "unit_interval (float_of config name)"
proof -
  have "\<exists>preset. (name, Decimal (ge_le 0 1), preset) \<in> set (GENERATOR_FIELDS float)"
    using assms(2) by (elim insertE emptyE) (simp_all add: GENERATOR_FIELDS_def)
  then show ?thesis using parsed_probability [OF assms(1)] by blast
qed


definition typed_only :: coercions where
  "typed_only =
     \<lparr>cv_int = (\<lambda>v. case v of Number n \<Rightarrow> Some n | _ \<Rightarrow> None),
      cv_float = (\<lambda>v. case v of Fraction x \<Rightarrow> Some x | _ \<Rightarrow> None),
      cv_bool = (\<lambda>v. case v of Flag b \<Rightarrow> Some b | _ \<Rightarrow> None)\<rparr>"

definition no_arguments :: generator_arguments where
  "no_arguments = \<lparr>ga_journeys = None, ga_rate = None, ga_seed = None, ga_log_level = None, ga_persona = None,
     ga_persona_mix = None, ga_stateful = None, ga_anomalies = None, ga_customers = None\<rparr>"

lemma presets_parse:
  "parse_generator_config typed_only demo_float no_arguments (\<lambda>_. None) =
     Some (map (\<lambda>(name, ty, preset). (name, preset)) (GENERATOR_FIELDS demo_float))"
proof -
  let ?base = "map (\<lambda>(name, ty, preset). (name, preset)) (GENERATOR_FIELDS demo_float)"
  have rel: "kafka_timeouts_valid ?base" by (simp add: kafka_timeouts_valid_def int_of_def GENERATOR_FIELDS_def)
  have "weights_readable demo_float DEFAULT_PERSONA_WEIGHTS" using default_weights_parse by (simp add: weights_readable_def)
  then have "list_all (\<lambda>(name, ty, preset). validate_field typed_only ty preset = Some preset) (GENERATOR_FIELDS demo_float)"
    by (simp add: GENERATOR_FIELDS_def typed_only_def bounds_simps strip_def is_space_def)
  then have "model_validate typed_only (GENERATOR_FIELDS demo_float) kafka_timeouts_valid ?base = Some ?base"
    using rel by (intro generator.presets_accepted) (auto simp: list_all_iff)
  moreover have "generator_environment typed_only demo_float (\<lambda>_. None) = Some ?base"
    using rel by (simp add: generator_environment_def generator_variables_def List.map_filter_def case_prod_beta model_validate_def presets_validate)
  ultimately show ?thesis by (simp add: parse_generator_config_def generator_overrides_def no_arguments_def given_def)
qed


end
