(* ===== verification/Spec2Isabelle.thy ===== *)
theory Spec2Isabelle
  imports Offset_Tracker Retry Idempotency Contracts Models Validation Dlq Consumer Persistence
    Fraud_Stage Processing Run_Loop Worker_Pool Outbox Demo_Runs Journey_Store Scenario Pacing Migrations Processor_Config
    Control_Views Sql_Labels Generator_Config Demo_Config
begin

text \<open>
  A verification of the real-time commerce platform: a generator of synthetic shopping journeys, a
  Kafka event processor with a PostgreSQL store and a rule-based fraud engine, a publisher of the fraud
  outbox, and a control API that runs demonstration scenarios. All paths below are under \<^verbatim>\<open>src/\<close>.

  \<^bold>\<open>The program.\<close> The generator (\<^verbatim>\<open>services/event_generator\<close>) builds journeys of events and publishes them, some
  with controlled anomalies. The processor (\<^verbatim>\<open>services/event_processor\<close>) polls the topic; each record is
  validated, reserved in Redis, applied to the tables in one transaction together with its fraud
  evaluation, completed in Redis and only then handed to the offset tracker, which commits the end of the
  contiguous run of finished offsets. A record that cannot be processed goes to a dead-letter topic first.
  Fraud alerts are written to an outbox table in the same transaction; the publisher
  (\<^verbatim>\<open>services/fraud_outbox_publisher\<close>) claims rows with a lease and publishes them. The control API
  (\<^verbatim>\<open>services/demo_control_api\<close>) keeps a table of runs and drives the generator for each of them.

  \<^bold>\<open>Conventions.\<close> A Python \<^verbatim>\<open>str\<close> is its UTF-8 encoding, an instant a number of microseconds, a \<^verbatim>\<open>Decimal\<close> or
  \<^verbatim>\<open>float\<close> a rational number, a UUID a word of 128 bits, a dictionary an association list in insertion
  order. Exceptions are values: a sum type whose left side is the exception. State is passed explicitly,
  and concurrent parts are step relations. Tables are lists of rows; a statement that can violate a key, a
  check or a reference returns that error. Whatever the environment does (the answers and failures of
  Redis, PostgreSQL and Kafka, the clock, random draws, signals) is an argument, and the properties
  quantify over it. Code outside the repository (the JSON and pydantic decoders, \<^verbatim>\<open>uuid5\<close>, \<^verbatim>\<open>sha256\<close>, the
  Kafka client, the scripts of PostgreSQL) is a parameter, with its documented behaviour as a named
  hypothesis where a property needs it.

  \<^bold>\<open>The theories.\<close>
  \<^item> \<^verbatim>\<open>Prelude\<close>, \<^verbatim>\<open>Bytes\<close>, \<^verbatim>\<open>Database\<close>: shared values, dictionaries, UTF-8 and base64, tables with keys.
  \<^item> \<^verbatim>\<open>Offset_Tracker\<close> (\<^verbatim>\<open>offset_tracker.py\<close>): partition states with their heap, thresholds and flushes. The heap
    refines the set of finished offsets, and only offsets with a finished prefix are committed.
  \<^item> \<^verbatim>\<open>Retry\<close> (\<^verbatim>\<open>errors.py\<close>, \<^verbatim>\<open>retry.py\<close>): the exception classes and the bounded retry loop, its outcome and the
    bounds of its pauses.
  \<^item> \<^verbatim>\<open>Idempotency\<close> (\<^verbatim>\<open>idempotency.py\<close>): the Lua scripts and the store; the locale of leases, interpreted on the
    Redis store, gives that a reservation is exclusive.
  \<^item> \<^verbatim>\<open>Contracts\<close>, \<^verbatim>\<open>Models\<close>, \<^verbatim>\<open>Validation\<close>, \<^verbatim>\<open>Dlq\<close> (\<^verbatim>\<open>shared/\<close>, \<^verbatim>\<open>models.py\<close>, \<^verbatim>\<open>validation.py\<close>, \<^verbatim>\<open>dlq.py\<close>): events with their
    validators, records, their validation with every error branch, dead letters; a produced record
    validates to its event and a dead letter carries its record.
  \<^item> \<^verbatim>\<open>Consumer\<close>, \<^verbatim>\<open>Commit_Source\<close> (\<^verbatim>\<open>consumer.py\<close>): polling, rebalances and commits; a revoked partition is fenced.
  \<^item> \<^verbatim>\<open>Repositories\<close>, \<^verbatim>\<open>Store_Invariants\<close>, \<^verbatim>\<open>Unit_Of_Work\<close>, \<^verbatim>\<open>Persistence\<close> (\<^verbatim>\<open>persistence/\<close>): every repository operation,
    the transaction of an event, the invariants of carts and money, and that retried and redelivered
    events take effect exactly once.
  \<^item> \<^verbatim>\<open>Fraud_Rules\<close>, \<^verbatim>\<open>Fraud_Engine\<close>, \<^verbatim>\<open>Fraud_Context\<close>, \<^verbatim>\<open>Fraud_Stage\<close> (\<^verbatim>\<open>fraud/\<close>): configuration, ten rules, scoring, the
    context read from the tables, and the rows written; score, decision and rows agree.
  \<^item> \<^verbatim>\<open>Processor\<close>, \<^verbatim>\<open>Processing\<close> (\<^verbatim>\<open>processor.py\<close>, \<^verbatim>\<open>handler.py\<close>): one record from validation to commit; an offset is
    handed on only when its record is durable, every processing error becomes an outcome, redelivery
    changes no table, transient faults are absorbed.
  \<^item> \<^verbatim>\<open>Run_Loop\<close>, \<^verbatim>\<open>Worker_Pool\<close> (\<^verbatim>\<open>main.py\<close>, \<^verbatim>\<open>main_pooled.py\<close>): the two loops, the second as interleaved actions of
    poll thread and workers; what is committed is durable, and exit status 0 means nothing is unresolved.
  \<^item> \<^verbatim>\<open>Outbox\<close> (\<^verbatim>\<open>fraud_outbox_publisher/\<close>): claims, recovery, publication and outcomes; the service refines a
    step relation in which a published row has its message in the topic and a claim is a lease.
  \<^item> \<^verbatim>\<open>Migrations\<close> (\<^verbatim>\<open>persistence/migrations.py\<close>, \<^verbatim>\<open>database.py\<close>): discovery, concurrent runners under the advisory
    lock, status and schema checks, the start-up of the pool; every migration is applied once.
  \<^item> \<^verbatim>\<open>Settings\<close>, \<^verbatim>\<open>Processor_Config\<close>, \<^verbatim>\<open>Generator_Config\<close>, \<^verbatim>\<open>Demo_Config\<close> (the \<^verbatim>\<open>config.py\<close> of the three services and
    \<^verbatim>\<open>parse_config\<close>): the settings with their bounds, defaults and sources; accepted settings satisfy the
    hypotheses of the other properties.
  \<^item> \<^verbatim>\<open>Generator\<close>, \<^verbatim>\<open>Journey\<close>, \<^verbatim>\<open>Journey_Spec\<close> (\<^verbatim>\<open>event_generator/generator.py\<close>, \<^verbatim>\<open>personas/\<close>, \<^verbatim>\<open>config.py\<close>, \<^verbatim>\<open>state.py\<close>,
    \<^verbatim>\<open>journey.py\<close>): the journey builder as a state monad over tapes of draws, with Hoare-style rules; the events
    of a journey realise a plan of the shopping script. \<^verbatim>\<open>Demo_Journey\<close> holds sample events.
  \<^item> \<^verbatim>\<open>Journey_Store\<close>: the composition of generator and repositories; the events of a plan are stored.
  \<^item> \<^verbatim>\<open>Anomalies\<close>, \<^verbatim>\<open>Producer\<close>, \<^verbatim>\<open>Generation\<close> (\<^verbatim>\<open>anomalies.py\<close>, \<^verbatim>\<open>producer.py\<close>, \<^verbatim>\<open>summary.py\<close>, \<^verbatim>\<open>main.py\<close>): anomalies as
    the processor reads them, the accounting of deliveries, the generation loop and its exit code.
  \<^item> \<^verbatim>\<open>Demo_Runs\<close>, \<^verbatim>\<open>Scenario\<close>, \<^verbatim>\<open>Pacing\<close> (\<^verbatim>\<open>demo_control_api/\<close>): the table and state machine of runs with the tasks of
    the runner, the generation of a scenario, its pacing.
  \<^item> \<^verbatim>\<open>Control_Views\<close> (\<^verbatim>\<open>demo_control_api/\<close>): the run of the overview, summaries, the event stream, the health
    cache and the metric queries; the query of the overview computes its reference definition.
  \<^item> \<^verbatim>\<open>Sql_Labels\<close> (\<^verbatim>\<open>persistence/instrumentation.py\<close>): the labels of statements; the facade is transparent and its
    labels are bounded.

  \<^bold>\<open>Interfaces.\<close> Locales state what one component relies on in another: \<^verbatim>\<open>keyed_table\<close> the laws of a table with a
  primary key, interpreted on every table the processor writes; \<^verbatim>\<open>sound_rule\<close> the contract of a fraud rule,
  interpreted on all ten; \<^verbatim>\<open>lease_store\<close> the leases the processor relies on, interpreted on the Redis store;
  \<^verbatim>\<open>settings_table\<close> and its extension \<^verbatim>\<open>sound_table\<close> what a table of settings owes its model, interpreted on the
  tables of the three services;
  \<^verbatim>\<open>commit_source\<close> what a loop owes the offset tracker, interpreted on the single-threaded loop and on the
  pool, whose properties of committed offsets come from the one lemma proved inside it.

  \<^bold>\<open>Bounds and fuel.\<close> The retry loop is bounded by the configured attempts. The generation loops take fuel:
  the number of journeys, or of requested events for a scenario, suffices, which is proved together with
  the result. The polling loop is a function of the list of its environment's turns. No other definition has
  fuel.

  \<^bold>\<open>Not modelled.\<close> Metrics apart from the in-flight gauge, log lines and health files have no effect on the
  modelled state. The wiring of clients in the \<^verbatim>\<open>main\<close> functions, the environment parsing of the
  fraud and metrics configurations, and the endpoints of the control API that run a single query or return
  a catalogue only call libraries or return constants. The scripts for benchmarks and
  smoke tests and the web front end drive the system from outside.
\<close>

end
